(* ===== verification/VndnPrelude.thy ===== *)
theory VndnPrelude
  imports Main "HOL-Library.Word" "HOL-Library.Product_Lexorder" "HOL-Library.Char_ord"
    "HOL-Library.Sublist"
begin

unbundle bit_operations_syntax

text \<open>
  Shared vocabulary of the development: the types every component uses, the faults the C++
  code can end in, the error monad that carries them, and the generic lemmas on lists, results
  and machine words that the component proofs rest on.
\<close>

section \<open>Types\<close>

type_synonym byte = "8 word"
type_synonym u32 = "32 word"
type_synonym u64 = "64 word"

text \<open>
  Times are \<open>boost::posix_time\<close> values, counted in microseconds (its default resolution):
  \<open>ptime\<close> from the epoch, \<open>time_duration\<close> relative. Reading the clock is an
  argument of the operations that do it.
\<close>

type_synonym time = int
type_synonym duration = int

text \<open>
  A face is identified by its monitor file descriptor: \<open>NDNFace::operator==\<close> and
  \<open>operator<\<close> (\<open>daemon/ndn-face.cc\<close>) compare exactly that, and \<open>operator<\<close> on
  \<open>Ptr<NDNFace>\<close> is the comparison of the faces.
\<close>

type_synonym face_id = int

section \<open>Faults\<close>

text \<open>
  Every exception the code throws, and every way it leaves defined behaviour, is a value.
\<close>

datatype fault =
    CcnbDecodingException
  | NDNUnknownHeaderException
  | InterestHeaderException
  | ContentObjectHeaderException
  | NDNPitEntryNotFound
  | CoordinateException
  | MapException
  | NdnSocketException
  | NoFaces
  | BadAnyCast
  | JsonParserError
  | PtreeBadPath
  | AssertionFailed
  | UndefinedBehaviour
  | UseAfterFree
  | NullDereference
  | Deadlock
  | OutOfFuel

section \<open>The error monad\<close>

definition bindr :: "'e + 'a \<Rightarrow> ('a \<Rightarrow> 'e + 'b) \<Rightarrow> 'e + 'b" where
  "bindr r f = (case r of Inl e \<Rightarrow> Inl e | Inr a \<Rightarrow> f a)"

lemma bindr_simps [simp]:
  "bindr (Inl e) f = Inl e"
  "bindr (Inr a) f = f a"
  by (simp_all add: bindr_def)

lemma bindr_eq_Inr: "bindr r f = Inr b \<longleftrightarrow> (\<exists>a. r = Inr a \<and> f a = Inr b)"
  by (cases r) auto

lemma bindr_eq_Inl: "bindr r f = Inl e \<longleftrightarrow> r = Inl e \<or> (\<exists>a. r = Inr a \<and> f a = Inl e)"
  by (cases r) auto

lemma bindr_assoc: "bindr (bindr r f) g = bindr r (\<lambda>a. bindr (f a) g)"
  by (cases r) auto

lemma bindr_cong [fundef_cong]:
  "r = r' \<Longrightarrow> (\<And>a. r' = Inr a \<Longrightarrow> f a = f' a) \<Longrightarrow> bindr r f = bindr r' f'"
  by (cases r') auto

text \<open>A loop over a list that threads a state and stops at the first fault.\<close>

fun foldr_res :: "('a \<Rightarrow> 's \<Rightarrow> 'e + 's) \<Rightarrow> 'a list \<Rightarrow> 's \<Rightarrow> 'e + 's" where
  "foldr_res f [] s = Inr s"
| "foldr_res f (x # xs) s = bindr (f x s) (foldr_res f xs)"

lemma foldr_res_append:
  "foldr_res f (xs @ ys) s = bindr (foldr_res f xs s) (foldr_res f ys)"
  by (induction xs arbitrary: s) (auto simp: bindr_def split: sum.splits)

lemma foldr_res_invariant:
  assumes "foldr_res f xs s = Inr s'" and "P s"
    and "\<And>x s t. x \<in> set xs \<Longrightarrow> P s \<Longrightarrow> f x s = Inr t \<Longrightarrow> P t"
  shows "P s'"
  using assms
proof (induction xs arbitrary: s)
  case Nil
  then show ?case by simp
next
  case (Cons x xs)
  from Cons.prems(1) obtain t where t: "f x s = Inr t" and rest: "foldr_res f xs t = Inr s'"
    by (auto simp: bindr_eq_Inr)
  have "P t" using Cons.prems(3) [of x s t] Cons.prems(2) t by simp
  then show ?case using Cons.IH [OF rest] Cons.prems(3) by auto
qed

section \<open>Lists\<close>

text \<open>
  Tables of the program are sets of records with a unique key. They are lists here, with the
  key as a function; the three operations below are the lookup, the in-place modification and
  the removal that the Boost containers offer on a unique index.
\<close>

definition find_key :: "('a \<Rightarrow> 'k) \<Rightarrow> 'k \<Rightarrow> 'a list \<Rightarrow> 'a option" where
  "find_key key k xs = find (\<lambda>x. key x = k) xs"

definition modify_key :: "('a \<Rightarrow> 'k) \<Rightarrow> 'k \<Rightarrow> ('a \<Rightarrow> 'a) \<Rightarrow> 'a list \<Rightarrow> 'a list" where
  "modify_key key k f xs = map (\<lambda>x. if key x = k then f x else x) xs"

definition erase_key :: "('a \<Rightarrow> 'k) \<Rightarrow> 'k \<Rightarrow> 'a list \<Rightarrow> 'a list" where
  "erase_key key k xs = filter (\<lambda>x. key x \<noteq> k) xs"

named_theorems table_simps

lemma find_key_Nil [table_simps, simp]: "find_key key k [] = None"
  by (simp add: find_key_def)

lemma find_key_Cons [table_simps, simp]:
  "find_key key k (x # xs) = (if key x = k then Some x else find_key key k xs)"
  by (simp add: find_key_def)

lemma find_key_append [table_simps, simp]:
  "find_key key k (xs @ ys) =
     (case find_key key k xs of None \<Rightarrow> find_key key k ys | Some x \<Rightarrow> Some x)"
  by (induction xs) auto

lemma find_key_SomeD: "find_key key k xs = Some x \<Longrightarrow> x \<in> set xs \<and> key x = k"
  by (induction xs) (auto split: if_splits)

lemma find_key_None: "find_key key k xs = None \<longleftrightarrow> k \<notin> key ` set xs"
  by (induction xs) auto

lemma find_key_in:
  "distinct (map key xs) \<Longrightarrow> x \<in> set xs \<Longrightarrow> find_key key (key x) xs = Some x"
  by (induction xs) (auto simp: image_iff)

lemma find_key_Some_iff:
  "distinct (map key xs) \<Longrightarrow> find_key key k xs = Some x \<longleftrightarrow> x \<in> set xs \<and> key x = k"
  using find_key_in find_key_SomeD by fastforce

lemma modify_key_keys [table_simps, simp]:
  assumes "\<And>x. key (f x) = key x"
  shows "map key (modify_key key k f xs) = map key xs"
  using assms by (induction xs) (auto simp: modify_key_def)

lemma find_modify_key [table_simps]:
  assumes "\<And>x. key (f x) = key x"
  shows "find_key key j (modify_key key k f xs) =
           (if j = k then map_option f (find_key key j xs) else find_key key j xs)"
  using assms by (induction xs) (auto simp: modify_key_def)

lemma erase_key_distinct [simp]:
  "distinct (map key xs) \<Longrightarrow> distinct (map key (erase_key key k xs))"
  by (auto simp: erase_key_def distinct_map inj_on_def)

lemma find_erase_key [table_simps]:
  "find_key key j (erase_key key k xs) = (if j = k then None else find_key key j xs)"
  by (induction xs) (auto simp: erase_key_def)

lemma set_erase_key [table_simps]: "set (erase_key key k xs) = {x \<in> set xs. key x \<noteq> k}"
  by (auto simp: erase_key_def)

lemma find_filter_key [table_simps]:
  assumes "distinct (map key xs)"
  shows "find_key key k (filter P xs) =
           (case find_key key k xs of None \<Rightarrow> None | Some x \<Rightarrow> if P x then Some x else None)"
  using assms
proof (induction xs)
  case (Cons a xs)
  show ?case
  proof (cases "key a = k")
    case True
    with Cons.prems have "find_key key k xs = None" by (auto simp: find_key_None)
    with True Cons show ?thesis by auto
  next
    case False
    with Cons show ?thesis by auto
  qed
qed simp

lemma distinct_filter_key:
  "distinct (map key xs) \<Longrightarrow> distinct (map key (filter P xs))"
  by (induction xs) auto

text \<open>Sorted insertion into an ordered unique index: nothing changes when the key is there.\<close>

definition insert_unique :: "('a \<Rightarrow> 'k::linorder) \<Rightarrow> 'a \<Rightarrow> 'a list \<Rightarrow> 'a list" where
  "insert_unique key x xs = (if key x \<in> key ` set xs then xs else insort_key key x xs)"

lemma insert_unique_set:
  "set (insert_unique key x xs) = (if key x \<in> key ` set xs then set xs else insert x (set xs))"
  by (simp add: insert_unique_def set_insort_key)

lemma insert_unique_sorted:
  assumes "sorted (map key xs)" and "distinct (map key xs)"
  shows "sorted (map key (insert_unique key x xs)) \<and> distinct (map key (insert_unique key x xs))"
proof -
  have "distinct (map key (insort_key key x xs))" if "key x \<notin> key ` set xs"
    using that assms(2) by (simp add: distinct_map inj_on_def distinct_insort set_insort_key)
      (metis imageI)
  then show ?thesis
    using assms by (simp add: insert_unique_def sorted_insort_key)
qed

lemma find_insert_unique [table_simps]:
  "find_key key k (insert_unique key x xs) =
     (case find_key key k xs of Some y \<Rightarrow> Some y | None \<Rightarrow> if key x = k then Some x else None)"
proof -
  have "find_key key k (insort_key key x xs) =
          (case find_key key k xs of Some y \<Rightarrow> Some y | None \<Rightarrow> if key x = k then Some x else None)"
    if "key x \<notin> key ` set xs"
    using that
  proof (induction xs)
    case (Cons a xs)
    then have "find_key key (key x) xs = None" by (simp add: find_key_None)
    with Cons show ?case by (auto split: option.splits)
  qed simp
  then show ?thesis
    by (auto simp: insert_unique_def find_key_None split: option.splits)
qed

text \<open>
  The ordered non-unique index: a new record goes after those with an equal order key; a modified
  record stays where it is when the order still holds there, and is linked anew otherwise.
\<close>

fun link_key :: "('a \<Rightarrow> 'o::linorder) \<Rightarrow> 'a \<Rightarrow> 'a list \<Rightarrow> 'a list" where
  "link_key ord m [] = [m]"
| "link_key ord m (x # xs) = (if ord m < ord x then m # x # xs else x # link_key ord m xs)"

definition modify_linked ::
    "('a \<Rightarrow> 'k) \<Rightarrow> ('a \<Rightarrow> 'o::linorder) \<Rightarrow> 'k \<Rightarrow> ('a \<Rightarrow> 'a) \<Rightarrow> 'a list \<Rightarrow> 'a list" where
  "modify_linked key ord k f xs =
     (let xs' = modify_key key k f xs in
      if sorted (map ord xs') then xs'
      else (case find_key key k xs of
              None \<Rightarrow> xs
            | Some x \<Rightarrow> link_key ord (f x) (erase_key key k xs)))"

text \<open>The tables with a unique key that are kept in the order of another key.\<close>

definition linked_inv :: "('a \<Rightarrow> 'k) \<Rightarrow> ('a \<Rightarrow> 'o::linorder) \<Rightarrow> 'a list \<Rightarrow> bool" where
  "linked_inv key ord xs \<longleftrightarrow> distinct (map key xs) \<and> sorted (map ord xs)"

lemma set_link_key [simp]: "set (link_key ord m xs) = insert m (set xs)"
  by (induction xs) auto

lemma link_key_sorted:
  "sorted (map ord xs) \<Longrightarrow> sorted (map ord (link_key ord m xs))"
proof (induction xs)
  case (Cons x xs)
  show ?case
  proof (cases "ord m < ord x")
    case True
    then have "ord m \<le> ord y" if "y \<in> set xs" for y
      using Cons.prems that order_trans [OF less_imp_le [OF True]] by simp
    with True Cons.prems show ?thesis by auto
  next
    case False
    with Cons show ?thesis by auto
  qed
qed simp

lemma link_key_distinct:
  "distinct (map key xs) \<Longrightarrow> key m \<notin> key ` set xs \<Longrightarrow> distinct (map key (link_key ord m xs))"
  by (induction xs) auto

lemma find_link_key:
  "key m \<notin> key ` set xs \<Longrightarrow>
     find_key key k (link_key ord m xs) = (if k = key m then Some m else find_key key k xs)"
  by (induction xs) auto

lemma erase_key_sorted: "sorted (map g xs) \<Longrightarrow> sorted (map g (erase_key key k xs))"
  unfolding erase_key_def by (induction xs) auto

lemma linked_inv_link:
  "linked_inv key ord xs \<Longrightarrow> key m \<notin> key ` set xs \<Longrightarrow> linked_inv key ord (link_key ord m xs)"
  by (simp add: linked_inv_def link_key_sorted link_key_distinct)

lemma linked_inv_erase: "linked_inv key ord xs \<Longrightarrow> linked_inv key ord (erase_key key k xs)"
  by (simp add: linked_inv_def erase_key_sorted)

lemma modify_linked_inv:
  assumes "linked_inv key ord xs" and "\<And>x. key (f x) = key x"
  shows "linked_inv key ord (modify_linked key ord k f xs)"
proof -
  have d: "distinct (map key (modify_key key k f xs))" using assms by (simp add: linked_inv_def)
  show ?thesis
  proof (cases "sorted (map ord (modify_key key k f xs))")
    case True
    with d show ?thesis by (simp add: modify_linked_def Let_def linked_inv_def)
  next
    case False
    show ?thesis
    proof (cases "find_key key k xs")
      case None
      then show ?thesis using False assms(1) by (simp add: modify_linked_def Let_def)
    next
      case (Some x)
      have "key (f x) \<notin> key ` set (erase_key key k xs)"
        using find_key_SomeD [OF Some] assms(2) by (auto simp: set_erase_key)
      then have "linked_inv key ord (link_key ord (f x) (erase_key key k xs))"
        by (intro linked_inv_link linked_inv_erase assms(1))
      then show ?thesis using False Some by (simp add: modify_linked_def Let_def)
    qed
  qed
qed

lemma find_modify_linked [table_simps]:
  assumes "\<And>x. key (f x) = key x"
  shows "find_key key j (modify_linked key ord k f xs) =
    (if j = k then map_option f (find_key key j xs) else find_key key j xs)"
proof -
  have modified: "find_key key j (modify_key key k f xs) =
    (if j = k then map_option f (find_key key j xs) else find_key key j xs)"
    by (rule find_modify_key) (rule assms)
  show ?thesis
  proof (cases "find_key key k xs")
    case None
    then show ?thesis using modified by (auto simp: modify_linked_def Let_def)
  next
    case (Some x)
    have x: "key x = k" using find_key_SomeD [OF Some] by simp
    then have "key (f x) \<notin> key ` set (erase_key key k xs)"
      using assms by (auto simp: set_erase_key)
    then show ?thesis
      using Some x modified by (auto simp: modify_linked_def Let_def find_link_key find_erase_key assms)
  qed
qed

lemma set_modify_linked:
  assumes "distinct (map key xs)"
  shows "set (modify_linked key ord k f xs) = set (modify_key key k f xs)"
proof (cases "find_key key k xs")
  case None
  then have "modify_key key k f xs = xs"
    unfolding modify_key_def find_key_None by (intro map_idI) auto
  then show ?thesis using None by (simp add: modify_linked_def Let_def)
next
  case (Some x)
  then have "x \<in> set xs" "key x = k" by (auto dest: find_key_SomeD)
  moreover have "y = x" if "y \<in> set xs" "key y = k" for y
    using find_key_in [OF assms that(1)] that(2) Some by simp
  ultimately have "set (modify_key key k f xs) = insert (f x) (set (erase_key key k xs))"
    unfolding modify_key_def set_erase_key set_map by (force split: if_splits)
  then show ?thesis using Some by (simp add: modify_linked_def Let_def)
qed

section \<open>Machine words\<close>

lemma word_of_nat_byte_eq: "n < 256 \<Longrightarrow> unat (word_of_nat n :: byte) = n"
  by (simp add: unat_of_nat)

lemma unat_byte_less: "unat (b :: byte) < 256"
  using unsigned_less [of b] by simp

lemma word_of_nat_inj_byte:
  "m < 256 \<Longrightarrow> n < 256 \<Longrightarrow> (word_of_nat m :: byte) = word_of_nat n \<longleftrightarrow> m = n"
  by (metis word_of_nat_byte_eq)

section \<open>Refinement\<close>

text \<open>
  A detailed transition system over an abstract one: under an invariant, each of its steps is a step of the
  abstract system or leaves its state alone.
\<close>

locale refinement =
  fixes step :: "'c \<Rightarrow> 'c \<Rightarrow> bool"
    and abstract_step :: "'a \<Rightarrow> 'a \<Rightarrow> bool"
    and abs :: "'c \<Rightarrow> 'a"
    and inv :: "'c \<Rightarrow> bool"
  assumes simulates: "inv c \<Longrightarrow> step c d \<Longrightarrow> inv d \<and> (abs d = abs c \<or> abstract_step (abs c) (abs d))"
begin

lemma runs: "step\<^sup>*\<^sup>* c d \<Longrightarrow> inv c \<Longrightarrow> inv d \<and> abstract_step\<^sup>*\<^sup>* (abs c) (abs d)"
proof (induction rule: rtranclp_induct)
  case (step d e)
  then show ?case using simulates [of d e] by (auto intro: rtranclp.rtrancl_into_rtrancl)
qed simp

end

end
