(* ===== verification/Names.thy ===== *)
theory Names
  imports VndnPrelude
begin

text \<open>
  NDN names: \<open>class NameComponents\<close> (\<open>network/ndn-name-components.h/.cc\<close>), the hash of
  a name prefix (\<open>daemon/hash-helper.h\<close>), and the longest-prefix search that the FIB, the
  PIT and the packet storage of the link adaptation layer each run over their own table.

  A component is the byte string of a \<open>std::string\<close>, a name the list \<open>m_prefix\<close> of its
  components. Operations that would walk past the end of the list (the assertions that guard
  them are compiled out) are faults.
\<close>

type_synonym component = string
type_synonym name = "component list"

section \<open>Parsing and printing\<close>

text \<open>
  \<open>operator >>\<close> reads the text through an \<open>istream_iterator<char>\<close>, whose formatted
  extraction skips white space, and starts a new component at each slash; empty components are
  dropped.
\<close>

definition is_space :: "char \<Rightarrow> bool" where
  "is_space c \<longleftrightarrow> c \<in> {CHR '' '', CHR 0x09, CHR 0x0A, CHR 0x0B, CHR 0x0C, CHR 0x0D}"

definition slash :: char where
  "slash = CHR ''/''"

definition Add :: "name \<Rightarrow> component \<Rightarrow> name" where
  "Add n c = n @ [c]"

fun read_loop :: "string \<Rightarrow> component \<Rightarrow> name \<Rightarrow> name" where
  "read_loop [] component components =
     (if component \<noteq> [] then Add components component else components)"
| "read_loop (c # is) component components =
     (if c = slash
      then read_loop is [] (if component \<noteq> [] then Add components component else components)
      else read_loop is (component @ [c]) components)"

definition parse_name :: "string \<Rightarrow> name" where
  "parse_name s = read_loop (filter (\<lambda>c. \<not> is_space c) s) [] []"

fun print_components :: "name \<Rightarrow> string" where
  "print_components [] = []"
| "print_components (c # n) = slash # c @ print_components n"

definition print_name :: "name \<Rightarrow> string" where
  "print_name n = print_components n @ (if length n = 0 then [slash] else [])"

section \<open>Components, sub-names and comparison\<close>

text \<open>The constructor from a list of components calls \<open>Add\<close> for each of them.\<close>

definition NameComponents_list :: "component list \<Rightarrow> name" where
  "NameComponents_list cs = fold (\<lambda>c n. Add n c) cs []"

definition GetLastComponent :: "name \<Rightarrow> component" where
  "GetLastComponent n = (if length n = 0 then [] else last n)"

fun sub_loop :: "nat \<Rightarrow> name \<Rightarrow> component list \<Rightarrow> fault + component list" where
  "sub_loop 0 rest acc = Inr acc"
| "sub_loop (Suc k) [] acc = Inl UndefinedBehaviour"
| "sub_loop (Suc k) (c # rest) acc = sub_loop k rest (acc @ [c])"

definition GetSubComponents :: "name \<Rightarrow> nat \<Rightarrow> fault + component list" where
  "GetSubComponents n num = sub_loop num n []"

text \<open>
  \<open>cut\<close> computes \<open>size () - minusComponents\<close> on \<open>size_t\<close>: a cut by more than the
  size wraps around and the loop runs off the list.
\<close>

definition cut :: "name \<Rightarrow> nat \<Rightarrow> fault + name" where
  "cut n minusComponents =
     (if minusComponents \<le> length n then sub_loop (length n - minusComponents) n [] else Inl UndefinedBehaviour)"

fun equal_loop :: "name \<Rightarrow> name \<Rightarrow> bool" where
  "equal_loop [] ys = True"
| "equal_loop (x # xs) (y # ys) = (x = y \<and> equal_loop xs ys)"
| "equal_loop (x # xs) [] = False"

definition name_eq :: "name \<Rightarrow> name \<Rightarrow> bool" where
  "name_eq a b = (if length a \<noteq> length b then False else equal_loop a b)"

text \<open>\<open>std::lexicographical_compare\<close>, for characters in components and components in names.\<close>

fun lexicographical_compare :: "('a \<Rightarrow> 'a \<Rightarrow> bool) \<Rightarrow> 'a list \<Rightarrow> 'a list \<Rightarrow> bool" where
  "lexicographical_compare lt xs [] = False"
| "lexicographical_compare lt [] (y # ys) = True"
| "lexicographical_compare lt (x # xs) (y # ys) =
     (if lt x y then True else if lt y x then False else lexicographical_compare lt xs ys)"

definition char_less :: "char \<Rightarrow> char \<Rightarrow> bool" where
  "char_less a b \<longleftrightarrow> (of_char a :: nat) < of_char b"

definition component_less :: "component \<Rightarrow> component \<Rightarrow> bool" where
  "component_less = lexicographical_compare char_less"

definition name_less :: "name \<Rightarrow> name \<Rightarrow> bool" where
  "name_less = lexicographical_compare component_less"

section \<open>The prefix hash\<close>

text \<open>
  \<open>NDNPrefixHash\<close> on a 64-bit \<open>size_t\<close>; \<open>char\<close> is signed, so a byte from 128 up is
  added sign-extended.
\<close>

definition char_to_u64 :: "char \<Rightarrow> u64" where
  "char_to_u64 c = signed_take_bit 7 (of_nat (of_char c))"

definition hash_step :: "u64 \<Rightarrow> u64 \<Rightarrow> u64" where
  "hash_step hash v = (push_bit 6 hash XOR drop_bit 27 hash) + v"

definition hash_component :: "component \<Rightarrow> u64 \<Rightarrow> u64" where
  "hash_component str hash =
     fold (\<lambda>c h. hash_step h (char_to_u64 c)) str
       (hash_step (hash + of_nat (length str)) (char_to_u64 slash))"

definition NDNPrefixHash :: "name \<Rightarrow> u64" where
  "NDNPrefixHash n = fold hash_component n 23"

section \<open>Longest prefix search\<close>

text \<open>
  The loop over \<open>componentsCount\<close> from \<open>size () + 1\<close> down to 1 that looks each shorter
  prefix up, as \<open>NDNFib\<close>, \<open>NDNPit\<close> and \<open>PacketStorage\<close> write it.
\<close>

fun lpm_loop :: "(name \<Rightarrow> 'e option) \<Rightarrow> name \<Rightarrow> nat \<Rightarrow> 'e option" where
  "lpm_loop find_entry n 0 = None"
| "lpm_loop find_entry n (Suc componentsCount) =
     (case find_entry (take componentsCount n) of
        Some match \<Rightarrow> Some match
      | None \<Rightarrow> lpm_loop find_entry n componentsCount)"

definition longest_prefix_match :: "(name \<Rightarrow> 'e option) \<Rightarrow> name \<Rightarrow> 'e option" where
  "longest_prefix_match find_entry n = lpm_loop find_entry n (length n + 1)"

section \<open>Basic facts\<close>

lemma sub_loop_eq:
  "sub_loop k n acc = (if k \<le> length n then Inr (acc @ take k n) else Inl UndefinedBehaviour)"
  by (induction k n acc rule: sub_loop.induct) auto

lemma GetSubComponents_eq:
  "GetSubComponents n k = (if k \<le> length n then Inr (take k n) else Inl UndefinedBehaviour)"
  by (simp add: GetSubComponents_def sub_loop_eq)

lemma NameComponents_list_eq [simp]: "NameComponents_list cs = cs"
proof -
  have "fold (\<lambda>c n. Add n c) cs acc = acc @ cs" for acc
    by (induction cs arbitrary: acc) (auto simp: Add_def)
  then show ?thesis by (simp add: NameComponents_list_def)
qed

lemma equal_loop_eq: "length a = length b \<Longrightarrow> equal_loop a b \<longleftrightarrow> a = b"
  by (induction a b rule: equal_loop.induct) auto

lemma name_eq_iff [simp]: "name_eq a b \<longleftrightarrow> a = b"
  by (auto simp: name_eq_def equal_loop_eq)

section \<open>The longest-prefix contract\<close>

text \<open>
  What the search needs of a table: \<open>find_entry\<close> looks an exact name up. It is stated once
  here, for any table whose entries carry their own prefix; the FIB, the PIT and the packet
  storage interpret it.
\<close>

locale prefix_table =
  fixes entries :: "'t \<Rightarrow> 'e list"
    and prefix_of :: "'e \<Rightarrow> name"
    and find_entry :: "'t \<Rightarrow> name \<Rightarrow> 'e option"
    and invar :: "'t \<Rightarrow> bool"
  assumes find_sound: "find_entry t n = Some e \<Longrightarrow> e \<in> set (entries t) \<and> prefix_of e = n"
    and find_complete: "invar t \<Longrightarrow> e \<in> set (entries t) \<Longrightarrow> find_entry t (prefix_of e) = Some e"
begin

lemma loop_Some:
  "lpm_loop (find_entry t) n k = Some e \<Longrightarrow> k \<le> length n + 1 \<Longrightarrow>
     e \<in> set (entries t) \<and> prefix (prefix_of e) n \<and> length (prefix_of e) < k"
proof (induction k)
  case (Suc k)
  then show ?case
    by (cases "find_entry t (take k n)") (auto dest: find_sound simp: take_is_prefix)
qed simp

lemma loop_longest:
  assumes "invar t" and "e' \<in> set (entries t)" and "prefix (prefix_of e') n"
    and "length (prefix_of e') < k"
  shows "\<exists>e. lpm_loop (find_entry t) n k = Some e \<and> length (prefix_of e') \<le> length (prefix_of e)"
  using assms
proof (induction k)
  case (Suc k)
  show ?case
  proof (cases "find_entry t (take k n)")
    case (Some e)
    with Suc.prems have "length (prefix_of e) = min (length n) k"
      using find_sound [OF Some] by auto
    moreover have "length (prefix_of e') \<le> length n"
      using Suc.prems(3) by (rule prefix_length_le)
    ultimately show ?thesis using Some Suc.prems(4) by auto
  next
    case None
    have "prefix_of e' \<noteq> take k n"
      using None find_complete [OF Suc.prems(1,2)] by auto
    moreover have "prefix_of e' = take (length (prefix_of e')) n"
      using Suc.prems(3) by (metis append_eq_conv_conj prefix_def)
    ultimately have "length (prefix_of e') < k"
      using Suc.prems(4) by (metis less_antisym)
    then show ?thesis using None Suc by simp
  qed
qed simp

lemma lpm_sound:
  assumes "longest_prefix_match (find_entry t) n = Some e"
  shows "e \<in> set (entries t)" and "prefix (prefix_of e) n"
  using loop_Some [of t n "length n + 1" e] assms by (auto simp: longest_prefix_match_def)

lemma lpm_longest:
  assumes "invar t" and "longest_prefix_match (find_entry t) n = Some e"
    and "e' \<in> set (entries t)" and "prefix (prefix_of e') n"
  shows "length (prefix_of e') \<le> length (prefix_of e)"
  using loop_longest [of t e' n "length n + 1"] assms
  by (auto simp: longest_prefix_match_def dest: prefix_length_le)

lemma lpm_None_iff:
  assumes "invar t"
  shows "longest_prefix_match (find_entry t) n = None \<longleftrightarrow>
           (\<forall>e \<in> set (entries t). \<not> prefix (prefix_of e) n)"
proof
  assume none: "longest_prefix_match (find_entry t) n = None"
  show "\<forall>e \<in> set (entries t). \<not> prefix (prefix_of e) n"
  proof (intro ballI notI)
    fix e assume "e \<in> set (entries t)" and "prefix (prefix_of e) n"
    with assms none show False
      using loop_longest [of t e n "length n + 1"] prefix_length_le [of "prefix_of e" n]
      by (auto simp: longest_prefix_match_def)
  qed
next
  assume "\<forall>e \<in> set (entries t). \<not> prefix (prefix_of e) n"
  then show "longest_prefix_match (find_entry t) n = None"
    using lpm_sound [of t n] by (cases "longest_prefix_match (find_entry t) n") auto
qed

lemma lpm_exact:
  assumes "invar t" and "e \<in> set (entries t)" and "prefix_of e = n"
  shows "longest_prefix_match (find_entry t) n = Some e"
  using find_complete [OF assms(1,2)] assms(3)
  by (simp add: longest_prefix_match_def)

end

section \<open>Lexicographic order\<close>

text \<open>
  \<open>std::lexicographical_compare\<close> needs a strict order of the elements; a total one makes
  the comparison of the lists total again. Characters give components, components give names.
\<close>

locale strict_total =
  fixes lt :: "'a \<Rightarrow> 'a \<Rightarrow> bool"
  assumes lt_irrefl: "\<not> lt x x"
    and lt_trans: "lt x y \<Longrightarrow> lt y z \<Longrightarrow> lt x z"
    and lt_total: "x \<noteq> y \<Longrightarrow> lt x y \<or> lt y x"
begin

lemma lt_asym: "lt x y \<Longrightarrow> \<not> lt y x"
  using lt_irrefl lt_trans by blast

lemma lex_irrefl: "\<not> lexicographical_compare lt xs xs"
  by (induction xs) (auto simp: lt_irrefl)

lemma lex_total:
  "xs \<noteq> ys \<Longrightarrow> lexicographical_compare lt xs ys \<or> lexicographical_compare lt ys xs"
proof (induction xs arbitrary: ys)
  case Nil
  then show ?case by (cases ys) auto
next
  case (Cons x xs)
  then show ?case using lt_total [of x] by (cases ys) (auto dest: lt_asym)
qed

lemma lex_trans:
  "lexicographical_compare lt xs ys \<Longrightarrow> lexicographical_compare lt ys zs \<Longrightarrow>
     lexicographical_compare lt xs zs"
proof (induction xs arbitrary: ys zs)
  case Nil
  then show ?case by (cases ys; cases zs) auto
next
  case (Cons x xs)
  then obtain y ys' where ys: "ys = y # ys'" by (cases ys) auto
  with Cons.prems(2) obtain z zs' where zs: "zs = z # zs'" by (cases zs) auto
  from Cons.prems ys zs Cons.IH [of ys' zs'] show ?case
    by (auto split: if_splits dest: lt_trans lt_asym lt_total)
      (metis lt_asym lt_total lt_trans)+
qed

lemma lex_strict_total: "strict_total (lexicographical_compare lt)"
  by unfold_locales (auto intro: lex_trans dest: lex_total simp: lex_irrefl)

end

lemma of_char_nat_eq: "(of_char a :: nat) = of_char b \<longleftrightarrow> a = b"
  by (fact of_char_eq_iff)

interpretation chars: strict_total char_less
proof unfold_locales
  fix x y :: char assume "x \<noteq> y"
  then have "(of_char x :: nat) \<noteq> of_char y" by (simp add: of_char_nat_eq)
  then show "char_less x y \<or> char_less y x" unfolding char_less_def by (rule linorder_neqE_nat) simp_all
qed (auto simp: char_less_def)

interpretation comps: strict_total component_less
  unfolding component_less_def by (rule chars.lex_strict_total)

interpretation names: strict_total name_less
  unfolding name_less_def by (rule comps.lex_strict_total)

section \<open>Parsing against printing\<close>

definition wf_component :: "component \<Rightarrow> bool" where
  "wf_component c \<longleftrightarrow> c \<noteq> [] \<and> (\<forall>x \<in> set c. x \<noteq> slash \<and> \<not> is_space x)"

lemma read_loop_component:
  "slash \<notin> set c \<Longrightarrow> read_loop (c @ is) cmp acc = read_loop is (cmp @ c) acc"
  by (induction c arbitrary: cmp) auto

lemma read_loop_print:
  "\<forall>c \<in> set n. wf_component c \<Longrightarrow>
     read_loop (print_components n) cmp acc = acc @ (if cmp \<noteq> [] then [cmp] else []) @ n"
proof (induction n arbitrary: cmp acc)
  case (Cons c n)
  then have "slash \<notin> set c" and "c \<noteq> []" by (auto simp: wf_component_def)
  with Cons show ?case by (simp add: read_loop_component Add_def)
qed (simp add: Add_def)

lemma slash_not_space: "\<not> is_space slash"
  by (simp add: is_space_def slash_def)

lemma filter_print_components:
  "\<forall>c \<in> set n. wf_component c \<Longrightarrow>
     filter (\<lambda>x. \<not> is_space x) (print_components n) = print_components n"
  by (induction n) (auto simp: wf_component_def slash_not_space)

lemma read_loop_wf:
  assumes "\<forall>c \<in> set acc. wf_component c" and "\<forall>x \<in> set is \<union> set cmp. \<not> is_space x"
    and "slash \<notin> set cmp"
  shows "\<forall>c \<in> set (read_loop is cmp acc). wf_component c"
  using assms
proof (induction "is" arbitrary: cmp acc)
  case Nil
  then show ?case by (auto simp: Add_def wf_component_def)
next
  case (Cons c s)
  show ?case
  proof (cases "c = slash")
    case True
    have "\<forall>c \<in> set (if cmp \<noteq> [] then Add acc cmp else acc). wf_component c"
      using Cons.prems by (auto simp: Add_def wf_component_def)
    then show ?thesis using Cons.IH [of _ "[]"] Cons.prems(2) True by simp
  next
    case False
    then show ?thesis using Cons.IH [of acc "cmp @ [c]"] Cons.prems by simp
  qed
qed

lemma parse_name_wf: "c \<in> set (parse_name s) \<Longrightarrow> wf_component c"
  using read_loop_wf [of "[]" "filter (\<lambda>c. \<not> is_space c) s" "[]"] by (simp add: parse_name_def)

lemma read_loop_slash: "read_loop [slash] [] [] = []"
  by simp

text \<open>
  The printed form of a name parses back to it exactly when every component is non-empty
  and has neither a slash nor white space in it (white space is lost, an empty component is
  dropped, a slash splits a component).
\<close>

theorem parse_print_name: "parse_name (print_name n) = n \<longleftrightarrow> (\<forall>c \<in> set n. wf_component c)"
proof
  assume "parse_name (print_name n) = n"
  then show "\<forall>c \<in> set n. wf_component c" using parse_name_wf by metis
next
  assume wf: "\<forall>c \<in> set n. wf_component c"
  show "parse_name (print_name n) = n"
  proof (cases n)
    case Nil
    then show ?thesis by (simp add: parse_name_def print_name_def slash_not_space)
  next
    case Cons
    with wf show ?thesis
      by (simp add: parse_name_def print_name_def filter_print_components read_loop_print
          del: print_components.simps)
  qed
qed

text \<open>
  The comparison of names that the ordered containers use is a strict total order.
\<close>

theorem name_less_strict_total:
  "\<not> name_less a a \<and> (name_less a b \<and> name_less b c \<longrightarrow> name_less a c) \<and>
     (a = b \<or> name_less a b \<or> name_less b a)"
  by (auto intro: names.lt_trans dest: names.lt_total simp: names.lt_irrefl)

theorem parse_print_name_witness:
  "parse_name (print_name [''a'', ''b'']) = [''a'', ''b''] \<and> parse_name (print_name [''a b'']) \<noteq> [''a b'']"
proof -
  have "\<forall>c \<in> set [''a'', ''b'']. wf_component c" and "\<not> (\<forall>c \<in> set [''a b'']. wf_component c)"
    by code_simp+
  then show ?thesis
    using parse_print_name [of "[''a'', ''b'']"] parse_print_name [of "[''a b'']"] by blast
qed

theorem name_less_strict_total_witness:
  "name_less [''a''] [''a'', ''b''] \<and> name_less [''a'', ''b''] [''b''] \<and> name_less [''a''] [''b'']"
proof -
  have "name_less [''a''] [''a'', ''b'']" and "name_less [''a'', ''b''] [''b'']"
    by (simp_all add: name_less_def component_less_def char_less_def)
  then show ?thesis
    using name_less_strict_total [of "[''a'']" "[''a'', ''b'']" "[''b'']"] by blast
qed

end
