(* ===== verification/Ccnb.thy ===== *)
theory Ccnb
  imports Names
begin

text \<open>
  The CCNx binary encoding: the dictionary of \<open>helper/ccnb-parser/ccnb-parser-common.h\<close>, the
  byte buffer of \<open>network/buffer.h/.cc\<close>, the syntax tree and its parser
  \<open>helper/ccnb-parser/syntax-tree/*.cc\<close>.

  The constructors of the block classes parse themselves and call
  \<open>Block::ParseBlock\<close> for what is nested, so the parser is one mutual recursion over the
  remaining bytes; it carries fuel, and \<open>parse_block_fuel\<close> shows that twice the number of
  bytes plus one is always enough.
\<close>

section \<open>Bytes and the buffer\<close>

definition byte_of :: "char \<Rightarrow> byte" where
  "byte_of c = of_nat (of_char c)"

definition char_of_byte :: "byte \<Rightarrow> char" where
  "char_of_byte b = char_of (unat b)"

abbreviation bytes_of :: "string \<Rightarrow> byte list" where
  "bytes_of s \<equiv> map byte_of s"

abbreviation string_of :: "byte list \<Rightarrow> string" where
  "string_of bs \<equiv> map char_of_byte bs"

text \<open>
  A \<open>Buffer\<close> holds \<open>BUFLEN\<close> bytes, zeroed when it is allocated, of which the first
  \<open>m_size\<close> are in use. \<open>Write\<close> appends and asserts that the capacity is not exceeded.
\<close>

definition BUFLEN :: nat where
  "BUFLEN = 1501"

record buffer =
  m_data :: "byte list"

definition Buffer_new :: buffer where
  "Buffer_new = \<lparr>m_data = []\<rparr>"

definition buffer_size :: "buffer \<Rightarrow> nat" where
  "buffer_size b = length (m_data b)"

definition buffer_write :: "byte list \<Rightarrow> buffer \<Rightarrow> fault + buffer" where
  "buffer_write bytes b =
     (if buffer_size b + length bytes \<le> BUFLEN then Inr (b\<lparr>m_data := m_data b @ bytes\<rparr>)
      else Inl AssertionFailed)"

definition buffer_write_u8 :: "byte \<Rightarrow> buffer \<Rightarrow> fault + buffer" where
  "buffer_write_u8 x b = buffer_write [x] b"

text \<open>\<open>GetBuffer(offset)\<close> read for \<open>len\<close> bytes: beyond \<open>m_size\<close> there are zeros.\<close>

definition buffer_read :: "buffer \<Rightarrow> nat \<Rightarrow> nat \<Rightarrow> byte list" where
  "buffer_read b offset len =
     take len (drop offset (m_data b @ replicate (BUFLEN - buffer_size b) 0))"

text \<open>
  A \<open>Buffer::Iterator\<close> is the list of bytes from its position to \<open>m_size\<close>:
  \<open>IsEnd\<close> is emptiness, \<open>PeekU8\<close> the head, \<open>ReadU8\<close> head and tail.
  \<open>GetDistance\<close> returns the position cut to eight bits.
\<close>

definition GetDistance :: "byte list \<Rightarrow> byte list \<Rightarrow> byte" where
  "GetDistance start rest = of_nat (length start - length rest)"

section \<open>The dictionary\<close>

datatype ccn_tt = CCN_EXT | CCN_TAG | CCN_DTAG | CCN_ATTR | CCN_DATTR | CCN_BLOB | CCN_UDATA
  | CCN_NO_TOKEN

fun tt_code :: "ccn_tt \<Rightarrow> nat" where
  "tt_code CCN_EXT = 0"
| "tt_code CCN_TAG = 1"
| "tt_code CCN_DTAG = 2"
| "tt_code CCN_ATTR = 3"
| "tt_code CCN_DATTR = 4"
| "tt_code CCN_BLOB = 5"
| "tt_code CCN_UDATA = 6"
| "tt_code CCN_NO_TOKEN = 7"

text \<open>The dictionary tags that the encoder and the visitors use.\<close>

definition CCN_CLOSE :: byte where "CCN_CLOSE = 0"

datatype ccn_dtag = CCN_DTAG_Name | CCN_DTAG_Component | CCN_DTAG_Content | CCN_DTAG_SignedInfo
  | CCN_DTAG_Interest | CCN_DTAG_Signature | CCN_DTAG_Nonce | CCN_DTAG_Scope | CCN_DTAG_Exclude
  | CCN_DTAG_AnswerOriginKind | CCN_DTAG_InterestLifetime | CCN_DTAG_SignatureBits
  | CCN_DTAG_PublisherPublicKeyDigest | CCN_DTAG_ContentObject | CCN_DTAG_MinSuffixComponents
  | CCN_DTAG_MaxSuffixComponents | CCN_DTAG_ChildSelector | CCN_DTAG_Nack

fun dtag_code :: "ccn_dtag \<Rightarrow> nat" where
  "dtag_code CCN_DTAG_Name = 14"
| "dtag_code CCN_DTAG_Component = 15"
| "dtag_code CCN_DTAG_Content = 19"
| "dtag_code CCN_DTAG_SignedInfo = 20"
| "dtag_code CCN_DTAG_Interest = 26"
| "dtag_code CCN_DTAG_Signature = 37"
| "dtag_code CCN_DTAG_Nonce = 41"
| "dtag_code CCN_DTAG_Scope = 42"
| "dtag_code CCN_DTAG_Exclude = 43"
| "dtag_code CCN_DTAG_AnswerOriginKind = 47"
| "dtag_code CCN_DTAG_InterestLifetime = 48"
| "dtag_code CCN_DTAG_SignatureBits = 54"
| "dtag_code CCN_DTAG_PublisherPublicKeyDigest = 60"
| "dtag_code CCN_DTAG_ContentObject = 64"
| "dtag_code CCN_DTAG_MinSuffixComponents = 83"
| "dtag_code CCN_DTAG_MaxSuffixComponents = 84"
| "dtag_code CCN_DTAG_ChildSelector = 85"
| "dtag_code CCN_DTAG_Nack = 200"

abbreviation dtag :: "ccn_dtag \<Rightarrow> u32" where
  "dtag t \<equiv> of_nat (dtag_code t)"

section \<open>The syntax tree\<close>

datatype block =
    Blob "byte list"
  | Udata "byte list"
  | Tag "byte list" "block list" "block list"
  | Attr "byte list" "byte list"
  | Dtag u32 "block list" "block list"
  | Dattr u32 "byte list"
  | Ext u64

fun is_base_attr :: "block \<Rightarrow> bool" where
  "is_base_attr (Attr n v) = True"
| "is_base_attr (Dattr d v) = True"
| "is_base_attr b = False"

text \<open>\<open>back ()\<close> of the nested tags is the \<open><Content>\<close> tag.\<close>

fun is_content :: "block \<Rightarrow> bool" where
  "is_content (Dtag t as ns) = (t = dtag CCN_DTAG_Content)"
| "is_content b = False"

section \<open>The parser\<close>

text \<open>
  The block header: bytes are shifted into a 32-bit value, seven bits at a time, until one
  has its high bit set; that byte holds four more bits and the token type. The loop also stops
  at the end of the input: the test for it that follows builds a \<open>CcnbDecodingException\<close>
  and does not throw it, so the last byte read is used as it is.
\<close>

definition has_hbit :: "byte \<Rightarrow> bool" where
  "has_hbit b = bit b 7"

fun header_loop :: "byte \<Rightarrow> u32 \<Rightarrow> byte list \<Rightarrow> byte \<times> u32 \<times> byte list" where
  "header_loop b value [] = (b, value, [])"
| "header_loop b value (x # rest) =
     (if has_hbit b then (b, value, x # rest)
      else header_loop x (push_bit 7 value + ucast b) rest)"

definition parse_header :: "byte list \<Rightarrow> nat \<times> u32 \<times> byte list" where
  "parse_header start =
     (case header_loop 0 0 start of (b, value, rest) \<Rightarrow>
        (unat (b AND 7), push_bit 4 value + ucast (drop_bit 3 (b AND 127)), rest))"

text \<open>Reading a fixed number of bytes, as \<open>Blob\<close>, \<open>Udata\<close>, \<open>Tag\<close> and \<open>Attr\<close> do.\<close>

definition read_bytes :: "nat \<Rightarrow> byte list \<Rightarrow> fault + byte list \<times> byte list" where
  "read_bytes n start =
     (if n \<le> length start then Inr (take n start, drop n start) else Inl CcnbDecodingException)"

definition at_close :: "byte list \<Rightarrow> bool" where
  "at_close start \<longleftrightarrow> start = [] \<or> hd start = CCN_CLOSE"

text \<open>
  What the constructors of \<open>Tag\<close>, \<open>Dtag\<close> and of the attributes do once the nested blocks
  are read. A \<open><ContentObject>\<close> ends right after the header of its \<open><Content>\<close>, without a
  closing byte; \<open>m_nestedTags.back ()\<close> of an empty list is undefined behaviour.
\<close>

definition finish_tag :: "byte list \<Rightarrow> block list \<Rightarrow> block list \<times> byte list \<Rightarrow> fault + block \<times> byte list" where
  "finish_tag nm attrs = (\<lambda>(nested, rest).
     if rest = [] then Inl CcnbDecodingException else Inr (Tag nm attrs nested, tl rest))"

definition finish_dtag :: "u32 \<Rightarrow> block list \<Rightarrow> block list \<times> byte list \<Rightarrow> fault + block \<times> byte list" where
  "finish_dtag value attrs = (\<lambda>(nested, rest).
     let content_object = (value = dtag CCN_DTAG_ContentObject) in
     if content_object \<and> nested = [] then Inl UndefinedBehaviour
     else if content_object \<and> is_content (last nested) then Inr (Dtag value attrs nested, rest)
     else if rest = [] then Inl CcnbDecodingException
     else Inr (Dtag value attrs nested, tl rest))"

definition finish_attr :: "(byte list \<Rightarrow> block) \<Rightarrow> block \<times> byte list \<Rightarrow> fault + block \<times> byte list" where
  "finish_attr mk = (\<lambda>(b, rest).
     case b of Udata v \<Rightarrow> Inr (mk v, rest) | _ \<Rightarrow> Inl CcnbDecodingException)"

fun parse_block :: "nat \<Rightarrow> byte list \<Rightarrow> fault + block \<times> byte list"
  and parse_attrs :: "nat \<Rightarrow> byte list \<Rightarrow> fault + block list \<times> block list \<times> byte list"
  and parse_nested :: "nat \<Rightarrow> bool \<Rightarrow> block list \<Rightarrow> byte list \<Rightarrow> fault + block list \<times> byte list"
where
  "parse_block 0 start = Inl OutOfFuel"
| "parse_block (Suc fuel) start =
     (case parse_header start of (tt, value, rest) \<Rightarrow>
        if tt = tt_code CCN_BLOB then
          bindr (read_bytes (unat value) rest) (\<lambda>(bs, rest). Inr (Blob bs, rest))
        else if tt = tt_code CCN_UDATA then
          bindr (read_bytes (unat value) rest) (\<lambda>(bs, rest). Inr (Udata bs, rest))
        else if tt = tt_code CCN_TAG then
          bindr (read_bytes (unat (value + 1)) rest) (\<lambda>(nm, rest).
          bindr (parse_attrs fuel rest) (\<lambda>(attrs, nested, rest).
          bindr (parse_nested fuel False nested rest) (finish_tag nm attrs)))
        else if tt = tt_code CCN_ATTR then
          bindr (read_bytes (unat (value + 1)) rest) (\<lambda>(nm, rest).
          bindr (parse_block fuel rest) (finish_attr (Attr nm)))
        else if tt = tt_code CCN_DTAG then
          (if value = dtag CCN_DTAG_Content then Inr (Dtag value [] [], rest)
           else
             bindr (parse_attrs fuel rest) (\<lambda>(attrs, nested, rest).
             bindr (parse_nested fuel (value = dtag CCN_DTAG_ContentObject) nested rest)
               (finish_dtag value attrs)))
        else if tt = tt_code CCN_DATTR then
          bindr (parse_block fuel rest) (finish_attr (Dattr value))
        else if tt = tt_code CCN_EXT then Inr (Ext (ucast value), rest)
        else Inl CcnbDecodingException)"
| "parse_attrs 0 start = Inl OutOfFuel"
| "parse_attrs (Suc fuel) start =
     (if at_close start then Inr ([], [], start)
      else bindr (parse_block fuel start) (\<lambda>(b, rest).
        if is_base_attr b then
          bindr (parse_attrs fuel rest) (\<lambda>(attrs, nested, rest). Inr (b # attrs, nested, rest))
        else Inr ([], [b], rest)))"
| "parse_nested 0 content_object nested start = Inl OutOfFuel"
| "parse_nested (Suc fuel) content_object nested start =
     (if at_close start then Inr (nested, start)
      else if content_object \<and> is_content (last nested) then Inr (nested, start)
      else bindr (parse_block fuel start) (\<lambda>(b, rest).
        parse_nested fuel content_object (nested @ [b]) rest))"

definition ParseBlock :: "byte list \<Rightarrow> fault + block \<times> byte list" where
  "ParseBlock start = parse_block (2 * length start + 1) start"

section \<open>The parser never runs out of fuel\<close>

lemma header_loop_length:
  "header_loop b v bs = (b', v', rest) \<Longrightarrow> length rest \<le> length bs"
  by (induction b v bs rule: header_loop.induct) (auto split: if_splits)

lemma parse_header_length:
  assumes "parse_header bs = (tt, v, rest)" and "bs \<noteq> []"
  shows "length rest < length bs"
proof -
  obtain x xs where bs: "bs = x # xs" using assms(2) by (cases bs) auto
  obtain b w r where l: "header_loop 0 0 bs = (b, w, r)" by (cases "header_loop 0 0 bs") auto
  from l bs have "header_loop x (push_bit 7 0 + ucast (0 :: byte)) xs = (b, w, r)"
    by (simp add: has_hbit_def)
  then have "length r \<le> length xs" by (rule header_loop_length)
  with assms l bs show ?thesis by (auto simp: parse_header_def)
qed

lemma read_bytes_length:
  "read_bytes n bs = Inr (xs, rest) \<Longrightarrow> length rest \<le> length bs"
  by (auto simp: read_bytes_def split: if_splits)

lemma read_bytes_fuel: "read_bytes n bs \<noteq> Inl OutOfFuel"
  by (simp add: read_bytes_def)

text \<open>The body of the parser, one equation per token type.\<close>

lemma tt_numerals:
  "tt_code t = 0 \<longleftrightarrow> t = CCN_EXT" "tt_code t = 1 \<longleftrightarrow> t = CCN_TAG" "tt_code t = 2 \<longleftrightarrow> t = CCN_DTAG"
  "tt_code t = 3 \<longleftrightarrow> t = CCN_ATTR" "tt_code t = 4 \<longleftrightarrow> t = CCN_DATTR" "tt_code t = 5 \<longleftrightarrow> t = CCN_BLOB"
  "tt_code t = 6 \<longleftrightarrow> t = CCN_UDATA"
  by (cases t; simp)+

definition parse_body :: "nat \<Rightarrow> bool \<Rightarrow> byte list \<Rightarrow>
    (block list \<Rightarrow> block list \<times> byte list \<Rightarrow> fault + block \<times> byte list) \<Rightarrow> fault + block \<times> byte list" where
  "parse_body fuel content_object start finish =
     bindr (parse_attrs fuel start) (\<lambda>(attrs, nested, rest).
       bindr (parse_nested fuel content_object nested rest) (finish attrs))"

lemma parse_block_Suc:
  assumes "parse_header start = (tt, value, rest)"
  shows
    "tt = 5 \<Longrightarrow> parse_block (Suc n) start =
       bindr (read_bytes (unat value) rest) (\<lambda>(bs, rest). Inr (Blob bs, rest))"
    "tt = 6 \<Longrightarrow> parse_block (Suc n) start =
       bindr (read_bytes (unat value) rest) (\<lambda>(bs, rest). Inr (Udata bs, rest))"
    "tt = 1 \<Longrightarrow> parse_block (Suc n) start =
       bindr (read_bytes (unat (value + 1)) rest) (\<lambda>(nm, rest). parse_body n False rest (finish_tag nm))"
    "tt = 3 \<Longrightarrow> parse_block (Suc n) start =
       bindr (read_bytes (unat (value + 1)) rest) (\<lambda>(nm, rest).
         bindr (parse_block n rest) (finish_attr (Attr nm)))"
    "tt = 2 \<Longrightarrow> parse_block (Suc n) start =
       (if value = dtag CCN_DTAG_Content then Inr (Dtag value [] [], rest)
        else parse_body n (value = dtag CCN_DTAG_ContentObject) rest (finish_dtag value))"
    "tt = 4 \<Longrightarrow> parse_block (Suc n) start = bindr (parse_block n rest) (finish_attr (Dattr value))"
    "tt = 0 \<Longrightarrow> parse_block (Suc n) start = Inr (Ext (ucast value), rest)"
    "tt > 6 \<Longrightarrow> parse_block (Suc n) start = Inl CcnbDecodingException"
  using assms by (simp_all add: parse_body_def)

lemma token_cases:
  obtains "tt = 5" | "tt = 6" | "tt = 1" | "tt = 3" | "tt = 2" | "tt = 4" | "tt = 0" | "tt > (6 :: nat)"
  by linarith

declare parse_block.simps(2) [simp del]


lemma finish_length:
  "finish_tag nm attrs (nested, rest) = Inr (b, rest') \<Longrightarrow> length rest' \<le> length rest"
  "finish_dtag v attrs (nested, rest) = Inr (b, rest') \<Longrightarrow> length rest' \<le> length rest"
  "finish_attr mk (b', rest) = Inr (b, rest') \<Longrightarrow> length rest' \<le> length rest"
  by (auto simp: finish_tag_def finish_dtag_def finish_attr_def Let_def
      split: if_splits block.splits)

lemma parse_header_le:
  assumes "parse_header bs = (tt, v, rest)"
  shows "length rest \<le> length bs \<and> (bs \<noteq> [] \<longrightarrow> length rest < length bs)"
proof (cases "bs = []")
  case True
  with assms show ?thesis by (auto simp: parse_header_def)
next
  case False
  with parse_header_length [OF assms] show ?thesis by simp
qed

lemma parser_consumes:
  shows "parse_block n bs = Inr (b, rest) \<Longrightarrow>
      length rest \<le> length bs \<and> (bs \<noteq> [] \<longrightarrow> length rest < length bs)"
    and "parse_attrs n bs = Inr (attrs, ns, rest) \<Longrightarrow> length rest \<le> length bs"
    and "parse_nested n co acc bs = Inr (ns, rest) \<Longrightarrow> length rest \<le> length bs"
proof (induction n arbitrary: bs b rest attrs ns co acc)
  case 0
  { case 1 then show ?case by simp }
  { case 2 then show ?case by simp }
  { case 3 then show ?case by simp }
next
  case (Suc n)
  have body: "length rest \<le> length r"
    if "parse_body n co' r f = Inr (b, rest)"
      and "\<And>a x r' . f a (x, r') = Inr (b, rest) \<Longrightarrow> length rest \<le> length r'"
    for co' r f b rest
  proof -
    from that(1) obtain a x r1 y r2 where
      p: "parse_attrs n r = Inr (a, x, r1)" "parse_nested n co' x r1 = Inr (y, r2)"
        "f a (y, r2) = Inr (b, rest)"
      by (auto simp: parse_body_def bindr_eq_Inr)
    from Suc.IH(2) [OF p(1)] Suc.IH(3) [OF p(2)] that(2) [OF p(3)] show ?thesis by linarith
  qed
  { case 1
    obtain tt v r where h: "parse_header bs = (tt, v, r)" by (cases "parse_header bs") auto
    have "length rest \<le> length r"
    proof (cases rule: token_cases [of tt])
      case 3
      with 1 h obtain nm r' where rb: "read_bytes (unat (v + 1)) r = Inr (nm, r')"
        and pb: "parse_body n False r' (finish_tag nm) = Inr (b, rest)"
        by (auto simp: parse_block_Suc(3) bindr_eq_Inr)
      have "length rest \<le> length r'" by (rule body [OF pb]) (rule finish_length)
      with read_bytes_length [OF rb] show ?thesis by simp
    next
      case 4
      with 1 h obtain nm r' b' r'' where rb: "read_bytes (unat (v + 1)) r = Inr (nm, r')"
        and pb: "parse_block n r' = Inr (b', r'')" and f: "finish_attr (Attr nm) (b', r'') = Inr (b, rest)"
        by (auto simp: parse_block_Suc(4) bindr_eq_Inr)
      from read_bytes_length [OF rb] Suc.IH(1) [OF pb] finish_length(3) [OF f] show ?thesis
        by linarith
    next
      case 5
      show ?thesis
      proof (cases "v = dtag CCN_DTAG_Content")
        case True
        with 1 h \<open>tt = 2\<close> show ?thesis by (simp add: parse_block_Suc(5))
      next
        case False
        with 1 h \<open>tt = 2\<close>
        have pb: "parse_body n (v = dtag CCN_DTAG_ContentObject) r (finish_dtag v) = Inr (b, rest)"
          by (simp add: parse_block_Suc(5))
        show ?thesis by (rule body [OF pb]) (rule finish_length)
      qed
    next
      case 6
      with 1 h obtain b' r'' where pb: "parse_block n r = Inr (b', r'')"
        and f: "finish_attr (Dattr v) (b', r'') = Inr (b, rest)"
        by (auto simp: parse_block_Suc(6) bindr_eq_Inr)
      from Suc.IH(1) [OF pb] finish_length(3) [OF f] show ?thesis by linarith
    qed (use 1 h in \<open>auto simp: parse_block_Suc bindr_eq_Inr dest: read_bytes_length\<close>)
    with parse_header_le [OF h] show ?case by auto }
  { case 2
    show ?case
    proof (cases "at_close bs")
      case True
      with 2 show ?thesis by simp
    next
      case False
      with 2 obtain b r where pb: "parse_block n bs = Inr (b, r)"
        and c: "(if is_base_attr b then bindr (parse_attrs n r)
            (\<lambda>(attrs, nested, rest). Inr (b # attrs, nested, rest)) else Inr ([], [b], r)) =
          Inr (attrs, ns, rest)"
        by (auto simp: bindr_eq_Inr)
      from c have "length rest \<le> length r"
        by (auto simp: bindr_eq_Inr split: if_splits dest: Suc.IH(2))
      with Suc.IH(1) [OF pb] show ?thesis by linarith
    qed }
  { case 3
    show ?case
    proof (cases "at_close bs \<or> co \<and> is_content (last acc)")
      case True
      with 3 show ?thesis by (auto split: if_splits)
    next
      case False
      with 3 obtain b r where pb: "parse_block n bs = Inr (b, r)"
        and pn: "parse_nested n co (acc @ [b]) r = Inr (attrs, rest)"
        by (auto simp: bindr_eq_Inr split: if_splits)
      from Suc.IH(1) [OF pb] Suc.IH(3) [OF pn] show ?thesis by linarith
    qed }
qed


lemma finish_fuel:
  "finish_tag nm attrs x \<noteq> Inl OutOfFuel" "finish_dtag v attrs x \<noteq> Inl OutOfFuel"
  "finish_attr mk y \<noteq> Inl OutOfFuel"
  by (auto simp: finish_tag_def finish_dtag_def finish_attr_def Let_def
      split: if_splits block.splits prod.splits)

lemma parser_fuel:
  shows "2 * length bs + 1 \<le> n \<Longrightarrow> parse_block n bs \<noteq> Inl OutOfFuel"
    and "2 * length bs + 2 \<le> n \<Longrightarrow> parse_attrs n bs \<noteq> Inl OutOfFuel"
    and "2 * length bs + 2 \<le> n \<Longrightarrow> parse_nested n co acc bs \<noteq> Inl OutOfFuel"
proof (induction n arbitrary: bs co acc)
  case 0
  { case 1 then show ?case by simp }
  { case 2 then show ?case by simp }
  { case 3 then show ?case by simp }
next
  case (Suc n)
  have body: "parse_body n co' r f \<noteq> Inl OutOfFuel"
    if "2 * length r + 2 \<le> n" and "\<And>a x. f a x \<noteq> Inl OutOfFuel" for co' r f
  proof -
    have "parse_nested n co' x r' \<noteq> Inl OutOfFuel"
      if "parse_attrs n r = Inr (a, x, r')" for a x r'
      using Suc.IH(3) [of r' co' x] parser_consumes(2) [OF that] \<open>2 * length r + 2 \<le> n\<close> by simp
    with Suc.IH(2) [OF \<open>2 * length r + 2 \<le> n\<close>] \<open>\<And>a x. f a x \<noteq> Inl OutOfFuel\<close> show ?thesis
      by (auto simp: parse_body_def bindr_eq_Inl)
  qed
  { case 1
    obtain tt v r where h: "parse_header bs = (tt, v, r)" by (cases "parse_header bs") auto
    show ?case
    proof (cases "bs = []")
      case True
      with h have "tt = 0" by (auto simp: parse_header_def)
      with h show ?thesis by (simp add: parse_block_Suc(7))
    next
      case False
      with parse_header_le [OF h] 1 have n: "2 * length r + 2 \<le> n" by auto
      have sub: "2 * length r' + 2 \<le> n" if "read_bytes k r = Inr (nm, r')" for k nm r'
        using read_bytes_length [OF that] n by simp
      show ?thesis
      proof (cases rule: token_cases [of tt])
        case 4
        have "parse_block n r' \<noteq> Inl OutOfFuel" if "read_bytes k r = Inr (nm, r')" for k nm r'
          using sub [OF that] Suc.IH(1) [of r'] by simp
        with 4 h show ?thesis
          by (auto simp: parse_block_Suc(4) bindr_eq_Inl read_bytes_fuel finish_fuel)
      qed (use h sub n in \<open>auto simp: parse_block_Suc bindr_eq_Inl read_bytes_fuel finish_fuel
             body Suc.IH(1)\<close>)
    qed }
  { case 2
    show ?case
    proof (cases "at_close bs")
      case False
      then have ne: "bs \<noteq> []" by (auto simp: at_close_def)
      have "parse_attrs n r \<noteq> Inl OutOfFuel" if "parse_block n bs = Inr (b, r)" for b r
        using Suc.IH(2) [of r] parser_consumes(1) [OF that] ne 2 by simp
      moreover have "parse_block n bs \<noteq> Inl OutOfFuel" using Suc.IH(1) 2 by simp
      ultimately show ?thesis using False by (auto simp: bindr_eq_Inl split: if_splits)
    qed simp }
  { case 3
    show ?case
    proof (cases "at_close bs \<or> co \<and> is_content (last acc)")
      case False
      then have ne: "bs \<noteq> []" by (auto simp: at_close_def)
      have "parse_nested n co acc' r \<noteq> Inl OutOfFuel" if "parse_block n bs = Inr (b, r)" for b r acc'
        using Suc.IH(3) [of r co acc'] parser_consumes(1) [OF that] ne 3 by simp
      moreover have "parse_block n bs \<noteq> Inl OutOfFuel" using Suc.IH(1) 3 by simp
      ultimately show ?thesis using False by (auto simp: bindr_eq_Inl split: if_splits)
    qed (auto split: if_splits) }
qed



end
