(* ===== verification/Headers.thy ===== *)
theory Headers
  imports Ccnb "HOL-Library.Signed_Division"
begin

text \<open>
  The packet headers and their encoder: \<open>network/ndn-interest-header.h/.cc\<close>,
  \<open>network/ndn-content-object-header.h/.cc\<close> and \<open>helper/ndn-encoding-helper.cc\<close>.

  Each \<open>Append...\<close> function is modelled by the bytes it appends to the buffer; the count it
  returns is their number. Each \<open>Estimate...\<close> function computes that number on its own, as
  the code does, and the lemmas compare the two.
\<close>

section \<open>The Interest header\<close>

record interest_header =
  ih_name :: "name option"
  ih_minSuffixComponents :: int
  ih_maxSuffixComponents :: int
  ih_exclude :: "name option"
  ih_childSelector :: bool
  ih_answerOriginKind :: bool
  ih_scope :: int
  ih_interestLifetime :: duration
  ih_nonce :: u32
  ih_nackType :: u32

definition NORMAL_INTEREST :: u32 where "NORMAL_INTEREST = 0"
definition NACK_LOOP :: u32 where "NACK_LOOP = 10"
definition NACK_CONGESTION :: u32 where "NACK_CONGESTION = 11"
definition NACK_GIVEUP_PIT :: u32 where "NACK_GIVEUP_PIT = 12"

definition InterestHeader_new :: interest_header where
  "InterestHeader_new = \<lparr>ih_name = None, ih_minSuffixComponents = -1, ih_maxSuffixComponents = -1,
     ih_exclude = None, ih_childSelector = False, ih_answerOriginKind = False, ih_scope = -1,
     ih_interestLifetime = 0, ih_nonce = 0, ih_nackType = NORMAL_INTEREST\<rparr>"

definition ih_GetName :: "interest_header \<Rightarrow> fault + name" where
  "ih_GetName h = (case ih_name h of None \<Rightarrow> Inl InterestHeaderException | Some n \<Rightarrow> Inr n)"

definition ih_IsEnabledExclude :: "interest_header \<Rightarrow> bool" where
  "ih_IsEnabledExclude h \<longleftrightarrow> ih_exclude h \<noteq> None"

definition ih_GetExclude :: "interest_header \<Rightarrow> fault + name" where
  "ih_GetExclude h = (case ih_exclude h of None \<Rightarrow> Inl InterestHeaderException | Some n \<Rightarrow> Inr n)"

definition ih_SetNack :: "u32 \<Rightarrow> interest_header \<Rightarrow> interest_header" where
  "ih_SetNack nackType h = h\<lparr>ih_nackType := nackType\<rparr>"

section \<open>The ContentObject header\<close>

record content_header =
  ch_name :: "name option"

definition ContentObjectHeader_new :: content_header where
  "ContentObjectHeader_new = \<lparr>ch_name = None\<rparr>"

definition ch_SetName :: "name \<Rightarrow> content_header \<Rightarrow> content_header" where
  "ch_SetName n h = h\<lparr>ch_name := Some n\<rparr>"

definition ch_GetName :: "content_header \<Rightarrow> fault + name" where
  "ch_GetName h = (case ch_name h of None \<Rightarrow> Inl ContentObjectHeaderException | Some n \<Rightarrow> Inr n)"

section \<open>Encoding of blocks\<close>

text \<open>
  \<open>AppendBlockHeader\<close> fills a local array from its end: the last byte carries the token
  type, four bits of the value and the high bit; seven more bits go into each byte before it.
\<close>

fun header_bytes :: "nat \<Rightarrow> byte list \<Rightarrow> byte list" where
  "header_bytes val p = (if val \<noteq> 0 then header_bytes (val div 128) (of_nat (val mod 128) # p) else p)"

definition AppendBlockHeader :: "nat \<Rightarrow> ccn_tt \<Rightarrow> byte list" where
  "AppendBlockHeader val tt = header_bytes (val div 16) [of_nat (128 + (val mod 16) * 8 + tt_code tt)]"

fun estimate_loop :: "nat \<Rightarrow> nat \<Rightarrow> nat" where
  "estimate_loop value n = (if value > 0 then estimate_loop (value div 128) (n + 1) else n)"

definition EstimateBlockHeader :: "nat \<Rightarrow> nat" where
  "EstimateBlockHeader value = estimate_loop (value div 16) 1"

declare header_bytes.simps [simp del] estimate_loop.simps [simp del]

text \<open>\<open>std::ostringstream << number\<close>: the decimal digits.\<close>

fun decimal :: "nat \<Rightarrow> byte list" where
  "decimal n = (if n < 10 then [of_nat (48 + n)] else decimal (n div 10) @ [of_nat (48 + n mod 10)])"

declare decimal.simps [simp del]

definition AppendNumber :: "nat \<Rightarrow> byte list" where
  "AppendNumber number = AppendBlockHeader (length (decimal number)) CCN_UDATA @ decimal number"

definition EstimateNumber :: "nat \<Rightarrow> nat" where
  "EstimateNumber number = EstimateBlockHeader (length (decimal number)) + length (decimal number)"

definition AppendCloser :: "byte list" where
  "AppendCloser = [CCN_CLOSE]"

definition AppendTaggedBlob :: "ccn_dtag \<Rightarrow> byte list \<Rightarrow> byte list" where
  "AppendTaggedBlob dt data =
     AppendBlockHeader (dtag_code dt) CCN_DTAG @
     (if length data > 0 then AppendBlockHeader (length data) CCN_BLOB @ data else []) @ AppendCloser"

definition EstimateTaggedBlob :: "ccn_dtag \<Rightarrow> nat \<Rightarrow> nat" where
  "EstimateTaggedBlob dt n =
     (if n > 0 then EstimateBlockHeader (dtag_code dt) + EstimateBlockHeader n + n + 1
      else EstimateBlockHeader (dtag_code dt) + 1)"

fun AppendNameComponents :: "name \<Rightarrow> byte list" where
  "AppendNameComponents [] = []"
| "AppendNameComponents (c # n) =
     AppendTaggedBlob CCN_DTAG_Component (bytes_of c) @ AppendNameComponents n"

fun EstimateNameComponents :: "name \<Rightarrow> nat" where
  "EstimateNameComponents [] = 0"
| "EstimateNameComponents (c # n) =
     EstimateTaggedBlob CCN_DTAG_Component (length c) + EstimateNameComponents n"

section \<open>Time stamps\<close>

text \<open>
  The accessors of \<open>boost::posix_time::time_duration\<close> at microsecond resolution; division
  truncates towards zero. \<open>seconds ()\<close> is the seconds field of hours:minutes:seconds, not the
  length in seconds.
\<close>

definition total_seconds :: "duration \<Rightarrow> int" where
  "total_seconds t = t sdiv 1000000"

definition seconds_field :: "duration \<Rightarrow> int" where
  "seconds_field t = (t sdiv 1000000) smod 60"

definition total_nanoseconds :: "duration \<Rightarrow> int" where
  "total_nanoseconds t = t * 1000"

function required_bytes_loop :: "nat \<Rightarrow> int \<Rightarrow> nat" where
  "required_bytes_loop required_bytes ts =
     (if required_bytes < 7 \<and> ts \<noteq> 0 then required_bytes_loop (required_bytes + 1) (ts div 256)
      else required_bytes)"
  by pat_completeness auto
termination
  by (relation "measure (\<lambda>(required_bytes, ts). 7 - required_bytes)") auto

declare required_bytes_loop.simps [simp del]

definition timestamp_fraction :: "duration \<Rightarrow> int" where
  "timestamp_fraction t =
     (((total_nanoseconds t smod 1000000000) sdiv 5) * 8 + 195312) sdiv 390625"

definition AppendTimestampBlob :: "duration \<Rightarrow> byte list" where
  "AppendTimestampBlob t =
     (let required_bytes = required_bytes_loop 2 (seconds_field t div 16);
          ts = total_seconds t div 16;
          ts' = (total_seconds t mod 16) * 4096 + timestamp_fraction t
      in AppendBlockHeader required_bytes CCN_BLOB @
         map (\<lambda>i. of_int (ts div 2 ^ (8 * (required_bytes - 3 - i)))) [0..<required_bytes - 2] @
         [of_int (ts' div 256), of_int ts'])"

definition EstimateTimestampBlob :: "duration \<Rightarrow> nat" where
  "EstimateTimestampBlob t =
     (let required_bytes = required_bytes_loop 2 (total_seconds t div 16)
      in EstimateBlockHeader required_bytes + required_bytes)"

section \<open>Whole headers\<close>

text \<open>The nonce is written in the byte order of the host (little endian).\<close>

definition nonce_bytes :: "u32 \<Rightarrow> byte list" where
  "nonce_bytes n = [ucast n, ucast (drop_bit 8 n), ucast (drop_bit 16 n), ucast (drop_bit 24 n)]"

definition append_field :: "bool \<Rightarrow> ccn_dtag \<Rightarrow> byte list \<Rightarrow> byte list" where
  "append_field enabled dt content =
     (if enabled then AppendBlockHeader (dtag_code dt) CCN_DTAG @ content @ AppendCloser else [])"

definition estimate_field :: "bool \<Rightarrow> ccn_dtag \<Rightarrow> nat \<Rightarrow> nat" where
  "estimate_field enabled dt n =
     (if enabled then EstimateBlockHeader (dtag_code dt) + n + 1 else 0)"

definition exclude_names :: "interest_header \<Rightarrow> name" where
  "exclude_names h = (case ih_exclude h of None \<Rightarrow> [] | Some n \<Rightarrow> n)"

definition SerializeInterest :: "interest_header \<Rightarrow> fault + byte list" where
  "SerializeInterest h = bindr (ih_GetName h) (\<lambda>nm. Inr (
     AppendBlockHeader (dtag_code CCN_DTAG_Interest) CCN_DTAG @
     append_field True CCN_DTAG_Name (AppendNameComponents nm) @
     append_field (ih_minSuffixComponents h \<ge> 0) CCN_DTAG_MinSuffixComponents
       (AppendNumber (nat (ih_minSuffixComponents h))) @
     append_field (ih_maxSuffixComponents h \<ge> 0) CCN_DTAG_MaxSuffixComponents
       (AppendNumber (nat (ih_maxSuffixComponents h))) @
     append_field (ih_IsEnabledExclude h \<and> length (exclude_names h) > 0) CCN_DTAG_Exclude
       (AppendNameComponents (exclude_names h)) @
     append_field (ih_childSelector h) CCN_DTAG_ChildSelector (AppendNumber 1) @
     append_field (ih_answerOriginKind h) CCN_DTAG_AnswerOriginKind (AppendNumber 1) @
     append_field (ih_scope h \<ge> 0) CCN_DTAG_Scope (AppendNumber (nat (ih_scope h))) @
     append_field (ih_interestLifetime h \<noteq> 0) CCN_DTAG_InterestLifetime
       (AppendTimestampBlob (ih_interestLifetime h)) @
     (if ih_nonce h > 0 then AppendTaggedBlob CCN_DTAG_Nonce (nonce_bytes (ih_nonce h)) else []) @
     append_field (ih_nackType h > 0) CCN_DTAG_Nack (AppendNumber (unat (ih_nackType h))) @
     AppendCloser))"

definition GetSizeInterest :: "interest_header \<Rightarrow> fault + nat" where
  "GetSizeInterest h = bindr (ih_GetName h) (\<lambda>nm. Inr (
     EstimateBlockHeader (dtag_code CCN_DTAG_Interest) +
     estimate_field True CCN_DTAG_Name (EstimateNameComponents nm) +
     estimate_field (ih_minSuffixComponents h \<ge> 0) CCN_DTAG_MinSuffixComponents
       (EstimateNumber (nat (ih_minSuffixComponents h))) +
     estimate_field (ih_maxSuffixComponents h \<ge> 0) CCN_DTAG_MaxSuffixComponents
       (EstimateNumber (nat (ih_maxSuffixComponents h))) +
     estimate_field (ih_IsEnabledExclude h \<and> length (exclude_names h) > 0) CCN_DTAG_Exclude
       (EstimateNameComponents (exclude_names h)) +
     estimate_field (ih_childSelector h) CCN_DTAG_ChildSelector (EstimateNumber 1) +
     estimate_field (ih_answerOriginKind h) CCN_DTAG_AnswerOriginKind (EstimateNumber 1) +
     estimate_field (ih_scope h \<ge> 0) CCN_DTAG_Scope (EstimateNumber (nat (ih_scope h))) +
     estimate_field (ih_interestLifetime h \<noteq> 0) CCN_DTAG_InterestLifetime
       (EstimateTimestampBlob (ih_interestLifetime h)) +
     (if ih_nonce h > 0 then EstimateTaggedBlob CCN_DTAG_Nonce 4 else 0) +
     estimate_field (ih_nackType h > 0) CCN_DTAG_Nack (EstimateNumber (unat (ih_nackType h))) +
     1))"

definition SerializeContent :: "content_header \<Rightarrow> fault + byte list" where
  "SerializeContent h = bindr (ch_GetName h) (\<lambda>nm. Inr (
     AppendBlockHeader (dtag_code CCN_DTAG_ContentObject) CCN_DTAG @
     append_field True CCN_DTAG_Signature (AppendTaggedBlob CCN_DTAG_SignatureBits []) @
     append_field True CCN_DTAG_Name (AppendNameComponents nm) @
     append_field True CCN_DTAG_SignedInfo (AppendTaggedBlob CCN_DTAG_PublisherPublicKeyDigest []) @
     AppendBlockHeader (dtag_code CCN_DTAG_Content) CCN_DTAG))"

definition GetSizeContent :: "content_header \<Rightarrow> fault + nat" where
  "GetSizeContent h = bindr (ch_GetName h) (\<lambda>nm. Inr (
     EstimateBlockHeader (dtag_code CCN_DTAG_ContentObject) +
     estimate_field True CCN_DTAG_Signature (EstimateTaggedBlob CCN_DTAG_SignatureBits 0) +
     estimate_field True CCN_DTAG_Name (EstimateNameComponents nm) +
     estimate_field True CCN_DTAG_SignedInfo (EstimateTaggedBlob CCN_DTAG_PublisherPublicKeyDigest 0) +
     EstimateBlockHeader (dtag_code CCN_DTAG_Content)))"

section \<open>Sizes\<close>

lemma header_bytes_length: "length (header_bytes v p) = estimate_loop v (length p)"
proof (induction v p rule: header_bytes.induct)
  case (1 v p)
  then show ?case
    by (subst header_bytes.simps, subst estimate_loop.simps) simp
qed

lemma length_AppendBlockHeader: "length (AppendBlockHeader v tt) = EstimateBlockHeader v"
  by (simp add: AppendBlockHeader_def EstimateBlockHeader_def header_bytes_length)

named_theorems size_simps

lemma length_AppendNumber [size_simps]: "length (AppendNumber n) = EstimateNumber n"
  by (simp add: AppendNumber_def EstimateNumber_def length_AppendBlockHeader)

lemma length_AppendTaggedBlob [size_simps]:
  "length (AppendTaggedBlob dt d) = EstimateTaggedBlob dt (length d)"
  by (simp add: AppendTaggedBlob_def EstimateTaggedBlob_def AppendCloser_def
      length_AppendBlockHeader)

lemma length_AppendNameComponents [size_simps]:
  "length (AppendNameComponents n) = EstimateNameComponents n"
  by (induction n) (simp_all add: length_AppendTaggedBlob)

lemma length_append_field [size_simps]:
  "length (append_field e dt c) = estimate_field e dt (length c)"
  by (simp add: append_field_def estimate_field_def AppendCloser_def length_AppendBlockHeader)

lemma length_nonce_bytes [size_simps]: "length (nonce_bytes n) = 4"
  by (simp add: nonce_bytes_def)

lemma required_bytes_ge: "n \<le> required_bytes_loop n ts"
proof (induction n ts rule: required_bytes_loop.induct)
  case (1 n ts)
  then show ?case by (subst required_bytes_loop.simps) auto
qed

lemma length_AppendTimestampBlob:
  "length (AppendTimestampBlob t) =
     EstimateBlockHeader (required_bytes_loop 2 (seconds_field t div 16)) +
     required_bytes_loop 2 (seconds_field t div 16)"
  using required_bytes_ge [of 2 "seconds_field t div 16"]
  by (simp add: AppendTimestampBlob_def Let_def length_AppendBlockHeader)

end
