(* ===== verification/Visitors.thy ===== *)
theory Visitors
  imports Headers
begin

text \<open>
  The decoder: the visitors of \<open>helper/ccnb-parser/visitors/*.cc\<close>,
  \<open>helper/ndn-decoding-helper.cc\<close>, \<open>helper/ndn-header-helper.cc\<close> and
  \<open>network/packet.h/.cc\<close>, \<open>network/ndn-content-packet.cc\<close>.

  A visitor that returns a \<open>boost::any\<close> is a function to \<open>any_val\<close>; the casts fail on the
  other cases. A visitor that fills an object passed by pointer threads that object.
\<close>

section \<open>Values of boost::any\<close>

datatype any_val = AnyEmpty | AnyBlob "byte list" | AnyString string | AnyU32 u32 | AnyU64 u64
  | AnyTime duration

fun any_u32 :: "any_val \<Rightarrow> fault + u32" where
  "any_u32 (AnyU32 v) = Inr v"
| "any_u32 _ = Inl BadAnyCast"

fun any_string :: "any_val \<Rightarrow> fault + string" where
  "any_string (AnyString v) = Inr v"
| "any_string _ = Inl BadAnyCast"

fun any_time :: "any_val \<Rightarrow> fault + duration" where
  "any_time (AnyTime v) = Inr v"
| "any_time _ = Inl BadAnyCast"

section \<open>Visitors that return a value\<close>

text \<open>
  \<open>NoArguDepthFirstVisitor\<close>, whose visits of \<open>Blob\<close> and \<open>Udata\<close> the concrete visitors
  override: tags are walked for the faults below them and return an empty value.
\<close>

fun depth_first :: "(byte list \<Rightarrow> fault + any_val) \<Rightarrow> (byte list \<Rightarrow> fault + any_val) \<Rightarrow>
      block \<Rightarrow> fault + any_val"
  and depth_first_list :: "(byte list \<Rightarrow> fault + any_val) \<Rightarrow> (byte list \<Rightarrow> fault + any_val) \<Rightarrow>
      block list \<Rightarrow> fault + any_val"
where
  "depth_first vb vu (Blob b) = vb b"
| "depth_first vb vu (Udata u) = vu u"
| "depth_first vb vu (Tag nm as ns) =
     bindr (depth_first_list vb vu as) (\<lambda>_. depth_first_list vb vu ns)"
| "depth_first vb vu (Dtag t as ns) =
     bindr (depth_first_list vb vu as) (\<lambda>_. depth_first_list vb vu ns)"
| "depth_first vb vu (Attr nm v) = Inr AnyEmpty"
| "depth_first vb vu (Dattr d v) = Inr AnyEmpty"
| "depth_first vb vu (Ext x) = Inr (AnyU64 x)"
| "depth_first_list vb vu [] = Inr AnyEmpty"
| "depth_first_list vb vu (b # bs) = bindr (depth_first vb vu b) (\<lambda>_. depth_first_list vb vu bs)"

text \<open>
  \<open>istringstream >> int32_t\<close>: leading white space, an optional sign, digits; no digits give 0
  and a value out of range gives the nearest bound, as the standard's \<open>num_get\<close> does.
\<close>

fun digits_value :: "byte list \<Rightarrow> nat \<Rightarrow> nat" where
  "digits_value [] acc = acc"
| "digits_value (d # ds) acc =
     (if 48 \<le> unat d \<and> unat d \<le> 57 then digits_value ds (acc * 10 + (unat d - 48)) else acc)"

definition clamp_int32 :: "int \<Rightarrow> int" where
  "clamp_int32 v = max (- 2147483648) (min 2147483647 v)"

definition read_int32 :: "byte list \<Rightarrow> int" where
  "read_int32 s =
     (case dropWhile (\<lambda>b. is_space (char_of_byte b)) s of
        [] \<Rightarrow> 0
      | c # ds \<Rightarrow>
          if c = byte_of CHR ''-'' then clamp_int32 (- int (digits_value ds 0))
          else if c = byte_of CHR ''+'' then clamp_int32 (int (digits_value ds 0))
          else clamp_int32 (int (digits_value (c # ds) 0)))"

definition NonNegativeIntegerVisitor :: "block \<Rightarrow> fault + any_val" where
  "NonNegativeIntegerVisitor = depth_first
     (\<lambda>b. Inl CcnbDecodingException)
     (\<lambda>u. let value = read_int32 u in
          if value < 0 then Inl CcnbDecodingException else Inr (AnyU32 (of_int value)))"

definition StringVisitor :: "block \<Rightarrow> fault + any_val" where
  "StringVisitor = depth_first (\<lambda>b. Inr (AnyString (string_of b))) (\<lambda>u. Inr (AnyString (string_of u)))"

text \<open>The first four bytes of the blob, in the byte order of the host.\<close>

definition nonce_of_bytes :: "byte list \<Rightarrow> u32" where
  "nonce_of_bytes b = ucast (b ! 0) + push_bit 8 (ucast (b ! 1)) + push_bit 16 (ucast (b ! 2)) +
     push_bit 24 (ucast (b ! 3))"

definition NonceVisitor :: "block \<Rightarrow> fault + any_val" where
  "NonceVisitor = depth_first
     (\<lambda>b. if length b < 4 then Inl CcnbDecodingException else Inr (AnyU32 (nonce_of_bytes b)))
     (\<lambda>u. Inl CcnbDecodingException)"

text \<open>
  Seconds are gathered in a 64-bit integer. The last byte is read through a
  \<open>const char *\<close>, so it is sign-extended before it is or-ed in.
\<close>

definition timestamp_seconds :: "byte list \<Rightarrow> u64" where
  "timestamp_seconds b =
     push_bit 4 (fold (\<lambda>x sec. push_bit 8 sec OR ucast x) (take (length b - 2) b) 0)
       OR ucast (drop_bit 4 (b ! (length b - 2)))"

definition timestamp_usec :: "byte list \<Rightarrow> int" where
  "timestamp_usec b =
     (let usec = push_bit 8 (uint (b ! (length b - 2) AND 15)) OR sint (b ! (length b - 1))
      in (usec * 1000000) sdiv 4096)"

definition TimestampVisitor :: "block \<Rightarrow> fault + any_val" where
  "TimestampVisitor = depth_first
     (\<lambda>b. if length b < 2 then Inl CcnbDecodingException
          else Inr (AnyTime (sint (timestamp_seconds b) * 1000000 + timestamp_usec b)))
     (\<lambda>u. Inl CcnbDecodingException)"

section \<open>Visitors that fill an object\<close>

text \<open>
  \<open>VoidDepthFirstVisitor\<close> with the visit of \<open>Dtag\<close> overridden: tags are walked, everything
  but tags and dictionary tags is ignored.
\<close>

definition single :: "block list \<Rightarrow> fault + block" where
  "single ns = (case ns of [b] \<Rightarrow> Inr b | _ \<Rightarrow> Inl CcnbDecodingException)"

fun visit_name :: "block \<Rightarrow> name \<Rightarrow> fault + name"
  and visit_name_list :: "block list \<Rightarrow> name \<Rightarrow> fault + name"
where
  "visit_name (Dtag t as ns) components =
     (if t = dtag CCN_DTAG_Component then
        bindr (single ns) (\<lambda>b. bindr (StringVisitor b) (\<lambda>v. bindr (any_string v) (\<lambda>s.
          Inr (Add components s))))
      else Inr components)"
| "visit_name (Tag nm as ns) components =
     bindr (visit_name_list as components) (visit_name_list ns)"
| "visit_name b components = Inr components"
| "visit_name_list [] components = Inr components"
| "visit_name_list (b # bs) components = bindr (visit_name b components) (visit_name_list bs)"

definition int32_of :: "u32 \<Rightarrow> int" where
  "int32_of v = sint v"

definition int8_of :: "u32 \<Rightarrow> int" where
  "int8_of v = sint (ucast v :: byte)"

definition single_u32 :: "(block \<Rightarrow> fault + any_val) \<Rightarrow> block list \<Rightarrow> fault + u32" where
  "single_u32 visitor ns = bindr (single ns) (\<lambda>b. bindr (visitor b) any_u32)"

text \<open>
  \<open>InterestVisitor::visit (Dtag)\<close> for the tags without nested \<open>InterestVisitor\<close> calls.
\<close>

definition visit_interest_field :: "u32 \<Rightarrow> block list \<Rightarrow> interest_header \<Rightarrow> fault + interest_header" where
  "visit_interest_field t ns h =
     (if t = dtag CCN_DTAG_Name then
        bindr (visit_name_list ns []) (\<lambda>n. Inr (h\<lparr>ih_name := Some n\<rparr>))
      else if t = dtag CCN_DTAG_MinSuffixComponents then
        bindr (single_u32 NonNegativeIntegerVisitor ns) (\<lambda>v.
          Inr (h\<lparr>ih_minSuffixComponents := int32_of v\<rparr>))
      else if t = dtag CCN_DTAG_MaxSuffixComponents then
        bindr (single_u32 NonNegativeIntegerVisitor ns) (\<lambda>v.
          Inr (h\<lparr>ih_maxSuffixComponents := int32_of v\<rparr>))
      else if t = dtag CCN_DTAG_Exclude then
        bindr (visit_name_list ns []) (\<lambda>n. Inr (h\<lparr>ih_exclude := Some n\<rparr>))
      else if t = dtag CCN_DTAG_ChildSelector then
        bindr (single_u32 NonNegativeIntegerVisitor ns) (\<lambda>v. Inr (h\<lparr>ih_childSelector := (v = 1)\<rparr>))
      else if t = dtag CCN_DTAG_AnswerOriginKind then
        bindr (single_u32 NonNegativeIntegerVisitor ns) (\<lambda>v. Inr (h\<lparr>ih_answerOriginKind := (v = 1)\<rparr>))
      else if t = dtag CCN_DTAG_Scope then
        bindr (single_u32 NonNegativeIntegerVisitor ns) (\<lambda>v. Inr (h\<lparr>ih_scope := int8_of v\<rparr>))
      else if t = dtag CCN_DTAG_InterestLifetime then
        bindr (single ns) (\<lambda>b. bindr (TimestampVisitor b) (\<lambda>v. bindr (any_time v) (\<lambda>d.
          Inr (h\<lparr>ih_interestLifetime := d\<rparr>))))
      else if t = dtag CCN_DTAG_Nonce then
        bindr (single_u32 NonceVisitor ns) (\<lambda>v. Inr (h\<lparr>ih_nonce := v\<rparr>))
      else if t = dtag CCN_DTAG_Nack then
        bindr (single_u32 NonNegativeIntegerVisitor ns) (\<lambda>v. Inr (h\<lparr>ih_nackType := v\<rparr>))
      else Inr h)"

fun visit_interest :: "block \<Rightarrow> interest_header \<Rightarrow> fault + interest_header"
  and visit_interest_list :: "block list \<Rightarrow> interest_header \<Rightarrow> fault + interest_header"
where
  "visit_interest (Dtag t as ns) h =
     (if t = dtag CCN_DTAG_Interest then visit_interest_list ns h else visit_interest_field t ns h)"
| "visit_interest (Tag nm as ns) h = bindr (visit_interest_list as h) (visit_interest_list ns)"
| "visit_interest b h = Inr h"
| "visit_interest_list [] h = Inr h"
| "visit_interest_list (b # bs) h = bindr (visit_interest b h) (visit_interest_list bs)"

fun visit_content :: "block \<Rightarrow> content_header \<Rightarrow> fault + content_header"
  and visit_content_list :: "block list \<Rightarrow> content_header \<Rightarrow> fault + content_header"
where
  "visit_content (Dtag t as ns) h =
     (if t = dtag CCN_DTAG_ContentObject then visit_content_list ns h
      else if t = dtag CCN_DTAG_Name then
        bindr (visit_name_list ns []) (\<lambda>n. Inr (ch_SetName n h))
      else Inr h)"
| "visit_content (Tag nm as ns) h = bindr (visit_content_list as h) (visit_content_list ns)"
| "visit_content b h = Inr h"
| "visit_content_list [] h = Inr h"
| "visit_content_list (b # bs) h = bindr (visit_content b h) (visit_content_list bs)"

section \<open>Decoding a buffer\<close>

text \<open>
  \<open>NDNDecodingHelper::Deserialize\<close>: the header and the number returned, the distance of the
  iterator as the eight-bit value that \<open>GetDistance\<close> gives.
\<close>

definition DeserializeInterest :: "buffer \<Rightarrow> interest_header \<Rightarrow> fault + interest_header \<times> byte" where
  "DeserializeInterest b h =
     bindr (ParseBlock (m_data b)) (\<lambda>(root, rest).
     bindr (visit_interest root h) (\<lambda>h'. Inr (h', GetDistance (m_data b) rest)))"

definition DeserializeContent :: "buffer \<Rightarrow> content_header \<Rightarrow> fault + content_header \<times> byte" where
  "DeserializeContent b h =
     bindr (ParseBlock (m_data b)) (\<lambda>(root, rest).
     bindr (visit_content root h) (\<lambda>h'. Inr (h', GetDistance (m_data b) rest)))"

section \<open>Packets\<close>

text \<open>
  Link-layer metadata attached to a packet (\<open>llmetadataptr\<close>): \<open>LLMetadataOverIP\<close> with the
  sender's address and port, or the metadata of the ad-hoc layer, which the NDN layer only passes
  on; no metadata is the null pointer. The NDN layer frees the metadata and leaves the pointer
  in the packet: \<open>FreedMetadata\<close> is that dangling pointer. The double pointer
  \<open>llmetadata\<close> refers to that field (\<open>pk_linked\<close>) in packets made from received bytes; in
  one from \<open>Create<Packet> ()\<close> it is null.
\<close>

datatype ll_metadata = OverIP u32 "16 word" | OverAdhoc nat | FreedMetadata

record packet =
  pk_buffer :: buffer
  pk_llmetadata :: "ll_metadata option"
  pk_linked :: bool

definition Packet_new :: packet where
  "Packet_new = \<lparr>pk_buffer = Buffer_new, pk_llmetadata = None, pk_linked = False\<rparr>"

definition InitFromBuffer :: "byte list \<Rightarrow> fault + packet" where
  "InitFromBuffer bs =
     (if length bs \<le> BUFLEN then Inr \<lparr>pk_buffer = \<lparr>m_data = bs\<rparr>, pk_llmetadata = None, pk_linked = True\<rparr>
      else Inl AssertionFailed)"

definition AddInterestHeader :: "interest_header \<Rightarrow> packet \<Rightarrow> fault + packet" where
  "AddInterestHeader h p = bindr (SerializeInterest h) (\<lambda>bs.
     bindr (buffer_write bs (pk_buffer p)) (\<lambda>b. Inr (p\<lparr>pk_buffer := b\<rparr>)))"

definition AddContentHeader :: "content_header \<Rightarrow> packet \<Rightarrow> fault + packet" where
  "AddContentHeader h p = bindr (SerializeContent h) (\<lambda>bs.
     bindr (buffer_write bs (pk_buffer p)) (\<lambda>b. Inr (p\<lparr>pk_buffer := b\<rparr>)))"

definition AddPayload :: "byte list \<Rightarrow> packet \<Rightarrow> fault + packet" where
  "AddPayload payload p = bindr (buffer_write payload (pk_buffer p)) (\<lambda>b. Inr (p\<lparr>pk_buffer := b\<rparr>))"

definition Packet_GetSize :: "packet \<Rightarrow> nat" where
  "Packet_GetSize p = buffer_size (pk_buffer p)"

definition GetPayload :: "packet \<Rightarrow> nat \<Rightarrow> nat \<Rightarrow> byte list" where
  "GetPayload p offset len = buffer_read (pk_buffer p) offset len"

definition CopyData :: "packet \<Rightarrow> nat \<Rightarrow> byte list" where
  "CopyData p len = buffer_read (pk_buffer p) 0 len"

definition GetInterestHeader :: "packet \<Rightarrow> fault + interest_header" where
  "GetInterestHeader p = bindr (DeserializeInterest (pk_buffer p) InterestHeader_new) (\<lambda>(h, _). Inr h)"

definition GetContentHeader :: "packet \<Rightarrow> fault + content_header" where
  "GetContentHeader p = bindr (DeserializeContent (pk_buffer p) ContentObjectHeader_new) (\<lambda>(h, _). Inr h)"

text \<open>\<open>NDNContentPacket\<close>: a header with the name, then the payload.\<close>

definition NDNContentPacket :: "name \<Rightarrow> byte list \<Rightarrow> fault + packet" where
  "NDNContentPacket n payload =
     bindr (AddContentHeader (ch_SetName n ContentObjectHeader_new) Packet_new) (AddPayload payload)"

section \<open>The type of a packet\<close>

datatype header_type = INTEREST | CONTENT_OBJECT

definition GetNDNHeaderType :: "packet \<Rightarrow> fault + header_type" where
  "GetNDNHeaderType p =
     (let ty = CopyData p 2 in
      if ty ! 0 = 0x01 \<and> ty ! 1 = 0xD2 then Inr INTEREST
      else if ty ! 0 = 0x04 \<and> ty ! 1 = 0x82 then Inr CONTENT_OBJECT
      else Inl NDNUnknownHeaderException)"

end
