(* ===== verification/Codec.thy ===== *)
theory Codec
  imports Visitors
begin

text \<open>
  Encoder against decoder. \<open>enc_block\<close> is the encoding of a syntax tree, the specification that
  \<open>ParseBlock\<close> inverts (\<open>parse_enc_block\<close>); the serializers of the two headers write the
  encoding of \<open>interest_tree\<close> and \<open>content_tree\<close>, and the visitors read the header back from
  these trees. The \<open>header_codec\<close> interface states the contract for both kinds of header.
\<close>

section \<open>The encoding of a syntax tree\<close>

fun enc_block :: "block \<Rightarrow> byte list" where
  "enc_block (Blob b) = AppendBlockHeader (length b) CCN_BLOB @ b"
| "enc_block (Udata u) = AppendBlockHeader (length u) CCN_UDATA @ u"
| "enc_block (Dtag t as ns) =
     AppendBlockHeader (unat t) CCN_DTAG @ concat (map enc_block ns) @ AppendCloser"
| "enc_block _ = []"

fun plain_tree :: "block \<Rightarrow> bool" where
  "plain_tree (Blob b) \<longleftrightarrow> length b < 2 ^ 32"
| "plain_tree (Udata u) \<longleftrightarrow> length u < 2 ^ 32"
| "plain_tree (Dtag t as ns) \<longleftrightarrow>
     t \<noteq> dtag CCN_DTAG_Content \<and> t \<noteq> dtag CCN_DTAG_ContentObject \<and> as = [] \<and> list_all plain_tree ns"
| "plain_tree _ \<longleftrightarrow> False"

section \<open>Block headers\<close>

lemma header_loop_bytes:
  "\<exists>b w. \<not> has_hbit b \<and> push_bit 7 w + ucast b = (of_nat v :: u32) \<and>
     header_loop 0 0 (header_bytes v p @ rest) = header_loop b w (p @ rest)"
proof (induction v p rule: header_bytes.induct)
  case (1 v p)
  show ?case
  proof (cases "v = 0")
    case True
    then show ?thesis by (subst header_bytes.simps) (intro exI [of _ 0], simp add: has_hbit_def)
  next
    case False
    let ?x = "of_nat (v mod 128) :: byte"
    obtain b w where *: "\<not> has_hbit b" "push_bit 7 w + ucast b = (of_nat (v div 128) :: u32)"
      "header_loop 0 0 (header_bytes (v div 128) (?x # p) @ rest) = header_loop b w (?x # p @ rest)"
      using 1 [OF False] by auto
    have x: "unat ?x = v mod 128" by (rule word_of_nat_byte_eq) (use mod_less_divisor [of 128 v] in linarith)
    have "\<not> has_hbit ?x"
    proof -
      have "bit ?x 7 \<longleftrightarrow> bit (unat ?x) 7" by (simp add: bit_unsigned_iff)
      then show ?thesis by (simp add: has_hbit_def bit_iff_odd x del: unsigned_of_nat)
    qed
    moreover have "push_bit 7 (of_nat (v div 128)) + ucast ?x = (of_nat v :: u32)"
    proof -
      have u: "(ucast ?x :: u32) = of_nat (v mod 128)" 
        using of_nat_unat [of ?x, where ?'a = "32 word"] by (simp only: x)
      have "(of_nat v :: u32) = of_nat (v div 128 * 128 + v mod 128)" by simp
      also have "\<dots> = of_nat (v div 128) * 128 + of_nat (v mod 128)" by (simp only: of_nat_add of_nat_mult of_nat_numeral)
      finally show ?thesis by (simp add: u push_bit_eq_mult)
    qed
    moreover have "header_loop 0 0 (header_bytes v p @ rest) = header_loop ?x (of_nat (v div 128)) (p @ rest)"
      using * False by (subst header_bytes.simps) simp
    ultimately show ?thesis by blast
  qed
qed

lemma last_byte:
  assumes "m < 16" "t < 8"
  shows "has_hbit (of_nat (128 + m * 8 + t))"
    and "unat (of_nat (128 + m * 8 + t) AND (7 :: byte)) = t"
    and "drop_bit 3 (of_nat (128 + m * 8 + t) AND (127 :: byte)) = of_nat m"
proof -
  have m: "m \<in> set [0..<16]" and t: "t \<in> set [0..<8]" using assms by auto
  have "\<forall>m \<in> set [0..<16]. \<forall>t \<in> set [0..<8]. has_hbit (of_nat (128 + m * 8 + t)) \<and>
    unat (of_nat (128 + m * 8 + t) AND (7 :: byte)) = t \<and>
    drop_bit 3 (of_nat (128 + m * 8 + t) AND (127 :: byte)) = of_nat m"
    by code_simp
  with m t show "has_hbit (of_nat (128 + m * 8 + t))"
    and "unat (of_nat (128 + m * 8 + t) AND (7 :: byte)) = t"
    and "drop_bit 3 (of_nat (128 + m * 8 + t) AND (127 :: byte)) = of_nat m" by blast+
qed

lemma tt_code_less: "tt_code tt < 8"
  by (cases tt) simp_all

lemma parse_header_append:
  "parse_header (AppendBlockHeader val tt @ rest) = (tt_code tt, of_nat val, rest)"
proof -
  let ?last = "of_nat (128 + (val mod 16) * 8 + tt_code tt) :: byte"
  obtain b w where *: "\<not> has_hbit b" "push_bit 7 w + ucast b = (of_nat (val div 16) :: u32)"
    "header_loop 0 0 (header_bytes (val div 16) [?last] @ rest) = header_loop b w ([?last] @ rest)"
    using header_loop_bytes [of "val div 16" "[?last]" rest] by blast
  have last: "has_hbit ?last" "unat (?last AND 7) = tt_code tt"
    "drop_bit 3 (?last AND 127) = of_nat (val mod 16)"
    using last_byte [of "val mod 16" "tt_code tt"] tt_code_less by auto
  have "header_loop ?last (of_nat (val div 16)) rest = (?last, of_nat (val div 16), rest)"
    using last(1) by (cases rest) (simp_all del: of_nat_add of_nat_mult)
  then have l: "header_loop 0 0 (AppendBlockHeader val tt @ rest) = (?last, of_nat (val div 16), rest)"
    using * unfolding AppendBlockHeader_def by (simp del: of_nat_add of_nat_mult of_nat_numeral)
  have byte16: "unat (of_nat (val mod 16) :: byte) = val mod 16"
    by (rule word_of_nat_byte_eq) (use mod_less_divisor [of 16 val] in linarith)
  have "(ucast (of_nat (val mod 16) :: byte) :: u32) = of_nat (val mod 16)"
    using of_nat_unat [of "of_nat (val mod 16) :: byte", where ?'a = "32 word"] by (simp only: byte16)
  moreover have "(of_nat val :: u32) = of_nat (val div 16) * 16 + of_nat (val mod 16)"
    by (metis div_mult_mod_eq of_nat_add of_nat_mult of_nat_numeral)
  ultimately have "push_bit 4 (of_nat (val div 16)) + ucast (of_nat (val mod 16) :: byte) = (of_nat val :: u32)"
    by (simp add: push_bit_eq_mult)
  then show ?thesis by (simp only: parse_header_def l prod.case last)
qed

lemma header_bytes_hd:
  "p \<noteq> [] \<Longrightarrow> v \<noteq> 0 \<or> hd p \<noteq> 0 \<Longrightarrow> header_bytes v p \<noteq> [] \<and> hd (header_bytes v p) \<noteq> 0"
proof (induction v p rule: header_bytes.induct)
  case (1 v p)
  show ?case
  proof (cases "v = 0")
    case True
    then show ?thesis using 1 by (subst (1 2) header_bytes.simps) simp
  next
    case False
    have "v mod 128 < 256" using mod_less_divisor [of 128 v] by linarith
    then have "(of_nat (v mod 128) :: byte) = 0 \<longleftrightarrow> v mod 128 = 0"
      by (simp only: word_of_nat_eq_0_iff) (auto dest: nat_dvd_not_less)
    moreover have "v div 128 \<noteq> 0 \<or> v mod 128 \<noteq> 0"
      using False by (metis div_mult_mod_eq mult_0 add_0)
    ultimately have "header_bytes (v div 128) (of_nat (v mod 128) # p) \<noteq> [] \<and>
        hd (header_bytes (v div 128) (of_nat (v mod 128) # p)) \<noteq> 0"
      by (intro 1(1) False) simp_all
    then show ?thesis using False by (subst (1 2) header_bytes.simps) simp
  qed
qed

lemma AppendBlockHeader_hd: "AppendBlockHeader v tt \<noteq> [] \<and> hd (AppendBlockHeader v tt) \<noteq> 0"
proof -
  have "has_hbit (of_nat (128 + (v mod 16) * 8 + tt_code tt))"
    by (rule last_byte) (simp_all add: tt_code_less)
  then have "(of_nat (128 + (v mod 16) * 8 + tt_code tt) :: byte) \<noteq> 0"
    by (rule contrapos_pn) (simp only: has_hbit_def bit_0_eq bot_apply bot_bool_def, simp)
  then show ?thesis unfolding AppendBlockHeader_def by (intro header_bytes_hd) simp_all
qed

lemma at_close_AppendBlockHeader: "\<not> at_close (AppendBlockHeader v tt @ rest)"
  using AppendBlockHeader_hd [of v tt] by (auto simp: at_close_def CCN_CLOSE_def)

lemma enc_block_open: "plain_tree b \<Longrightarrow> \<not> at_close (enc_block b @ rest)"
  by (cases b) (simp_all add: at_close_AppendBlockHeader)

lemma enc_block_Cons: "plain_tree b \<Longrightarrow> \<exists>x xs. enc_block b = x # xs"
  by (cases "enc_block b"; cases b) (use AppendBlockHeader_hd in auto)

section \<open>Parsing an encoded tree\<close>

lemma parse_nested_encoded:
  assumes "\<And>b fuel rest. b \<in> set ns \<Longrightarrow> 2 * length (enc_block b) + 1 \<le> fuel \<Longrightarrow>
      parse_block fuel (enc_block b @ rest) = Inr (b, rest)"
    and "list_all plain_tree ns" and "2 * length (concat (map enc_block ns)) + 2 \<le> fuel"
    and "at_close rest"
  shows "parse_nested fuel False acc (concat (map enc_block ns) @ rest) = Inr (acc @ ns, rest)"
  using assms
proof (induction ns arbitrary: fuel acc)
  case Nil
  then show ?case by (cases fuel) auto
next
  case (Cons b ns)
  then obtain f where f: "fuel = Suc f" by (cases fuel) auto
  have "plain_tree b" using Cons.prems by simp
  from enc_block_Cons [OF this] obtain x xs where ne: "enc_block b = x # xs" by blast
  have "parse_block f (enc_block b @ (concat (map enc_block ns) @ rest)) = Inr (b, concat (map enc_block ns) @ rest)"
    by (rule Cons.prems(1)) (use Cons.prems(3) f ne in auto)
  moreover have "parse_nested f False (acc @ [b]) (concat (map enc_block ns) @ rest) = Inr ((acc @ [b]) @ ns, rest)"
    by (rule Cons.IH) (use Cons.prems f ne in auto)
  moreover have "\<not> at_close (enc_block b @ (concat (map enc_block ns) @ rest))"
    using \<open>plain_tree b\<close> by (rule enc_block_open)
  ultimately show ?case unfolding f by simp
qed

lemma plain_tree_not_attr: "plain_tree b \<Longrightarrow> \<not> is_base_attr b"
  by (cases b) simp_all

lemma parse_body_encoded:
  assumes "\<And>b fuel rest. b \<in> set ns \<Longrightarrow> 2 * length (enc_block b) + 1 \<le> fuel \<Longrightarrow>
      parse_block fuel (enc_block b @ rest) = Inr (b, rest)"
    and "list_all plain_tree ns" and "2 * length (concat (map enc_block ns)) + 2 \<le> fuel"
    and "at_close rest"
  shows "parse_body fuel False (concat (map enc_block ns) @ rest) finish = finish [] (ns, rest)"
proof (cases ns)
  case Nil
  with assms(3,4) obtain f where "fuel = Suc f" by (cases fuel) auto
  with assms(4) Nil show ?thesis by (simp add: parse_body_def)
next
  case (Cons b ms)
  from assms(3) obtain f where f: "fuel = Suc f" by (cases fuel) auto
  have b: "plain_tree b" using assms(2) Cons by simp
  from enc_block_Cons [OF this] obtain x xs where ne: "enc_block b = x # xs" by blast
  have "parse_block f (enc_block b @ (concat (map enc_block ms) @ rest)) = Inr (b, concat (map enc_block ms) @ rest)"
    by (rule assms(1)) (use assms(3) f ne Cons in auto)
  moreover have "\<not> at_close (enc_block b @ (concat (map enc_block ms) @ rest))"
    using b by (rule enc_block_open)
  ultimately have "parse_attrs fuel (concat (map enc_block ns) @ rest) = Inr ([], [b], concat (map enc_block ms) @ rest)"
    using plain_tree_not_attr [OF b] unfolding f Cons by simp
  moreover have "parse_nested fuel False [b] (concat (map enc_block ms) @ rest) = Inr ([b] @ ms, rest)"
    by (rule parse_nested_encoded) (use assms Cons ne in auto)
  ultimately show ?thesis using Cons by (simp add: parse_body_def)
qed

lemma parse_enc_block:
  "plain_tree b \<Longrightarrow> 2 * length (enc_block b) + 1 \<le> fuel \<Longrightarrow>
     parse_block fuel (enc_block b @ rest) = Inr (b, rest)"
proof (induction b arbitrary: fuel rest rule: enc_block.induct)
  case (1 b)
  then obtain f where f: "fuel = Suc f" by (cases fuel) auto
  have "unat (of_nat (length b) :: u32) = length b" using 1 by (simp add: unat_of_nat take_bit_nat_eq_self)
  then show ?case unfolding f
    by (simp add: parse_block_Suc(1) [OF parse_header_append] read_bytes_def del: unsigned_of_nat)
next
  case (2 u)
  then obtain f where f: "fuel = Suc f" by (cases fuel) auto
  have "unat (of_nat (length u) :: u32) = length u" using 2 by (simp add: unat_of_nat take_bit_nat_eq_self)
  then show ?case unfolding f
    by (simp add: parse_block_Suc(2) [OF parse_header_append] read_bytes_def del: unsigned_of_nat)
next
  case (3 t as ns)
  then obtain f where f: "fuel = Suc f" by (cases fuel) auto
  have "AppendBlockHeader (unat t) CCN_DTAG \<noteq> []" using AppendBlockHeader_hd by blast
  then have len: "length (AppendBlockHeader (unat t) CCN_DTAG) > 0" by simp
  have "parse_body f False (concat (map enc_block ns) @ (AppendCloser @ rest)) (finish_dtag t) =
      finish_dtag t [] (ns, AppendCloser @ rest)"
  proof (rule parse_body_encoded)
    show "parse_block fuel' (enc_block b @ rest') = Inr (b, rest')"
      if "b \<in> set ns" "2 * length (enc_block b) + 1 \<le> fuel'" for b fuel' rest'
      using 3 that by (auto simp: list_all_iff)
  qed (use 3 f len in \<open>auto simp: AppendCloser_def at_close_def\<close>)
  moreover have "finish_dtag t [] (ns, AppendCloser @ rest) = Inr (Dtag t [] ns, rest)"
    using 3 by (simp add: finish_dtag_def AppendCloser_def)
  ultimately show ?case unfolding f using 3
    by (simp add: parse_block_Suc(5) [OF parse_header_append])
qed auto

section \<open>Numbers\<close>

lemma decimal_digits: "\<forall>d \<in> set (decimal n). 48 \<le> unat d \<and> unat d \<le> 57"
proof (induction n rule: decimal.induct)
  case (1 n)
  have digit: "unat (of_nat (48 + m) :: byte) = 48 + m" if "m < 10" for m
    by (rule word_of_nat_byte_eq) (use that in simp)
  show ?case
  proof (cases "n < 10")
    case True
    then show ?thesis by (subst decimal.simps) (simp add: digit del: of_nat_add)
  next
    case False
    then show ?thesis using 1 digit [of "n mod 10"] by (subst decimal.simps) (auto simp del: of_nat_add)
  qed
qed

lemma decimal_ne: "decimal n \<noteq> []"
  by (subst decimal.simps) simp

lemma digits_value_snoc:
  "\<forall>d \<in> set ds. 48 \<le> unat d \<and> unat d \<le> 57 \<Longrightarrow> 48 \<le> unat d \<Longrightarrow> unat d \<le> 57 \<Longrightarrow>
     digits_value (ds @ [d]) acc = digits_value ds acc * 10 + (unat d - 48)"
  by (induction ds acc rule: digits_value.induct) auto

lemma digits_value_decimal: "digits_value (decimal n) 0 = n"
proof (induction n rule: decimal.induct)
  case (1 n)
  have digit: "unat (of_nat (48 + m) :: byte) = 48 + m" if "m < 10" for m
    by (rule word_of_nat_byte_eq) (use that in simp)
  show ?case
  proof (cases "n < 10")
    case True
    then show ?thesis by (subst decimal.simps) (simp add: digit del: of_nat_add)
  next
    case False
    have "digits_value (decimal (n div 10) @ [of_nat (48 + n mod 10)]) 0 = n div 10 * 10 + n mod 10"
      using decimal_digits 1 [OF False] digit [of "n mod 10"]
      by (subst digits_value_snoc) (simp_all del: of_nat_add)
    then show ?thesis using False by (subst decimal.simps) (simp del: of_nat_add)
  qed
qed

lemma length_decimal: "length (decimal n) \<le> n + 1"
proof (induction n rule: decimal.induct)
  case (1 n)
  show ?case
  proof (cases "n < 10")
    case True
    then show ?thesis by (subst decimal.simps) simp
  next
    case False
    then have "n div 10 + 1 \<le> n" by simp
    with False 1 show ?thesis by (subst decimal.simps) simp
  qed
qed

lemma read_int32_decimal: "n < 2 ^ 31 \<Longrightarrow> read_int32 (decimal n) = int n"
proof -
  assume n: "n < 2 ^ 31"
  obtain d ds where d: "decimal n = d # ds" using decimal_ne by (cases "decimal n") auto
  then have r: "48 \<le> unat d" "unat d \<le> 57" using decimal_digits [of n] by auto
  have "\<not> is_space (char_of_byte d)"
  proof
    assume "is_space (char_of_byte d)"
    then have "(of_char (char_of_byte d) :: nat) \<in> {32, 9, 10, 11, 12, 13}"
      unfolding is_space_def by auto
    moreover have "(of_char (char_of_byte d) :: nat) = unat d"
      using unat_byte_less [of d] by (simp add: char_of_byte_def)
    ultimately show False using r by auto
  qed
  moreover have "d \<noteq> byte_of CHR ''-''" "d \<noteq> byte_of CHR ''+''"
    using r by (auto simp: byte_of_def)
  ultimately show ?thesis
    using n digits_value_decimal [of n] d by (simp add: read_int32_def clamp_int32_def)
qed

lemma visit_decimal:
  assumes "n < 2 ^ 31"
  shows "single_u32 NonNegativeIntegerVisitor [Udata (decimal n)] = Inr (of_nat n)"
  by (simp add: single_u32_def single_def NonNegativeIntegerVisitor_def read_int32_decimal [OF assms])

lemma int32_of_nat: "n < 2 ^ 31 \<Longrightarrow> int32_of (of_nat n) = int n"
  by (simp add: int32_of_def signed_of_nat signed_take_bit_int_eq_self)

lemma int8_of_nat: "n < 128 \<Longrightarrow> int8_of (of_nat n) = int n"
  by (simp add: int8_of_def unsigned_of_nat take_bit_nat_eq_self signed_of_nat
      signed_take_bit_int_eq_self)

section \<open>Names\<close>

lemma char_of_byte_of [simp]: "char_of_byte (byte_of c) = c"
proof -
  have "(of_char c :: nat) < 256"
    using of_char_mod_256 [of c, where ?'a = nat] mod_less_divisor [of 256 "of_char c :: nat"] by simp
  then have "unat (byte_of c) = of_char c" unfolding byte_of_def by (rule word_of_nat_byte_eq)
  then show ?thesis by (simp add: char_of_byte_def)
qed

lemma string_of_bytes_of [simp]: "map (char_of_byte \<circ> byte_of) s = s"
  by (induction s) simp_all

definition component_tree :: "component \<Rightarrow> block" where
  "component_tree c =
     Dtag (dtag CCN_DTAG_Component) [] (if c \<noteq> [] then [Blob (bytes_of c)] else [])"

definition encodable_name :: "name \<Rightarrow> bool" where
  "encodable_name n \<longleftrightarrow> (\<forall>c \<in> set n. c \<noteq> [] \<and> length c < 2 ^ 32)"

lemma unat_dtag: "unat (dtag t) = dtag_code t"
  by (cases t) simp_all

lemma enc_name: "concat (map enc_block (map component_tree n)) = AppendNameComponents n"
  by (induction n) (simp_all add: component_tree_def AppendTaggedBlob_def)

lemma plain_name: "\<forall>c \<in> set n. length c < 2 ^ 32 \<Longrightarrow> list_all plain_tree (map component_tree n)"
  by (auto simp: list_all_iff component_tree_def)

lemma visit_name_trees:
  "\<forall>c \<in> set n. c \<noteq> [] \<Longrightarrow> visit_name_list (map component_tree n) acc = Inr (acc @ n)"
  by (induction n arbitrary: acc)
    (simp_all add: component_tree_def single_def StringVisitor_def Add_def)
section \<open>Lifetimes\<close>

definition time_bytes :: "duration \<Rightarrow> byte list" where
  "time_bytes t =
     (let required_bytes = required_bytes_loop 2 (seconds_field t div 16);
          ts = total_seconds t div 16;
          ts' = (total_seconds t mod 16) * 4096 + timestamp_fraction t
      in map (\<lambda>i. of_int (ts div 2 ^ (8 * (required_bytes - 3 - i)))) [0..<required_bytes - 2] @
         [of_int (ts' div 256), of_int ts'])"

lemma required_bytes_le: "n \<le> 7 \<Longrightarrow> required_bytes_loop n ts \<le> 7"
proof (induction n ts rule: required_bytes_loop.induct)
  case (1 n ts)
  then show ?case by (subst required_bytes_loop.simps) auto
qed

lemma length_time_bytes: "length (time_bytes t) = required_bytes_loop 2 (seconds_field t div 16)"
  using required_bytes_ge [of 2 "seconds_field t div 16"] by (simp add: time_bytes_def Let_def)

lemma enc_time: "enc_block (Blob (time_bytes t)) = AppendTimestampBlob t"
  by (simp add: length_time_bytes) (simp add: AppendTimestampBlob_def time_bytes_def Let_def)

text \<open>The lifetimes that survive encoding: whole seconds below a minute.\<close>

definition whole_lifetime :: "duration \<Rightarrow> bool" where
  "whole_lifetime t \<longleftrightarrow> 0 \<le> t \<and> t < 60 * 1000000 \<and> t mod 1000000 = 0"

lemma seconds_simps:
  "total_seconds (int s * 1000000) = int s" "seconds_field (int s * 1000000) = int (s mod 60)"
  "timestamp_fraction (int s * 1000000) = 0"
proof -
  have "(int s * 1000000) sdiv 1000000 = int s"
    by (cases "s = 0") (simp_all add: signed_divide_int_def sgn_if)
  moreover have "int s smod 60 = int (s mod 60)"
    by (cases "s = 0") (simp_all add: signed_modulo_int_def signed_divide_int_def sgn_if minus_mult_div_eq_mod zmod_int)
  moreover have "(int s * 1000000 * 1000) smod 1000000000 = 0"
    by (cases "s = 0") (simp_all add: signed_modulo_int_def signed_divide_int_def sgn_if)
  ultimately show "total_seconds (int s * 1000000) = int s"
    "seconds_field (int s * 1000000) = int (s mod 60)" "timestamp_fraction (int s * 1000000) = 0"
    unfolding total_seconds_def seconds_field_def timestamp_fraction_def total_nanoseconds_def
    by (simp_all only:) (simp add: signed_divide_int_def)
qed

text \<open>The last two bytes: four bits of the seconds, a zero fraction.\<close>

lemma time_low:
  "of_int (int s mod 16 * 4096 div 256) = (of_nat ((s mod 16) * 16) :: byte)"
  "of_int (int s mod 16 * 4096) = (0 :: byte)"
proof -
  have "int s mod 16 * 4096 div 256 = int ((s mod 16) * 16)" by (simp add: zmod_int)
  then show "of_int (int s mod 16 * 4096 div 256) = (of_nat ((s mod 16) * 16) :: byte)"
    by (simp only: of_int_of_nat_eq)
  show "of_int (int s mod 16 * 4096) = (0 :: byte)"
    by (simp only: word_of_int_eq_0_iff) (auto intro: dvd_trans [of _ 4096])
qed

lemma time_bytes_whole:
  assumes "s < 60"
  shows "time_bytes (int s * 1000000) =
    (if s < 16 then [] else [of_nat (s div 16)]) @ [of_nat ((s mod 16) * 16), 0]"
proof -
  have "required_bytes_loop 2 (int s div 16) = (if s < 16 then 2 else 3)"
  proof (cases "s < 16")
    case True
    then have "int s div 16 = 0" by simp
    with True show ?thesis by (simp add: required_bytes_loop.simps)
  next
    case False
    then have "int s div 16 \<noteq> 0" "int s div 16 div 256 = 0" using assms by linarith+
    with False show ?thesis by (simp add: required_bytes_loop.simps)
  qed
  moreover have "of_int (int s div 16) = (of_nat (s div 16) :: byte)"
    by (metis of_int_of_nat_eq zdiv_int of_nat_numeral)
  ultimately show ?thesis
    using assms unfolding time_bytes_def seconds_simps by (simp add: Let_def time_low [simplified])
qed

lemma TimestampVisitor_whole:
  assumes "whole_lifetime t"
  shows "TimestampVisitor (Blob (time_bytes t)) = Inr (AnyTime t)"
proof -
  define s where "s = nat (t div 1000000)"
  have s: "s < 60" "t = int s * 1000000"
    using assms by (auto simp: s_def whole_lifetime_def)
  define v where "v s \<longleftrightarrow> TimestampVisitor (Blob ((if s < 16 then [] else [of_nat (s div 16)]) @
      [of_nat ((s mod 16) * 16), 0])) = Inr (AnyTime (int s * 1000000))" for s :: nat
  have "\<forall>s \<in> set [0..<60]. v s"
    by (simp add: upt_rec v_def TimestampVisitor_def timestamp_seconds_def timestamp_usec_def)
  with s have "v s" by simp
  then show ?thesis unfolding v_def s(2) time_bytes_whole [OF s(1)] .
qed

lemma whole_lifetime_size:
  assumes "whole_lifetime t"
  shows "length (AppendTimestampBlob t) = EstimateTimestampBlob t"
proof -
  define s where "s = nat (t div 1000000)"
  have s: "s < 60" "t = int s * 1000000"
    using assms by (auto simp: s_def whole_lifetime_def)
  show ?thesis
    unfolding length_AppendTimestampBlob EstimateTimestampBlob_def s(2) seconds_simps
    using s(1) by (simp add: Let_def)
qed

section \<open>Interests\<close>

definition tree_field :: "bool \<Rightarrow> ccn_dtag \<Rightarrow> block list \<Rightarrow> block list" where
  "tree_field enabled dt ns = (if enabled then [Dtag (dtag dt) [] ns] else [])"

definition interest_tree :: "name \<Rightarrow> interest_header \<Rightarrow> block" where
  "interest_tree nm h = Dtag (dtag CCN_DTAG_Interest) []
     (tree_field True CCN_DTAG_Name (map component_tree nm) @
      tree_field (ih_minSuffixComponents h \<ge> 0) CCN_DTAG_MinSuffixComponents
        [Udata (decimal (nat (ih_minSuffixComponents h)))] @
      tree_field (ih_maxSuffixComponents h \<ge> 0) CCN_DTAG_MaxSuffixComponents
        [Udata (decimal (nat (ih_maxSuffixComponents h)))] @
      tree_field (ih_IsEnabledExclude h \<and> length (exclude_names h) > 0) CCN_DTAG_Exclude
        (map component_tree (exclude_names h)) @
      tree_field (ih_childSelector h) CCN_DTAG_ChildSelector [Udata (decimal 1)] @
      tree_field (ih_answerOriginKind h) CCN_DTAG_AnswerOriginKind [Udata (decimal 1)] @
      tree_field (ih_scope h \<ge> 0) CCN_DTAG_Scope [Udata (decimal (nat (ih_scope h)))] @
      tree_field (ih_interestLifetime h \<noteq> 0) CCN_DTAG_InterestLifetime
        [Blob (time_bytes (ih_interestLifetime h))] @
      tree_field (ih_nonce h > 0) CCN_DTAG_Nonce [Blob (nonce_bytes (ih_nonce h))] @
      tree_field (ih_nackType h > 0) CCN_DTAG_Nack [Udata (decimal (unat (ih_nackType h)))])"

lemma enc_field:
  "concat (map enc_block (tree_field e dt ns)) = append_field e dt (concat (map enc_block ns))"
  by (simp add: tree_field_def append_field_def unat_dtag del: tt_code.simps)

lemma enc_number: "concat (map enc_block [Udata (decimal n)]) = AppendNumber n"
  by (simp add: AppendNumber_def)

lemma enc_time_list: "concat (map enc_block [Blob (time_bytes t)]) = AppendTimestampBlob t"
  using enc_time [of t] by simp

lemma enc_nonce:
  "append_field e CCN_DTAG_Nonce (concat (map enc_block [Blob (nonce_bytes n)])) =
     (if e then AppendTaggedBlob CCN_DTAG_Nonce (nonce_bytes n) else [])"
  by (simp add: append_field_def AppendTaggedBlob_def length_nonce_bytes)

lemma Serialize_tree:
  "ih_name h = Some nm \<Longrightarrow> SerializeInterest h = Inr (enc_block (interest_tree nm h))"
  unfolding SerializeInterest_def interest_tree_def enc_block.simps map_append concat_append enc_field
    enc_number enc_time_list enc_nonce enc_name
  by (simp add: ih_GetName_def unat_dtag del: One_nat_def)

definition wf_interest :: "interest_header \<Rightarrow> bool" where
  "wf_interest h \<longleftrightarrow>
     (case ih_name h of None \<Rightarrow> False | Some n \<Rightarrow> encodable_name n) \<and>
     (case ih_exclude h of None \<Rightarrow> True | Some n \<Rightarrow> n \<noteq> [] \<and> encodable_name n) \<and>
     - 1 \<le> ih_minSuffixComponents h \<and> ih_minSuffixComponents h < 2 ^ 31 \<and>
     - 1 \<le> ih_maxSuffixComponents h \<and> ih_maxSuffixComponents h < 2 ^ 31 \<and>
     - 1 \<le> ih_scope h \<and> ih_scope h < 128 \<and>
     whole_lifetime (ih_interestLifetime h) \<and> ih_nackType h < 2 ^ 31"

lemma list_all_tree_field:
  "list_all plain_tree (tree_field e dt ns) \<longleftrightarrow>
     (e \<longrightarrow> dtag dt \<noteq> (dtag CCN_DTAG_Content :: u32) \<and> dtag dt \<noteq> (dtag CCN_DTAG_ContentObject :: u32) \<and> list_all plain_tree ns)"
  by (simp add: tree_field_def)

lemma decimal_short: "n < 2 ^ 31 \<Longrightarrow> length (decimal n) < 2 ^ 32"
  using length_decimal [of n] by simp

lemma unat_less_2p31: "w < (2 ^ 31 :: u32) \<Longrightarrow> unat w < 2 ^ 31"
  by (simp add: word_less_nat_alt)

lemma plain_interest_tree:
  assumes "wf_interest h" and "ih_name h = Some nm"
  shows "plain_tree (interest_tree nm h)"
proof -
  have names: "encodable_name nm" "encodable_name (exclude_names h)"
    using assms by (auto simp: wf_interest_def exclude_names_def encodable_name_def split: option.splits)
  have nums: "nat (ih_minSuffixComponents h) < 2 ^ 31" "nat (ih_maxSuffixComponents h) < 2 ^ 31"
    "nat (ih_scope h) < 2 ^ 31" "(1 :: nat) < 2 ^ 31" "unat (ih_nackType h) < 2 ^ 31"
    using assms unat_less_2p31 [of "ih_nackType h"] by (auto simp: wf_interest_def)
  have time: "length (time_bytes (ih_interestLifetime h)) < 2 ^ 32"
    using required_bytes_le [of 2 "seconds_field (ih_interestLifetime h) div 16"]
    by (simp add: length_time_bytes)
  show ?thesis
    unfolding interest_tree_def plain_tree.simps list_all_append list_all_tree_field list.pred_inject
    using names nums [THEN decimal_short] time
    by (simp add: plain_name encodable_name_def length_nonce_bytes)
qed

lemma visit_interest_list_append:
  "visit_interest_list (xs @ ys) h = bindr (visit_interest_list xs h) (visit_interest_list ys)"
  by (induction xs arbitrary: h) (auto simp: bindr_def split: sum.splits)

lemma bindr_visit_Nil [simp]: "bindr r (visit_interest_list []) = r"
  by (cases r) simp_all

lemma visit_tree_field:
  "dt \<noteq> CCN_DTAG_Interest \<Longrightarrow> visit_interest_list (tree_field e dt ns) h =
     (if e then visit_interest_field (dtag dt) ns h else Inr h)"
  by (cases dt) (simp_all add: tree_field_def)

lemma nonce_of_nonce_bytes: "nonce_of_bytes (nonce_bytes n) = n"
proof -
  have tb: "(ucast (ucast x :: byte) :: u32) = take_bit 8 x" for x :: u32
    by (rule bit_word_eqI) (auto simp: bit_simps)
  have top: "take_bit 8 (drop_bit 24 n) = drop_bit 24 n"
    by (rule bit_word_eqI) (auto simp: bit_simps dest: bit_imp_le_length)
  have split: "x = take_bit 8 x + push_bit 8 (drop_bit 8 x)" for x :: u32
    using bits_ident [of 8 x] by (simp add: add.commute)
  have "n = take_bit 8 n + push_bit 8 (drop_bit 8 n)" by (rule split)
  also have "drop_bit 8 n = take_bit 8 (drop_bit 8 n) + push_bit 8 (drop_bit 16 n)"
    using split [of "drop_bit 8 n"] by simp
  also have "drop_bit 16 n = take_bit 8 (drop_bit 16 n) + push_bit 8 (drop_bit 24 n)"
    using split [of "drop_bit 16 n"] by simp
  finally have "n = take_bit 8 n + push_bit 8 (take_bit 8 (drop_bit 8 n)) +
      push_bit 16 (take_bit 8 (drop_bit 16 n)) + push_bit 24 (drop_bit 24 n)"
    by (simp only: push_bit_add push_bit_push_bit add.assoc) simp
  from this [symmetric] show ?thesis
    by (simp add: nonce_of_bytes_def nonce_bytes_def tb top add.assoc)
qed

text \<open>Each field of the tree sets the field of the header it came from.\<close>

lemma visit_fields:
  "encodable_name nm \<Longrightarrow>
     visit_interest_list (tree_field True CCN_DTAG_Name (map component_tree nm)) g = Inr (g\<lparr>ih_name := Some nm\<rparr>)"
  "- 1 \<le> v \<Longrightarrow> v < 2 ^ 31 \<Longrightarrow> ih_minSuffixComponents g = - 1 \<Longrightarrow>
     visit_interest_list (tree_field (v \<ge> 0) CCN_DTAG_MinSuffixComponents [Udata (decimal (nat v))]) g =
       Inr (g\<lparr>ih_minSuffixComponents := v\<rparr>)"
  "- 1 \<le> v \<Longrightarrow> v < 2 ^ 31 \<Longrightarrow> ih_maxSuffixComponents g = - 1 \<Longrightarrow>
     visit_interest_list (tree_field (v \<ge> 0) CCN_DTAG_MaxSuffixComponents [Udata (decimal (nat v))]) g =
       Inr (g\<lparr>ih_maxSuffixComponents := v\<rparr>)"
  "encodable_name x \<Longrightarrow> visit_interest_list (tree_field True CCN_DTAG_Exclude (map component_tree x)) g =
       Inr (g\<lparr>ih_exclude := Some x\<rparr>)"
  "ih_childSelector g = False \<Longrightarrow>
     visit_interest_list (tree_field b CCN_DTAG_ChildSelector [Udata (decimal 1)]) g = Inr (g\<lparr>ih_childSelector := b\<rparr>)"
  "ih_answerOriginKind g = False \<Longrightarrow>
     visit_interest_list (tree_field b CCN_DTAG_AnswerOriginKind [Udata (decimal 1)]) g = Inr (g\<lparr>ih_answerOriginKind := b\<rparr>)"
  "- 1 \<le> v \<Longrightarrow> v < 128 \<Longrightarrow> ih_scope g = - 1 \<Longrightarrow>
     visit_interest_list (tree_field (v \<ge> 0) CCN_DTAG_Scope [Udata (decimal (nat v))]) g = Inr (g\<lparr>ih_scope := v\<rparr>)"
  "whole_lifetime t \<Longrightarrow> ih_interestLifetime g = 0 \<Longrightarrow>
     visit_interest_list (tree_field (t \<noteq> 0) CCN_DTAG_InterestLifetime [Blob (time_bytes t)]) g =
       Inr (g\<lparr>ih_interestLifetime := t\<rparr>)"
  "ih_nonce g = 0 \<Longrightarrow>
     visit_interest_list (tree_field (n > 0) CCN_DTAG_Nonce [Blob (nonce_bytes n)]) g = Inr (g\<lparr>ih_nonce := n\<rparr>)"
  "k < 2 ^ 31 \<Longrightarrow> ih_nackType g = 0 \<Longrightarrow>
     visit_interest_list (tree_field (k > 0) CCN_DTAG_Nack [Udata (decimal (unat k))]) g = Inr (g\<lparr>ih_nackType := k\<rparr>)"
proof -
  note vf = visit_tree_field visit_interest_field_def
  show "encodable_name nm \<Longrightarrow>
     visit_interest_list (tree_field True CCN_DTAG_Name (map component_tree nm)) g = Inr (g\<lparr>ih_name := Some nm\<rparr>)"
    by (simp add: vf visit_name_trees encodable_name_def)
  show "encodable_name x \<Longrightarrow> visit_interest_list (tree_field True CCN_DTAG_Exclude (map component_tree x)) g =
       Inr (g\<lparr>ih_exclude := Some x\<rparr>)"
    by (simp add: vf visit_name_trees encodable_name_def)
  show "- 1 \<le> v \<Longrightarrow> v < 2 ^ 31 \<Longrightarrow> ih_minSuffixComponents g = - 1 \<Longrightarrow>
     visit_interest_list (tree_field (v \<ge> 0) CCN_DTAG_MinSuffixComponents [Udata (decimal (nat v))]) g =
       Inr (g\<lparr>ih_minSuffixComponents := v\<rparr>)"
    by (simp add: vf visit_decimal int32_of_nat del: of_nat_nat)
  show "- 1 \<le> v \<Longrightarrow> v < 2 ^ 31 \<Longrightarrow> ih_maxSuffixComponents g = - 1 \<Longrightarrow>
     visit_interest_list (tree_field (v \<ge> 0) CCN_DTAG_MaxSuffixComponents [Udata (decimal (nat v))]) g =
       Inr (g\<lparr>ih_maxSuffixComponents := v\<rparr>)"
    by (simp add: vf visit_decimal int32_of_nat del: of_nat_nat)
  show "- 1 \<le> v \<Longrightarrow> v < 128 \<Longrightarrow> ih_scope g = - 1 \<Longrightarrow>
     visit_interest_list (tree_field (v \<ge> 0) CCN_DTAG_Scope [Udata (decimal (nat v))]) g = Inr (g\<lparr>ih_scope := v\<rparr>)"
    by (simp add: vf visit_decimal int8_of_nat del: of_nat_nat)
  show "ih_childSelector g = False \<Longrightarrow>
     visit_interest_list (tree_field b CCN_DTAG_ChildSelector [Udata (decimal 1)]) g = Inr (g\<lparr>ih_childSelector := b\<rparr>)"
    by (simp add: vf visit_decimal)
  show "ih_answerOriginKind g = False \<Longrightarrow>
     visit_interest_list (tree_field b CCN_DTAG_AnswerOriginKind [Udata (decimal 1)]) g = Inr (g\<lparr>ih_answerOriginKind := b\<rparr>)"
    by (simp add: vf visit_decimal)
  show "whole_lifetime t \<Longrightarrow> ih_interestLifetime g = 0 \<Longrightarrow>
     visit_interest_list (tree_field (t \<noteq> 0) CCN_DTAG_InterestLifetime [Blob (time_bytes t)]) g =
       Inr (g\<lparr>ih_interestLifetime := t\<rparr>)"
    by (simp add: vf TimestampVisitor_whole single_def)
  show "ih_nonce g = 0 \<Longrightarrow>
     visit_interest_list (tree_field (n > 0) CCN_DTAG_Nonce [Blob (nonce_bytes n)]) g = Inr (g\<lparr>ih_nonce := n\<rparr>)"
    by (cases "n = 0") (simp_all add: vf single_u32_def single_def NonceVisitor_def
        length_nonce_bytes nonce_of_nonce_bytes word_neq_0_conv)
  show "k < 2 ^ 31 \<Longrightarrow> ih_nackType g = 0 \<Longrightarrow>
     visit_interest_list (tree_field (k > 0) CCN_DTAG_Nack [Udata (decimal (unat k))]) g = Inr (g\<lparr>ih_nackType := k\<rparr>)"
    using unat_less_2p31 [of k]
    by (cases "k = 0") (simp_all add: vf visit_decimal word_neq_0_conv)
qed

lemma interest_tree_fields:
  assumes "wf_interest h" and "ih_name h = Some nm"
  shows "visit_interest (interest_tree nm h) InterestHeader_new = Inr h"
proof -
  have ex: "visit_interest_list (tree_field (ih_IsEnabledExclude h \<and> length (exclude_names h) > 0)
      CCN_DTAG_Exclude (map component_tree (exclude_names h))) g = Inr (g\<lparr>ih_exclude := ih_exclude h\<rparr>)"
    if "ih_exclude g = None" for g
  proof (cases "ih_exclude h")
    case None
    with that show ?thesis by (simp add: ih_IsEnabledExclude_def tree_field_def)
  next
    case (Some x)
    then have "encodable_name x" "x \<noteq> []" using assms(1) by (simp_all add: wf_interest_def)
    with Some visit_fields(4) show ?thesis by (simp add: ih_IsEnabledExclude_def exclude_names_def)
  qed
  show ?thesis
    using assms
    by (simp add: interest_tree_def visit_interest_list_append visit_fields ex [unfolded length_greater_0_conv] wf_interest_def
        InterestHeader_new_def NORMAL_INTEREST_def del: One_nat_def)
qed

definition interest_ok :: "interest_header \<Rightarrow> bool" where
  "interest_ok h \<longleftrightarrow> wf_interest h \<and>
     (case SerializeInterest h of Inl e \<Rightarrow> False | Inr bs \<Rightarrow> length bs \<le> BUFLEN)"

lemma interest_codec:
  assumes "interest_ok h"
  shows "\<exists>p. AddInterestHeader h Packet_new = Inr p \<and> GetInterestHeader p = Inr h"
proof -
  have wf: "wf_interest h" using assms by (simp add: interest_ok_def)
  then obtain nm where nm: "ih_name h = Some nm"
    by (auto simp: wf_interest_def split: option.splits)
  have "ParseBlock (enc_block (interest_tree nm h)) = Inr (interest_tree nm h, [])"
    unfolding ParseBlock_def
    using parse_enc_block [OF plain_interest_tree [OF wf nm], where rest = "[]"] by simp
  then show ?thesis
    using assms unfolding interest_ok_def Serialize_tree [OF nm]
    by (simp add: AddInterestHeader_def Serialize_tree [OF nm] buffer_write_def Packet_new_def
        Buffer_new_def buffer_size_def GetInterestHeader_def DeserializeInterest_def
        interest_tree_fields [OF wf nm])
qed

section \<open>Content objects\<close>

definition signature_tree :: block where
  "signature_tree = Dtag (dtag CCN_DTAG_Signature) [] [Dtag (dtag CCN_DTAG_SignatureBits) [] []]"

definition signed_info_tree :: block where
  "signed_info_tree =
     Dtag (dtag CCN_DTAG_SignedInfo) [] [Dtag (dtag CCN_DTAG_PublisherPublicKeyDigest) [] []]"

definition name_tree :: "name \<Rightarrow> block" where
  "name_tree n = Dtag (dtag CCN_DTAG_Name) [] (map component_tree n)"

definition content_tree :: "name \<Rightarrow> block" where
  "content_tree n = Dtag (dtag CCN_DTAG_ContentObject) []
     [signature_tree, name_tree n, signed_info_tree, Dtag (dtag CCN_DTAG_Content) [] []]"

lemma plain_content_parts:
  "plain_tree signature_tree" "plain_tree signed_info_tree"
  "encodable_name n \<Longrightarrow> plain_tree (name_tree n)"
  by (simp_all add: signature_tree_def signed_info_tree_def name_tree_def plain_name encodable_name_def)

lemma not_content_parts:
  "\<not> is_content signature_tree" "\<not> is_content signed_info_tree" "\<not> is_content (name_tree n)"
  by (simp_all add: signature_tree_def signed_info_tree_def name_tree_def)

lemma SerializeContent_bytes:
  "SerializeContent \<lparr>ch_name = Some n\<rparr> = Inr (AppendBlockHeader (dtag_code CCN_DTAG_ContentObject) CCN_DTAG @
     enc_block signature_tree @ enc_block (name_tree n) @ enc_block signed_info_tree @
     AppendBlockHeader (dtag_code CCN_DTAG_Content) CCN_DTAG)"
  by (simp add: SerializeContent_def ch_GetName_def signature_tree_def signed_info_tree_def name_tree_def
      enc_name [unfolded map_map] append_field_def AppendTaggedBlob_def)

lemma parse_nested_step:
  assumes "plain_tree b" and "\<not> is_content (last acc)" and "2 * length (enc_block b) + 1 \<le> f"
  shows "parse_nested (Suc f) co acc (enc_block b @ rest) = parse_nested f co (acc @ [b]) rest"
  using parse_enc_block [OF assms(1,3)] enc_block_open [OF assms(1)] assms(2) by simp

lemma parse_content_tag:
  "parse_block (Suc f) (AppendBlockHeader (dtag_code CCN_DTAG_Content) CCN_DTAG @ rest) =
     Inr (Dtag (dtag CCN_DTAG_Content) [] [], rest)"
  by (subst parse_block_Suc(5) [OF parse_header_append]) simp_all

lemma parse_content_body:
  assumes "encodable_name n"
    and "2 * (length (enc_block signature_tree) + length (enc_block (name_tree n)) +
      length (enc_block signed_info_tree)) + 7 \<le> f"
  shows "parse_body f True (enc_block signature_tree @ enc_block (name_tree n) @
      enc_block signed_info_tree @ AppendBlockHeader (dtag_code CCN_DTAG_Content) CCN_DTAG @ payload) finish =
    finish [] ([signature_tree, name_tree n, signed_info_tree, Dtag (dtag CCN_DTAG_Content) [] []], payload)"
proof -
  note parts = plain_content_parts(1,2) plain_content_parts(3) [OF assms(1)]
  define f' where "f' = f - 5"
  have f: "f = Suc (Suc (Suc (Suc (Suc f'))))" using assms(2) by (simp add: f'_def)
  let ?C = "AppendBlockHeader (dtag_code CCN_DTAG_Content) CCN_DTAG"
  have sig: "parse_block (Suc (Suc (Suc (Suc f')))) (enc_block signature_tree @ r) = Inr (signature_tree, r)" for r
    by (rule parse_enc_block) (use parts assms(2) f in simp_all)
  have attrs: "parse_attrs f (enc_block signature_tree @ r) = Inr ([], [signature_tree], r)" for r
    unfolding f using enc_block_open [OF parts(1)] plain_tree_not_attr [OF parts(1)]
    by (simp add: sig)
  have last: "parse_nested (Suc (Suc (Suc f'))) True acc (?C @ payload) =
      Inr (acc @ [Dtag (dtag CCN_DTAG_Content) [] []], payload)"
    if "\<not> is_content (last acc)" for acc
    using that at_close_AppendBlockHeader [of "dtag_code CCN_DTAG_Content" CCN_DTAG payload]
    by (simp add: parse_content_tag del: dtag_code.simps)
  have name: "parse_nested (Suc (Suc (Suc (Suc (Suc f'))))) True [signature_tree] (enc_block (name_tree n) @ r) =
      parse_nested (Suc (Suc (Suc (Suc f')))) True ([signature_tree] @ [name_tree n]) r" for r
    by (rule parse_nested_step) (use parts assms(2) f in \<open>simp_all add: not_content_parts\<close>)
  have info: "parse_nested (Suc (Suc (Suc (Suc f')))) True [signature_tree, name_tree n]
        (enc_block signed_info_tree @ r) =
      parse_nested (Suc (Suc (Suc f'))) True ([signature_tree, name_tree n] @ [signed_info_tree]) r" for r
    by (rule parse_nested_step) (use parts assms(2) f in \<open>simp_all add: not_content_parts\<close>)
  have "parse_nested f True [signature_tree] (enc_block (name_tree n) @ enc_block signed_info_tree @ ?C @ payload) =
      Inr ([signature_tree, name_tree n, signed_info_tree, Dtag (dtag CCN_DTAG_Content) [] []], payload)"
    unfolding f
    by (simp only: name info last not_content_parts last.simps append.simps simp_thms if_False if_True
        list.distinct)
  then show ?thesis by (simp add: parse_body_def attrs)
qed

lemma ParseBlock_content:
  assumes "encodable_name n" and "SerializeContent \<lparr>ch_name = Some n\<rparr> = Inr bs"
  shows "ParseBlock (bs @ payload) = Inr (content_tree n, payload)"
proof -
  let ?O = "AppendBlockHeader (dtag_code CCN_DTAG_ContentObject) CCN_DTAG"
  let ?C = "AppendBlockHeader (dtag_code CCN_DTAG_Content) CCN_DTAG"
  have bs: "bs = ?O @ enc_block signature_tree @ enc_block (name_tree n) @ enc_block signed_info_tree @ ?C"
    using assms(2) by (simp add: SerializeContent_bytes)
  have len: "length ?O = 2" "length ?C = 2"
    by (simp_all add: AppendBlockHeader_def header_bytes.simps)
  have "parse_body (2 * length (bs @ payload)) True (enc_block signature_tree @ enc_block (name_tree n) @
      enc_block signed_info_tree @ ?C @ payload) (finish_dtag (dtag CCN_DTAG_ContentObject)) =
    Inr (content_tree n, payload)"
  proof (subst parse_content_body [OF assms(1)])
    show "2 * (length (enc_block signature_tree) + length (enc_block (name_tree n)) +
        length (enc_block signed_info_tree)) + 7 \<le> 2 * length (bs @ payload)"
      unfolding bs length_append len by simp
  qed (simp add: finish_dtag_def content_tree_def)
  then show ?thesis
    unfolding ParseBlock_def bs
    by (simp add: parse_block_Suc(5) [OF parse_header_append] del: dtag_code.simps) simp
qed

lemma visit_content_tree:
  "encodable_name n \<Longrightarrow> visit_content (content_tree n) h = Inr (ch_SetName n h)"
  by (simp add: content_tree_def signature_tree_def signed_info_tree_def name_tree_def
      visit_name_trees encodable_name_def)

lemma GetSizeContent_length:
  "SerializeContent h = Inr bs \<Longrightarrow> GetSizeContent h = Inr (length bs)"
  by (auto simp: SerializeContent_def GetSizeContent_def bindr_eq_Inr length_AppendBlockHeader
      size_simps)

section \<open>Recognising a packet\<close>

lemma interest_type:
  assumes "SerializeInterest h = Inr bs" and "InitFromBuffer (bs @ body) = Inr p"
  shows "GetNDNHeaderType p = Inr INTEREST"
proof -
  have "AppendBlockHeader 26 CCN_DTAG = [0x01, 0xD2]"
    by (simp add: AppendBlockHeader_def header_bytes.simps)
  then show ?thesis using assms
    by (auto simp: SerializeInterest_def bindr_eq_Inr InitFromBuffer_def GetNDNHeaderType_def CopyData_def
        buffer_read_def Let_def split: if_splits)
qed

lemma content_type:
  assumes "SerializeContent h = Inr bs" and "InitFromBuffer (bs @ body) = Inr p"
  shows "GetNDNHeaderType p = Inr CONTENT_OBJECT"
proof -
  have "AppendBlockHeader 64 CCN_DTAG = [0x04, 0x82]"
    by (simp add: AppendBlockHeader_def header_bytes.simps)
  then show ?thesis using assms
    by (auto simp: SerializeContent_def bindr_eq_Inr InitFromBuffer_def GetNDNHeaderType_def CopyData_def
        buffer_read_def Let_def split: if_splits)
qed


section \<open>The contract of a header\<close>

text \<open>
  What the layers above rely on when they exchange a header through a packet: writing an
  admissible header succeeds and reading gives it back.
\<close>

locale header_codec =
  fixes ok :: "'h \<Rightarrow> bool"
    and put :: "'h \<Rightarrow> packet \<Rightarrow> fault + packet"
    and get :: "packet \<Rightarrow> fault + 'h"
  assumes put_get: "ok h \<Longrightarrow> \<exists>p. put h Packet_new = Inr p \<and> get p = Inr h"
begin

lemma put_ok: "ok h \<Longrightarrow> put h Packet_new \<noteq> Inl e"
  using put_get [of h] by auto

lemma put_inj: "ok h \<Longrightarrow> ok h' \<Longrightarrow> put h Packet_new = put h' Packet_new \<Longrightarrow> h = h'"
  using put_get [of h] put_get [of h'] by auto

lemma roundtrip: "ok h \<Longrightarrow> bindr (put h Packet_new) get = Inr h"
  using put_get [of h] by auto

end

interpretation interests: header_codec interest_ok AddInterestHeader GetInterestHeader
  by unfold_locales (rule interest_codec)

definition content_ok :: "content_header \<Rightarrow> bool" where
  "content_ok h \<longleftrightarrow> (case ch_name h of None \<Rightarrow> False | Some n \<Rightarrow> encodable_name n) \<and>
     (case SerializeContent h of Inl e \<Rightarrow> False | Inr bs \<Rightarrow> length bs \<le> BUFLEN)"

lemma content_codec:
  assumes "content_ok h"
  shows "\<exists>p. AddContentHeader h Packet_new = Inr p \<and> GetContentHeader p = Inr h"
proof -
  obtain n where h: "h = \<lparr>ch_name = Some n\<rparr>" and n: "encodable_name n"
    using assms by (cases h) (auto simp: content_ok_def split: option.splits)
  obtain bs where bs: "SerializeContent \<lparr>ch_name = Some n\<rparr> = Inr bs"
    by (simp add: SerializeContent_bytes)
  then have "length bs \<le> BUFLEN" using assms h by (simp add: content_ok_def)
  with bs show ?thesis
    using ParseBlock_content [OF n bs, of "[]"] visit_content_tree [OF n]
    by (simp add: h AddContentHeader_def buffer_write_def Packet_new_def Buffer_new_def buffer_size_def
        GetContentHeader_def DeserializeContent_def ch_SetName_def ContentObjectHeader_new_def)
qed

interpretation contents: header_codec content_ok AddContentHeader GetContentHeader
  by unfold_locales (rule content_codec)

lemma SerializeInterest_length:
  assumes "whole_lifetime (ih_interestLifetime h)" and "SerializeInterest h = Inr bs"
  shows "GetSizeInterest h = Inr (length bs)"
  using assms whole_lifetime_size [OF assms(1)]
  by (auto simp: SerializeInterest_def GetSizeInterest_def bindr_eq_Inr length_AppendBlockHeader
      size_simps AppendCloser_def)

section \<open>Properties\<close>


text \<open>
  The size that \<open>GetSizeInterest\<close> predicts is the number of bytes that
  \<open>SerializeInterest\<close> writes, for every lifetime of whole seconds below a minute.
\<close>

theorem interest_size:
  assumes "whole_lifetime (ih_interestLifetime h)" and "SerializeInterest h = Inr bs"
  shows "GetSizeInterest h = Inr (length bs)"
  using assms by (rule SerializeInterest_length)


text \<open>
  A lifetime of a whole number of seconds whose seconds field is below sixteen is written with
  two bytes whatever its length, so only its length modulo sixteen seconds is read back (a minute
  comes back as twelve seconds).
\<close>

theorem lifetime_lost:
  assumes "s mod 60 < 16"
  shows "\<exists>b. ParseBlock (AppendTimestampBlob (int s * 1000000)) = Inr (b, []) \<and>
    TimestampVisitor b = Inr (AnyTime (int (s mod 16) * 1000000))"
proof -
  have rb: "required_bytes_loop 2 (seconds_field (int s * 1000000) div 16) = 2"
    using assms by (simp add: seconds_simps required_bytes_loop.simps)
  have b: "time_bytes (int s * 1000000) = [of_nat ((s mod 16) * 16), 0]"
    unfolding time_bytes_def rb Let_def
    unfolding seconds_simps add_0_right time_low by simp
  have p: "ParseBlock (AppendTimestampBlob t) = Inr (Blob (time_bytes t), [])" for t
    unfolding ParseBlock_def enc_time [symmetric]
    using required_bytes_le [of 2 "seconds_field t div 16"]
    by (intro parse_enc_block [where rest = "[]", simplified]) (simp_all add: length_time_bytes)
  have "TimestampVisitor (Blob [of_nat ((s mod 16) * 16), 0]) = Inr (AnyTime (int (s mod 16) * 1000000))"
    using TimestampVisitor_whole [of "int (s mod 16) * 1000000"] time_bytes_whole [of "s mod 16"]
    by (simp add: whole_lifetime_def)
  with b p show ?thesis by simp
qed


definition sample_interest :: interest_header where
  "sample_interest = InterestHeader_new\<lparr>ih_name := Some [''a'', ''b''], ih_scope := 1,
     ih_interestLifetime := 4000000, ih_nonce := 0x01020304, ih_nackType := NACK_LOOP\<rparr>"

lemma sample_interest_ok: "interest_ok sample_interest"
proof -
  note sample = sample_interest_def InterestHeader_new_def NACK_LOOP_def
  have wf: "wf_interest sample_interest"
    by (simp add: sample wf_interest_def encodable_name_def whole_lifetime_def)
  obtain bs where bs: "SerializeInterest sample_interest = Inr bs"
    by (simp add: SerializeInterest_def ih_GetName_def sample)
  have "GetSizeInterest sample_interest = Inr (length bs)"
    by (rule SerializeInterest_length [OF _ bs]) (use wf in \<open>simp add: wf_interest_def\<close>)
  then have "length bs \<le> BUFLEN"
    by (simp add: GetSizeInterest_def ih_GetName_def sample estimate_field_def EstimateBlockHeader_def
        EstimateNumber_def EstimateTimestampBlob_def EstimateTaggedBlob_def Let_def estimate_loop.simps
        decimal.simps required_bytes_loop.simps total_seconds_def signed_divide_int_def BUFLEN_def
        ih_IsEnabledExclude_def)
  with wf bs show ?thesis by (simp add: interest_ok_def)
qed


theorem interest_size_witness:
  "\<exists>bs. SerializeInterest sample_interest = Inr bs \<and> GetSizeInterest sample_interest = Inr (length bs)"
proof -
  have "whole_lifetime (ih_interestLifetime sample_interest)" by code_simp
  moreover obtain bs where "SerializeInterest sample_interest = Inr bs"
    using sample_interest_ok by (auto simp: interest_ok_def split: sum.splits)
  ultimately show ?thesis using interest_size by blast
qed


theorem lifetime_lost_witness:
  "\<exists>b. ParseBlock (AppendTimestampBlob 60000000) = Inr (b, []) \<and> TimestampVisitor b = Inr (AnyTime 12000000)"
  using lifetime_lost [of 60] by simp

end
