(* ===== verification/Trie.thy ===== *)
theory Trie
  imports Names "HOL-Library.AList"
begin

text \<open>
  The name trie of \<open>utils/trie.h\<close>: nodes with an optional payload and children indexed by the
  next component. A node pointer (the \<open>iterator\<close> of the class) is the path of components that
  leads to the node; the null iterator is \<open>None\<close>. The children are an association list, a new
  child at its head; the order in which the hash set would enumerate them is not specified, and
  no theorem depends on it. The bucket array that grows with the number of children only stores
  them and has no counterpart here.
\<close>

section \<open>The structure and its operations\<close>

datatype 'p trie = Node (payload: "'p option") (children: "(component \<times> 'p trie) list")

definition trie_new :: "'p trie" where
  "trie_new = Node None []"

text \<open>\<open>insert\<close>: walk down, creating the nodes that are missing; an occupied node is kept.\<close>

fun trie_insert :: "name \<Rightarrow> 'p \<Rightarrow> 'p trie \<Rightarrow> 'p trie \<times> bool" where
  "trie_insert [] p (Node None cs) = (Node (Some p) cs, True)"
| "trie_insert [] p (Node (Some q) cs) = (Node (Some q) cs, False)"
| "trie_insert (subkey # key) p (Node q cs) =
     (case map_of cs subkey of
        None \<Rightarrow> (case trie_insert key p trie_new of (c, ok) \<Rightarrow> (Node q ((subkey, c) # cs), ok))
      | Some item \<Rightarrow>
          (case trie_insert key p item of (c, ok) \<Rightarrow> (Node q (AList.update subkey c cs), ok)))"

text \<open>
  \<open>erase\<close> on the node at a path: its payload goes, and \<open>prune\<close> removes it and each parent
  above it as long as they have neither payload nor children. The root stays.
\<close>

definition prunable :: "'p trie \<Rightarrow> bool" where
  "prunable t \<longleftrightarrow> payload t = None \<and> length (children t) = 0"

fun trie_erase :: "name \<Rightarrow> 'p trie \<Rightarrow> 'p trie" where
  "trie_erase [] (Node q cs) = Node None cs"
| "trie_erase (subkey # path) (Node q cs) =
     (case map_of cs subkey of
        None \<Rightarrow> Node q cs
      | Some child \<Rightarrow>
          (let child' = trie_erase path child in
           if prunable child' then Node q (AList.delete subkey cs)
           else Node q (AList.update subkey child' cs)))"

definition trie_clear :: "'p trie \<Rightarrow> 'p trie" where
  "trie_clear t = Node (payload t) []"

text \<open>
  \<open>find (key)\<close>: the deepest node with a payload on the way, whether the whole key was
  walked, and the last node reached.
\<close>

fun find_loop :: "name \<Rightarrow> name \<Rightarrow> 'p trie \<Rightarrow> name option \<Rightarrow> name option \<times> bool \<times> name" where
  "find_loop [] trieNode t foundNode = (foundNode, True, trieNode)"
| "find_loop (subkey # key) trieNode t foundNode =
     (case map_of (children t) subkey of
        None \<Rightarrow> (foundNode, False, trieNode)
      | Some item \<Rightarrow>
          find_loop key (trieNode @ [subkey]) item
            (if payload item \<noteq> None then Some (trieNode @ [subkey]) else foundNode))"

definition trie_find :: "name \<Rightarrow> 'p trie \<Rightarrow> name option \<times> bool \<times> name" where
  "trie_find key t = find_loop key [] t (if payload t \<noteq> None then Some [] else None)"

text \<open>\<open>find ()\<close>: the first node with a payload in the subtree, relative to its root.\<close>

fun find_any :: "'p trie \<Rightarrow> name option"
  and find_any_children :: "(component \<times> 'p trie) list \<Rightarrow> name option"
where
  "find_any (Node q cs) = (if q \<noteq> None then Some [] else find_any_children cs)"
| "find_any_children [] = None"
| "find_any_children (kc # cs) =
     (case find_any (snd kc) of
        Some value \<Rightarrow> Some (fst kc # value)
      | None \<Rightarrow> find_any_children cs)"

text \<open>\<open>find_if (pred)\<close>: only the node itself is tested, the children use \<open>find ()\<close>.\<close>

definition find_if :: "('p \<Rightarrow> bool) \<Rightarrow> 'p trie \<Rightarrow> name option" where
  "find_if pred t =
     (case payload t of
        Some p \<Rightarrow> if pred p then Some [] else find_any_children (children t)
      | None \<Rightarrow> find_any_children (children t))"

text \<open>The node at a path, and its payload: the map that the trie represents.\<close>

fun node_at :: "'p trie \<Rightarrow> name \<Rightarrow> 'p trie option" where
  "node_at t [] = Some t"
| "node_at t (k # path) =
     (case map_of (children t) k of None \<Rightarrow> None | Some c \<Rightarrow> node_at c path)"

definition trie_lookup :: "'p trie \<Rightarrow> name \<Rightarrow> 'p option" where
  "trie_lookup t path = (case node_at t path of None \<Rightarrow> None | Some c \<Rightarrow> payload c)"

text \<open>\<open>set_payload\<close>, as \<open>modify\<close> uses it through the stored pointer.\<close>

fun trie_modify :: "name \<Rightarrow> ('p \<Rightarrow> 'p) \<Rightarrow> 'p trie \<Rightarrow> 'p trie" where
  "trie_modify [] f (Node q cs) = Node (map_option f q) cs"
| "trie_modify (k # path) f (Node q cs) =
     (case map_of cs k of
        None \<Rightarrow> Node q cs
      | Some c \<Rightarrow> Node q (AList.update k (trie_modify path f c) cs))"

section \<open>Well-formedness\<close>

text \<open>Children have distinct keys, and no branch is without a payload.\<close>

fun trie_wf :: "'p trie \<Rightarrow> bool" where
  "trie_wf (Node q cs) \<longleftrightarrow> distinct (map fst cs) \<and> list_all (\<lambda>kc. trie_wf (snd kc) \<and> \<not> prunable (snd kc)) cs"

lemma prunable_new [simp]: "prunable trie_new" and wf_new [simp]: "trie_wf trie_new"
  by (simp_all add: prunable_def trie_new_def)

lemma wf_child: "trie_wf (Node q cs) \<Longrightarrow> map_of cs k = Some c \<Longrightarrow> trie_wf c \<and> \<not> prunable c"
  by (auto simp: list_all_iff dest!: map_of_SomeD)

lemma set_update: "set (AList.update k c cs) \<subseteq> insert (k, c) (set cs)"
  by (induction cs) auto

lemma wf_update:
  "trie_wf (Node q cs) \<Longrightarrow> trie_wf c \<Longrightarrow> \<not> prunable c \<Longrightarrow> trie_wf (Node q' (AList.update k c cs))"
  using set_update [of k c cs] by (fastforce simp: list_all_iff AList.distinct_update)

lemma wf_delete: "trie_wf (Node q cs) \<Longrightarrow> trie_wf (Node q' (AList.delete k cs))"
  using AList.distinct_delete [of cs k] by (auto simp: list_all_iff AList.delete_eq)

lemma update_nonempty: "AList.update k c cs \<noteq> []"
  by (cases cs) auto

lemma insert_not_prunable: "\<not> prunable (fst (trie_insert key p t))"
  by (induction key p t rule: trie_insert.induct)
    (auto simp: prunable_def update_nonempty split: option.splits prod.splits)

lemma trie_insert_wf: "trie_wf t \<Longrightarrow> trie_wf (fst (trie_insert key p t))"
proof (induction key p t rule: trie_insert.induct)
  case (3 subkey key p q cs)
  show ?case
  proof (cases "map_of cs subkey")
    case None
    obtain c ok where c: "trie_insert key p trie_new = (c, ok)" by (cases "trie_insert key p trie_new") auto
    have "trie_wf c" "\<not> prunable c" using "3.IH"(1) [OF None] c insert_not_prunable [of key p trie_new] by simp_all
    moreover have "subkey \<notin> fst ` set cs" using None by (simp add: map_of_eq_None_iff)
    ultimately show ?thesis using None c "3.prems" by simp
  next
    case (Some item)
    obtain c ok where c: "trie_insert key p item = (c, ok)" by (cases "trie_insert key p item") auto
    have "trie_wf c" "\<not> prunable c"
      using "3.IH"(2) [OF Some] c insert_not_prunable [of key p item] wf_child [OF "3.prems" Some] by simp_all
    with Some c 3 show ?thesis by (simp add: wf_update del: trie_wf.simps)
  qed
qed auto

lemma trie_erase_wf: "trie_wf t \<Longrightarrow> trie_wf (trie_erase path t)"
proof (induction path t rule: trie_erase.induct)
  case (2 subkey path q cs)
  show ?case
  proof (cases "map_of cs subkey")
    case (Some c)
    then have "trie_wf (trie_erase path c)" using 2 wf_child [OF "2.prems" Some] by simp
    with Some 2 show ?thesis by (simp add: Let_def wf_delete wf_update del: trie_wf.simps)
  qed (use 2 in simp)
qed simp

lemma trie_modify_wf: "trie_wf t \<Longrightarrow> trie_wf (trie_modify path f t)"
proof (induction path f t rule: trie_modify.induct)
  case (2 k path f q cs)
  show ?case
  proof (cases "map_of cs k")
    case (Some c)
    have "\<not> prunable (trie_modify path f c)"
      using wf_child [OF "2.prems" Some]
      by (cases path; cases c) (auto simp: prunable_def update_nonempty split: option.splits)
    with Some 2 wf_child [OF "2.prems" Some] show ?thesis by (simp add: wf_update del: trie_wf.simps)
  qed (use 2 in simp)
qed simp

section \<open>The map the trie represents\<close>

lemma lookup_Nil [simp]: "trie_lookup t [] = payload t"
  by (simp add: trie_lookup_def)

lemma lookup_Cons [simp]:
  "trie_lookup t (k # path) = (case map_of (children t) k of None \<Rightarrow> None | Some c \<Rightarrow> trie_lookup c path)"
  by (simp add: trie_lookup_def split: option.splits)

lemma lookup_new [simp]: "trie_lookup trie_new path = None"
  by (cases path) (simp_all add: trie_new_def)

lemma lookup_prunable: "prunable t \<Longrightarrow> trie_lookup t path = None"
  by (cases path) (simp_all add: prunable_def)

lemma lookup_insert:
  "trie_lookup (fst (trie_insert key p t)) path =
     (if path = key \<and> trie_lookup t key = None then Some p else trie_lookup t path)"
proof (induction key p t arbitrary: path rule: trie_insert.induct)
  case (1 p cs)
  then show ?case by (cases path) auto
next
  case (2 p q cs)
  then show ?case by auto
next
  case (3 subkey key p q cs)
  show ?case
  proof (cases path)
    case Nil
    then show ?thesis by (simp split: option.splits prod.splits)
  next
    case (Cons k rest)
    show ?thesis
    proof (cases "map_of cs subkey")
      case None
      then show ?thesis using Cons "3.IH"(1) [OF None, of rest] by (auto split: option.splits prod.splits)
    next
      case (Some item)
      then show ?thesis using Cons "3.IH"(2) [OF Some, of rest]
        by (auto simp: AList.update_conv' split: option.splits prod.splits)
    qed
  qed
qed

lemma insert_ok_iff: "snd (trie_insert key p t) \<longleftrightarrow> trie_lookup t key = None"
  by (induction key p t rule: trie_insert.induct) (auto split: option.splits prod.splits)

lemma lookup_erase:
  "trie_lookup (trie_erase key t) path = (if path = key then None else trie_lookup t path)"
proof (induction key t arbitrary: path rule: trie_erase.induct)
  case (1 q cs)
  then show ?case by (cases path) auto
next
  case (2 subkey key q cs)
  show ?case
  proof (cases path)
    case Nil
    then show ?thesis by (simp add: Let_def split: option.splits)
  next
    case (Cons k rest)
    show ?thesis
    proof (cases "map_of cs subkey")
      case None
      then show ?thesis using Cons by auto
    next
      case (Some c)
      have IH: "trie_lookup (trie_erase key c) rest = (if rest = key then None else trie_lookup c rest)"
        using 2 Some by simp
      show ?thesis
      proof (cases "prunable (trie_erase key c)")
        case True
        then have "trie_lookup (trie_erase key c) rest = None" by (rule lookup_prunable)
        with True Some Cons IH show ?thesis by (auto simp: AList.delete_conv' split: if_splits)
      next
        case False
        with Some Cons IH show ?thesis by (auto simp: AList.update_conv' Let_def)
      qed
    qed
  qed
qed

lemma lookup_modify:
  "trie_lookup (trie_modify key f t) path =
     (if path = key then map_option f (trie_lookup t key) else trie_lookup t path)"
proof (induction key f t arbitrary: path rule: trie_modify.induct)
  case (1 f q cs)
  then show ?case by (cases path) auto
next
  case (2 k key f q cs)
  then show ?case by (cases path) (auto simp: AList.update_conv' split: option.splits)
qed

section \<open>Searching\<close>

text \<open>A node that is there and cannot be pruned has a stored name at or below it.\<close>

lemma find_any_Some:
  fixes t :: "'p trie" and cs :: "(component \<times> 'p trie) list"
  shows "find_any t = Some q \<Longrightarrow> trie_wf t \<Longrightarrow> trie_lookup t q \<noteq> None"
  and find_any_children_Some:
  "find_any_children cs = Some q \<Longrightarrow> distinct (map fst cs) \<Longrightarrow>
     list_all (\<lambda>kc. trie_wf (snd kc) \<and> \<not> prunable (snd kc)) cs \<Longrightarrow>
     \<exists>k c r. q = k # r \<and> map_of cs k = Some c \<and> trie_lookup c r \<noteq> None"
proof (induction t and cs arbitrary: q and q rule: find_any_find_any_children.induct)
  case (1 p cs)
  then show ?case by (fastforce split: if_splits)
next
  case (3 kc cs)
  show ?case
  proof (cases "find_any (snd kc)")
    case None
    with 3 obtain k c r where *: "q = k # r" "map_of cs k = Some c" "trie_lookup c r \<noteq> None" by auto
    moreover have "fst kc \<noteq> k" using *(2) "3.prems"(2)
      by (metis distinct.simps(2) fst_conv imageI list.set_map list.simps(9) map_of_SomeD)
    ultimately show ?thesis by (cases kc) auto
  next
    case (Some v)
    with 3 show ?thesis by (cases kc) auto
  qed
qed simp

lemma find_any_not_None:
  fixes t :: "'p trie" and cs :: "(component \<times> 'p trie) list"
  shows "trie_wf t \<Longrightarrow> \<not> prunable t \<Longrightarrow> find_any t \<noteq> None"
  and find_any_children_not_None:
  "list_all (\<lambda>kc. trie_wf (snd kc) \<and> \<not> prunable (snd kc)) cs \<Longrightarrow> cs \<noteq> [] \<Longrightarrow> find_any_children cs \<noteq> None"
proof (induction t and cs rule: find_any_find_any_children.induct)
  case (1 q cs)
  then show ?case by (auto simp: prunable_def)
next
  case (3 kc cs)
  then show ?case by (auto split: option.splits)
qed simp

fun deepest :: "name \<Rightarrow> 'p trie \<Rightarrow> name option" where
  "deepest [] t = None"
| "deepest (k # key) t =
     (case map_of (children t) k of
        None \<Rightarrow> None
      | Some c \<Rightarrow>
          (case deepest key c of
             Some r \<Rightarrow> Some (k # r)
           | None \<Rightarrow> if payload c \<noteq> None then Some [k] else None))"

lemma deepest_Some:
  "deepest key t = Some r \<Longrightarrow> r \<noteq> [] \<and> prefix r key \<and> trie_lookup t r \<noteq> None"
  by (induction key t arbitrary: r rule: deepest.induct) (auto split: option.splits if_splits)

lemma deepest_None:
  "deepest key t = None \<Longrightarrow> r \<noteq> [] \<Longrightarrow> prefix r key \<Longrightarrow> trie_lookup t r = None"
proof (induction key t arbitrary: r rule: deepest.induct)
  case (2 k key t)
  then obtain r' where r: "r = k # r'" "prefix r' key" by (auto simp: prefix_Cons)
  show ?case
  proof (cases "map_of (children t) k")
    case (Some c)
    then show ?thesis using 2 r by (cases "r' = []") (auto split: option.splits if_splits)
  qed (simp add: r)
qed simp

lemma deepest_longest:
  "deepest key t = Some r \<Longrightarrow> prefix r' key \<Longrightarrow> trie_lookup t r' \<noteq> None \<Longrightarrow> length r' \<le> length r"
proof (induction key t arbitrary: r r' rule: deepest.induct)
  case (2 k key t)
  show ?case
  proof (cases r')
    case (Cons a q)
    then have q: "a = k" "prefix q key" using 2 by auto
    from 2 obtain c where c: "map_of (children t) k = Some c" by (auto split: option.splits)
    then have lc: "trie_lookup c q \<noteq> None" using 2 Cons q by simp
    show ?thesis
    proof (cases "deepest key c")
      case None
      then have "q = []" using deepest_None [OF None, of q] q lc by auto
      with Cons c None 2 show ?thesis by (auto split: if_splits)
    next
      case (Some s)
      then have "length q \<le> length s" using "2.IH" [OF c Some q(2) lc] by simp
      with Cons c Some 2 show ?thesis by auto
    qed
  qed simp
qed simp

lemma find_loop_found:
  "fst (find_loop key path t found) = (case deepest key t of Some r \<Rightarrow> Some (path @ r) | None \<Rightarrow> found)"
proof (induction key path t found rule: find_loop.induct)
  case (2 subkey key path t found)
  then show ?case by (cases "map_of (children t) subkey") (auto split: option.splits)
qed simp

lemma find_loop_reach:
  "fst (snd (find_loop key path t found)) \<longleftrightarrow> node_at t key \<noteq> None"
  by (induction key path t found rule: find_loop.induct) (auto split: option.splits)

lemma find_loop_last:
  "node_at t key \<noteq> None \<Longrightarrow> snd (snd (find_loop key path t found)) = path @ key"
  by (induction key path t found rule: find_loop.induct) (auto split: option.splits)

lemma node_at_wf: "trie_wf t \<Longrightarrow> node_at t path = Some c \<Longrightarrow> trie_wf c \<and> (path \<noteq> [] \<longrightarrow> \<not> prunable c)"
proof (induction path arbitrary: t)
  case (Cons k path)
  then obtain d where d: "map_of (children t) k = Some d" "node_at d path = Some c"
    by (auto split: option.splits)
  then have "trie_wf d \<and> \<not> prunable d" using Cons.prems(1) by (cases t) (metis trie.sel(2) wf_child)
  then show ?case using Cons.IH [of d] d(2) by (cases path) auto
qed simp

lemma node_at_lookup: "node_at t path = Some c \<Longrightarrow> trie_lookup t (path @ r) = trie_lookup c r"
  by (induction path arbitrary: t) (auto split: option.splits)

text \<open>The whole key is walked exactly when a stored name starts with it (or the key is empty).\<close>

lemma node_at_iff:
  assumes "trie_wf t" and "key \<noteq> []"
  shows "node_at t key \<noteq> None \<longleftrightarrow> (\<exists>r. trie_lookup t (key @ r) \<noteq> None)"
proof
  assume "node_at t key \<noteq> None"
  then obtain c where c: "node_at t key = Some c" by auto
  with node_at_wf [OF assms(1) c] assms(2) have "trie_wf c" "\<not> prunable c" by auto
  then obtain q where "find_any c = Some q" using find_any_not_None(1) [of c] by blast
  then have "trie_lookup c q \<noteq> None" using find_any_Some(1) [OF _ \<open>trie_wf c\<close>] by simp
  with node_at_lookup [OF c] show "\<exists>r. trie_lookup t (key @ r) \<noteq> None" by metis
next
  show "\<exists>r. trie_lookup t (key @ r) \<noteq> None \<Longrightarrow> node_at t key \<noteq> None"
  proof (induction key arbitrary: t)
    case (Cons k key)
    then obtain c r where "map_of (children t) k = Some c" "trie_lookup c (key @ r) \<noteq> None"
      by (auto split: option.splits)
    with Cons.IH [of c] show ?case by auto
  qed simp
qed

section \<open>The map contract\<close>

text \<open>
  What the policy container needs of the trie: a finite map that keeps its invariant.
\<close>

locale name_map =
  fixes lookup :: "'t \<Rightarrow> name \<Rightarrow> 'p option"
    and insert_new :: "name \<Rightarrow> 'p \<Rightarrow> 't \<Rightarrow> 't \<times> bool"
    and erase_at :: "name \<Rightarrow> 't \<Rightarrow> 't"
    and invar :: "'t \<Rightarrow> bool"
  assumes insert_invar: "invar t \<Longrightarrow> invar (fst (insert_new n p t))"
    and erase_invar: "invar t \<Longrightarrow> invar (erase_at n t)"
    and lookup_ins: "lookup (fst (insert_new n p t)) m =
           (if m = n \<and> lookup t n = None then Some p else lookup t m)"
    and ins_ok: "snd (insert_new n p t) \<longleftrightarrow> lookup t n = None"
    and lookup_del: "lookup (erase_at n t) m = (if m = n then None else lookup t m)"
begin

definition stored :: "'t \<Rightarrow> name set" where
  "stored t = dom (lookup t)"

lemma stored_insert: "stored (fst (insert_new n p t)) = insert n (stored t)"
  by (auto simp: stored_def lookup_ins split: if_splits)

lemma stored_erase: "stored (erase_at n t) = stored t - {n}"
  by (auto simp: stored_def lookup_del split: if_splits)

lemma ins_ok_stored: "snd (insert_new n p t) \<longleftrightarrow> n \<notin> stored t"
  by (auto simp: stored_def ins_ok)

text \<open>Inserting and then erasing an absent name gives the old map back.\<close>

lemma insert_erase: "lookup t n = None \<Longrightarrow> lookup (erase_at n (fst (insert_new n p t))) = lookup t"
  by (auto simp: lookup_ins lookup_del)

lemma insert_evict:
  "n \<notin> stored t \<Longrightarrow> v \<noteq> n \<Longrightarrow> lookup (erase_at v (fst (insert_new n p t))) = (lookup t)(n \<mapsto> p, v := None)"
  by (auto simp: lookup_ins lookup_del stored_def)

end

interpretation tries: name_map trie_lookup trie_insert trie_erase trie_wf
  by unfold_locales (rule trie_insert_wf trie_erase_wf lookup_insert insert_ok_iff lookup_erase; assumption?)+



end
