(* ===== verification/Iterate.thy ===== *)
theory Iterate
  imports Trie
begin

text \<open>
  The iterators of the name trie (\<open>utils/trie.h\<close>): \<open>trie_iterator\<close>, which walks the whole tree, and
  \<open>trie_point_iterator\<close>, which walks the children of a node; and \<open>clear_if\<close>, which walks the tree while it
  erases from it. A position is the path of a node, \<open>None\<close> behind the end. The specification of the walk is the
  list of all nodes in preorder.
\<close>

section \<open>The iterators\<close>

text \<open>\<open>after\<close> is the child behind the one with the given key, as \<open>iterator_to\<close> and \<open>item++\<close> find it.\<close>

fun after :: "component \<Rightarrow> (component \<times> 'p trie) list \<Rightarrow> component option" where
  "after k [] = None"
| "after k (kc # cs) = (if fst kc = k then (case cs of [] \<Rightarrow> None | kc' # _ \<Rightarrow> Some (fst kc')) else after k cs)"

function goUp :: "'p trie \<Rightarrow> name \<Rightarrow> name option" where
  "goUp t position =
     (if position = [] then None
      else
        case node_at t (butlast position) of
          None \<Rightarrow> None
        | Some parent \<Rightarrow>
            case after (last position) (children parent) of
              Some item \<Rightarrow> Some (butlast position @ [item])
            | None \<Rightarrow> goUp t (butlast position))"
  by pat_completeness auto
termination by (relation "measure (length \<circ> snd)") auto

declare goUp.simps [simp del]

text \<open>\<open>operator++\<close> of the recursive iterator.\<close>

definition trie_next :: "'p trie \<Rightarrow> name \<Rightarrow> name option" where
  "trie_next t position =
     (case node_at t position of
        None \<Rightarrow> None
      | Some item \<Rightarrow> if length (children item) > 0 then Some (position @ [fst (hd (children item))]) else goUp t position)"

text \<open>The point iterator: its constructor and \<open>operator++\<close>.\<close>

definition point_begin :: "'p trie \<Rightarrow> name \<Rightarrow> name option" where
  "point_begin t item =
     (case node_at t item of
        None \<Rightarrow> None
      | Some n \<Rightarrow> if length (children n) \<noteq> 0 then Some (item @ [fst (hd (children n))]) else None)"

definition point_next :: "'p trie \<Rightarrow> name \<Rightarrow> name option" where
  "point_next t position =
     (if position = [] then None
      else
        case node_at t (butlast position) of
          None \<Rightarrow> None
        | Some parent \<Rightarrow> map_option (\<lambda>item. butlast position @ [item]) (after (last position) (children parent)))"

text \<open>
  \<open>erase\<close> returns what \<open>prune\<close> leaves of the path to the node: the node itself, or its last ancestor that
  is still there.\<close>

fun surviving :: "'p trie \<Rightarrow> name \<Rightarrow> name" where
  "surviving t [] = []"
| "surviving t (k # path) =
     (case map_of (children t) k of None \<Rightarrow> [] | Some c \<Rightarrow> k # surviving c path)"

partial_function (option) clear_loop :: "('p option \<Rightarrow> bool) \<Rightarrow> 'p trie \<Rightarrow> name option \<Rightarrow> 'p trie option" where
  "clear_loop cond t trieNode =
     (case trieNode of
        None \<Rightarrow> Some t
      | Some path \<Rightarrow>
          if cond (trie_lookup t path) then
            (let t' = trie_erase path t in clear_loop cond t' (trie_next t' (surviving t' path)))
          else clear_loop cond t (trie_next t path))"

definition clear_if :: "('p option \<Rightarrow> bool) \<Rightarrow> 'p trie \<Rightarrow> 'p trie option" where
  "clear_if cond t = clear_loop cond t (Some [])"

section \<open>All nodes in preorder\<close>

fun preorder :: "'p trie \<Rightarrow> name list" where
  "preorder (Node q cs) = [] # concat (map (\<lambda>kc. map ((#) (fst kc)) (preorder (snd kc))) cs)"

definition branches :: "(component \<times> 'p trie) list \<Rightarrow> name list" where
  "branches cs = concat (map (\<lambda>kc. map ((#) (fst kc)) (preorder (snd kc))) cs)"

lemma branches_simps [simp]:
  "branches [] = []" "branches (kc # cs) = map ((#) (fst kc)) (preorder (snd kc)) @ branches cs"
  by (simp_all add: branches_def)

lemma preorder_branches: "preorder t = [] # branches (children t)"
  by (cases t) (simp add: branches_def)

text \<open>\<open>visits\<close>: from a position the iterator runs through these nodes and arrives at that position.\<close>

fun visits :: "'p trie \<Rightarrow> name option \<Rightarrow> name list \<Rightarrow> name option \<Rightarrow> bool" where
  "visits t p [] q \<longleftrightarrow> p = q"
| "visits t p (x # xs) q \<longleftrightarrow> p = Some x \<and> visits t (trie_next t x) xs q"

lemma visits_append: "visits t p (xs @ ys) q \<longleftrightarrow> (\<exists>r. visits t p xs r \<and> visits t r ys q)"
  by (induction xs arbitrary: p) auto

lemma node_at_append: "node_at t (pre @ path) = (case node_at t pre of None \<Rightarrow> None | Some c \<Rightarrow> node_at c path)"
  by (induction pre arbitrary: t) (auto split: option.splits)

lemma after_split:
  "distinct (map fst (cs @ kc # ds)) \<Longrightarrow> after (fst kc) (cs @ kc # ds) = (case ds of [] \<Rightarrow> None | kc' # _ \<Rightarrow> Some (fst kc'))"
  by (induction cs) auto

lemma goUp_child:
  assumes "node_at t pre = Some (Node q (cs @ kc # ds))" and "distinct (map fst (cs @ kc # ds))"
  shows "goUp t (pre @ [fst kc]) = (case ds of [] \<Rightarrow> goUp t pre | kc' # _ \<Rightarrow> Some (pre @ [fst kc']))"
  using assms(1) after_split [OF assms(2)] by (subst goUp.simps) (simp split: list.splits)

lemma visits_subtree:
  "trie_wf c \<Longrightarrow> node_at t pre = Some c \<Longrightarrow> visits t (Some pre) (map ((@) pre) (preorder c)) (goUp t pre)"
proof (induction c arbitrary: pre)
  case (Node q cs)
  have d: "distinct (map fst cs)" and wf: "\<forall>kc \<in> set cs. trie_wf (snd kc)" using Node.prems(1) by (auto simp: list_all_iff)
  have walk: "visits t (case ds of [] \<Rightarrow> goUp t pre | kc # _ \<Rightarrow> Some (pre @ [fst kc])) (map ((@) pre) (branches ds)) (goUp t pre)"
    if "cs = bs @ ds" for bs ds
    using that
  proof (induction ds arbitrary: bs)
    case (Cons kc ds)
    have kc: "kc \<in> set cs" "map_of cs (fst kc) = Some (snd kc)" using Cons.prems map_of_is_SomeI [OF d] by simp_all
    have "node_at t (pre @ [fst kc]) = Some (snd kc)" using Node.prems(2) kc(2) by (simp add: node_at_append)
    moreover have "trie_wf (snd kc)" using wf kc(1) by blast
    ultimately have "visits t (Some (pre @ [fst kc])) (map ((@) (pre @ [fst kc])) (preorder (snd kc))) (goUp t (pre @ [fst kc]))"
      using Node.IH [of kc "snd kc"] kc(1) by (cases kc) (auto simp: snds.simps)
    moreover have "goUp t (pre @ [fst kc]) = (case ds of [] \<Rightarrow> goUp t pre | kc' # _ \<Rightarrow> Some (pre @ [fst kc']))"
      by (rule goUp_child [of t pre q bs]) (use Node.prems(2) Cons.prems d in simp_all)
    moreover have "visits t (case ds of [] \<Rightarrow> goUp t pre | kc # _ \<Rightarrow> Some (pre @ [fst kc])) (map ((@) pre) (branches ds)) (goUp t pre)"
      using Cons.IH [of "bs @ [kc]"] Cons.prems by simp
    moreover have "(@) (pre @ [fst kc]) = (\<lambda>x. pre @ fst kc # x)" by (intro ext) simp
    ultimately show ?case by (simp add: visits_append comp_def) blast
  qed simp
  have "trie_next t pre = (case cs of [] \<Rightarrow> goUp t pre | kc # _ \<Rightarrow> Some (pre @ [fst kc]))"
    using Node.prems(2) by (simp add: trie_next_def split: list.splits)
  then show ?case using walk [of "[]" cs] by (simp add: preorder_branches [of "Node q cs"] del: preorder.simps)
qed

lemma preorder_walk: "trie_wf t \<Longrightarrow> visits t (Some []) (preorder t) None"
proof -
  assume "trie_wf t"
  then have "visits t (Some []) (map ((@) []) (preorder t)) (goUp t [])" by (rule visits_subtree) simp
  moreover have "goUp t [] = None" by (subst goUp.simps) simp
  moreover have "map ((@) []) xs = xs" for xs :: "name list" by (induction xs) simp_all
  ultimately show ?thesis by simp
qed

lemma visits_nth:
  "visits t p xs q \<Longrightarrow> i \<le> length xs \<Longrightarrow>
     ((\<lambda>p. Option.bind p (trie_next t)) ^^ i) p = (if i < length xs then Some (xs ! i) else q)"
proof (induction xs arbitrary: p i)
  case (Cons x xs)
  show ?case
  proof (cases i)
    case (Suc j)
    then have "((\<lambda>p. Option.bind p (trie_next t)) ^^ i) p = ((\<lambda>p. Option.bind p (trie_next t)) ^^ j) (trie_next t x)"
      using Cons.prems(1) by (simp add: funpow_Suc_right del: funpow.simps)
    then show ?thesis using Cons.IH [of "trie_next t x" j] Cons.prems Suc by simp
  qed (use Cons.prems in simp)
qed simp

lemma visits_split: "visits t p (xs @ x # ys) None \<Longrightarrow> trie_next t x = (case ys of [] \<Rightarrow> None | y # _ \<Rightarrow> Some y)"
  by (cases ys) (auto simp: visits_append)

section \<open>The nodes of the list\<close>

lemma preorder_set: "trie_wf t \<Longrightarrow> set (preorder t) = {n. node_at t n \<noteq> None}"
proof (induction t)
  case (Node q cs)
  have d: "distinct (map fst cs)" using Node.prems by simp
  have IH: "set (preorder (snd kc)) = {n. node_at (snd kc) n \<noteq> None}" if "kc \<in> set cs" for kc
    using Node.IH [of kc "snd kc"] Node.prems that by (cases kc) (auto simp: snds.simps list_all_iff)
  have "n \<in> set (branches cs) \<longleftrightarrow> n \<noteq> [] \<and> node_at (Node q cs) n \<noteq> None" for n
  proof (cases n)
    case (Cons k path)
    have "n \<in> set (branches cs) \<longleftrightarrow> (\<exists>kc \<in> set cs. fst kc = k \<and> path \<in> set (preorder (snd kc)))"
      unfolding Cons branches_def by auto
    also have "\<dots> \<longleftrightarrow> (\<exists>kc \<in> set cs. fst kc = k \<and> node_at (snd kc) path \<noteq> None)"
      using IH by blast
    also have "\<dots> \<longleftrightarrow> node_at (Node q cs) n \<noteq> None"
    proof (cases "map_of cs k")
      case None
      then have "k \<notin> fst ` set cs" by (simp add: map_of_eq_None_iff)
      with None Cons show ?thesis by auto
    next
      case (Some c)
      then have kc: "(k, c) \<in> set cs" by (rule map_of_SomeD)
      have "snd kc = c" if "kc \<in> set cs" "fst kc = k" for kc
        using Some that map_of_is_SomeI [OF d, of "fst kc" "snd kc"] by (cases kc) simp
      then have "(\<exists>kc \<in> set cs. fst kc = k \<and> node_at (snd kc) path \<noteq> None) \<longleftrightarrow> node_at c path \<noteq> None"
        using bexI [OF _ kc, of "\<lambda>kc. fst kc = k \<and> node_at (snd kc) path \<noteq> None"] by auto
      then show ?thesis using Some Cons by simp
    qed
    finally show ?thesis using Cons by simp
  qed (auto simp: branches_def)
  then show ?case by (auto simp: preorder_branches [of "Node q cs"] simp del: preorder.simps)
qed

lemma preorder_distinct: "trie_wf t \<Longrightarrow> distinct (preorder t)"
proof (induction t)
  case (Node q cs)
  have wf: "distinct (map fst cs)" "\<forall>kc \<in> set cs. trie_wf (snd kc)" using Node.prems by (auto simp: list_all_iff)
  have IH: "distinct (preorder (snd kc))" if "kc \<in> set cs" for kc
    using Node.IH [of kc "snd kc"] wf(2) that by (cases kc) (auto simp: snds.simps)
  have "distinct (branches ds)" if "distinct (map fst ds)" "set ds \<subseteq> set cs" for ds
    using that
  proof (induction ds)
    case (Cons kc ds)
    have "distinct (map ((#) (fst kc)) (preorder (snd kc)))" using IH [of kc] Cons.prems(2) by (simp add: distinct_map)
    moreover have "fst kc # x \<notin> set (branches ds)" for x using Cons.prems(1) by (force simp: branches_def)
    ultimately show ?case using Cons by auto
  qed simp
  then have "distinct (branches cs)" using wf(1) by blast
  moreover have "[] \<notin> set (branches cs)" by (auto simp: branches_def)
  ultimately show ?case by (simp add: preorder_branches [of "Node q cs"] del: preorder.simps)
qed

text \<open>Erasing keeps the order of the nodes that remain.\<close>

lemma update_map:
  "distinct (map fst cs) \<Longrightarrow> k \<in> fst ` set cs \<Longrightarrow> AList.update k c cs = map (\<lambda>kc. if fst kc = k then (k, c) else kc) cs"
proof (induction cs)
  case (Cons kc cs)
  show ?case
  proof (cases "fst kc = k")
    case True
    then have "fst x \<noteq> k" if "x \<in> set cs" for x using Cons.prems(1) that by (metis distinct.simps(2) image_eqI list.map(2) set_map)
    then have "map (\<lambda>kc. if fst kc = k then (k, c) else kc) cs = cs" by (intro map_idI) simp
    with True show ?thesis by (cases kc) simp
  qed (use Cons in \<open>cases kc; simp\<close>)
qed simp

lemma node_at_erase_other:
  "map_of cs k = Some c \<Longrightarrow> k' \<noteq> k \<Longrightarrow> node_at (trie_erase (k # path) (Node q cs)) (k' # x) = node_at (Node q cs) (k' # x)"
  by (simp add: Let_def AList.update_conv' AList.delete_conv')

lemma node_at_erase_below:
  "map_of cs k = Some c \<Longrightarrow> node_at (trie_erase (k # path) (Node q cs)) (k # x) =
     (if prunable (trie_erase path c) then None else node_at (trie_erase path c) x)"
  by (simp add: Let_def AList.update_conv' AList.delete_conv')

lemma preorder_erase:
  "trie_wf t \<Longrightarrow> preorder (trie_erase path t) = filter (\<lambda>x. node_at (trie_erase path t) x \<noteq> None) (preorder t)"
proof (induction path t rule: trie_erase.induct)
  case (1 q cs)
  have "filter (\<lambda>x. node_at (Node None cs) x \<noteq> None) (preorder (Node q cs)) = preorder (Node q cs)"
  proof (rule filter_True, rule ballI)
    fix x assume "x \<in> set (preorder (Node q cs))"
    then have "node_at (Node q cs) x \<noteq> None" using preorder_set [OF 1] by blast
    then show "node_at (Node None cs) x \<noteq> None" by (cases x) simp_all
  qed
  then show ?case by simp
next
  case (2 k path q cs)
  have d: "distinct (map fst cs)" and wf: "\<forall>kc \<in> set cs. trie_wf (snd kc)" using "2.prems" by (auto simp: list_all_iff)
  show ?case
  proof (cases "map_of cs k")
    case None
    have "filter (\<lambda>x. node_at (Node q cs) x \<noteq> None) (preorder (Node q cs)) = preorder (Node q cs)"
      using preorder_set [OF "2.prems"] by (intro filter_True) simp
    with None show ?thesis by simp
  next
    case (Some c)
    let ?t = "trie_erase (k # path) (Node q cs)" and ?c = "trie_erase path c"
    have kc: "(k, c) \<in> set cs" using Some by (rule map_of_SomeD)
    have IH: "preorder ?c = filter (\<lambda>x. node_at ?c x \<noteq> None) (preorder c)" using "2.IH" [OF Some] wf kc by force
    have alive: "filter (\<lambda>x. node_at ?t x \<noteq> None) (map ((#) (fst kc)) (preorder (snd kc))) =
        (if fst kc = k then (if prunable ?c then [] else map ((#) k) (preorder ?c)) else map ((#) (fst kc)) (preorder (snd kc)))"
      if "kc \<in> set cs" for kc
    proof (cases "fst kc = k")
      case True
      then have "kc = (k, c)" using that Some d map_of_is_SomeI [OF d, of "fst kc" "snd kc"] by (cases kc) simp
      then show ?thesis
        using IH node_at_erase_below [OF Some, of path q] by (simp add: filter_map comp_def del: trie_erase.simps)
    next
      case False
      have "map_of cs (fst kc) = Some (snd kc)" using that map_of_is_SomeI [OF d] by simp
      then have "node_at ?t (fst kc # x) = node_at (snd kc) x" for x
        using node_at_erase_other [OF Some False, of path q x] by simp
      moreover have "node_at (snd kc) x \<noteq> None" if "x \<in> set (preorder (snd kc))" for x
        using preorder_set [of "snd kc"] wf \<open>kc \<in> set cs\<close> that by auto
      ultimately show ?thesis using False by (simp add: filter_map comp_def)
    qed
    have parts: "filter (\<lambda>x. node_at ?t x \<noteq> None) (branches cs) = concat (map (\<lambda>kc.
        (if fst kc = k then (if prunable ?c then [] else map ((#) k) (preorder ?c)) else map ((#) (fst kc)) (preorder (snd kc)))) cs)"
      unfolding branches_def filter_concat map_map comp_def
      by (rule arg_cong [of _ _ concat], rule map_cong [OF refl alive])
    have "branches (children ?t) = \<dots>"
    proof (cases "prunable ?c")
      case True
      have "concat (map (\<lambda>kc. if fst kc = k then [] else map ((#) (fst kc)) (preorder (snd kc))) ds) =
          branches (filter (\<lambda>kc. fst kc \<noteq> k) ds)" for ds
        by (induction ds) (simp_all add: branches_def)
      from this [of cs] True Some show ?thesis by (simp add: Let_def AList.delete_eq case_prod_unfold eq_commute [of k])
    next
      case False
      have "k \<in> fst ` set cs" using kc by force
      then have "AList.update k ?c cs = map (\<lambda>kc. if fst kc = k then (k, ?c) else kc) cs" by (rule update_map [OF d])
      with False Some show ?thesis
        by (simp add: Let_def branches_def comp_def) (rule arg_cong [of _ _ concat], simp)
    qed
    then have "branches (children ?t) = filter (\<lambda>x. node_at ?t x \<noteq> None) (branches cs)" unfolding parts .
    then show ?thesis
      unfolding preorder_branches [of ?t] preorder_branches [of "Node q cs"]
      by (simp only: filter.simps(2) node_at.simps trie.sel not_None_eq option.inject simp_thms if_True ex_simps)
  qed
qed

text \<open>A node stands in front of everything below it.\<close>

definition not_below :: "name \<Rightarrow> name \<Rightarrow> bool" where
  "not_below x y \<longleftrightarrow> (\<forall>r. r \<noteq> [] \<longrightarrow> x \<noteq> y @ r)"

lemma preorder_sorted: "trie_wf t \<Longrightarrow> sorted_wrt not_below (preorder t)"
proof (induction t)
  case (Node q cs)
  have "sorted_wrt not_below (branches ds)" if "distinct (map fst ds)" "set ds \<subseteq> set cs" for ds
    using that
  proof (induction ds)
    case (Cons kc ds)
    have "trie_wf (snd kc)" using Cons.prems(2) Node.prems by (auto simp: list_all_iff)
    then have "sorted_wrt not_below (preorder (snd kc))"
      using Node.IH [of kc "snd kc"] Cons.prems(2) by (cases kc) (auto simp: snds.simps)
    then have "sorted_wrt not_below (map ((#) (fst kc)) (preorder (snd kc)))"
      by (auto simp: sorted_wrt_map not_below_def elim!: sorted_wrt_mono_rel [rotated])
    moreover have "not_below (fst kc # x) y" if "y \<in> set (branches ds)" for x y
    proof -
      obtain kc' b where "kc' \<in> set ds" "y = fst kc' # b" using \<open>y \<in> set (branches ds)\<close> by (auto simp: branches_def)
      moreover from this have "fst kc' \<noteq> fst kc" using Cons.prems(1) by (auto simp: image_iff)
      ultimately show ?thesis by (simp add: not_below_def)
    qed
    ultimately show ?case using Cons by (auto simp: sorted_wrt_append)
  qed simp
  moreover have "not_below [] x" for x by (simp add: not_below_def)
  ultimately show ?case using Node.prems by (simp add: preorder_branches [of "Node q cs"] del: preorder.simps)
qed

lemma surviving_self: "node_at t path \<noteq> None \<Longrightarrow> surviving t path = path"
  by (induction t path rule: surviving.induct) (auto split: option.splits)

lemma surviving_above: "node_at t (surviving t path) \<noteq> None \<and> (\<exists>r. path = surviving t path @ r)"
  by (induction t path rule: surviving.induct) (auto split: option.splits)

section \<open>Clearing under a condition\<close>

definition fails :: "('p option \<Rightarrow> bool) \<Rightarrow> 'p option \<Rightarrow> bool" where
  "fails cond q \<longleftrightarrow> q = None \<or> \<not> cond q"

definition front :: "name list \<Rightarrow> name option" where
  "front xs = (case xs of [] \<Rightarrow> None | x # _ \<Rightarrow> Some x)"

lemma next_front: "trie_wf t \<Longrightarrow> preorder t = xs @ y # zs \<Longrightarrow> trie_next t y = front zs"
  using visits_split [of t "Some []" xs y zs] preorder_walk [of t] by (simp add: front_def)

lemma resume:
  assumes "trie_wf t" and split: "preorder t = xs @ y # zs" and gone: "node_at (trie_erase y t) y = None"
  obtains us vs where "preorder (trie_erase y t) = us @ vs"
    and "trie_next (trie_erase y t) (surviving (trie_erase y t) y) = front vs" and "set us \<subseteq> set xs"
proof -
  let ?t = "trie_erase y t" and ?s = "surviving (trie_erase y t) y"
  let ?keep = "filter (\<lambda>x. node_at ?t x \<noteq> None)"
  have p: "preorder ?t = ?keep xs @ ?keep zs" using preorder_erase [OF assms(1), of y] split gone by simp
  have wf: "trie_wf ?t" using assms(1) by (rule trie_erase_wf)
  obtain r where s: "node_at ?t ?s \<noteq> None" and r: "y = ?s @ r" using surviving_above [of ?t y] by blast
  have "r \<noteq> []" using s r gone by auto
  have "?s \<in> set (preorder ?t)" using s preorder_set [OF wf] by simp
  moreover have "?s \<notin> set zs"
    using preorder_sorted [OF assms(1)] split r \<open>r \<noteq> []\<close> by (auto simp: sorted_wrt_append not_below_def)
  ultimately have "?s \<in> set (?keep xs)" unfolding p by auto
  then obtain as bs where ab: "?keep xs = as @ ?s # bs" by (metis split_list)
  have "trie_next ?t ?s = front (bs @ ?keep zs)" by (rule next_front [OF wf, of as]) (use p ab in \<open>simp del: not_None_eq\<close>)
  moreover have "set (as @ [?s]) \<subseteq> set (?keep xs)" unfolding ab by auto
  then have "set (as @ [?s]) \<subseteq> set xs" by auto
  ultimately show ?thesis using that [of "as @ [?s]" "bs @ ?keep zs"] p ab by simp
qed

lemma clear_loop:
  "trie_wf t \<Longrightarrow> preorder t = xs @ ys \<Longrightarrow> \<forall>x \<in> set xs. fails cond (trie_lookup t x) \<Longrightarrow>
   \<exists>t'. clear_loop cond t (front ys) = Some t' \<and> trie_wf t' \<and>
     (\<forall>n. trie_lookup t' n = (if cond (trie_lookup t n) then None else trie_lookup t n))"
proof (induction "length (preorder t)" arbitrary: t xs ys rule: less_induct)
  case less
  show ?case using less.prems
    using less.hyps
  proof (induction ys arbitrary: t xs)
    case Nil
    have "(if cond (trie_lookup t n) then None else trie_lookup t n) = trie_lookup t n" for n
    proof (cases "trie_lookup t n")
      case (Some p)
      then have "node_at t n \<noteq> None" by (auto simp: trie_lookup_def split: option.splits)
      then have "n \<in> set xs" using Nil.prems preorder_set [of t] by auto
      with Nil.prems(3) Some show ?thesis by (auto simp: fails_def)
    qed simp
    then show ?case using Nil.prems(1) by (simp add: clear_loop.simps [of cond t None] front_def)
  next
    case (Cons y zs)
    show ?case
    proof (cases "cond (trie_lookup t y)")
      case False
      have "clear_loop cond t (front (y # zs)) = clear_loop cond t (front zs)"
        using False next_front [OF Cons.prems(1,2)] by (simp add: clear_loop.simps [of cond t "Some y"] front_def)
      moreover have "\<forall>x \<in> set (xs @ [y]). fails cond (trie_lookup t x)" using Cons.prems(3) False by (simp add: fails_def)
      ultimately show ?thesis using Cons.IH [of t "xs @ [y]"] Cons.prems by simp
    next
      case True
      let ?t = "trie_erase y t"
      have step: "clear_loop cond t (front (y # zs)) = clear_loop cond ?t (trie_next ?t (surviving ?t y))"
        using True by (simp add: clear_loop.simps [of cond t "Some y"] front_def Let_def)
      have wf: "trie_wf ?t" using Cons.prems(1) by (rule trie_erase_wf)
      have look: "trie_lookup ?t n = (if n = y then None else trie_lookup t n)" for n
        using Cons.prems(1) by (simp add: lookup_erase)
      have same: "(if cond (trie_lookup ?t n) then None else trie_lookup ?t n) =
          (if cond (trie_lookup t n) then None else trie_lookup t n)" for n
        using True by (simp add: look)
      have ok: "fails cond (trie_lookup ?t x)" if "x \<in> set (xs @ [y])" for x
        using that Cons.prems(3) by (auto simp: look fails_def)
      have p: "preorder ?t = filter (\<lambda>x. node_at ?t x \<noteq> None) (preorder t)" using Cons.prems(1) by (rule preorder_erase)
      show ?thesis
      proof (cases "node_at ?t y = None")
        case True
        then obtain us vs where uv: "preorder ?t = us @ vs" "trie_next ?t (surviving ?t y) = front vs" "set us \<subseteq> set xs"
          by (rule resume [OF Cons.prems(1,2)])
        have "length (preorder ?t) < length (preorder t)"
          unfolding p by (rule length_filter_less [of y]) (use True Cons.prems(2) in simp_all)
        moreover have "\<forall>x \<in> set us. fails cond (trie_lookup ?t x)" using uv(3) ok by auto
        ultimately show ?thesis using Cons.prems(4) [of ?t us vs] wf uv unfolding step same uv(2) by blast
      next
        case False
        let ?keep = "filter (\<lambda>x. node_at ?t x \<noteq> None)"
        have split: "preorder ?t = (?keep xs @ [y]) @ ?keep zs" using False p Cons.prems(2) by simp
        have good: "\<forall>x \<in> set (?keep xs @ [y]). fails cond (trie_lookup ?t x)" using ok by auto
        have on: "trie_next ?t (surviving ?t y) = front (?keep zs)"
          unfolding surviving_self [OF False] by (rule next_front [OF wf, of "?keep xs"]) (use split in simp)
        show ?thesis
        proof (cases "length (preorder ?t) < length (preorder t)")
          case True
          show ?thesis using Cons.prems(4) [OF True wf split good] unfolding step same on .
        next
          case False
          then have all: "preorder ?t = preorder t"
            unfolding p using length_filter_less [of _ "preorder t" "\<lambda>x. node_at ?t x \<noteq> None"] by (intro filter_True) blast
          have "?keep zs = zs"
          proof (rule filter_True, rule ballI)
            fix x assume "x \<in> set zs"
            then have "x \<in> set (preorder ?t)" using all Cons.prems(2) by simp
            then show "node_at ?t x \<noteq> None" using preorder_set [OF wf] by blast
          qed
          then show ?thesis
            using Cons.IH [of ?t "?keep xs @ [y]"] wf good split Cons.prems(4) all unfolding step same on by simp
        qed
      qed
    qed
  qed
qed

section \<open>The walks\<close>

text \<open>
  C28: Walking the trie is reading the list of its nodes: i increments of the recursive iterator, started at
  the root, lead to the i-th node in preorder, and behind the last node to the end; the list has every node
  exactly once, and every node stands before the nodes below it.\<close>

theorem recursive_iterator:
  assumes "trie_wf t"
  shows "(\<forall>i. ((\<lambda>p. Option.bind p (trie_next t)) ^^ i) (Some []) =
        (if i < length (preorder t) then Some (preorder t ! i) else None)) \<and>
      distinct (preorder t) \<and> set (preorder t) = {n. node_at t n \<noteq> None} \<and>
      (\<forall>i j r. i < j \<longrightarrow> j < length (preorder t) \<longrightarrow> r \<noteq> [] \<longrightarrow> preorder t ! i \<noteq> preorder t ! j @ r)"
proof -
  have end_stays: "((\<lambda>p. Option.bind p (trie_next t)) ^^ k) None = None" for k by (induction k) simp_all
  have "((\<lambda>p. Option.bind p (trie_next t)) ^^ i) (Some []) = (if i < length (preorder t) then Some (preorder t ! i) else None)" for i
  proof (cases "i \<le> length (preorder t)")
    case True
    then show ?thesis by (rule visits_nth [OF preorder_walk [OF assms]])
  next
    case False
    then obtain k where i: "i = k + length (preorder t)" by (metis le_add_diff_inverse2 nat_le_linear)
    show ?thesis
      unfolding i funpow_add comp_def using visits_nth [OF preorder_walk [OF assms] order_refl] end_stays by simp
  qed
  moreover have "not_below (preorder t ! i) (preorder t ! j)" if "i < j" "j < length (preorder t)" for i j
    using sorted_wrt_nth_less [OF preorder_sorted [OF assms] that] .
  ultimately show ?thesis using preorder_distinct [OF assms] preorder_set [OF assms] unfolding not_below_def by blast
qed

definition small_trie :: "nat trie" where
  "small_trie = fst (trie_insert [''b''] 7 (fst (trie_insert [''a'', ''x''] 5 (fst (trie_insert [''a''] 3 trie_new)))))"

lemma small_trie:
  "trie_wf small_trie" "preorder small_trie = [[], [''b''], [''a''], [''a'', ''x'']]"
  "trie_lookup small_trie [''a''] = Some 3" "trie_lookup small_trie [''a'', ''x''] = Some 5"
  by code_simp+

theorem recursive_iterator_witness:
  "((\<lambda>p. Option.bind p (trie_next small_trie)) ^^ 3) (Some []) = Some [''a'', ''x'']"
  using recursive_iterator [OF small_trie(1), THEN conjunct1, rule_format, of 3] by (simp add: small_trie(2))

text \<open>
  C29: Clearing under a condition ends, although it erases from the tree it walks: it leaves a well-formed
  trie, from which exactly the payloads of which the condition holds are gone.\<close>

theorem clear_if:
  assumes "trie_wf t"
  shows "\<exists>t'. clear_if cond t = Some t' \<and> trie_wf t' \<and>
    (\<forall>n. trie_lookup t' n = (if cond (trie_lookup t n) then None else trie_lookup t n))"
  using clear_loop [OF assms, of "[]" "preorder t"] by (simp add: clear_if_def front_def preorder_branches [of t])

theorem clear_if_witness:
  "\<exists>t'. clear_if (\<lambda>p. p = Some 5) small_trie = Some t' \<and> trie_lookup t' [''a'', ''x''] = None \<and> trie_lookup t' [''a''] = Some 3"
proof -
  obtain t' where "clear_if (\<lambda>p. p = Some 5) small_trie = Some t'"
    and t': "trie_lookup t' n = (if trie_lookup small_trie n = Some 5 then None else trie_lookup small_trie n)" for n
    using clear_if [OF small_trie(1), of "\<lambda>p. p = Some 5"] by (elim exE conjE) simp
  moreover have "trie_lookup t' [''a'', ''x''] = None" "trie_lookup t' [''a''] = Some 3"
    unfolding t' small_trie(3,4) by simp_all
  ultimately show ?thesis by (intro exI [of _ t']) simp
qed

text \<open>The point iterator runs through the children of a node in their order.\<close>

lemma point_iterator:
  assumes "trie_wf t" "node_at t item = Some n" "i \<le> length (children n)"
  shows "((\<lambda>p. Option.bind p (point_next t)) ^^ i) (point_begin t item) =
      (if i < length (children n) then Some (item @ [fst (children n ! i)]) else None)"
  using assms(3)
proof (induction i)
  case 0
  then show ?case using assms(2) by (cases "children n") (simp_all add: point_begin_def)
next
  case (Suc i)
  have d: "distinct (map fst (children n))" using node_at_wf [OF assms(1,2)] by (cases n) simp
  have "children n = take i (children n) @ children n ! i # drop (Suc i) (children n)"
    using Suc.prems by (simp add: id_take_nth_drop)
  then have "after (fst (children n ! i)) (children n) =
      (case drop (Suc i) (children n) of [] \<Rightarrow> None | kc # _ \<Rightarrow> Some (fst kc))"
    using after_split [of "take i (children n)" "children n ! i" "drop (Suc i) (children n)"] d by simp
  moreover have "drop (Suc i) (children n) = (if Suc i < length (children n) then children n ! Suc i # drop (Suc (Suc i)) (children n) else [])"
    by (simp add: Cons_nth_drop_Suc)
  ultimately show ?case using Suc assms(2) by (simp add: point_next_def)
qed

end
