(* ===== verification/ContentStore.thy ===== *)
theory ContentStore
  imports Trie Visitors
begin

text \<open>
  The trie with a replacement policy (\<open>utils/trie-with-policy.h\<close>, \<open>utils/lru-policy.h\<close>)
  and the content store built on it (\<open>daemon/cs/*\<close>). The policy keeps an intrusive list of
  trie nodes, here the list of their paths, least recently used first; evicting a node erases it
  from the trie. The specification is a cache of bounded size in order of use
  (\<open>cache\<close>, \<open>cache_add\<close>, \<open>cache_use\<close>).
\<close>

section \<open>The trie with the LRU policy\<close>

record 'p policy_trie =
  pt_trie :: "'p trie"
  pt_policy :: "name list"
  pt_max_size :: nat

definition policy_trie_new :: "'p policy_trie" where
  "policy_trie_new = \<lparr>pt_trie = trie_new, pt_policy = [], pt_max_size = 100\<rparr>"

text \<open>\<open>lookup\<close> and \<open>update\<close> of the policy splice the node to the end of the list.\<close>

definition lru_lookup :: "name \<Rightarrow> 'p policy_trie \<Rightarrow> 'p policy_trie" where
  "lru_lookup item s = s\<lparr>pt_policy := filter (\<lambda>n. n \<noteq> item) (pt_policy s) @ [item]\<rparr>"

definition lru_update :: "name \<Rightarrow> 'p policy_trie \<Rightarrow> 'p policy_trie" where
  "lru_update item s = s\<lparr>pt_policy := filter (\<lambda>n. n \<noteq> item) (pt_policy s) @ [item]\<rparr>"

definition lru_erase :: "name \<Rightarrow> 'p policy_trie \<Rightarrow> 'p policy_trie" where
  "lru_erase item s = s\<lparr>pt_policy := filter (\<lambda>n. n \<noteq> item) (pt_policy s)\<rparr>"

definition pt_erase_node :: "name option \<Rightarrow> 'p policy_trie \<Rightarrow> 'p policy_trie" where
  "pt_erase_node node s =
     (case node of
        None \<Rightarrow> s
      | Some n \<Rightarrow> (let s = lru_erase n s in s\<lparr>pt_trie := trie_erase n (pt_trie s)\<rparr>))"

definition lru_insert :: "name \<Rightarrow> 'p policy_trie \<Rightarrow> 'p policy_trie \<times> bool" where
  "lru_insert item s =
     (let s = (if pt_max_size s \<noteq> 0 \<and> length (pt_policy s) \<ge> pt_max_size s
               then pt_erase_node (Some (hd (pt_policy s))) s else s)
      in (s\<lparr>pt_policy := pt_policy s @ [item]\<rparr>, True))"

definition pt_insert :: "name \<Rightarrow> 'p \<Rightarrow> 'p policy_trie \<Rightarrow> 'p policy_trie \<times> name option \<times> bool" where
  "pt_insert key p s =
     (case trie_insert key p (pt_trie s) of (t, inserted) \<Rightarrow>
        let s = s\<lparr>pt_trie := t\<rparr> in
        if inserted then
          (case lru_insert key s of (s, ok) \<Rightarrow>
             if \<not> ok then (s\<lparr>pt_trie := trie_erase key (pt_trie s)\<rparr>, None, False)
             else (s, Some key, True))
        else (s, Some key, False))"

definition pt_erase :: "name \<Rightarrow> 'p policy_trie \<Rightarrow> 'p policy_trie" where
  "pt_erase key s =
     (case trie_find key (pt_trie s) of (foundItem, reachLast, lastItem) \<Rightarrow>
        if \<not> reachLast \<or> trie_lookup (pt_trie s) lastItem = None then s
        else pt_erase_node (Some lastItem) s)"

definition pt_clear :: "'p policy_trie \<Rightarrow> 'p policy_trie" where
  "pt_clear s = s\<lparr>pt_policy := [], pt_trie := trie_clear (pt_trie s)\<rparr>"

definition pt_modify :: "name option \<Rightarrow> ('p \<Rightarrow> 'p) \<Rightarrow> 'p policy_trie \<Rightarrow> 'p policy_trie \<times> bool" where
  "pt_modify position f s =
     (case position of
        None \<Rightarrow> (s, False)
      | Some n \<Rightarrow>
          if trie_lookup (pt_trie s) n = None then (s, False)
          else (lru_update n (s\<lparr>pt_trie := trie_modify n f (pt_trie s)\<rparr>), True))"

definition pt_longest_prefix_match :: "name \<Rightarrow> 'p policy_trie \<Rightarrow> 'p policy_trie \<times> name option" where
  "pt_longest_prefix_match key s =
     (case trie_find key (pt_trie s) of (foundItem, reachLast, lastItem) \<Rightarrow>
        (case foundItem of None \<Rightarrow> s | Some n \<Rightarrow> lru_lookup n s, foundItem))"

text \<open>
  \<open>deepest_prefix_match\<close> passes the node it found to the policy without testing that there is
  one: dereferencing the null iterator is a fault.
\<close>

definition pt_deepest_prefix_match :: "name \<Rightarrow> 'p policy_trie \<Rightarrow> fault + 'p policy_trie \<times> name option" where
  "pt_deepest_prefix_match key s =
     (case trie_find key (pt_trie s) of (foundItem, reachLast, lastItem) \<Rightarrow>
        if reachLast then
          (case (case foundItem of
                   Some n \<Rightarrow> Some n
                 | None \<Rightarrow> (case node_at (pt_trie s) lastItem of
                              None \<Rightarrow> None
                            | Some node \<Rightarrow> map_option (\<lambda>r. lastItem @ r) (find_any node))) of
             None \<Rightarrow> Inl NullDereference
           | Some n \<Rightarrow> Inr (lru_lookup n s, Some n))
        else Inr (s, None))"

definition pt_deepest_prefix_match_if ::
    "name \<Rightarrow> ('p \<Rightarrow> bool) \<Rightarrow> 'p policy_trie \<Rightarrow> 'p policy_trie \<times> name option" where
  "pt_deepest_prefix_match_if key pred s =
     (case trie_find key (pt_trie s) of (foundItem, reachLast, lastItem) \<Rightarrow>
        if reachLast then
          (case node_at (pt_trie s) lastItem of
             None \<Rightarrow> (s, None)
           | Some node \<Rightarrow>
               (case find_if pred node of
                  None \<Rightarrow> (s, None)
                | Some r \<Rightarrow> (lru_lookup (lastItem @ r) s, Some (lastItem @ r))))
        else (s, None))"

section \<open>The content store\<close>

record cs_entry =
  ce_header :: content_header
  ce_packet :: packet

definition Entry_GetName :: "cs_entry \<Rightarrow> fault + name" where
  "Entry_GetName e = ch_GetName (ce_header e)"

type_synonym content_store = "cs_entry policy_trie"

definition cs_Lookup :: "interest_header \<Rightarrow> content_store \<Rightarrow>
    fault + content_store \<times> (content_header \<times> packet) option" where
  "cs_Lookup interest s =
     bindr (ih_GetName interest) (\<lambda>n.
     bindr (pt_deepest_prefix_match n s) (\<lambda>(s, node).
       case node of
         None \<Rightarrow> Inr (s, None)
       | Some q \<Rightarrow>
           (case trie_lookup (pt_trie s) q of
              None \<Rightarrow> Inl NullDereference
            | Some e \<Rightarrow> Inr (s, Some (ce_header e, ce_packet e)))))"

definition cs_Add :: "content_header \<Rightarrow> packet \<Rightarrow> content_store \<Rightarrow> fault + content_store \<times> bool" where
  "cs_Add header p s =
     bindr (ch_GetName header) (\<lambda>n.
       case pt_insert n \<lparr>ce_header = header, ce_packet = p\<rparr> s of (s, node, inserted) \<Rightarrow> Inr (s, inserted))"

definition cs_SetMaxSize :: "u32 \<Rightarrow> content_store \<Rightarrow> content_store" where
  "cs_SetMaxSize maxSize s = s\<lparr>pt_max_size := unat maxSize\<rparr>"

section \<open>Invariant\<close>

definition pt_inv :: "'p policy_trie \<Rightarrow> bool" where
  "pt_inv s \<longleftrightarrow> trie_wf (pt_trie s) \<and> distinct (pt_policy s) \<and>
     set (pt_policy s) = tries.stored (pt_trie s) \<and>
     (pt_max_size s \<noteq> 0 \<longrightarrow> length (pt_policy s) \<le> pt_max_size s)"

lemma pt_inv_new: "pt_inv policy_trie_new"
  by (simp add: pt_inv_def policy_trie_new_def tries.stored_def dom_def)

lemma length_splice:
  assumes "distinct xs" and "x \<in> set xs"
  shows "length (filter (\<lambda>n. n \<noteq> x) xs) = length xs - 1"
proof -
  have "filter (\<lambda>n. n \<noteq> x) xs = remove1 x xs"
    using distinct_remove1_removeAll [OF assms(1), of x] by (simp add: removeAll_filter_not_eq neq_commute)
  then show ?thesis using assms(2) by (simp add: length_remove1)
qed

lemma pt_inv_lookup:
  assumes "pt_inv s" and "n \<in> tries.stored (pt_trie s)"
  shows "pt_inv (lru_lookup n s)"
proof -
  have "pt_policy s \<noteq> []" using assms by (auto simp: pt_inv_def)
  then show ?thesis
    using assms length_splice [of "pt_policy s" n] by (auto simp: pt_inv_def lru_lookup_def)
qed

lemma pt_inv_erase_node:
  assumes "pt_inv s"
  shows "pt_inv (pt_erase_node node s)"
  using assms le_trans [OF length_filter_le]
  by (auto simp: pt_inv_def pt_erase_node_def lru_erase_def tries.erase_invar tries.stored_erase
      Let_def split: option.splits)

text \<open>One insertion, as a statement about the policy list and the map.\<close>

definition evicted :: "'p policy_trie \<Rightarrow> name list" where
  "evicted s = (if pt_max_size s \<noteq> 0 \<and> length (pt_policy s) \<ge> pt_max_size s then [hd (pt_policy s)] else [])"

lemma pt_insert_old:
  "n \<in> tries.stored (pt_trie s) \<Longrightarrow> pt_insert n p s = (s\<lparr>pt_trie := fst (trie_insert n p (pt_trie s))\<rparr>, Some n, False)"
  using tries.ins_ok_stored [of n p "pt_trie s"]
  by (cases "trie_insert n p (pt_trie s)") (simp add: pt_insert_def Let_def)

lemma pt_insert_new:
  assumes "n \<notin> tries.stored (pt_trie s)"
  shows "pt_insert n p s =
    (s\<lparr>pt_trie := fold trie_erase (evicted s) (fst (trie_insert n p (pt_trie s))),
       pt_policy := filter (\<lambda>m. m \<notin> set (evicted s)) (pt_policy s) @ [n]\<rparr>, Some n, True)"
  using tries.ins_ok_stored [of n p "pt_trie s"] assms
  by (cases "trie_insert n p (pt_trie s)")
    (simp add: pt_insert_def Let_def lru_insert_def evicted_def pt_erase_node_def lru_erase_def)

lemma hd_policy:
  assumes "pt_inv s" and "evicted s \<noteq> []"
  shows "pt_policy s = hd (pt_policy s) # tl (pt_policy s)"
    and "filter (\<lambda>m. m \<notin> set (evicted s)) (pt_policy s) = tl (pt_policy s)"
    and "length (pt_policy s) = pt_max_size s"
proof -
  from assms show eq: "pt_policy s = hd (pt_policy s) # tl (pt_policy s)"
    by (cases "pt_policy s") (auto simp: evicted_def split: if_splits)
  have "distinct (pt_policy s)" using assms(1) by (simp add: pt_inv_def)
  moreover have "set (evicted s) = {hd (pt_policy s)}"
    using assms(2) by (auto simp: evicted_def split: if_splits)
  ultimately show "filter (\<lambda>m. m \<notin> set (evicted s)) (pt_policy s) = tl (pt_policy s)"
    using eq by (metis (mono_tags, lifting) distinct.simps(2) filter.simps(2) filter_True singletonD singletonI)
  show "length (pt_policy s) = pt_max_size s"
    using assms by (auto simp: pt_inv_def evicted_def split: if_splits)
qed

lemma insert_policy:
  assumes "pt_inv s"
  shows "filter (\<lambda>m. m \<notin> set (evicted s)) (pt_policy s) = drop (length (evicted s)) (pt_policy s)"
proof (cases "evicted s")
  case Nil
  then show ?thesis by simp
next
  case (Cons v vs)
  then have "length (evicted s) = 1" by (auto simp: evicted_def split: if_splits)
  then show ?thesis using hd_policy(2) [OF assms] Cons by (simp add: drop_Suc)
qed

lemma lookup_pt_insert:
  assumes "pt_inv s" and "n \<notin> tries.stored (pt_trie s)"
  shows "trie_lookup (fold trie_erase (evicted s) (fst (trie_insert n p (pt_trie s)))) m =
    (if m \<in> set (evicted s) then None else if m = n then Some p else trie_lookup (pt_trie s) m)"
  using assms(2) by (auto simp: evicted_def tries.lookup_del tries.lookup_ins tries.stored_def)

lemma evicted_stored:
  assumes "pt_inv s" and "m \<in> set (evicted s)"
  shows "m \<in> tries.stored (pt_trie s)"
  using assms hd_policy(1) [OF assms(1)] unfolding pt_inv_def
  by (metis empty_iff evicted_def list.set(1) list.set_intros(1) set_ConsD)

lemma pt_inv_insert:
  assumes "pt_inv s"
  shows "pt_inv (fst (pt_insert n p s))"
proof (cases "n \<in> tries.stored (pt_trie s)")
  case True
  then have "tries.stored (fst (trie_insert n p (pt_trie s))) = tries.stored (pt_trie s)"
    by (auto simp: tries.stored_insert)
  with True assms show ?thesis by (simp add: pt_insert_old pt_inv_def tries.insert_invar)
next
  case False
  let ?t = "fold trie_erase (evicted s) (fst (trie_insert n p (pt_trie s)))"
  have wf: "trie_wf ?t"
    using assms by (auto simp: evicted_def pt_inv_def tries.insert_invar tries.erase_invar)
  have st: "tries.stored ?t = insert n (tries.stored (pt_trie s)) - set (evicted s)"
    by (auto simp: evicted_def tries.stored_insert tries.stored_erase)
  have n: "n \<notin> set (evicted s)" using evicted_stored [OF assms] False by blast
  have len: "length (filter (\<lambda>m. m \<notin> set (evicted s)) (pt_policy s)) < pt_max_size s"
    if "pt_max_size s \<noteq> 0"
  proof (cases "evicted s = []")
    case True
    then show ?thesis using that by (auto simp: evicted_def split: if_splits)
  next
    case False
    then show ?thesis using hd_policy [OF assms False] that by simp
  qed
  show ?thesis
    using assms wf st n False len
    by (auto simp: pt_insert_new pt_inv_def Suc_le_eq)
qed

section \<open>The store as a cache in order of use\<close>

type_synonym 'p cache = "(name \<times> 'p) list"

definition cache_of :: "'p policy_trie \<Rightarrow> 'p cache" where
  "cache_of s = map (\<lambda>n. (n, the (trie_lookup (pt_trie s) n))) (pt_policy s)"

definition cache_add :: "nat \<Rightarrow> name \<Rightarrow> 'p \<Rightarrow> 'p cache \<Rightarrow> 'p cache" where
  "cache_add capacity n p c =
     (if n \<in> fst ` set c then c
      else (if capacity \<noteq> 0 \<and> capacity \<le> length c then drop 1 c else c) @ [(n, p)])"

definition cache_use :: "name \<Rightarrow> 'p cache \<Rightarrow> 'p cache" where
  "cache_use n c = filter (\<lambda>e. fst e \<noteq> n) c @ filter (\<lambda>e. fst e = n) c"

lemma cache_names: "map fst (cache_of s) = pt_policy s"
  by (simp add: cache_of_def comp_def)

lemma cache_names_set: "fst ` set (cache_of s) = set (pt_policy s)"
  by (metis cache_names set_map)

lemma filter_key_single: "distinct xs \<Longrightarrow> x \<in> set xs \<Longrightarrow> filter (\<lambda>y. y = x) xs = [x]"
  by (induction xs) (auto simp: filter_empty_conv)

lemma cache_use_refines:
  assumes "pt_inv s" and "n \<in> tries.stored (pt_trie s)"
  shows "cache_of (lru_lookup n s) = cache_use n (cache_of s)"
  using assms filter_key_single [of "pt_policy s" n]
  by (simp add: cache_of_def cache_use_def lru_lookup_def filter_map comp_def pt_inv_def)

lemma cache_add_refines:
  assumes "pt_inv s"
  shows "cache_of (fst (pt_insert n p s)) = cache_add (pt_max_size s) n p (cache_of s)"
proof (cases "n \<in> tries.stored (pt_trie s)")
  case True
  then have "trie_lookup (fst (trie_insert n p (pt_trie s))) = trie_lookup (pt_trie s)"
    by (auto simp: tries.lookup_ins tries.stored_def)
  with True assms show ?thesis
    by (simp add: pt_insert_old cache_add_def cache_names_set)
      (simp add: cache_of_def pt_inv_def)
next
  case False
  let ?rest = "drop (length (evicted s)) (pt_policy s)"
  have mem: "m \<notin> set (evicted s) \<and> m \<noteq> n" if "m \<in> set ?rest" for m
  proof
    show "m \<notin> set (evicted s)"
      using that unfolding insert_policy [OF assms, symmetric] by simp
    have "m \<in> tries.stored (pt_trie s)" using that assms by (auto simp: pt_inv_def dest: in_set_dropD)
    with False show "m \<noteq> n" by blast
  qed
  have n: "n \<notin> set (evicted s)" using evicted_stored [OF assms] False by blast
  have "cache_of (fst (pt_insert n p s)) =
      map (\<lambda>m. (m, the (trie_lookup (pt_trie s) m))) ?rest @ [(n, p)]"
    using mem n by (simp add: pt_insert_new [OF False] insert_policy [OF assms] cache_of_def
        lookup_pt_insert [OF assms False])
  moreover have "n \<notin> fst ` set (cache_of s)"
    using False assms by (simp add: cache_names_set pt_inv_def)
  ultimately show ?thesis
    by (simp add: cache_add_def) (auto simp: cache_of_def drop_map evicted_def)
qed

section \<open>What a lookup finds\<close>

lemma deepest_match_cases:
  assumes "pt_inv s" and "key \<noteq> []" and "pt_trie s = t"
  shows "(\<forall>q \<in> tries.stored t. \<not> prefix key q) \<Longrightarrow> pt_deepest_prefix_match key s = Inr (s, None)"
    and "q \<in> tries.stored t \<Longrightarrow> prefix key q \<Longrightarrow>
      \<exists>r \<in> tries.stored t. pt_deepest_prefix_match key s = Inr (lru_lookup r s, Some r) \<and>
        (if \<exists>q \<in> tries.stored t. prefix q key
         then prefix r key \<and> (\<forall>q \<in> tries.stored t. prefix q key \<longrightarrow> length q \<le> length r)
         else prefix key r)"
proof -
  have wf: "trie_wf t" using assms by (simp add: pt_inv_def)
  obtain f re l where find: "trie_find key t = (f, re, l)" by (cases "trie_find key t") auto
  define root where "root = (if payload t \<noteq> None then Some ([] :: name) else None)"
  have f: "f = (case deepest key t of Some r \<Rightarrow> Some r | None \<Rightarrow> root)"
    using find find_loop_found [of key "[]" t root] by (simp add: trie_find_def root_def option.case_eq_if)
  have re: "re \<longleftrightarrow> (\<exists>r. trie_lookup t (key @ r) \<noteq> None)"
    using find find_loop_reach [of key "[]" t root] node_at_iff [OF wf assms(2)]
    by (simp add: trie_find_def root_def)
  { assume none: "\<forall>q \<in> tries.stored t. \<not> prefix key q"
    then have "\<not> re" by (auto simp: re tries.stored_def prefix_def)
    then show "pt_deepest_prefix_match key s = Inr (s, None)"
      using find assms(3) by (simp add: pt_deepest_prefix_match_def) }
  assume q: "q \<in> tries.stored t" "prefix key q"
  then have "re" by (auto simp: re tries.stored_def prefix_def)
  then obtain node where node: "node_at t key = Some node"
    using node_at_iff [OF wf assms(2)] re by auto
  have l: "l = key"
    using find find_loop_last [of t key "[]" root] node by (simp add: trie_find_def root_def)
  show "\<exists>r \<in> tries.stored t. pt_deepest_prefix_match key s = Inr (lru_lookup r s, Some r) \<and>
        (if \<exists>q \<in> tries.stored t. prefix q key
         then prefix r key \<and> (\<forall>q \<in> tries.stored t. prefix q key \<longrightarrow> length q \<le> length r)
         else prefix key r)"
  proof (cases f)
    case (Some r)
    have r: "r \<in> tries.stored t \<and> prefix r key \<and> (\<forall>q \<in> tries.stored t. prefix q key \<longrightarrow> length q \<le> length r)"
    proof (cases "deepest key t")
      case None
      then have "r = []" "payload t \<noteq> None" using Some f by (auto simp: root_def split: if_splits)
      then show ?thesis using deepest_None [OF None] by (force simp: tries.stored_def)
    next
      case (Some r')
      then show ?thesis using \<open>f = Some r\<close> f deepest_Some [OF Some] deepest_longest [OF Some]
        by (auto simp: tries.stored_def)
    qed
    have "pt_deepest_prefix_match key s = Inr (lru_lookup r s, Some r)"
      using find \<open>re\<close> Some assms(3) by (simp add: pt_deepest_prefix_match_def)
    moreover from r have "\<exists>q \<in> tries.stored t. prefix q key" by blast
    ultimately show ?thesis using r by (intro bexI [of _ r]) simp_all
  next
    case None
    then have d: "deepest key t = None" and p: "payload t = None"
      using f by (auto simp: root_def split: option.splits if_splits)
    have no: "\<not> (\<exists>q \<in> tries.stored t. prefix q key)"
    proof
      assume "\<exists>q \<in> tries.stored t. prefix q key"
      then obtain q where q: "trie_lookup t q \<noteq> None" "prefix q key" by (auto simp: tries.stored_def)
      then show False using deepest_None [OF d, of q] p by (cases "q = []") simp_all
    qed
    have "trie_wf node" "\<not> prunable node" using node_at_wf [OF wf node] assms(2) by auto
    then obtain v where v: "find_any node = Some v" using find_any_not_None(1) [of node] by blast
    then have "trie_lookup t (key @ v) \<noteq> None"
      using find_any_Some(1) [OF v \<open>trie_wf node\<close>] node_at_lookup [OF node] by simp
    then have "key @ v \<in> tries.stored t" by (auto simp: tries.stored_def)
    moreover have "pt_deepest_prefix_match key s = Inr (lru_lookup (key @ v) s, Some (key @ v))"
      using find \<open>re\<close> None assms(3) l node v by (simp add: pt_deepest_prefix_match_def)
    ultimately show ?thesis using no by auto
  qed
qed

section \<open>The invariant of the content store\<close>

definition cs_inv :: "content_store \<Rightarrow> bool" where
  "cs_inv s \<longleftrightarrow> pt_inv s \<and> (\<forall>n e. trie_lookup (pt_trie s) n = Some e \<longrightarrow> ch_name (ce_header e) = Some n)"

text \<open>The store as the daemon uses it: created empty, then content added and looked up.\<close>

inductive cs_reachable :: "content_store \<Rightarrow> bool" where
  cs_new: "cs_reachable policy_trie_new"
| cs_add: "cs_reachable s \<Longrightarrow> cs_Add header p s = Inr (s', b) \<Longrightarrow> cs_reachable s'"
| cs_lookup: "cs_reachable s \<Longrightarrow> cs_Lookup interest s = Inr (s', r) \<Longrightarrow> cs_reachable s'"

lemma cs_Add_eq:
  "cs_Add header p s = Inr (s', b) \<longleftrightarrow>
     (\<exists>n node. ch_name header = Some n \<and> pt_insert n \<lparr>ce_header = header, ce_packet = p\<rparr> s = (s', node, b))"
  by (auto simp: cs_Add_def ch_GetName_def bindr_eq_Inr split: option.splits prod.splits)

lemma cs_Add_inv:
  assumes "cs_inv s" and "cs_Add header p s = Inr (s', b)"
  shows "cs_inv s'"
proof -
  obtain n node where n: "ch_name header = Some n"
    and ins: "pt_insert n \<lparr>ce_header = header, ce_packet = p\<rparr> s = (s', node, b)"
    using assms(2) by (auto simp: cs_Add_eq)
  have inv: "pt_inv s" using assms(1) by (simp add: cs_inv_def)
  have "pt_inv s'" using pt_inv_insert [OF inv, of n "\<lparr>ce_header = header, ce_packet = p\<rparr>"] ins by simp
  moreover have "ch_name (ce_header e) = Some m" if "trie_lookup (pt_trie s') m = Some e" for m e
  proof (cases "n \<in> tries.stored (pt_trie s)")
    case True
    then show ?thesis using that ins assms(1)
      by (auto simp: pt_insert_old tries.lookup_ins cs_inv_def tries.stored_def split: if_splits)
  next
    case False
    have "s' = fst (pt_insert n \<lparr>ce_header = header, ce_packet = p\<rparr> s)" using ins by simp
    then have "trie_lookup (pt_trie s') m = (if m \<in> set (evicted s) then None
        else if m = n then Some \<lparr>ce_header = header, ce_packet = p\<rparr> else trie_lookup (pt_trie s) m)"
      by (simp add: pt_insert_new [OF False] lookup_pt_insert [OF inv False])
    with that n assms(1) show ?thesis by (auto simp: cs_inv_def split: if_splits)
  qed
  ultimately show ?thesis by (simp add: cs_inv_def)
qed

lemma cs_Add_stored:
  assumes "cs_inv s" and "cs_Add header p s = Inr (s', b)" and "trie_lookup (pt_trie s') m = Some e"
  shows "trie_lookup (pt_trie s) m = Some e \<or> ce_packet e = p \<and> ce_header e = header"
proof -
  obtain n node where ins: "pt_insert n \<lparr>ce_header = header, ce_packet = p\<rparr> s = (s', node, b)"
    using assms(2) by (auto simp: cs_Add_eq)
  have inv: "pt_inv s" using assms(1) by (simp add: cs_inv_def)
  show ?thesis
  proof (cases "n \<in> tries.stored (pt_trie s)")
    case True
    with ins assms(3) show ?thesis by (auto simp: pt_insert_old tries.lookup_ins split: if_splits)
  next
    case False
    have "s' = fst (pt_insert n \<lparr>ce_header = header, ce_packet = p\<rparr> s)" using ins by simp
    then have "trie_lookup (pt_trie s') m = (if m \<in> set (evicted s) then None
        else if m = n then Some \<lparr>ce_header = header, ce_packet = p\<rparr> else trie_lookup (pt_trie s) m)"
      by (simp add: pt_insert_new [OF False] lookup_pt_insert [OF inv False])
    with assms(3) show ?thesis by (auto split: if_splits)
  qed
qed

lemma deepest_match_stored:
  assumes "pt_inv s" and "pt_deepest_prefix_match key s = Inr (s', r)"
  shows "(r = None \<and> s' = s) \<or> (\<exists>q \<in> tries.stored (pt_trie s). r = Some q \<and> s' = lru_lookup q s)"
proof (cases "key = []")
  case True
  have wf: "trie_wf (pt_trie s)" using assms(1) by (simp add: pt_inv_def)
  show ?thesis
  proof (cases "payload (pt_trie s)")
    case None
    then obtain q where "find_any (pt_trie s) = Some q" "s' = lru_lookup q s" "r = Some q"
      using assms(2) True by (auto simp: pt_deepest_prefix_match_def trie_find_def split: option.splits)
    with find_any_Some(1) [OF _ wf] show ?thesis by (auto simp: tries.stored_def)
  next
    case Some
    then show ?thesis
      using assms(2) True by (auto simp: pt_deepest_prefix_match_def trie_find_def tries.stored_def intro!: bexI [of _ "[]"])
  qed
next
  case False
  then show ?thesis
    using deepest_match_cases [OF assms(1) False refl] assms(2) by fastforce
qed

lemma cs_Lookup_inv:
  assumes "cs_inv s" and "cs_Lookup interest s = Inr (s', r)"
  shows "cs_inv s' \<and> pt_trie s' = pt_trie s"
proof -
  obtain key q where *: "pt_deepest_prefix_match key s = Inr (s', q)"
    using assms(2) by (auto simp: cs_Lookup_def bindr_eq_Inr split: option.splits)
  have "pt_inv s" using assms(1) by (simp add: cs_inv_def)
  from deepest_match_stored [OF this *] assms(1) show ?thesis
    by (auto simp: cs_inv_def pt_inv_lookup) (simp_all add: lru_lookup_def)
qed

lemma cs_Lookup_total:
  assumes "cs_inv s" and "ih_name interest = Some n" and "n \<noteq> []"
  shows "\<exists>s' r. cs_Lookup interest s = Inr (s', r)"
proof -
  have inv: "pt_inv s" using assms(1) by (simp add: cs_inv_def)
  show ?thesis
  proof (cases "\<forall>q \<in> tries.stored (pt_trie s). \<not> prefix n q")
    case True
    then show ?thesis using deepest_match_cases(1) [OF inv assms(3) refl] assms(2)
      by (simp add: cs_Lookup_def ih_GetName_def)
  next
    case False
    then obtain q where "q \<in> tries.stored (pt_trie s)" "prefix n q" by blast
    from deepest_match_cases(2) [OF inv assms(3) refl this] obtain r where
      "r \<in> tries.stored (pt_trie s)" "pt_deepest_prefix_match n s = Inr (lru_lookup r s, Some r)" by blast
    then show ?thesis using assms(2)
      by (auto simp: cs_Lookup_def ih_GetName_def lru_lookup_def tries.stored_def)
  qed
qed

lemma cs_Lookup_fault:
  assumes "ih_name interest = Some n" and "cs_Lookup interest s = Inl e"
  shows "e = NullDereference"
  using assms
  by (auto simp: cs_Lookup_def ih_GetName_def bindr_eq_Inl pt_deepest_prefix_match_def
      split: option.splits prod.splits if_splits)

lemma cs_Lookup_stored:
  "cs_Lookup interest s = Inr (s', Some (h, p)) \<Longrightarrow>
     \<exists>q e. trie_lookup (pt_trie s') q = Some e \<and> h = ce_header e \<and> p = ce_packet e"
proof -
  assume "cs_Lookup interest s = Inr (s', Some (h, p))"
  then obtain s1 q where "(case q of None \<Rightarrow> Inr (s1, None) | Some q \<Rightarrow> (case trie_lookup (pt_trie s1) q of
      None \<Rightarrow> Inl NullDereference | Some e \<Rightarrow> Inr (s1, Some (ce_header e, ce_packet e)))) = Inr (s', Some (h, p))"
    by (auto simp: cs_Lookup_def bindr_eq_Inr)
  then show ?thesis by (auto split: option.splits)
qed

lemma pt_max_size_insert: "pt_max_size (fst (pt_insert n p s)) = pt_max_size s"
  by (cases "n \<in> tries.stored (pt_trie s)") (simp_all add: pt_insert_old pt_insert_new)

lemma cs_reachable_inv: "cs_reachable s \<Longrightarrow> cs_inv s \<and> pt_max_size s = 100"
proof (induction rule: cs_reachable.induct)
  case cs_new
  then show ?case using pt_inv_new by (simp add: cs_inv_def policy_trie_new_def)
next
  case (cs_add s header p s' b)
  then obtain n node where "pt_insert n \<lparr>ce_header = header, ce_packet = p\<rparr> s = (s', node, b)"
    by (auto simp: cs_Add_eq)
  then have "pt_max_size s' = pt_max_size s" using pt_max_size_insert by (metis fst_conv)
  then show ?case using cs_add cs_Add_inv by auto
next
  case (cs_lookup s interest s' r)
  then obtain key q where *: "pt_deepest_prefix_match key s = Inr (s', q)"
    by (auto simp: cs_Lookup_def bindr_eq_Inr split: option.splits)
  have "pt_max_size s' = pt_max_size s"
    using deepest_match_stored [OF _ *] cs_lookup.IH by (auto simp: cs_inv_def lru_lookup_def)
  then show ?case using cs_lookup cs_Lookup_inv by auto
qed

section \<open>Properties\<close>

text \<open>
  C36: in every reachable state the content store holds at most 100 entries, its policy list names
  exactly the stored entries, each once, and every entry is stored under its own name.
\<close>

theorem content_store_invariant:
  assumes "cs_reachable s"
  shows "card (dom (trie_lookup (pt_trie s))) \<le> 100 \<and>
    distinct (pt_policy s) \<and> set (pt_policy s) = dom (trie_lookup (pt_trie s)) \<and>
    (\<forall>n e. trie_lookup (pt_trie s) n = Some e \<longrightarrow> Entry_GetName e = Inr n)"
proof -
  have inv: "cs_inv s" "pt_max_size s = 100" using cs_reachable_inv [OF assms] by auto
  then have "card (set (pt_policy s)) \<le> 100"
    by (simp add: cs_inv_def pt_inv_def distinct_card del: set_eq_iff)
      (metis distinct_card)
  with inv show ?thesis
    by (auto simp: cs_inv_def pt_inv_def tries.stored_def Entry_GetName_def ch_GetName_def)
qed


text \<open>
  An Interest for a non-empty name of which no stored name is a proper prefix is answered
  with an entry whose name starts with the name asked for, exactly when there is such an entry.
\<close>

theorem content_store_lookup:
  assumes "cs_reachable s" and "ih_name interest = Some n" and "n \<noteq> []"
    and "\<forall>q \<in> dom (trie_lookup (pt_trie s)). \<not> strict_prefix q n"
  shows "\<exists>s' r. cs_Lookup interest s = Inr (s', r) \<and>
    (r = None \<longleftrightarrow> (\<forall>q \<in> dom (trie_lookup (pt_trie s)). \<not> prefix n q)) \<and>
    (\<forall>h p. r = Some (h, p) \<longrightarrow> (\<exists>q. ch_name h = Some q \<and> prefix n q))"
proof -
  have inv: "cs_inv s" "pt_inv s" using cs_reachable_inv [OF assms(1)] by (auto simp: cs_inv_def)
  note match = deepest_match_cases [OF inv(2) assms(3) refl]
  show ?thesis
  proof (cases "\<forall>q \<in> tries.stored (pt_trie s). \<not> prefix n q")
    case True
    then have "cs_Lookup interest s = Inr (s, None)"
      using match(1) assms(2) by (simp add: cs_Lookup_def ih_GetName_def)
    with True show ?thesis unfolding tries.stored_def by blast
  next
    case False
    then obtain q where q: "q \<in> tries.stored (pt_trie s)" "prefix n q" by blast
    from match(2) [OF q] obtain r where r: "r \<in> tries.stored (pt_trie s)"
      "pt_deepest_prefix_match n s = Inr (lru_lookup r s, Some r)"
      "if \<exists>q \<in> tries.stored (pt_trie s). prefix q n
       then prefix r n \<and> (\<forall>q \<in> tries.stored (pt_trie s). prefix q n \<longrightarrow> length q \<le> length r)
       else prefix n r" by blast
    then obtain e where e: "trie_lookup (pt_trie s) r = Some e" by (auto simp: tries.stored_def)
    have "prefix n r"
      using r(1,3) assms(4) by (auto simp: tries.stored_def strict_prefix_def split: if_splits)
    moreover have "cs_Lookup interest s = Inr (lru_lookup r s, Some (ce_header e, ce_packet e))"
      using r(2) e assms(2) by (simp add: cs_Lookup_def ih_GetName_def lru_lookup_def)
    moreover have "ch_name (ce_header e) = Some r" using e inv(1) by (simp add: cs_inv_def)
    ultimately show ?thesis using q by (auto simp: tries.stored_def)
  qed
qed

text \<open>
  When the name asked for is not stored, but a proper prefix of it and an extension of it are,
  the store answers with the content of the longest stored prefix, which does not match the
  Interest, and not with the extension, which does.
\<close>

theorem content_store_short_answer:
  assumes "cs_reachable s" and "ih_name interest = Some n"
    and "q \<in> dom (trie_lookup (pt_trie s))" and "strict_prefix q n"
    and "x \<in> dom (trie_lookup (pt_trie s))" and "strict_prefix n x"
    and "n \<notin> dom (trie_lookup (pt_trie s))"
  shows "\<exists>s' h p r. cs_Lookup interest s = Inr (s', Some (h, p)) \<and> ch_name h = Some r \<and> strict_prefix r n"
proof -
  have inv: "cs_inv s" "pt_inv s" using cs_reachable_inv [OF assms(1)] by (auto simp: cs_inv_def)
  have "n \<noteq> []" "prefix n x" using assms(4,6) by (auto simp: strict_prefix_def)
  from deepest_match_cases(2) [OF inv(2) this(1) refl _ this(2)] assms(3-5)
  obtain r where r: "r \<in> tries.stored (pt_trie s)" "prefix r n"
      "pt_deepest_prefix_match n s = Inr (lru_lookup r s, Some r)"
    by (auto simp: tries.stored_def strict_prefix_def split: if_splits)
  then obtain e where e: "trie_lookup (pt_trie s) r = Some e" by (auto simp: tries.stored_def)
  have "cs_Lookup interest s = Inr (lru_lookup r s, Some (ce_header e, ce_packet e))"
    using r(3) e assms(2) by (simp add: cs_Lookup_def ih_GetName_def lru_lookup_def)
  moreover have "ch_name (ce_header e) = Some r" using e inv(1) by (simp add: cs_inv_def)
  moreover have "strict_prefix r n" using r e assms(7) by (auto simp: strict_prefix_def)
  ultimately show ?thesis by blast
qed

text \<open>
  Looking up the empty name in an empty store dereferences the null iterator.
\<close>

theorem content_store_null:
  assumes "dom (trie_lookup (pt_trie s)) = {}" and "trie_wf (pt_trie s)" and "ih_name interest = Some []"
  shows "cs_Lookup interest s = Inl NullDereference"
proof -
  have "find_any (pt_trie s) = None"
    using find_any_Some(1) [OF _ assms(2)] assms(1) by (cases "find_any (pt_trie s)") auto
  moreover have "payload (pt_trie s) = None" using assms(1) by (metis lookup_Nil dom_eq_empty_conv)
  ultimately show ?thesis
    using assms(3) by (simp add: cs_Lookup_def ih_GetName_def pt_deepest_prefix_match_def trie_find_def)
qed

section \<open>A store that shows the hypotheses to be satisfiable\<close>

definition header_of :: "name \<Rightarrow> content_header" where
  "header_of n = \<lparr>ch_name = Some n\<rparr>"

definition interest_of :: "name \<Rightarrow> interest_header" where
  "interest_of n = InterestHeader_new\<lparr>ih_name := Some n\<rparr>"

definition store_with :: "name list \<Rightarrow> content_store" where
  "store_with ns = fold (\<lambda>n s. case cs_Add (header_of n) Packet_new s of Inl e \<Rightarrow> s | Inr (s', b) \<Rightarrow> s') ns
     policy_trie_new"

lemma store_with_reachable: "cs_reachable (store_with ns)"
proof -
  have "cs_reachable s \<Longrightarrow> cs_reachable (fold (\<lambda>n s. case cs_Add (header_of n) Packet_new s of
      Inl e \<Rightarrow> s | Inr (s', b) \<Rightarrow> s') ns s)" for s
    by (induction ns arbitrary: s) (auto split: sum.splits intro: cs_reachable.cs_add)
  then show ?thesis unfolding store_with_def by (simp add: cs_reachable.cs_new)
qed

abbreviation sample_store :: content_store where
  "sample_store \<equiv> store_with [[''a''], [''a'', ''b'', ''c'']]"

lemma sample_stored:
  "trie_lookup (pt_trie sample_store) n \<noteq> None \<longleftrightarrow> n = [''a''] \<or> n = [''a'', ''b'', ''c'']"
proof -
  have "pt_policy sample_store = [[''a''], [''a'', ''b'', ''c'']]" by code_simp
  then have "tries.stored (pt_trie sample_store) = {[''a''], [''a'', ''b'', ''c'']}"
    using cs_reachable_inv [OF store_with_reachable, of "[[''a''], [''a'', ''b'', ''c'']]"]
    by (simp add: cs_inv_def pt_inv_def)
  then show ?thesis by (auto simp: tries.stored_def)
qed

theorem content_store_invariant_witness:
  "card (dom (trie_lookup (pt_trie sample_store))) \<le> 100"
  using content_store_invariant [OF store_with_reachable] by blast


theorem content_store_lookup_witness:
  "\<exists>s' h p. cs_Lookup (interest_of [''a'']) sample_store = Inr (s', Some (h, p)) \<and>
     (\<exists>q. ch_name h = Some q \<and> prefix [''a''] q)"
proof -
  let ?D = "dom (trie_lookup (pt_trie sample_store))"
  have none: "\<forall>q \<in> ?D. \<not> strict_prefix q [''a'']"
    using sample_stored by (auto simp: dom_def strict_prefix_def)
  have "[''a''] \<in> ?D" unfolding domIff sample_stored by simp
  then have stored: "\<not> (\<forall>q \<in> ?D. \<not> prefix [''a''] q)" by blast
  have nm: "ih_name (interest_of [''a'']) = Some [''a'']" by (simp add: interest_of_def)
  obtain s' r where r: "cs_Lookup (interest_of [''a'']) sample_store = Inr (s', r)"
    and iff: "r = None \<longleftrightarrow> (\<forall>q \<in> ?D. \<not> prefix [''a''] q)"
    and ans: "\<forall>h p. r = Some (h, p) \<longrightarrow> (\<exists>q. ch_name h = Some q \<and> prefix [''a''] q)"
    using content_store_lookup [OF store_with_reachable nm _ none] by blast
  from iff stored obtain h p where hp: "r = Some (h, p)" by (cases r) auto
  with r ans show ?thesis by blast
qed

theorem content_store_short_answer_witness:
  "\<exists>s' h p r. cs_Lookup (interest_of [''a'', ''b'']) sample_store = Inr (s', Some (h, p)) \<and>
     ch_name h = Some r \<and> strict_prefix r [''a'', ''b'']"
proof -
  have "[''a''] \<in> dom (trie_lookup (pt_trie sample_store))"
    "[''a'', ''b'', ''c''] \<in> dom (trie_lookup (pt_trie sample_store))"
    "[''a'', ''b''] \<notin> dom (trie_lookup (pt_trie sample_store))"
    unfolding domIff sample_stored by simp_all
  then show ?thesis
    using content_store_short_answer [OF store_with_reachable, of "interest_of [''a'', ''b'']" "[''a'', ''b'']"
        "[''a'']" _ "[''a'', ''b'', ''c'']"]
    by (simp add: interest_of_def strict_prefix_def)
qed

theorem content_store_null_witness:
  "cs_Lookup (interest_of []) policy_trie_new = Inl NullDereference"
  by (rule content_store_null) (simp_all add: policy_trie_new_def interest_of_def dom_def)

end
