(* ===== verification/Fib.thy ===== *)
theory Fib
  imports Names
begin

text \<open>
  The forwarding information base, \<open>daemon/ndn-fib.h/.cc\<close>.

  An entry's faces are one Boost container with three indices: unique by face, ordered by
  (status, routing cost), and random access. The random-access index is rearranged to the metric
  order after every operation that inserts or changes a record, and an erasure keeps both orders, so
  the list \<open>fe_faces\<close> stands for both; the face index is the lookup by key. An entry has an
  address, because the PIT keeps references to entries.
\<close>

section \<open>Face metrics\<close>

datatype Status = NDN_FIB_GREEN | NDN_FIB_YELLOW | NDN_FIB_RED

fun status_code :: "Status \<Rightarrow> nat" where
  "status_code NDN_FIB_GREEN = 1"
| "status_code NDN_FIB_YELLOW = 2"
| "status_code NDN_FIB_RED = 3"

lemma status_code_inj: "status_code a = status_code b \<longleftrightarrow> a = b"
  by (cases a; cases b) simp_all

instantiation Status :: linorder
begin

definition less_eq_Status :: "Status \<Rightarrow> Status \<Rightarrow> bool" where
  "less_eq_Status a b \<longleftrightarrow> status_code a \<le> status_code b"

definition less_Status :: "Status \<Rightarrow> Status \<Rightarrow> bool" where
  "less_Status a b \<longleftrightarrow> status_code a < status_code b"

instance
  by standard (auto simp: less_eq_Status_def less_Status_def simp flip: status_code_inj)

end

record face_metric =
  fm_face :: face_id
  fm_status :: Status
  fm_routingCost :: int
  fm_sRtt :: duration
  fm_rttVar :: duration

definition NDNFibFaceMetric :: "face_id \<Rightarrow> int \<Rightarrow> face_metric" where
  "NDNFibFaceMetric face cost = \<lparr>fm_face = face, fm_status = NDN_FIB_YELLOW, fm_routingCost = cost,
     fm_sRtt = 0, fm_rttVar = 0\<rparr>"

definition metric_key :: "face_metric \<Rightarrow> Status \<times> int" where
  "metric_key m = (fm_status m, fm_routingCost m)"

text \<open>The index ordered by (status, routing cost), after an insertion and after a change.\<close>

definition link_metric :: "face_metric \<Rightarrow> face_metric list \<Rightarrow> face_metric list" where
  "link_metric m ms = link_key metric_key m ms"

definition modify_metric :: "face_id \<Rightarrow> (face_metric \<Rightarrow> face_metric) \<Rightarrow> face_metric list \<Rightarrow> face_metric list" where
  "modify_metric face f ms = modify_linked fm_face metric_key face f ms"

section \<open>FIB entries\<close>

record fib_entry =
  fe_addr :: nat
  fe_prefix :: name
  fe_faces :: "face_metric list"
  fe_needsProbing :: bool

definition NDNFibEntry :: "nat \<Rightarrow> name \<Rightarrow> fib_entry" where
  "NDNFibEntry addr pfx = \<lparr>fe_addr = addr, fe_prefix = pfx, fe_faces = [], fe_needsProbing = False\<rparr>"

definition UpdateStatus :: "face_id \<Rightarrow> Status \<Rightarrow> fib_entry \<Rightarrow> fib_entry" where
  "UpdateStatus face status e =
     (case find_key fm_face face (fe_faces e) of
        None \<Rightarrow> e
      | Some m \<Rightarrow> e\<lparr>fe_faces := modify_metric face (\<lambda>m. m\<lparr>fm_status := status\<rparr>) (fe_faces e)\<rparr>)"

definition AddOrUpdateRoutingMetric :: "face_id \<Rightarrow> int \<Rightarrow> fib_entry \<Rightarrow> fib_entry" where
  "AddOrUpdateRoutingMetric face metric e =
     (case find_key fm_face face (fe_faces e) of
        None \<Rightarrow> e\<lparr>fe_faces := link_metric (NDNFibFaceMetric face metric) (fe_faces e)\<rparr>
      | Some m \<Rightarrow> e\<lparr>fe_faces := modify_metric face (\<lambda>m. m\<lparr>fm_routingCost := metric\<rparr>) (fe_faces e)\<rparr>)"

definition FindBestCandidate :: "u32 \<Rightarrow> fib_entry \<Rightarrow> fault + face_metric" where
  "FindBestCandidate skip e =
     (if length (fe_faces e) = 0 then Inl NoFaces
      else Inr (fe_faces e ! (unat skip mod length (fe_faces e))))"

definition fe_RemoveFace :: "face_id \<Rightarrow> fib_entry \<Rightarrow> fib_entry" where
  "fe_RemoveFace face e = e\<lparr>fe_faces := erase_key fm_face face (fe_faces e)\<rparr>"

section \<open>The table\<close>

record fib =
  f_entries :: "fib_entry list"
  f_next_addr :: nat

definition NDNFib :: fib where
  "NDNFib = \<lparr>f_entries = [], f_next_addr = 0\<rparr>"

definition fib_DoDispose :: "fib \<Rightarrow> fib" where
  "fib_DoDispose t = t\<lparr>f_entries := []\<rparr>"

definition fib_find :: "fib \<Rightarrow> name \<Rightarrow> fib_entry option" where
  "fib_find t n = find_key fe_prefix n (f_entries t)"

definition fib_LongestPrefixMatch :: "name \<Rightarrow> fib \<Rightarrow> fib_entry option" where
  "fib_LongestPrefixMatch n t = longest_prefix_match (fib_find t) n"

definition fib_modify :: "name \<Rightarrow> (fib_entry \<Rightarrow> fib_entry) \<Rightarrow> fib \<Rightarrow> fib" where
  "fib_modify n f t = t\<lparr>f_entries := modify_key fe_prefix n f (f_entries t)\<rparr>"

definition fib_insert :: "name \<Rightarrow> fib \<Rightarrow> fib" where
  "fib_insert n t =
     t\<lparr>f_entries := f_entries t @ [NDNFibEntry (f_next_addr t) n], f_next_addr := f_next_addr t + 1\<rparr>"

definition fib_erase :: "name \<Rightarrow> fib \<Rightarrow> fib" where
  "fib_erase n t = t\<lparr>f_entries := erase_key fe_prefix n (f_entries t)\<rparr>"

definition fib_Add :: "name \<Rightarrow> face_id \<Rightarrow> int \<Rightarrow> fib \<Rightarrow> fib" where
  "fib_Add pfx face metric t =
     (let t = (case fib_find t pfx of None \<Rightarrow> fib_insert pfx t | Some e \<Rightarrow> t)
      in fib_modify pfx (AddOrUpdateRoutingMetric face metric) t)"

text \<open>
  \<open>Remove\<close> takes the entry itself; the flag says that it was erased, which its caller
  \<open>RemoveFromAll\<close> cannot see: its \<open>for_each\<close> then advances an iterator to a freed node.
\<close>

definition fib_Remove :: "name \<Rightarrow> face_id \<Rightarrow> fib \<Rightarrow> fib \<times> bool" where
  "fib_Remove pfx face t =
     (let t = fib_modify pfx (fe_RemoveFace face) t in
      case fib_find t pfx of
        None \<Rightarrow> (t, False)
      | Some e \<Rightarrow> if length (fe_faces e) = 0 then (fib_erase pfx t, True) else (t, False))"

definition fib_RemovePrefix :: "name \<Rightarrow> face_id \<Rightarrow> fib \<Rightarrow> fib \<times> int" where
  "fib_RemovePrefix pfx face t =
     (case fib_find t pfx of
        None \<Rightarrow> (t, - 1)
      | Some entry \<Rightarrow>
          (let t = fib_modify pfx (fe_RemoveFace face) t in
           case fib_find t pfx of
             None \<Rightarrow> (t, 0)
           | Some e \<Rightarrow> if length (fe_faces e) = 0 then (fib_erase pfx t, 0) else (t, 0)))"

definition fib_RemoveFromAll :: "face_id \<Rightarrow> fib \<Rightarrow> fault + fib" where
  "fib_RemoveFromAll face t =
     foldr_res (\<lambda>e t. case fib_Remove (fe_prefix e) face t of (t, erased) \<Rightarrow>
         if erased then Inl UseAfterFree else Inr t) (f_entries t) t"

definition GetNDNFibEntryCount :: "fib \<Rightarrow> u32" where
  "GetNDNFibEntryCount t = of_nat (length (f_entries t))"

definition GetNDNFibEntry :: "u32 \<Rightarrow> fib \<Rightarrow> fault + fib_entry" where
  "GetNDNFibEntry index t =
     (if unat index < length (f_entries t) then Inr (f_entries t ! unat index) else Inl UndefinedBehaviour)"

section \<open>The invariant of an entry\<close>

abbreviation metrics_inv :: "face_metric list \<Rightarrow> bool" where
  "metrics_inv ms \<equiv> linked_inv fm_face metric_key ms"

lemma link_metric_inv:
  "metrics_inv ms \<Longrightarrow> fm_face m \<notin> fm_face ` set ms \<Longrightarrow> metrics_inv (link_metric m ms)"
  unfolding link_metric_def by (rule linked_inv_link)

lemma modify_metric_inv:
  "metrics_inv ms \<Longrightarrow> (\<And>m. fm_face (f m) = fm_face m) \<Longrightarrow> metrics_inv (modify_metric face f ms)"
  unfolding modify_metric_def by (rule modify_linked_inv)

lemma find_modify_metric:
  "(\<And>m. fm_face (f m) = fm_face m) \<Longrightarrow> find_key fm_face k (modify_metric face f ms) =
    (if k = face then map_option f (find_key fm_face k ms) else find_key fm_face k ms)"
  unfolding modify_metric_def by (rule find_modify_linked)

definition entry_inv :: "fib_entry \<Rightarrow> bool" where
  "entry_inv e \<longleftrightarrow> metrics_inv (fe_faces e)"

lemma entry_inv_ops:
  "entry_inv (NDNFibEntry a n)"
  "entry_inv e \<Longrightarrow> entry_inv (UpdateStatus face st e)"
  "entry_inv e \<Longrightarrow> entry_inv (AddOrUpdateRoutingMetric face c e)"
  "entry_inv e \<Longrightarrow> entry_inv (fe_RemoveFace face e)"
proof -
  show "entry_inv (NDNFibEntry a n)" by (simp add: entry_inv_def NDNFibEntry_def linked_inv_def)
  show "entry_inv (UpdateStatus face st e)" if "entry_inv e"
    using that by (auto simp: entry_inv_def UpdateStatus_def split: option.splits intro!: modify_metric_inv)
  show "entry_inv (AddOrUpdateRoutingMetric face c e)" if "entry_inv e"
  proof (cases "find_key fm_face face (fe_faces e)")
    case None
    then have "face \<notin> fm_face ` set (fe_faces e)" by (simp add: find_key_None)
    with that None show ?thesis
      by (simp add: entry_inv_def AddOrUpdateRoutingMetric_def link_metric_inv NDNFibFaceMetric_def)
  next
    case Some
    with that show ?thesis
      by (auto simp: entry_inv_def AddOrUpdateRoutingMetric_def intro!: modify_metric_inv)
  qed
  show "entry_inv (fe_RemoveFace face e)" if "entry_inv e"
    using that by (simp add: entry_inv_def fe_RemoveFace_def linked_inv_erase)
qed

definition face_of :: "face_id \<Rightarrow> fib_entry \<Rightarrow> face_metric option" where
  "face_of face e = find_key fm_face face (fe_faces e)"

lemma face_of_ops:
  "face_of k (UpdateStatus face st e) =
     (if k = face then map_option (\<lambda>m. m\<lparr>fm_status := st\<rparr>) (face_of k e) else face_of k e)"
  "face_of k (AddOrUpdateRoutingMetric face c e) =
     (if k = face then Some (case face_of k e of None \<Rightarrow> NDNFibFaceMetric face c | Some m \<Rightarrow> m\<lparr>fm_routingCost := c\<rparr>)
      else face_of k e)"
  "face_of k (fe_RemoveFace face e) = (if k = face then None else face_of k e)"
proof -
  show "face_of k (UpdateStatus face st e) =
     (if k = face then map_option (\<lambda>m. m\<lparr>fm_status := st\<rparr>) (face_of k e) else face_of k e)"
    by (simp add: face_of_def UpdateStatus_def find_modify_metric split: option.splits)
  show "face_of k (AddOrUpdateRoutingMetric face c e) =
     (if k = face then Some (case face_of k e of None \<Rightarrow> NDNFibFaceMetric face c | Some m \<Rightarrow> m\<lparr>fm_routingCost := c\<rparr>)
      else face_of k e)"
  proof (cases "find_key fm_face face (fe_faces e)")
    case None
    then have "face \<notin> fm_face ` set (fe_faces e)" by (simp add: find_key_None)
    with None show ?thesis
      using find_link_key [of fm_face "NDNFibFaceMetric face c" "fe_faces e" k metric_key]
      by (simp add: link_metric_def face_of_def AddOrUpdateRoutingMetric_def NDNFibFaceMetric_def)
  next
    case (Some m)
    then show ?thesis by (simp add: face_of_def AddOrUpdateRoutingMetric_def find_modify_metric)
  qed
  show "face_of k (fe_RemoveFace face e) = (if k = face then None else face_of k e)"
    by (simp add: face_of_def fe_RemoveFace_def find_erase_key)
qed


section \<open>The invariant of the table\<close>

definition fib_inv :: "fib \<Rightarrow> bool" where
  "fib_inv t \<longleftrightarrow> distinct (map fe_prefix (f_entries t)) \<and> distinct (map fe_addr (f_entries t)) \<and>
     (\<forall>e \<in> set (f_entries t). entry_inv e \<and> fe_faces e \<noteq> [] \<and> fe_addr e < f_next_addr t)"

lemma prefix_ops [simp]:
  "fe_prefix (AddOrUpdateRoutingMetric face c e) = fe_prefix e"
  "fe_prefix (fe_RemoveFace face e) = fe_prefix e" "fe_prefix (UpdateStatus face st e) = fe_prefix e"
  "fe_addr (AddOrUpdateRoutingMetric face c e) = fe_addr e"
  "fe_addr (fe_RemoveFace face e) = fe_addr e" "fe_addr (UpdateStatus face st e) = fe_addr e"
  "fe_prefix (NDNFibEntry a n) = n" "fe_addr (NDNFibEntry a n) = a"
  by (simp_all add: AddOrUpdateRoutingMetric_def fe_RemoveFace_def UpdateStatus_def NDNFibEntry_def
      split: option.splits)

lemma fib_find_modify:
  "(\<And>e. fe_prefix (f e) = fe_prefix e) \<Longrightarrow>
     fib_find (fib_modify n f t) m = (if m = n then map_option f (fib_find t m) else fib_find t m)"
  by (simp add: fib_find_def fib_modify_def find_modify_key)

lemma fib_find_insert:
  "fib_find t n = None \<Longrightarrow>
     fib_find (fib_insert n t) m = (if m = n then Some (NDNFibEntry (f_next_addr t) n) else fib_find t m)"
  by (auto simp: fib_find_def fib_insert_def split: option.splits)

lemma fib_find_erase: "fib_find (fib_erase n t) m = (if m = n then None else fib_find t m)"
  by (simp add: fib_find_def fib_erase_def find_erase_key)

lemma fib_find_entry: "fib_find t n = Some e \<Longrightarrow> e \<in> set (f_entries t) \<and> fe_prefix e = n"
  unfolding fib_find_def by (rule find_key_SomeD)

lemma fib_find_complete: "fib_inv t \<Longrightarrow> e \<in> set (f_entries t) \<Longrightarrow> fib_find t (fe_prefix e) = Some e"
  unfolding fib_find_def fib_inv_def by (rule find_key_in) simp_all

lemmas fib_find_simps = fib_find_modify fib_find_insert fib_find_erase

lemma fib_modify_inv:
  assumes "distinct (map fe_prefix (f_entries t))" "distinct (map fe_addr (f_entries t))"
    and "\<And>e. fe_prefix (f e) = fe_prefix e" "\<And>e. fe_addr (f e) = fe_addr e"
    and "\<And>e. e \<in> set (f_entries t) \<Longrightarrow> fe_addr e < f_next_addr t"
    and "\<And>e. e \<in> set (f_entries t) \<Longrightarrow> fe_prefix e = n \<Longrightarrow> entry_inv (f e) \<and> fe_faces (f e) \<noteq> []"
    and "\<And>e. e \<in> set (f_entries t) \<Longrightarrow> fe_prefix e \<noteq> n \<Longrightarrow> entry_inv e \<and> fe_faces e \<noteq> []"
  shows "fib_inv (fib_modify n f t)"
proof -
  have "map fe_prefix (modify_key fe_prefix n f (f_entries t)) = map fe_prefix (f_entries t)"
    "map fe_addr (modify_key fe_prefix n f (f_entries t)) = map fe_addr (f_entries t)"
    using assms(3,4) by (simp_all add: modify_key_def)
  then show ?thesis
    using assms by (auto simp: fib_inv_def fib_modify_def) (auto simp: modify_key_def)
qed

lemma add_metric_nonempty: "fe_faces (AddOrUpdateRoutingMetric face c e) \<noteq> []"
proof -
  have "face_of face (AddOrUpdateRoutingMetric face c e) \<noteq> None" by (simp add: face_of_ops)
  then show ?thesis by (auto simp: face_of_def)
qed

lemma fib_Add_inv:
  assumes "fib_inv t"
  shows "fib_inv (fib_Add pfx face metric t)"
proof -
  let ?t = "case fib_find t pfx of None \<Rightarrow> fib_insert pfx t | Some e \<Rightarrow> t"
  have new: "pfx \<notin> fe_prefix ` set (f_entries t)" if "fib_find t pfx = None"
    using that by (simp add: fib_find_def find_key_None)
  have "fib_inv (fib_modify pfx (AddOrUpdateRoutingMetric face metric) ?t)"
  proof (rule fib_modify_inv)
    show "distinct (map fe_prefix (f_entries ?t))"
      using assms new by (auto simp: fib_inv_def fib_insert_def split: option.splits)
    show "distinct (map fe_addr (f_entries ?t))"
      using assms by (force simp: fib_inv_def fib_insert_def split: option.splits)
    show "fe_addr e < f_next_addr ?t" if "e \<in> set (f_entries ?t)" for e
      using assms that by (auto simp: fib_inv_def fib_insert_def less_SucI split: option.splits)
    show "entry_inv (AddOrUpdateRoutingMetric face metric e) \<and> fe_faces (AddOrUpdateRoutingMetric face metric e) \<noteq> []"
      if "e \<in> set (f_entries ?t)" for e
      using assms that entry_inv_ops(1)
      by (auto simp: fib_inv_def fib_insert_def add_metric_nonempty split: option.splits intro!: entry_inv_ops)
    show "entry_inv e \<and> fe_faces e \<noteq> []" if "e \<in> set (f_entries ?t)" "fe_prefix e \<noteq> pfx" for e
      using assms that by (auto simp: fib_inv_def fib_insert_def split: option.splits)
  qed simp_all
  then show ?thesis by (simp add: fib_Add_def Let_def)
qed

lemma UpdateStatus_faces: "fm_face ` set (fe_faces (UpdateStatus face status e)) = fm_face ` set (fe_faces e)"
proof -
  have "k \<in> fm_face ` set (fe_faces e) \<longleftrightarrow> face_of k e \<noteq> None" for k e
    by (simp add: face_of_def find_key_None)
  then show ?thesis by (intro set_eqI) (simp add: face_of_ops)
qed

lemma fib_status_inv:
  assumes "fib_inv t"
  shows "fib_inv (fib_modify pfx (UpdateStatus face status) t)"
proof (rule fib_modify_inv)
  fix e assume "e \<in> set (f_entries t)"
  then have e: "entry_inv e" "fe_faces e \<noteq> []" using assms by (auto simp: fib_inv_def)
  have "fe_faces (UpdateStatus face status e) \<noteq> []"
    using UpdateStatus_faces [of face status e] e(2) by auto
  then show "entry_inv (UpdateStatus face status e) \<and> fe_faces (UpdateStatus face status e) \<noteq> []"
    using entry_inv_ops(2) [OF e(1)] by simp
qed (use assms in \<open>auto simp: fib_inv_def\<close>)

lemma fib_erase_inv: "fib_inv t \<Longrightarrow> fib_inv (fib_erase n t)"
  by (auto simp: fib_inv_def fib_erase_def set_erase_key)
    (simp_all add: erase_key_def distinct_map inj_on_def)

text \<open>\<open>RemovePrefix\<close> and \<open>Remove\<close> change the table in the same way.\<close>

definition removed :: "name \<Rightarrow> face_id \<Rightarrow> fib \<Rightarrow> fib" where
  "removed pfx face t =
     (case fib_find t pfx of
        None \<Rightarrow> t
      | Some e \<Rightarrow> if fe_faces (fe_RemoveFace face e) = [] then fib_erase pfx (fib_modify pfx (fe_RemoveFace face) t)
                 else fib_modify pfx (fe_RemoveFace face) t)"

lemma fib_modify_absent: "fib_find t n = None \<Longrightarrow> fib_modify n f t = t"
proof -
  assume "fib_find t n = None"
  then have "modify_key fe_prefix n f (f_entries t) = f_entries t"
    unfolding modify_key_def fib_find_def find_key_None by (intro map_idI) auto
  then show ?thesis by (simp add: fib_modify_def)
qed

lemma fib_erase_modify:
  "(\<And>e. fe_prefix (f e) = fe_prefix e) \<Longrightarrow> fib_erase n (fib_modify n f t) = fib_erase n t"
proof -
  assume f: "\<And>e. fe_prefix (f e) = fe_prefix e"
  have "erase_key fe_prefix n (modify_key fe_prefix n f xs) = erase_key fe_prefix n xs" for xs
    by (induction xs) (auto simp: erase_key_def modify_key_def f)
  then show ?thesis by (simp add: fib_erase_def fib_modify_def)
qed

lemma fib_Remove_eq:
  "fib_Remove pfx face t = (removed pfx face t,
     case fib_find t pfx of None \<Rightarrow> False | Some e \<Rightarrow> fe_faces (fe_RemoveFace face e) = [])"
  by (auto simp: fib_Remove_def removed_def Let_def fib_find_modify fib_modify_absent split: option.splits)

lemma fib_RemovePrefix_eq:
  "fib_RemovePrefix pfx face t = (removed pfx face t, if fib_find t pfx = None then - 1 else 0)"
  by (auto simp: fib_RemovePrefix_def removed_def Let_def fib_find_modify split: option.splits)

lemma removed_inv:
  assumes "fib_inv t"
  shows "fib_inv (removed pfx face t)"
proof (cases "fib_find t pfx")
  case None
  then show ?thesis using assms by (simp add: removed_def)
next
  case (Some e)
  show ?thesis
  proof (cases "fe_faces (fe_RemoveFace face e) = []")
    case True
    then show ?thesis using assms Some by (simp add: removed_def fib_erase_modify fib_erase_inv)
  next
    case False
    have "fib_inv (fib_modify pfx (fe_RemoveFace face) t)"
    proof (rule fib_modify_inv)
      fix e' assume e': "e' \<in> set (f_entries t)" "fe_prefix e' = pfx"
      then have "e' = e" using fib_find_complete [OF assms e'(1)] Some by simp
      with False assms e' show "entry_inv (fe_RemoveFace face e') \<and> fe_faces (fe_RemoveFace face e') \<noteq> []"
        by (auto simp: fib_inv_def intro: entry_inv_ops)
    qed (use assms in \<open>auto simp: fib_inv_def\<close>)
    with Some False show ?thesis by (simp add: removed_def)
  qed
qed

lemma fib_new_inv: "fib_inv NDNFib"
  by (simp add: fib_inv_def NDNFib_def)

text \<open>Lookups after each operation.\<close>

lemma fib_find_Add:
  "fib_find (fib_Add pfx face metric t) n =
     (if n = pfx then Some (AddOrUpdateRoutingMetric face metric
        (case fib_find t pfx of None \<Rightarrow> NDNFibEntry (f_next_addr t) pfx | Some e \<Rightarrow> e))
      else fib_find t n)"
  by (auto simp: fib_Add_def Let_def fib_find_modify fib_find_insert split: option.splits)

lemma fib_find_removed:
  "fib_find (removed pfx face t) n =
     (case fib_find t n of
        None \<Rightarrow> None
      | Some e \<Rightarrow> if n \<noteq> pfx then Some e
                 else if fe_faces (fe_RemoveFace face e) = [] then None else Some (fe_RemoveFace face e))"
  by (auto simp: removed_def fib_find_simps split: option.splits)

section \<open>Longest prefix match\<close>

interpretation fibs: prefix_table f_entries fe_prefix fib_find fib_inv
  by unfold_locales (auto dest: fib_find_entry intro: fib_find_complete)

section \<open>Routes\<close>

text \<open>The record of a face under a prefix: the abstract view of the table.\<close>

definition route :: "fib \<Rightarrow> name \<Rightarrow> face_id \<Rightarrow> face_metric option" where
  "route t n face = (case fib_find t n of None \<Rightarrow> None | Some e \<Rightarrow> face_of face e)"

lemma route_removed:
  "route (removed pfx face t) n k = (if n = pfx \<and> k = face then None else route t n k)"
proof (cases "fib_find t n")
  case (Some e)
  have "face_of k e = None" if "fe_faces (fe_RemoveFace face e) = []" "k \<noteq> face"
    using face_of_ops(3) [of k face e] that by (simp add: face_of_def)
  with Some show ?thesis by (auto simp: route_def fib_find_removed face_of_ops)
qed (simp add: route_def fib_find_removed)

lemma route_Add:
  "route (fib_Add pfx face metric t) n k =
     (if n = pfx \<and> k = face
      then Some (case route t pfx face of None \<Rightarrow> NDNFibFaceMetric face metric | Some m \<Rightarrow> m\<lparr>fm_routingCost := metric\<rparr>)
      else route t n k)"
proof -
  have "face_of k (NDNFibEntry a n) = None" for a k n by (simp add: face_of_def NDNFibEntry_def)
  then show ?thesis
    by (cases "n = pfx"; cases "fib_find t pfx") (simp_all add: route_def fib_find_Add face_of_ops)
qed

section \<open>Removing a face everywhere\<close>

lemma remove_all_loop:
  assumes "\<forall>e \<in> set es. fib_find t (fe_prefix e) = Some e" and "distinct (map fe_prefix es)"
  shows "(\<exists>e \<in> set es. fe_faces (fe_RemoveFace face e) = []) \<longleftrightarrow>
    foldr_res (\<lambda>e t. case fib_Remove (fe_prefix e) face t of (t, erased) \<Rightarrow>
         if erased then Inl UseAfterFree else Inr t) es t = (Inl UseAfterFree :: fault + fib)"
  using assms
proof (induction es arbitrary: t)
  case (Cons e es)
  have e: "fib_find t (fe_prefix e) = Some e" using Cons.prems(1) by simp
  show ?case
  proof (cases "fe_faces (fe_RemoveFace face e) = []")
    case True
    with e show ?thesis by (simp add: fib_Remove_eq)
  next
    case False
    have "\<forall>e' \<in> set es. fib_find (removed (fe_prefix e) face t) (fe_prefix e') = Some e'"
    proof
      fix e' assume e': "e' \<in> set es"
      then have "fe_prefix e' \<noteq> fe_prefix e"
        using Cons.prems(2) imageI [OF e', of fe_prefix] by (metis distinct.simps(2) list.set_map list.simps(9))
      moreover have "fib_find t (fe_prefix e') = Some e'" using Cons.prems(1) e' by simp
      ultimately show "fib_find (removed (fe_prefix e) face t) (fe_prefix e') = Some e'"
        by (simp add: fib_find_removed)
    qed
    from Cons.IH [OF this] Cons.prems(2) False e show ?thesis by (simp add: fib_Remove_eq)
  qed
qed simp

text \<open>When no entry is erased on the way, removing a face changes only the face lists.\<close>

lemma remove_all_inv:
  assumes "foldr_res (\<lambda>e t. case fib_Remove (fe_prefix e) face t of (t, erased) \<Rightarrow>
         if erased then Inl UseAfterFree else Inr t) es t = (Inr t' :: fault + fib)" and "fib_inv t"
  shows "fib_inv t' \<and> map fe_addr (f_entries t') = map fe_addr (f_entries t) \<and>
    (\<forall>n k. route t' n k = (if k = face \<and> n \<in> fe_prefix ` set es then None else route t n k))"
  using assms
proof (induction es arbitrary: t)
  case (Cons e es)
  from Cons.prems(1) obtain t1 where t1: "fib_Remove (fe_prefix e) face t = (t1, False)"
    and rest: "foldr_res (\<lambda>e t. case fib_Remove (fe_prefix e) face t of (t, erased) \<Rightarrow>
         if erased then Inl UseAfterFree else Inr t) es t1 = (Inr t' :: fault + fib)"
    by (auto simp: bindr_eq_Inr split: prod.splits if_splits)
  then have r: "t1 = removed (fe_prefix e) face t" by (simp add: fib_Remove_eq)
  have "map fe_addr (f_entries t1) = map fe_addr (f_entries t)"
    using t1 unfolding r
    by (auto simp: fib_Remove_eq removed_def fib_modify_def modify_key_def split: option.splits)
  moreover have "fib_inv t1" unfolding r by (rule removed_inv [OF Cons.prems(2)])
  ultimately show ?case
    using Cons.IH [OF rest] route_removed [of "fe_prefix e" face t] unfolding r by auto
qed simp

lemma RemoveFromAll_inv:
  assumes "fib_RemoveFromAll face t = Inr t'" and "fib_inv t"
  shows "fib_inv t' \<and> map fe_addr (f_entries t') = map fe_addr (f_entries t) \<and>
    (\<forall>n k. route t' n k = (if k = face then None else route t n k))"
proof -
  have "route t n face = None" if "n \<notin> fe_prefix ` set (f_entries t)" for n
    using that by (auto simp: route_def fib_find_def find_key_None split: option.splits dest: find_key_SomeD)
  then show ?thesis
    using remove_all_inv [OF assms(1) [unfolded fib_RemoveFromAll_def] assms(2)] by auto
qed

lemma RemoveFromAll_fault: "fib_RemoveFromAll face t = Inl e \<Longrightarrow> e = UseAfterFree"
proof -
  have "foldr_res (\<lambda>e t. case fib_Remove (fe_prefix e) face t of (t, erased) \<Rightarrow>
      if erased then Inl UseAfterFree else Inr t) es t = (Inl e :: fault + fib) \<Longrightarrow> e = UseAfterFree" for es t
    by (induction es arbitrary: t) (auto simp: bindr_eq_Inl split: prod.splits if_splits)
  then show "fib_RemoveFromAll face t = Inl e \<Longrightarrow> e = UseAfterFree" unfolding fib_RemoveFromAll_def by blast
qed

text \<open>The table as the daemon uses it.\<close>

inductive fib_reachable :: "fib \<Rightarrow> bool" where
  fib_new: "fib_reachable NDNFib"
| fib_add: "fib_reachable t \<Longrightarrow> fib_reachable (fib_Add pfx face metric t)"
| fib_remove: "fib_reachable t \<Longrightarrow> fib_reachable (fst (fib_Remove pfx face t))"
| fib_remove_prefix: "fib_reachable t \<Longrightarrow> fib_reachable (fst (fib_RemovePrefix pfx face t))"
| fib_remove_all: "fib_reachable t \<Longrightarrow> fib_RemoveFromAll face t = Inr t' \<Longrightarrow> fib_reachable t'"
| fib_status: "fib_reachable t \<Longrightarrow> fib_reachable (fib_modify pfx (UpdateStatus face status) t)"

lemma fib_reachable_inv: "fib_reachable t \<Longrightarrow> fib_inv t"
proof (induction rule: fib_reachable.induct)
  case (fib_remove_all t face t')
  then show ?case using RemoveFromAll_inv by blast
qed (simp_all add: fib_new_inv fib_Add_inv fib_Remove_eq fib_RemovePrefix_eq removed_inv fib_status_inv)

section \<open>Properties\<close>

text \<open>
  C38: the FIB keeps one entry per prefix, entries have distinct addresses, no entry is without a
  face, every face occurs once in an entry, and the faces are ordered by status and routing cost;
  this holds in every state that the operations reach from the empty table.
\<close>

theorem fib_invariant:
  assumes "fib_reachable t"
  shows "distinct (map fe_prefix (f_entries t)) \<and> distinct (map fe_addr (f_entries t)) \<and>
    (\<forall>e \<in> set (f_entries t). fe_faces e \<noteq> [] \<and> distinct (map fm_face (fe_faces e)) \<and>
       sorted (map metric_key (fe_faces e)))"
  using fib_reachable_inv [OF assms] by (simp add: fib_inv_def entry_inv_def linked_inv_def)

text \<open>
  Adding a next hop sets the cost of that face under that prefix and nothing else; removing
  it removes that face under that prefix and nothing else, drops the entry exactly when no face
  is left, and answers -1 exactly when the prefix is unknown.
\<close>

theorem fib_routes:
  "route (fib_Add pfx face metric t) n k =
     (if n = pfx \<and> k = face
      then Some (case route t pfx face of None \<Rightarrow> NDNFibFaceMetric face metric | Some m \<Rightarrow> m\<lparr>fm_routingCost := metric\<rparr>)
      else route t n k) \<and>
   route (fst (fib_RemovePrefix pfx face t)) n k = (if n = pfx \<and> k = face then None else route t n k) \<and>
   snd (fib_RemovePrefix pfx face t) = (if fib_find t pfx = None then - 1 else 0)"
  by (simp add: fib_RemovePrefix_eq route_removed route_Add)

text \<open>
  The FIB entry used for a name is the one with the longest prefix of it, and there is none
  exactly when no prefix of the name is in the FIB.
\<close>

theorem fib_lpm:
  assumes "fib_inv t"
  shows "case fib_LongestPrefixMatch n t of
      None \<Rightarrow> \<forall>e \<in> set (f_entries t). \<not> prefix (fe_prefix e) n
    | Some e \<Rightarrow> e \<in> set (f_entries t) \<and> prefix (fe_prefix e) n \<and>
        (\<forall>e' \<in> set (f_entries t). prefix (fe_prefix e') n \<longrightarrow> length (fe_prefix e') \<le> length (fe_prefix e))"
  unfolding fib_LongestPrefixMatch_def
  using fibs.lpm_None_iff [OF assms, of n] fibs.lpm_sound [of t n] fibs.lpm_longest [OF assms, of n]
  by (cases "longest_prefix_match (fib_find t) n") auto

text \<open>
  The best candidate of an entry is a face of least status and, among those, of least cost;
  skipping walks through the faces in that order and wraps around; only an entry without faces
  has none.
\<close>

theorem best_candidate:
  assumes "entry_inv e" and "length (fe_faces e) < 2 ^ 32"
  shows "(\<forall>skip. FindBestCandidate skip e = Inl NoFaces \<longleftrightarrow> fe_faces e = []) \<and>
    (\<forall>m. FindBestCandidate 0 e = Inr m \<longrightarrow>
       m \<in> set (fe_faces e) \<and> (\<forall>m' \<in> set (fe_faces e). metric_key m \<le> metric_key m')) \<and>
    (\<forall>i j a b. i \<le> j \<longrightarrow> j < length (fe_faces e) \<longrightarrow> FindBestCandidate (of_nat i) e = Inr a \<longrightarrow>
       FindBestCandidate (of_nat j) e = Inr b \<longrightarrow> metric_key a \<le> metric_key b)"
proof -
  have sorted: "sorted (map metric_key (fe_faces e))" using assms by (simp add: entry_inv_def linked_inv_def)
  have "\<forall>skip. FindBestCandidate skip e = Inl NoFaces \<longleftrightarrow> fe_faces e = []"
    by (simp add: FindBestCandidate_def)
  moreover have "m \<in> set (fe_faces e) \<and> (\<forall>m' \<in> set (fe_faces e). metric_key m \<le> metric_key m')"
    if "FindBestCandidate 0 e = Inr m" for m
    using that sorted by (cases "fe_faces e") (auto simp: FindBestCandidate_def)
  moreover have "metric_key a \<le> metric_key b"
    if "i \<le> j" "j < length (fe_faces e)" "FindBestCandidate (of_nat i) e = Inr a"
      "FindBestCandidate (of_nat j) e = Inr b" for i j a b
  proof -
    have small: "unat (of_nat k :: u32) = k" if "k < length (fe_faces e)" for k
      using that assms(2) by (simp add: unat_of_nat take_bit_nat_eq_self)
    have "a = fe_faces e ! i" "b = fe_faces e ! j"
      using that small [of i] small [of j] by (auto simp: FindBestCandidate_def simp del: unsigned_of_nat split: if_splits)
    then show ?thesis using sorted_nth_mono [OF sorted, of i j] that by simp
  qed
  ultimately show ?thesis by blast
qed

text \<open>
  Removing a face from all entries advances a freed iterator as soon as some entry has that
  face and no other (the entry is erased inside the \<open>for_each\<close> over the table).
\<close>

theorem remove_from_all:
  assumes "fib_inv t"
  shows "fib_RemoveFromAll face t = Inl UseAfterFree \<longleftrightarrow>
    (\<exists>e \<in> set (f_entries t). \<forall>m \<in> set (fe_faces e). fm_face m = face)"
proof -
  have "fe_faces (fe_RemoveFace face e) = [] \<longleftrightarrow> (\<forall>m \<in> set (fe_faces e). fm_face m = face)" for e
    by (simp add: fe_RemoveFace_def erase_key_def filter_empty_conv)
  then show ?thesis
    unfolding fib_RemoveFromAll_def
    using remove_all_loop [of "f_entries t" t face] fib_find_complete [OF assms] assms
    by (simp add: fib_inv_def)
qed

section \<open>A table that shows the hypotheses to be satisfiable\<close>

definition sample_fib :: fib where
  "sample_fib = fib_Add [''a'', ''b''] 4 1 (fib_Add [''a''] 3 2 (fib_Add [''a''] 4 1 NDNFib))"

lemma sample_fib_inv: "fib_inv sample_fib"
  unfolding sample_fib_def by (intro fib_Add_inv fib_new_inv)

lemma sample_fib_reachable: "fib_reachable sample_fib"
  unfolding sample_fib_def by (intro fib_reachable.intros)

theorem fib_invariant_witness: "distinct (map fe_prefix (f_entries sample_fib))"
  using fib_invariant [OF sample_fib_reachable] by blast

theorem fib_lpm_witness:
  "\<exists>e. fib_LongestPrefixMatch [''a'', ''c''] sample_fib = Some e \<and> prefix (fe_prefix e) [''a'', ''c'']"
proof -
  have "fib_LongestPrefixMatch [''a'', ''c''] sample_fib \<noteq> None" by code_simp
  with fib_lpm [OF sample_fib_inv, of "[''a'', ''c'']"] show ?thesis by (auto split: option.splits)
qed

theorem best_candidate_witness:
  "\<exists>e m. fib_find sample_fib [''a''] = Some e \<and> FindBestCandidate 0 e = Inr m \<and>
     (\<forall>m' \<in> set (fe_faces e). metric_key m \<le> metric_key m')"
proof -
  have "map_option (\<lambda>e. length (fe_faces e)) (fib_find sample_fib [''a'']) = Some 2" by code_simp
  then obtain e where e: "fib_find sample_fib [''a''] = Some e" "length (fe_faces e) = 2" by auto
  then have "entry_inv e" using fib_find_entry [OF e(1)] sample_fib_inv by (simp add: fib_inv_def)
  moreover obtain m where "FindBestCandidate 0 e = Inr m"
    using e(2) by (simp add: FindBestCandidate_def)
  ultimately show ?thesis using best_candidate [of e] e by auto
qed

theorem remove_from_all_witness: "fib_RemoveFromAll 4 sample_fib = Inl UseAfterFree"
proof -
  have "\<exists>e \<in> set (f_entries sample_fib). \<forall>m \<in> set (fe_faces e). fm_face m = 4" by code_simp
  then show ?thesis using remove_from_all [OF sample_fib_inv] by blast
qed

end
