(* ===== verification/Pit.thy ===== *)
theory Pit
  imports Fib Visitors
begin

text \<open>
  The pending Interest table, \<open>daemon/pit/*\<close>, and the addresses that asked for a name over
  UDP, \<open>network/request-source-ip-info.cc\<close>.

  The table has two indices, unique by prefix and ordered by expiry time; the list is kept in the
  latter order, modifications relink an entry as the container does. The incoming and outgoing
  faces of an entry are ordered by face. The reference \<open>m_fibEntry\<close> is the address of a FIB
  entry; following it is the business of the callers.
\<close>

section \<open>Sources of an Interest over IP\<close>

type_synonym source_list = "(u32 \<times> 16 word) list"

definition addIP :: "u32 \<Rightarrow> 16 word \<Rightarrow> source_list \<Rightarrow> source_list" where
  "addIP ip port sourceList =
     (if list_ex (\<lambda>it. fst it = ip \<and> snd it = port) sourceList then sourceList
      else (ip, port) # sourceList)"

lemma addIP_set: "set (addIP ip port l) = insert (ip, port) (set l)"
  by (auto simp: addIP_def list_ex_iff)

lemma addIP_distinct: "distinct l \<Longrightarrow> distinct (addIP ip port l)"
  by (auto simp: addIP_def list_ex_iff)

section \<open>Entries\<close>

record pit_incoming =
  in_face :: face_id
  in_arrivalTime :: time

record pit_outgoing =
  out_face :: face_id
  out_sendTime :: time
  out_retxCount :: u32
  out_waitingInVain :: bool

definition NDNPitEntryIncomingFace :: "time \<Rightarrow> face_id \<Rightarrow> pit_incoming" where
  "NDNPitEntryIncomingFace now face = \<lparr>in_face = face, in_arrivalTime = now\<rparr>"

definition NDNPitEntryOutgoingFace :: "time \<Rightarrow> face_id \<Rightarrow> pit_outgoing" where
  "NDNPitEntryOutgoingFace now face =
     \<lparr>out_face = face, out_sendTime = now, out_retxCount = 0, out_waitingInVain = False\<rparr>"

definition UpdateOnRetransmit :: "time \<Rightarrow> pit_outgoing \<Rightarrow> pit_outgoing" where
  "UpdateOnRetransmit now o1 =
     o1\<lparr>out_sendTime := now, out_retxCount := out_retxCount o1 + 1, out_waitingInVain := False\<rparr>"

record pit_entry =
  pe_prefix :: name
  pe_fibEntry :: "nat option"
  pe_seenNonces :: "u32 set"
  pe_incoming :: "pit_incoming list"
  pe_outgoing :: "pit_outgoing list"
  pe_expireTime :: time
  pe_maxRetxCount :: u32
  pe_sourceMetadata :: "source_list option"

definition NDNPitEntry :: "time \<Rightarrow> name \<Rightarrow> duration \<Rightarrow> nat option \<Rightarrow> pit_entry" where
  "NDNPitEntry now pfx expire fibEntry = \<lparr>pe_prefix = pfx, pe_fibEntry = fibEntry, pe_seenNonces = {},
     pe_incoming = [], pe_outgoing = [], pe_expireTime = now + expire, pe_maxRetxCount = 0,
     pe_sourceMetadata = None\<rparr>"

definition UpdateLifetime :: "time \<Rightarrow> duration \<Rightarrow> pit_entry \<Rightarrow> pit_entry" where
  "UpdateLifetime now offset e =
     (if now + offset > pe_expireTime e then e\<lparr>pe_expireTime := now + offset\<rparr> else e)"

definition SetExpireTime :: "time \<Rightarrow> pit_entry \<Rightarrow> pit_entry" where
  "SetExpireTime t e = e\<lparr>pe_expireTime := t\<rparr>"

definition IsNonceSeen :: "u32 \<Rightarrow> pit_entry \<Rightarrow> bool" where
  "IsNonceSeen nonce e \<longleftrightarrow> nonce \<in> pe_seenNonces e"

definition AddSeenNonce :: "u32 \<Rightarrow> pit_entry \<Rightarrow> pit_entry" where
  "AddSeenNonce nonce e = e\<lparr>pe_seenNonces := insert nonce (pe_seenNonces e)\<rparr>"

definition AddIncoming :: "time \<Rightarrow> face_id \<Rightarrow> pit_entry \<Rightarrow> pit_entry" where
  "AddIncoming now face e =
     e\<lparr>pe_incoming := insert_unique in_face (NDNPitEntryIncomingFace now face) (pe_incoming e)\<rparr>"

definition RemoveIncoming :: "face_id \<Rightarrow> pit_entry \<Rightarrow> pit_entry" where
  "RemoveIncoming face e = e\<lparr>pe_incoming := erase_key in_face face (pe_incoming e)\<rparr>"

definition ClearIncoming :: "pit_entry \<Rightarrow> pit_entry" where
  "ClearIncoming e = e\<lparr>pe_incoming := []\<rparr>"

definition ClearOutgoing :: "pit_entry \<Rightarrow> pit_entry" where
  "ClearOutgoing e = e\<lparr>pe_outgoing := []\<rparr>"

definition AddOutgoing :: "time \<Rightarrow> face_id \<Rightarrow> pit_entry \<Rightarrow> pit_entry" where
  "AddOutgoing now face e =
     (case find_key out_face face (pe_outgoing e) of
        None \<Rightarrow> e\<lparr>pe_outgoing := insert_unique out_face (NDNPitEntryOutgoingFace now face) (pe_outgoing e)\<rparr>
      | Some old \<Rightarrow> e\<lparr>pe_outgoing := modify_key out_face face (UpdateOnRetransmit now) (pe_outgoing e)\<rparr>)"

definition RemoveAllReferencesToFace :: "face_id \<Rightarrow> pit_entry \<Rightarrow> pit_entry" where
  "RemoveAllReferencesToFace face e =
     e\<lparr>pe_incoming := erase_key in_face face (pe_incoming e),
       pe_outgoing := erase_key out_face face (pe_outgoing e)\<rparr>"

definition SetWaitingInVain :: "face_id \<Rightarrow> pit_entry \<Rightarrow> pit_entry" where
  "SetWaitingInVain face e =
     e\<lparr>pe_outgoing := modify_key out_face face (\<lambda>o1. o1\<lparr>out_waitingInVain := True\<rparr>) (pe_outgoing e)\<rparr>"

definition AreAllOutgoingInVain :: "pit_entry \<Rightarrow> bool" where
  "AreAllOutgoingInVain e = fold (\<lambda>o1 inVain. inVain \<and> out_waitingInVain o1) (pe_outgoing e) True"

definition AreTherePromisingOutgoingFacesExcept :: "face_id \<Rightarrow> pit_entry \<Rightarrow> bool" where
  "AreTherePromisingOutgoingFacesExcept face e =
     (\<not> fold (\<lambda>o1 inVain. inVain \<and> (out_face o1 = face \<or> out_waitingInVain o1)) (pe_outgoing e) True)"

definition IncreaseAllowedRetxCount :: "pit_entry \<Rightarrow> pit_entry" where
  "IncreaseAllowedRetxCount e = e\<lparr>pe_maxRetxCount := pe_maxRetxCount e + 1\<rparr>"

definition setSourceMetadata :: "source_list \<Rightarrow> pit_entry \<Rightarrow> pit_entry" where
  "setSourceMetadata rsInfo e = e\<lparr>pe_sourceMetadata := Some rsInfo\<rparr>"

section \<open>The table\<close>

record pit =
  p_entries :: "pit_entry list"
  p_pruningTimeout :: duration
  p_defaultLifetime :: duration

text \<open>The constructor leaves both durations at their default, zero; nothing sets them later.\<close>

definition NDNPit :: pit where
  "NDNPit = \<lparr>p_entries = [], p_pruningTimeout = 0, p_defaultLifetime = 0\<rparr>"

definition pit_DoDispose :: "pit \<Rightarrow> pit" where
  "pit_DoDispose t = t\<lparr>p_entries := []\<rparr>"

definition pit_find :: "pit \<Rightarrow> name \<Rightarrow> pit_entry option" where
  "pit_find t n = find_key pe_prefix n (p_entries t)"

definition pit_modify :: "name \<Rightarrow> (pit_entry \<Rightarrow> pit_entry) \<Rightarrow> pit \<Rightarrow> pit" where
  "pit_modify n f t = t\<lparr>p_entries := modify_linked pe_prefix pe_expireTime n f (p_entries t)\<rparr>"

definition pit_insert :: "pit_entry \<Rightarrow> pit \<Rightarrow> pit" where
  "pit_insert e t = t\<lparr>p_entries := link_key pe_expireTime e (p_entries t)\<rparr>"

definition pit_Remove :: "name \<Rightarrow> pit \<Rightarrow> pit" where
  "pit_Remove n t = t\<lparr>p_entries := erase_key pe_prefix n (p_entries t)\<rparr>"

fun clean_loop :: "time \<Rightarrow> pit_entry list \<Rightarrow> pit_entry list" where
  "clean_loop now [] = []"
| "clean_loop now (entry # rest) =
     (if now \<ge> pe_expireTime entry then clean_loop now rest else entry # rest)"

definition CleanExpired :: "time \<Rightarrow> pit \<Rightarrow> pit" where
  "CleanExpired now t = t\<lparr>p_entries := clean_loop now (p_entries t)\<rparr>"

definition pit_LongestPrefixMatch :: "name \<Rightarrow> pit \<Rightarrow> pit_entry option" where
  "pit_LongestPrefixMatch n t = longest_prefix_match (pit_find t) n"

definition pit_LookupData :: "content_header \<Rightarrow> pit \<Rightarrow> fault + pit_entry" where
  "pit_LookupData header t =
     bindr (ch_GetName header) (\<lambda>n.
       case pit_find t n of None \<Rightarrow> Inl NDNPitEntryNotFound | Some e \<Rightarrow> Inr e)"

text \<open>
  The lookup for an Interest returns the prefix of the entry (the reference to it), and whether
  the entry is new and the Interest a duplicate; the fourth component is always true.
\<close>

definition pit_LookupInterest :: "time \<Rightarrow> fib \<Rightarrow> interest_header \<Rightarrow> pit \<Rightarrow>
    fault + pit \<times> name \<times> bool \<times> bool \<times> bool" where
  "pit_LookupInterest now fib header t =
     bindr (ih_GetName header) (\<lambda>n.
       case pit_LongestPrefixMatch n t of
         None \<Rightarrow>
           (let fibEntry = map_option fe_addr (fib_LongestPrefixMatch n fib);
                lifetime = (if ih_interestLifetime header = 0 then p_defaultLifetime t
                            else ih_interestLifetime header);
                t = pit_insert (NDNPitEntry now n lifetime fibEntry) t
            in Inr (pit_modify n (AddSeenNonce (ih_nonce header)) t, n, True, False, True))
       | Some entry \<Rightarrow>
           (let isDuplicate = IsNonceSeen (ih_nonce header) entry
            in Inr (if \<not> isDuplicate then pit_modify (pe_prefix entry) (AddSeenNonce (ih_nonce header)) t else t,
                    pe_prefix entry, False, isDuplicate, True)))"

section \<open>Entries keep their faces apart\<close>

definition pe_inv :: "pit_entry \<Rightarrow> bool" where
  "pe_inv e \<longleftrightarrow> sorted (map in_face (pe_incoming e)) \<and> distinct (map in_face (pe_incoming e)) \<and>
     sorted (map out_face (pe_outgoing e)) \<and> distinct (map out_face (pe_outgoing e))"

lemmas pe_ops = UpdateLifetime_def SetExpireTime_def AddSeenNonce_def AddIncoming_def RemoveIncoming_def
  ClearIncoming_def ClearOutgoing_def AddOutgoing_def RemoveAllReferencesToFace_def SetWaitingInVain_def
  IncreaseAllowedRetxCount_def setSourceMetadata_def

lemma AddOutgoing_inv: "pe_inv e \<Longrightarrow> pe_inv (AddOutgoing now face e)"
proof (cases "find_key out_face face (pe_outgoing e)")
  case None
  assume "pe_inv e"
  then show ?thesis using None insert_unique_sorted [of out_face "pe_outgoing e"]
    by (simp add: pe_inv_def AddOutgoing_def)
next
  case (Some o1)
  assume "pe_inv e"
  then show ?thesis using Some by (simp add: pe_inv_def AddOutgoing_def UpdateOnRetransmit_def)
qed

lemma pe_inv_ops:
  assumes "pe_inv e"
  shows "pe_inv (UpdateLifetime now d e)" "pe_inv (SetExpireTime t e)" "pe_inv (AddSeenNonce nonce e)"
    "pe_inv (AddIncoming now face e)" "pe_inv (RemoveIncoming face e)" "pe_inv (ClearIncoming e)"
    "pe_inv (ClearOutgoing e)" "pe_inv (AddOutgoing now face e)" "pe_inv (RemoveAllReferencesToFace face e)"
    "pe_inv (SetWaitingInVain face e)" "pe_inv (IncreaseAllowedRetxCount e)" "pe_inv (setSourceMetadata l e)"
  using assms insert_unique_sorted [of in_face "pe_incoming e"] AddOutgoing_inv [OF assms]
  by (simp_all add: pe_inv_def pe_ops erase_key_sorted)

lemma pe_inv_new: "pe_inv (NDNPitEntry now n d fe)"
  by (simp add: pe_inv_def NDNPitEntry_def)

lemma pe_prefix_ops [simp]:
  "pe_prefix (UpdateLifetime now d e) = pe_prefix e" "pe_prefix (SetExpireTime t e) = pe_prefix e"
  "pe_prefix (AddSeenNonce nonce e) = pe_prefix e" "pe_prefix (AddIncoming now face e) = pe_prefix e"
  "pe_prefix (RemoveIncoming face e) = pe_prefix e" "pe_prefix (ClearIncoming e) = pe_prefix e"
  "pe_prefix (ClearOutgoing e) = pe_prefix e" "pe_prefix (AddOutgoing now face e) = pe_prefix e"
  "pe_prefix (RemoveAllReferencesToFace face e) = pe_prefix e" "pe_prefix (SetWaitingInVain face e) = pe_prefix e"
  "pe_prefix (IncreaseAllowedRetxCount e) = pe_prefix e" "pe_prefix (setSourceMetadata l e) = pe_prefix e"
  "pe_prefix (NDNPitEntry now n d fe) = n"
  by (simp_all add: pe_ops NDNPitEntry_def split: option.splits)

lemma pe_fibEntry_ops [simp]:
  "pe_fibEntry (UpdateLifetime now d e) = pe_fibEntry e" "pe_fibEntry (SetExpireTime t e) = pe_fibEntry e"
  "pe_fibEntry (AddSeenNonce nonce e) = pe_fibEntry e" "pe_fibEntry (AddIncoming now face e) = pe_fibEntry e"
  "pe_fibEntry (RemoveIncoming face e) = pe_fibEntry e" "pe_fibEntry (ClearIncoming e) = pe_fibEntry e"
  "pe_fibEntry (ClearOutgoing e) = pe_fibEntry e" "pe_fibEntry (AddOutgoing now face e) = pe_fibEntry e"
  "pe_fibEntry (RemoveAllReferencesToFace face e) = pe_fibEntry e" "pe_fibEntry (SetWaitingInVain face e) = pe_fibEntry e"
  "pe_fibEntry (IncreaseAllowedRetxCount e) = pe_fibEntry e" "pe_fibEntry (setSourceMetadata l e) = pe_fibEntry e"
  "pe_fibEntry (NDNPitEntry now n d fe) = fe"
  by (simp_all add: pe_ops NDNPitEntry_def split: option.splits)

lemma inVain_fold: "fold (\<lambda>x b. b \<and> P x) xs a \<longleftrightarrow> a \<and> (\<forall>x \<in> set xs. P x)"
  by (induction xs arbitrary: a) auto

lemma all_in_vain: "AreAllOutgoingInVain e \<longleftrightarrow> (\<forall>o1 \<in> set (pe_outgoing e). out_waitingInVain o1)"
  by (simp add: AreAllOutgoingInVain_def inVain_fold)

lemma promising_iff:
  "AreTherePromisingOutgoingFacesExcept face e \<longleftrightarrow>
     (\<exists>o1 \<in> set (pe_outgoing e). out_face o1 \<noteq> face \<and> \<not> out_waitingInVain o1)"
  by (auto simp: AreTherePromisingOutgoingFacesExcept_def inVain_fold)

section \<open>The invariant of the table\<close>

definition pit_inv :: "pit \<Rightarrow> bool" where
  "pit_inv t \<longleftrightarrow> linked_inv pe_prefix pe_expireTime (p_entries t) \<and> (\<forall>e \<in> set (p_entries t). pe_inv e)"

lemma pit_new_inv: "pit_inv NDNPit"
  by (simp add: pit_inv_def NDNPit_def linked_inv_def)

lemma pit_find_entry: "pit_find t n = Some e \<Longrightarrow> e \<in> set (p_entries t) \<and> pe_prefix e = n"
  unfolding pit_find_def by (rule find_key_SomeD)

lemma pit_find_complete: "pit_inv t \<Longrightarrow> e \<in> set (p_entries t) \<Longrightarrow> pit_find t (pe_prefix e) = Some e"
  unfolding pit_find_def pit_inv_def linked_inv_def by (rule find_key_in) simp_all

lemma pit_find_modify:
  "(\<And>e. pe_prefix (f e) = pe_prefix e) \<Longrightarrow>
     pit_find (pit_modify n f t) m = (if m = n then map_option f (pit_find t m) else pit_find t m)"
  by (simp add: pit_find_def pit_modify_def find_modify_linked)

lemma pit_find_Remove: "pit_find (pit_Remove n t) m = (if m = n then None else pit_find t m)"
  by (simp add: pit_find_def pit_Remove_def find_erase_key)

lemma pit_find_insert:
  "pit_find t (pe_prefix e) = None \<Longrightarrow>
     pit_find (pit_insert e t) m = (if m = pe_prefix e then Some e else pit_find t m)"
  unfolding pit_find_def pit_insert_def by (simp add: find_link_key find_key_None)

lemmas pit_find_simps = pit_find_modify pit_find_insert pit_find_Remove

lemma pit_modify_inv:
  assumes "pit_inv t" and "\<And>e. pe_prefix (f e) = pe_prefix e" and "\<And>e. pe_inv e \<Longrightarrow> pe_inv (f e)"
  shows "pit_inv (pit_modify n f t)"
proof -
  have l: "linked_inv pe_prefix pe_expireTime (p_entries t)" using assms(1) by (simp add: pit_inv_def)
  then have "set (p_entries (pit_modify n f t)) = set (modify_key pe_prefix n f (p_entries t))"
    by (simp add: pit_modify_def set_modify_linked linked_inv_def)
  then show ?thesis
    using assms modify_linked_inv [OF l, of f n]
    by (auto simp: pit_inv_def pit_modify_def) (auto simp: modify_key_def)
qed

lemma pit_Remove_inv: "pit_inv t \<Longrightarrow> pit_inv (pit_Remove n t)"
  by (auto simp: pit_inv_def pit_Remove_def linked_inv_erase set_erase_key)

lemma pit_insert_inv:
  "pit_inv t \<Longrightarrow> pe_inv e \<Longrightarrow> pit_find t (pe_prefix e) = None \<Longrightarrow> pit_inv (pit_insert e t)"
  by (auto simp: pit_inv_def pit_insert_def pit_find_def find_key_None intro!: linked_inv_link)

lemma clean_loop_filter:
  "sorted (map pe_expireTime es) \<Longrightarrow> clean_loop now es = filter (\<lambda>e. now < pe_expireTime e) es"
proof (induction now es rule: clean_loop.induct)
  case (2 now entry rest)
  show ?case
  proof (cases "now \<ge> pe_expireTime entry")
    case False
    then have "\<forall>e \<in> set rest. now < pe_expireTime e" using "2.prems" by auto
    with False show ?thesis by (simp add: filter_id_conv)
  qed (use 2 in simp)
qed simp

lemma CleanExpired_entries:
  "pit_inv t \<Longrightarrow> p_entries (CleanExpired now t) = filter (\<lambda>e. now < pe_expireTime e) (p_entries t)"
  by (simp add: CleanExpired_def clean_loop_filter pit_inv_def linked_inv_def)

lemma CleanExpired_inv: "pit_inv t \<Longrightarrow> pit_inv (CleanExpired now t)"
  by (auto simp: pit_inv_def linked_inv_def CleanExpired_def clean_loop_filter distinct_filter_key
      sorted_filter)

interpretation pits: prefix_table p_entries pe_prefix pit_find pit_inv
  by unfold_locales (auto dest: pit_find_entry intro: pit_find_complete)

lemma LookupInterest_inv:
  assumes "pit_inv t" and "pit_LookupInterest now fib h t = Inr (t', n, isNew, isDup, ok)"
  shows "pit_inv t'"
proof -
  obtain nm where nm: "ih_GetName h = Inr nm" using assms(2) by (auto simp: pit_LookupInterest_def bindr_eq_Inr)
  show ?thesis
  proof (cases "pit_LongestPrefixMatch nm t")
    case None
    have "pit_find t nm = None"
    proof (cases "pit_find t nm")
      case (Some e)
      then show ?thesis using pits.lpm_None_iff [OF assms(1), of nm] None pit_find_entry [OF Some]
        by (auto simp: pit_LongestPrefixMatch_def)
    qed
    then show ?thesis using assms nm None
      by (auto simp: pit_LookupInterest_def Let_def intro!: pit_modify_inv pit_insert_inv pe_inv_ops pe_inv_new)
  next
    case (Some e)
    then show ?thesis using assms nm
      by (auto simp: pit_LookupInterest_def Let_def intro!: pit_modify_inv pe_inv_ops split: if_splits)
  qed
qed

text \<open>The lookup as one update of the map from names to entries.\<close>

lemma LookupInterest_find:
  assumes "pit_inv t" and "pit_LookupInterest now fib h t = Inr (t', m, isNew, isDup, ok)"
  shows "\<exists>e0. pit_find t' = (pit_find t)(m \<mapsto> e0) \<and> ok \<and>
    (isNew \<longrightarrow> \<not> isDup \<and> pit_find t m = None \<and> ih_name h = Some m \<and> (\<exists>lifetime. e0 = AddSeenNonce (ih_nonce h)
      (NDNPitEntry now m lifetime (map_option fe_addr (fib_LongestPrefixMatch m fib))))) \<and>
    (\<not> isNew \<longrightarrow> (\<exists>e. pit_find t m = Some e \<and> (isDup \<longleftrightarrow> ih_nonce h \<in> pe_seenNonces e) \<and>
      e0 = (if isDup then e else AddSeenNonce (ih_nonce h) e)))"
proof -
  obtain nm where nm: "ih_name h = Some nm" "ih_GetName h = Inr nm"
    using assms(2) by (auto simp: pit_LookupInterest_def ih_GetName_def split: option.splits)
  show ?thesis
  proof (cases "pit_LongestPrefixMatch nm t")
    case None
    have nf: "pit_find t nm = None"
    proof (cases "pit_find t nm")
      case (Some e)
      then show ?thesis using pits.lpm_None_iff [OF assms(1), of nm] None pit_find_entry [OF Some]
        by (auto simp: pit_LongestPrefixMatch_def)
    qed
    let ?e = "NDNPitEntry now nm (if ih_interestLifetime h = 0 then p_defaultLifetime t else ih_interestLifetime h)
        (map_option fe_addr (fib_LongestPrefixMatch nm fib))"
    have "t' = pit_modify nm (AddSeenNonce (ih_nonce h)) (pit_insert ?e t)" "m = nm" "isNew" "\<not> isDup" "ok"
      using assms(2) None nm by (auto simp: pit_LookupInterest_def Let_def)
    moreover have "pit_find (pit_modify nm (AddSeenNonce (ih_nonce h)) (pit_insert ?e t)) =
        (pit_find t)(nm \<mapsto> AddSeenNonce (ih_nonce h) ?e)"
      using nf by (intro ext) (simp add: pit_find_simps)
    ultimately show ?thesis using nf nm by blast
  next
    case (Some e)
    have f: "pit_find t (pe_prefix e) = Some e"
      using pits.lpm_sound [of t nm e] Some pit_find_complete [OF assms(1)]
      by (simp add: pit_LongestPrefixMatch_def)
    have r: "m = pe_prefix e" "\<not> isNew" "ok" "isDup \<longleftrightarrow> ih_nonce h \<in> pe_seenNonces e"
      "t' = (if isDup then t else pit_modify m (AddSeenNonce (ih_nonce h)) t)"
      using assms(2) Some nm by (auto simp: pit_LookupInterest_def Let_def IsNonceSeen_def)
    have "pit_find t' = (pit_find t)(m \<mapsto> (if isDup then e else AddSeenNonce (ih_nonce h) e))"
      using r f by (intro ext) (auto simp: pit_find_modify)
    with r f show ?thesis by blast
  qed
qed

text \<open>The table as the daemon uses it; an entry changes through the operations of the entry only.\<close>

inductive entry_change :: "(pit_entry \<Rightarrow> pit_entry) \<Rightarrow> bool" where
  "entry_change (UpdateLifetime now d)" | "entry_change (SetExpireTime now)"
| "entry_change (AddSeenNonce nonce)" | "entry_change (AddIncoming now face)"
| "entry_change (RemoveIncoming face)" | "entry_change ClearIncoming" | "entry_change ClearOutgoing"
| "entry_change (AddOutgoing now face)" | "entry_change (RemoveAllReferencesToFace face)"
| "entry_change (SetWaitingInVain face)" | "entry_change IncreaseAllowedRetxCount"
| "entry_change (setSourceMetadata l)"

inductive pit_reachable :: "pit \<Rightarrow> bool" where
  pit_new: "pit_reachable NDNPit"
| pit_remove: "pit_reachable t \<Longrightarrow> pit_reachable (pit_Remove n t)"
| pit_clean: "pit_reachable t \<Longrightarrow> pit_reachable (CleanExpired now t)"
| pit_lookup: "pit_reachable t \<Longrightarrow> pit_LookupInterest now fib h t = Inr (t', m, isNew, isDup, ok) \<Longrightarrow> pit_reachable t'"
| pit_change: "pit_reachable t \<Longrightarrow> entry_change f \<Longrightarrow> pit_reachable (pit_modify n f t)"

lemma entry_change_inv: "entry_change f \<Longrightarrow> pe_prefix (f e) = pe_prefix e \<and> (pe_inv e \<longrightarrow> pe_inv (f e))"
  by (induction rule: entry_change.induct) (simp_all add: pe_inv_ops)

lemma pit_reachable_inv: "pit_reachable t \<Longrightarrow> pit_inv t"
proof (induction rule: pit_reachable.induct)
  case (pit_change t f n)
  then show ?case using entry_change_inv by (intro pit_modify_inv) auto
qed (use LookupInterest_inv in \<open>auto simp: pit_new_inv pit_Remove_inv CleanExpired_inv\<close>)

section \<open>Properties\<close>


text \<open>
  The clean-up, which stops at the first entry that has not expired, removes exactly the
  entries whose expiry time has been reached.
\<close>

theorem clean_expired:
  assumes "pit_inv t"
  shows "pit_find (CleanExpired now t) n =
    (case pit_find t n of None \<Rightarrow> None | Some e \<Rightarrow> if now < pe_expireTime e then Some e else None)"
  using assms
  by (simp add: pit_find_def CleanExpired_entries find_filter_key pit_inv_def linked_inv_def)

text \<open>
  An Interest is attached to the pending entry with the longest prefix of its name, or to a
  new entry for its name when there is none; it counts as a duplicate exactly when that entry has
  seen its nonce, the nonce is recorded, and no other entry changes.
\<close>

theorem pit_interest_lookup:
  assumes "pit_inv t" and "ih_name h = Some n"
  shows "\<exists>t' m isNew isDup e. pit_LookupInterest now fib h t = Inr (t', m, isNew, isDup, True) \<and>
    prefix m n \<and> pit_find t' m = Some e \<and> ih_nonce h \<in> pe_seenNonces e \<and>
    (isNew \<longleftrightarrow> (\<forall>e' \<in> set (p_entries t). \<not> prefix (pe_prefix e') n)) \<and>
    (isNew \<longrightarrow> m = n \<and> pe_fibEntry e = map_option fe_addr (fib_LongestPrefixMatch n fib)) \<and>
    (isDup \<longleftrightarrow> (\<exists>e'. pit_find t m = Some e' \<and> ih_nonce h \<in> pe_seenNonces e')) \<and>
    (\<forall>e' \<in> set (p_entries t). prefix (pe_prefix e') n \<longrightarrow> length (pe_prefix e') \<le> length m) \<and>
    (\<forall>k. k \<noteq> m \<longrightarrow> pit_find t' k = pit_find t k)"
proof (cases "pit_LongestPrefixMatch n t")
  case None
  then have none: "\<forall>e \<in> set (p_entries t). \<not> prefix (pe_prefix e) n"
    using pits.lpm_None_iff [OF assms(1), of n] by (simp add: pit_LongestPrefixMatch_def)
  then have nf: "pit_find t n = None"
    by (metis pit_find_entry option.exhaust prefix_order.refl)
  then show ?thesis using none None assms(2)
    by (simp add: pit_LookupInterest_def ih_GetName_def Let_def pit_find_simps AddSeenNonce_def)
       (auto simp: NDNPitEntry_def)
next
  case (Some e)
  then have e: "e \<in> set (p_entries t)" "prefix (pe_prefix e) n"
    "\<forall>e' \<in> set (p_entries t). prefix (pe_prefix e') n \<longrightarrow> length (pe_prefix e') \<le> length (pe_prefix e)"
    using pits.lpm_sound [of t n e] pits.lpm_longest [OF assms(1), of n e]
    by (auto simp: pit_LongestPrefixMatch_def)
  then have f: "pit_find t (pe_prefix e) = Some e" using pit_find_complete [OF assms(1)] by simp
  show ?thesis
  proof (cases "IsNonceSeen (ih_nonce h) e")
    case True
    then show ?thesis using Some e f assms(2)
      by (auto simp: pit_LookupInterest_def ih_GetName_def IsNonceSeen_def)
  next
    case False
    then show ?thesis using Some e f assms(2)
      by (auto simp: pit_LookupInterest_def ih_GetName_def IsNonceSeen_def pit_find_modify AddSeenNonce_def)
  qed
qed

section \<open>A table that shows the hypotheses to be satisfiable\<close>

definition sample_pit :: pit where
  "sample_pit = pit_insert (NDNPitEntry 10 [''b''] 5 None) (pit_insert (NDNPitEntry 0 [''a''] 4 None) NDNPit)"

lemma sample_pit_inv: "pit_inv sample_pit"
proof -
  have "pit_find NDNPit [''a''] = None" by code_simp
  then have "pit_inv (pit_insert (NDNPitEntry 0 [''a''] 4 None) NDNPit)"
    by (intro pit_insert_inv pit_new_inv pe_inv_new) simp
  moreover have "pit_find (pit_insert (NDNPitEntry 0 [''a''] 4 None) NDNPit) [''b''] = None"
    using \<open>pit_find NDNPit [''a''] = None\<close>
    by (simp add: pit_find_insert) (simp add: pit_find_def NDNPit_def)
  ultimately show ?thesis unfolding sample_pit_def by (simp add: pit_insert_inv pe_inv_new)
qed


theorem clean_expired_witness:
  "pit_find (CleanExpired 7 sample_pit) [''a''] = None \<and> pit_find (CleanExpired 7 sample_pit) [''b''] \<noteq> None"
  unfolding clean_expired [OF sample_pit_inv]
  by (simp add: sample_pit_def pit_find_def pit_insert_def NDNPit_def NDNPitEntry_def)

theorem pit_interest_lookup_witness:
  "\<exists>t' isNew isDup. pit_LookupInterest 8 NDNFib (InterestHeader_new\<lparr>ih_name := Some [''a'', ''c'']\<rparr>) sample_pit =
     Inr (t', [''a''], isNew, isDup, True)"
proof -
  let ?h = "InterestHeader_new\<lparr>ih_name := Some [''a'', ''c'']\<rparr>"
  obtain t' m isNew isDup where l: "pit_LookupInterest 8 NDNFib ?h sample_pit = Inr (t', m, isNew, isDup, True)"
    and m: "prefix m [''a'', ''c'']" "isNew \<longleftrightarrow> (\<forall>e' \<in> set (p_entries sample_pit). \<not> prefix (pe_prefix e') [''a'', ''c''])"
    using pit_interest_lookup [OF sample_pit_inv, of ?h "[''a'', ''c'']" 8 NDNFib] by auto
  have "map_option pe_prefix (pit_LongestPrefixMatch [''a'', ''c''] sample_pit) = Some [''a'']"
    by (simp add: pit_LongestPrefixMatch_def longest_prefix_match_def sample_pit_def pit_find_def
        pit_insert_def NDNPit_def NDNPitEntry_def)
  with l have "m = [''a'']" by (auto simp: pit_LookupInterest_def ih_GetName_def Let_def)
  with l show ?thesis by blast
qed

end
