(* ===== verification/Face.thy ===== *)
theory Face
  imports Complex_Main Visitors
begin

text \<open>
  Faces: the base class \<open>daemon/ndn-face.cc\<close> with its leaky bucket, and what the four kinds
  of faces do to send a packet (\<open>ndn-local-face.cc\<close>, \<open>ndn-net-device-face.cc\<close>,
  \<open>ndn-hub-over-ip-device-face.cc\<close>, \<open>ndn-adhoc-net-device-face.cc\<close>).

  The socket calls and the slot of the ring that the ad-hoc face shares with its device thread are
  outside: \<open>os\<close> says of a face and a destination whether the call succeeds. What is sent is
  recorded, in order. The buckets are \<open>double\<close>s in the code and rationals here.
\<close>

section \<open>The face and its bucket\<close>

datatype face_kind = LocalFace | NetDeviceFace u32 "16 word" | HubOverIPDeviceFace | AdhocNetDeviceFace

record face =
  fc_fd :: face_id
  fc_kind :: face_kind
  fc_bucket :: rat
  fc_bucketMax :: rat
  fc_bucketLeak :: rat
  fc_lastLeakTime :: "time option"
  fc_metric :: u32

definition NDNFace :: "face_kind \<Rightarrow> face_id \<Rightarrow> face" where
  "NDNFace kind fd = \<lparr>fc_fd = fd, fc_kind = kind, fc_bucket = 0, fc_bucketMax = - 1, fc_bucketLeak = 0,
     fc_lastLeakTime = None, fc_metric = 0\<rparr>"

definition face_eq :: "face \<Rightarrow> face \<Rightarrow> bool" where
  "face_eq a b \<longleftrightarrow> fc_fd a = fc_fd b"

definition face_less :: "face \<Rightarrow> face \<Rightarrow> bool" where
  "face_less a b \<longleftrightarrow> fc_fd a < fc_fd b"

definition SetBucketMax :: "rat \<Rightarrow> face \<Rightarrow> face" where
  "SetBucketMax bucket f = f\<lparr>fc_bucketMax := bucket\<rparr>"

definition SetBucketLeak :: "rat \<Rightarrow> face \<Rightarrow> face" where
  "SetBucketLeak leak f = f\<lparr>fc_bucketLeak := leak\<rparr>"

definition SetMetric :: "16 word \<Rightarrow> face \<Rightarrow> face" where
  "SetMetric metric f = f\<lparr>fc_metric := ucast metric\<rparr>"

definition GetMetric :: "face \<Rightarrow> 16 word" where
  "GetMetric f = ucast (fc_metric f)"

text \<open>The leak is for \<open>interval.seconds ()\<close>, the seconds field of the interval.\<close>

definition LeakBucket :: "time \<Rightarrow> face \<Rightarrow> face" where
  "LeakBucket now f =
     (case fc_lastLeakTime f of
        None \<Rightarrow> f\<lparr>fc_lastLeakTime := Some now\<rparr>
      | Some t \<Rightarrow>
          (let leak = fc_bucketLeak f * of_int (seconds_field (now - t)) in
           if leak \<ge> 1 then f\<lparr>fc_bucket := max 0 (fc_bucket f - leak), fc_lastLeakTime := Some now\<rparr> else f))"

definition IsBelowLimit :: "time \<Rightarrow> face \<Rightarrow> face \<times> bool" where
  "IsBelowLimit now f =
     (let f = LeakBucket now f in
      if fc_bucketMax f > 0 then
        (if fc_bucket f + 1 > fc_bucketMax f then (f, False)
         else (f\<lparr>fc_bucket := fc_bucket f + 1\<rparr>, True))
      else (f, True))"

section \<open>Sending\<close>

datatype destination = Connected | UdpTo u32 "16 word" | AdhocRing

record sent =
  s_face :: face_id
  s_dest :: destination
  s_data :: "byte list"

type_synonym os = "face_id \<Rightarrow> destination \<Rightarrow> bool"

definition sendto :: "os \<Rightarrow> face_id \<Rightarrow> destination \<Rightarrow> byte list \<Rightarrow> sent list \<times> bool" where
  "sendto os fd dest bytes =
     (if os fd dest then ([\<lparr>s_face = fd, s_dest = dest, s_data = bytes\<rparr>], True) else ([], False))"

text \<open>Addresses are in network byte order on a little-endian host: 192.168.0.8, port 9695.\<close>

definition DEFAULT_CLIENT_IP :: u32 where "DEFAULT_CLIENT_IP = 0x0800A8C0"
definition NDN_UDP_PORT :: "16 word" where "NDN_UDP_PORT = 0xDF25"

fun hub_loop :: "os \<Rightarrow> face_id \<Rightarrow> byte list \<Rightarrow> (u32 \<times> 16 word) list \<Rightarrow> sent list \<times> bool" where
  "hub_loop os fd bytes [] = ([], True)"
| "hub_loop os fd bytes ((ip, port) # it) =
     (case sendto os fd (UdpTo ip port) bytes of
        (out, ok) \<Rightarrow>
          if \<not> ok then (out, False)
          else (case hub_loop os fd bytes it of (out', ok') \<Rightarrow> (out @ out', ok')))"

definition hub_Send :: "os \<Rightarrow> face_id \<Rightarrow> byte list \<Rightarrow> (u32 \<times> 16 word) list option \<Rightarrow> sent list \<times> bool" where
  "hub_Send os fd bytes metadata =
     (case metadata of
        Some info \<Rightarrow> hub_loop os fd bytes info
      | None \<Rightarrow> sendto os fd (UdpTo DEFAULT_CLIENT_IP NDN_UDP_PORT) bytes)"

text \<open>
  The ad-hoc face hands the packet over in a slot of the ring it shares with the link layer. A slot
  still in use refuses it. Otherwise the face looks at the type of the metadata, through the packet's
  pointer, and puts metadata of the ad-hoc network into the slot, clears that pointer through \<open>llmetadata\<close>,
  and copies the bytes into the slot's array of \<open>MAXLLSIZE\<close> bytes. The second component is the packet
  object afterwards.
\<close>

definition MAXNETWORKPKTSIZE :: nat where "MAXNETWORKPKTSIZE = 1500"
definition LL_HEADER_SIZE :: nat where "LL_HEADER_SIZE = 12 + 12 + 4"
definition MAXLLSIZE :: nat where "MAXLLSIZE = MAXNETWORKPKTSIZE - LL_HEADER_SIZE"

record adhoc_slot =
  as_metadata :: "nat option"
  as_data :: "byte list"

definition adhoc_Send :: "os \<Rightarrow> face_id \<Rightarrow> packet \<Rightarrow> fault + adhoc_slot option \<times> packet \<times> bool" where
  "adhoc_Send os fd p =
     (if \<not> os fd AdhocRing then Inr (None, p, False)
      else if pk_linked p \<and> pk_llmetadata p = Some FreedMetadata then Inl UseAfterFree
      else let slot_metadata = (if pk_linked p then case pk_llmetadata p of Some (OverAdhoc m) \<Rightarrow> Some m | _ \<Rightarrow> None else None)
      in if \<not> pk_linked p then Inl NullDereference
      else let cleared = p\<lparr>pk_llmetadata := None\<rparr>
      in if length (m_data (pk_buffer p)) > MAXLLSIZE then Inl UndefinedBehaviour
      else Inr (Some \<lparr>as_metadata = slot_metadata, as_data = m_data (pk_buffer p)\<rparr>, cleared, True))"

text \<open>
  What a face puts out. The handlers pass packets by value: that the packet object has no metadata after it
  went to the ring is not carried on. The handlers look at the metadata of a packet only when it arrives; the
  one that could see the difference is a second send of the same object to the ring (the content
  store may keep it), whose slot then has no metadata. No fault depends on it: had the metadata been freed, the
  first send would have failed.
\<close>

definition face_Send :: "os \<Rightarrow> face \<Rightarrow> packet \<Rightarrow> (u32 \<times> 16 word) list option \<Rightarrow> fault + sent list \<times> bool" where
  "face_Send os f p metadata =
     (case fc_kind f of
        LocalFace \<Rightarrow> Inr (sendto os (fc_fd f) Connected (m_data (pk_buffer p)))
      | NetDeviceFace ip port \<Rightarrow> Inr (sendto os (fc_fd f) (UdpTo ip port) (m_data (pk_buffer p)))
      | HubOverIPDeviceFace \<Rightarrow> Inr (hub_Send os (fc_fd f) (m_data (pk_buffer p)) metadata)
      | AdhocNetDeviceFace \<Rightarrow> bindr (adhoc_Send os (fc_fd f) p) (\<lambda>(slot, p, ok). Inr (
          (case slot of None \<Rightarrow> [] | Some m \<Rightarrow> [\<lparr>s_face = fc_fd f, s_dest = AdhocRing, s_data = as_data m\<rparr>]), ok)))"

section \<open>Facts\<close>

lemma fd_ops [simp]:
  "fc_fd (LeakBucket now f) = fc_fd f" "fc_fd (fst (IsBelowLimit now f)) = fc_fd f"
  "fc_kind (LeakBucket now f) = fc_kind f" "fc_kind (fst (IsBelowLimit now f)) = fc_kind f"
  by (simp_all add: LeakBucket_def IsBelowLimit_def Let_def split: option.splits)

definition bucket_ok :: "face \<Rightarrow> bool" where
  "bucket_ok f \<longleftrightarrow> 0 \<le> fc_bucket f \<and> (fc_bucketMax f > 0 \<longrightarrow> fc_bucket f \<le> fc_bucketMax f)"

lemma LeakBucket_ok: "bucket_ok f \<Longrightarrow> bucket_ok (LeakBucket now f)"
  by (auto simp: bucket_ok_def LeakBucket_def Let_def split: option.splits)

lemma IsBelowLimit_ok: "bucket_ok f \<Longrightarrow> bucket_ok (fst (IsBelowLimit now f))"
  using LeakBucket_ok [of f now] by (auto simp: IsBelowLimit_def Let_def bucket_ok_def)

lemma hub_loop_sent:
  "hub_loop os fd bytes l = (out, ok) \<Longrightarrow>
     out = map (\<lambda>(ip, port). \<lparr>s_face = fd, s_dest = UdpTo ip port, s_data = bytes\<rparr>)
       (takeWhile (\<lambda>(ip, port). os fd (UdpTo ip port)) l) \<and>
     (ok \<longleftrightarrow> (\<forall>(ip, port) \<in> set l. os fd (UdpTo ip port)))"
proof (induction l arbitrary: out ok)
  case (Cons a l)
  then show ?case
    by (cases a; cases "hub_loop os fd bytes l") (auto simp: sendto_def split: if_splits)
qed auto

section \<open>Properties\<close>

text \<open>
  With a limit set, a face never lets its bucket grow past it: the bucket stays between zero
  and the limit, an Interest is admitted exactly when the leaked bucket has room for one more, and
  then it takes one.
\<close>

theorem bucket_limit:
  assumes "bucket_ok f" and "fc_bucketMax f > 0"
  shows "bucket_ok (fst (IsBelowLimit now f)) \<and>
    (snd (IsBelowLimit now f) \<longleftrightarrow> fc_bucket (LeakBucket now f) + 1 \<le> fc_bucketMax f) \<and>
    fc_bucket (fst (IsBelowLimit now f)) =
      fc_bucket (LeakBucket now f) + (if snd (IsBelowLimit now f) then 1 else 0)"
proof -
  have "fc_bucketMax (LeakBucket now f) = fc_bucketMax f"
    by (simp add: LeakBucket_def Let_def split: option.splits)
  then show ?thesis
    using assms IsBelowLimit_ok [OF assms(1), of now]
    by (auto simp: IsBelowLimit_def Let_def not_less)
qed

text \<open>
  The bucket of a face that was idle for a whole number of minutes does not leak at all, however
  long that was, because the leak is computed from the seconds field of the interval.
\<close>

theorem bucket_minutes:
  assumes "fc_lastLeakTime f = Some t" and "0 \<le> k"
  shows "LeakBucket (t + k * 60000000) f = f"
proof -
  have "(k * 60000000) sdiv 1000000 = k * 60"
    using assms(2) by (cases "k = 0") (simp_all add: signed_divide_int_def sgn_if)
  moreover have "(k * 60) smod 60 = 0"
    using assms(2) by (cases "k = 0") (simp_all add: signed_modulo_int_def signed_divide_int_def sgn_if)
  ultimately have "seconds_field (k * 60000000) = 0" by (simp add: seconds_field_def)
  then show ?thesis using assms(1) by (simp add: LeakBucket_def Let_def)
qed

text \<open>
  Content sent through the hub face goes, in order, to every address recorded for the entry up
  to the first one that cannot be reached, and to the default client when none is recorded.
\<close>

theorem hub_send:
  assumes "fc_kind f = HubOverIPDeviceFace" and "face_Send os f p metadata = Inr (out, ok)"
  shows "case metadata of
      None \<Rightarrow> \<forall>s \<in> set out. s_dest s = UdpTo DEFAULT_CLIENT_IP NDN_UDP_PORT
    | Some l \<Rightarrow> map s_dest out = map (\<lambda>(ip, port). UdpTo ip port) (takeWhile (\<lambda>(ip, port). os (fc_fd f) (UdpTo ip port)) l) \<and>
        (ok \<longleftrightarrow> (\<forall>(ip, port) \<in> set l. os (fc_fd f) (UdpTo ip port)))"
proof (cases metadata)
  case None
  then show ?thesis using assms by (auto simp: face_Send_def hub_Send_def sendto_def split: if_splits)
next
  case (Some l)
  then show ?thesis
    using assms hub_loop_sent [of os "fc_fd f" "m_data (pk_buffer p)" l out ok]
    by (auto simp: face_Send_def hub_Send_def comp_def split_def)
qed

theorem bucket_limit_witness:
  "snd (IsBelowLimit 0 (SetBucketMax 2 (NDNFace LocalFace 5))) \<longleftrightarrow>
     fc_bucket (LeakBucket 0 (SetBucketMax 2 (NDNFace LocalFace 5))) + 1 \<le> 2"
  using bucket_limit [of "SetBucketMax 2 (NDNFace LocalFace 5)" 0]
  by (simp add: SetBucketMax_def NDNFace_def bucket_ok_def)

theorem bucket_minutes_witness:
  "LeakBucket 3600000000 ((NDNFace LocalFace 5)\<lparr>fc_bucket := 9, fc_bucketLeak := 1, fc_lastLeakTime := Some 0\<rparr>) =
     (NDNFace LocalFace 5)\<lparr>fc_bucket := 9, fc_bucketLeak := 1, fc_lastLeakTime := Some 0\<rparr>"
  using bucket_minutes [of "(NDNFace LocalFace 5)\<lparr>fc_bucket := 9, fc_bucketLeak := 1, fc_lastLeakTime := Some 0\<rparr>" 0 60]
  by simp

theorem hub_send_witness:
  "\<exists>out ok. face_Send (\<lambda>fd d. True) (NDNFace HubOverIPDeviceFace 5) Packet_new (Some [(1, 2), (3, 4)]) = Inr (out, ok) \<and>
     map s_dest out = [UdpTo 1 2, UdpTo 3 4]"
proof -
  obtain out ok where s: "face_Send (\<lambda>fd d. True) (NDNFace HubOverIPDeviceFace 5) Packet_new (Some [(1, 2), (3, 4)]) = Inr (out, ok)"
    by (cases "hub_loop (\<lambda>fd d. True) 5 [] [(1, 2), (3, 4)]")
      (simp add: face_Send_def NDNFace_def hub_Send_def Packet_new_def Buffer_new_def)
  have "map s_dest out = [UdpTo 1 2, UdpTo 3 4]"
    using hub_send [OF _ s] by (simp add: NDNFace_def)
  with s show ?thesis by (intro exI conjI)
qed

end
