(* ===== verification/Forwarding.thy ===== *)
theory Forwarding
  imports Face Pit ContentStore
begin

text \<open>
  The state of the daemon and the forwarding strategies: \<open>daemon/ndn-l3-protocol.h\<close>,
  \<open>daemon/ndn-forwarding-strategy.cc\<close>, \<open>daemon/ndn-flooding-strategy.cc\<close>.

  \<open>l_heap\<close> holds the face objects, \<open>l_faces\<close> the vector of the protocol; a face that
  left the vector lives on while a table refers to it. A reference to a PIT entry is its prefix, a
  reference to a FIB entry its address; following one that is gone is \<open>UseAfterFree\<close>.
  \<open>l_sent\<close> records what was sent.
\<close>

section \<open>State\<close>

record l3 =
  l_heap :: "face list"
  l_faces :: "face_id list"
  l_pit :: pit
  l_fib :: fib
  l_contentStore :: content_store
  l_cacheUnsolicitedData :: bool
  l_nacksEnabled :: bool
  l_sent :: "sent list"

definition NDNL3Protocol :: l3 where
  "NDNL3Protocol = \<lparr>l_heap = [], l_faces = [], l_pit = NDNPit, l_fib = NDNFib,
     l_contentStore = policy_trie_new, l_cacheUnsolicitedData = True, l_nacksEnabled = False, l_sent = []\<rparr>"

definition face_at :: "face_id \<Rightarrow> l3 \<Rightarrow> fault + face" where
  "face_at fd s = (case find_key fc_fd fd (l_heap s) of None \<Rightarrow> Inl NullDereference | Some f \<Rightarrow> Inr f)"

definition entry_at :: "name \<Rightarrow> l3 \<Rightarrow> fault + pit_entry" where
  "entry_at n s = (case pit_find (l_pit s) n of None \<Rightarrow> Inl UseAfterFree | Some e \<Rightarrow> Inr e)"

definition fib_at :: "nat \<Rightarrow> l3 \<Rightarrow> fault + fib_entry" where
  "fib_at a s = (case find_key fe_addr a (f_entries (l_fib s)) of None \<Rightarrow> Inl UseAfterFree | Some e \<Rightarrow> Inr e)"

definition mod_pit :: "name \<Rightarrow> (pit_entry \<Rightarrow> pit_entry) \<Rightarrow> l3 \<Rightarrow> l3" where
  "mod_pit n f s = s\<lparr>l_pit := pit_modify n f (l_pit s)\<rparr>"

definition send_on :: "os \<Rightarrow> face_id \<Rightarrow> packet \<Rightarrow> source_list option \<Rightarrow> l3 \<Rightarrow> fault + l3" where
  "send_on os fd p metadata s =
     bindr (face_at fd s) (\<lambda>f.
     bindr (face_Send os f p metadata) (\<lambda>(out, ok). Inr (s\<lparr>l_sent := l_sent s @ out\<rparr>)))"

definition below_limit :: "time \<Rightarrow> face_id \<Rightarrow> l3 \<Rightarrow> fault + l3 \<times> bool" where
  "below_limit now fd s =
     bindr (face_at fd s) (\<lambda>f.
       Inr (s\<lparr>l_heap := modify_key fc_fd fd (\<lambda>f. fst (IsBelowLimit now f)) (l_heap s)\<rparr>,
            snd (IsBelowLimit now f)))"

section \<open>Strategies\<close>

fun green_loop :: "os \<Rightarrow> time \<Rightarrow> name \<Rightarrow> packet \<Rightarrow> face_metric list \<Rightarrow> l3 \<Rightarrow> fault + l3 \<times> bool" where
  "green_loop os now n p [] s = Inr (s, False)"
| "green_loop os now n p (metricFace # ms) s =
     (if fm_status metricFace = NDN_FIB_RED \<or> fm_status metricFace = NDN_FIB_YELLOW then Inr (s, False)
      else bindr (entry_at n s) (\<lambda>e.
        if find_key in_face (fm_face metricFace) (pe_incoming e) \<noteq> None then green_loop os now n p ms s
        else if (case find_key out_face (fm_face metricFace) (pe_outgoing e) of
                   None \<Rightarrow> False
                 | Some outgoing \<Rightarrow> out_retxCount outgoing \<ge> pe_maxRetxCount e) then green_loop os now n p ms s
        else bindr (below_limit now (fm_face metricFace) s) (\<lambda>(s, faceAvailable).
          if \<not> faceAvailable then green_loop os now n p ms s
          else bindr (send_on os (fm_face metricFace) p None (mod_pit n (AddOutgoing now (fm_face metricFace)) s))
            (\<lambda>s. Inr (s, True)))))"

definition PropagateInterestViaGreen :: "os \<Rightarrow> time \<Rightarrow> name \<Rightarrow> packet \<Rightarrow> l3 \<Rightarrow> fault + l3 \<times> bool" where
  "PropagateInterestViaGreen os now n p s =
     bindr (entry_at n s) (\<lambda>e.
       case pe_fibEntry e of
         None \<Rightarrow> Inr (s, False)
       | Some a \<Rightarrow> bindr (fib_at a s) (\<lambda>fe. green_loop os now n p (fe_faces fe) s))"

text \<open>The faces eligible for flooding.\<close>

definition flood_faces :: "name \<Rightarrow> l3 \<Rightarrow> fault + face_id list" where
  "flood_faces n s =
     bindr (entry_at n s) (\<lambda>e.
       case pe_fibEntry e of
         Some a \<Rightarrow> bindr (fib_at a s) (\<lambda>fe.
           Inr (map fm_face (filter (\<lambda>m. fm_status m \<noteq> NDN_FIB_RED) (fe_faces fe))))
       | None \<Rightarrow> Inr (l_faces s))"

fun flood_loop :: "os \<Rightarrow> time \<Rightarrow> name \<Rightarrow> packet \<Rightarrow> face_id list \<Rightarrow> nat \<Rightarrow> l3 \<Rightarrow> fault + l3 \<times> nat" where
  "flood_loop os now n p [] propagatedCount s = Inr (s, propagatedCount)"
| "flood_loop os now n p (face # faces) propagatedCount s =
     bindr (below_limit now face s) (\<lambda>(s, faceAvailable).
       if \<not> faceAvailable then flood_loop os now n p faces propagatedCount s
       else bindr (send_on os face p None (mod_pit n (AddOutgoing now face) s)) (\<lambda>s.
         flood_loop os now n p faces (propagatedCount + 1) s))"

definition PropagateInterest :: "os \<Rightarrow> time \<Rightarrow> name \<Rightarrow> packet \<Rightarrow> l3 \<Rightarrow> fault + l3 \<times> bool" where
  "PropagateInterest os now n p s =
     bindr (PropagateInterestViaGreen os now n p s) (\<lambda>(s, greenOk).
       if greenOk then Inr (s, True)
       else bindr (flood_faces n s) (\<lambda>faces.
         bindr (flood_loop os now n p faces 0 s) (\<lambda>(s, propagatedCount). Inr (s, propagatedCount > 0))))"

end
