(* ===== verification/L3.thy ===== *)
theory L3
  imports Forwarding
begin

text \<open>
  The packet handlers of the daemon, \<open>daemon/ndn-l3-protocol.cc\<close>, and the part of
  \<open>NDNFace::readHandler\<close> that calls them. Each handler is one definition in the order of
  its statements; a thrown exception is a fault, \<open>try/catch\<close> a case on it.
\<close>

section \<open>Faces\<close>

definition AddFace :: "face \<Rightarrow> l3 \<Rightarrow> l3 \<times> face_id" where
  "AddFace f s =
     (s\<lparr>l_heap := (if find_key fc_fd (fc_fd f) (l_heap s) = None then l_heap s @ [f]
                   else modify_key fc_fd (fc_fd f) (\<lambda>_. f) (l_heap s)),
        l_faces := l_faces s @ [fc_fd f]\<rparr>, fc_fd f)"

definition GetFace :: "u32 \<Rightarrow> l3 \<Rightarrow> face_id option" where
  "GetFace index s = find (\<lambda>fd. fd = sint index) (l_faces s)"

definition SetFib :: "fib \<Rightarrow> l3 \<Rightarrow> l3" where
  "SetFib t s = s\<lparr>l_fib := t\<rparr>"

text \<open>The entries to remove are those whose FIB entry has this face and no other.\<close>

definition trim_entry :: "face_id \<Rightarrow> name \<Rightarrow> l3 \<times> name list \<Rightarrow> fault + l3 \<times> name list" where
  "trim_entry face n = (\<lambda>(s, entriesToRemoves).
     let s = mod_pit n (RemoveAllReferencesToFace face) s in
     bindr (entry_at n s) (\<lambda>e.
       case pe_fibEntry e of
         None \<Rightarrow> Inr (s, entriesToRemoves)
       | Some a \<Rightarrow> bindr (fib_at a s) (\<lambda>fe.
           if length (fe_faces fe) = 1 \<and> fm_face (hd (fe_faces fe)) = face
           then Inr (s, entriesToRemoves @ [n]) else Inr (s, entriesToRemoves))))"

definition TrimPitEntriesAssociatedWithFace :: "face_id \<Rightarrow> l3 \<Rightarrow> fault + l3" where
  "TrimPitEntriesAssociatedWithFace face s =
     bindr (foldr_res (trim_entry face) (map pe_prefix (p_entries (l_pit s))) (s, [])) (\<lambda>(s, entriesToRemoves).
       Inr (s\<lparr>l_pit := fold pit_Remove entriesToRemoves (l_pit s)\<rparr>))"

definition RemoveFace :: "face_id \<Rightarrow> l3 \<Rightarrow> fault + l3" where
  "RemoveFace face s =
     bindr (TrimPitEntriesAssociatedWithFace face s) (\<lambda>s.
     bindr (fib_RemoveFromAll face (l_fib s)) (\<lambda>t.
       Inr (s\<lparr>l_fib := t, l_faces := remove1 face (l_faces s)\<rparr>)))"

section \<open>Answering and giving up\<close>

definition SatisfyPendingInterests :: "os \<Rightarrow> name \<Rightarrow> packet \<Rightarrow> l3 \<Rightarrow> fault + l3" where
  "SatisfyPendingInterests os n content_packet s =
     bindr (entry_at n s) (\<lambda>e.
     bindr (foldr_res (\<lambda>incoming s. send_on os (in_face incoming) content_packet (pe_sourceMetadata e) s)
              (pe_incoming e) s) (\<lambda>s.
       Inr (s\<lparr>l_pit := pit_Remove n (l_pit s)\<rparr>)))"

definition GiveUpInterest :: "os \<Rightarrow> time \<Rightarrow> name \<Rightarrow> interest_header \<Rightarrow> l3 \<Rightarrow> fault + l3" where
  "GiveUpInterest os now n header s =
     bindr (if l_nacksEnabled s then
              bindr (AddInterestHeader (ih_SetNack NACK_GIVEUP_PIT header) Packet_new) (\<lambda>nackPacket.
              bindr (entry_at n s) (\<lambda>e.
                foldr_res (\<lambda>incoming s. send_on os (in_face incoming) nackPacket None s) (pe_incoming e) s))
            else Inr s) (\<lambda>s.
       let s = mod_pit n ClearIncoming s;
           s = mod_pit n ClearOutgoing s
       in Inr (mod_pit n (SetExpireTime (now + p_pruningTimeout (l_pit s))) s))"

definition handleDuplicateInterest :: "os \<Rightarrow> face_id \<Rightarrow> interest_header \<Rightarrow> l3 \<Rightarrow> fault + l3" where
  "handleDuplicateInterest os incomingFace header s =
     (if l_nacksEnabled s then
        bindr (AddInterestHeader (ih_SetNack NACK_LOOP header) Packet_new) (\<lambda>nack.
          send_on os incomingFace nack None s)
      else Inr s)"

section \<open>Interests\<close>

definition updatePITForInterest :: "time \<Rightarrow> name \<Rightarrow> face_id \<Rightarrow> interest_header \<Rightarrow> l3 \<Rightarrow> fault + l3 \<times> bool" where
  "updatePITForInterest now n incomingFace header s =
     bindr (entry_at n s) (\<lambda>e.
       let isRetransmitted = (find_key in_face incomingFace (pe_incoming e) \<noteq> None);
           s = (if isRetransmitted then s else mod_pit n (AddIncoming now incomingFace) s)
       in Inr (mod_pit n (UpdateLifetime now (ih_interestLifetime header)) s, isRetransmitted))"

definition checkContentStoreForInterest :: "os \<Rightarrow> interest_header \<Rightarrow> name \<Rightarrow> l3 \<Rightarrow> fault + l3 \<times> bool" where
  "checkContentStoreForInterest os header n s =
     bindr (cs_Lookup header (l_contentStore s)) (\<lambda>(cs, found).
       let s = s\<lparr>l_contentStore := cs\<rparr> in
       case found of
         Some (contentObjectHeader, contentObject) \<Rightarrow>
           bindr (SatisfyPendingInterests os n contentObject s) (\<lambda>s. Inr (s, True))
       | None \<Rightarrow> Inr (s, False))"

text \<open>
  The addresses that asked over IP. A fresh list replaces the one of the entry; the metadata of the
  packet is freed when it starts the list, and the packet keeps the pointer.
\<close>

definition record_source :: "bool \<Rightarrow> name \<Rightarrow> packet \<Rightarrow> l3 \<Rightarrow> fault + l3 \<times> packet" where
  "record_source isDuplicated n p s =
     (case pk_llmetadata p of
        None \<Rightarrow> Inr (s, p)
      | Some FreedMetadata \<Rightarrow> Inl UseAfterFree
      | Some (OverAdhoc m) \<Rightarrow> Inr (s, p)
      | Some (OverIP ip port) \<Rightarrow>
          bindr (entry_at n s) (\<lambda>e.
            case pe_sourceMetadata e of
              None \<Rightarrow> Inr (mod_pit n (setSourceMetadata (addIP ip port [])) s,
                           p\<lparr>pk_llmetadata := Some FreedMetadata\<rparr>)
            | Some rsPit \<Rightarrow>
                (let rsIpInfo = fold (\<lambda>it l. addIP (fst it) (snd it) l) rsPit [];
                     rsIpInfo = (if \<not> isDuplicated then addIP ip port rsIpInfo else rsIpInfo)
                 in Inr (mod_pit n (setSourceMetadata rsIpInfo) s, p))))"

definition OnInterest :: "os \<Rightarrow> time \<Rightarrow> face_id \<Rightarrow> interest_header \<Rightarrow> packet \<Rightarrow> l3 \<Rightarrow> fault + l3" where
  "OnInterest os now incomingFace header p s =
     bindr (pit_LookupInterest now (l_fib s) header (l_pit s)) (\<lambda>(t, n, isNew, isDuplicated, success).
     let s = s\<lparr>l_pit := t\<rparr> in
     bindr (record_source isDuplicated n p s) (\<lambda>(s, p).
     bindr (if success then bindr (updatePITForInterest now n incomingFace header s) (\<lambda>(s, isRetransmitted). Inr s)
            else Inr s) (\<lambda>s.
     bindr (checkContentStoreForInterest os header n s) (\<lambda>(s, found).
       if found then Inr s
       else if isDuplicated then handleDuplicateInterest os incomingFace header s
       else if success then
         bindr (PropagateInterest os now n p s) (\<lambda>(s, propagated).
           if \<not> propagated then GiveUpInterest os now n header s else Inr s)
       else Inr s))))"

section \<open>Nacks\<close>

definition update_fib_status :: "name \<Rightarrow> face_id \<Rightarrow> Status \<Rightarrow> l3 \<Rightarrow> fault + l3" where
  "update_fib_status n face status s =
     bindr (entry_at n s) (\<lambda>e.
       case pe_fibEntry e of
         None \<Rightarrow> Inr s
       | Some a \<Rightarrow> bindr (fib_at a s) (\<lambda>fe.
           Inr (s\<lparr>l_fib := fib_modify (fe_prefix fe) (UpdateStatus face status) (l_fib s)\<rparr>)))"

definition OnNack :: "os \<Rightarrow> time \<Rightarrow> face_id \<Rightarrow> interest_header \<Rightarrow> packet \<Rightarrow> l3 \<Rightarrow> fault + l3" where
  "OnNack os now incomingFace header p s =
     bindr (pit_LookupInterest now (l_fib s) header (l_pit s)) (\<lambda>(t, n, isNew, isDuplicated, success).
     let s = s\<lparr>l_pit := t\<rparr> in
     if isNew \<or> \<not> isDuplicated then Inr s
     else bindr (entry_at n s) (\<lambda>e.
       if find_key out_face incomingFace (pe_outgoing e) = None then Inr s
       else
         let s = mod_pit n (SetWaitingInVain incomingFace) s;
             s = (if ih_nackType header = NACK_GIVEUP_PIT then mod_pit n (RemoveIncoming incomingFace) s else s)
         in bindr (update_fib_status n incomingFace NDN_FIB_YELLOW s) (\<lambda>s.
            bindr (entry_at n s) (\<lambda>e.
              if length (pe_incoming e) = 0 then Inr s
              else if \<not> AreAllOutgoingInVain e then Inr s
              else
                let nonNackHeader = ih_SetNack NORMAL_INTEREST header in
                bindr (AddInterestHeader nonNackHeader Packet_new) (\<lambda>nonNackInterest.
                bindr (PropagateInterest os now n nonNackInterest s) (\<lambda>(s, propagated).
                  if \<not> propagated then GiveUpInterest os now n nonNackHeader s else Inr s))))))"

section \<open>Data\<close>

definition HandleUnsolicitedData :: "content_header \<Rightarrow> packet \<Rightarrow> l3 \<Rightarrow> fault + l3 \<times> bool" where
  "HandleUnsolicitedData header p s =
     (if l_cacheUnsolicitedData s then
        bindr (cs_Add header p (l_contentStore s)) (\<lambda>(cs, newEntry).
          Inr (s\<lparr>l_contentStore := cs\<rparr>, newEntry))
      else Inr (s, False))"

definition free_metadata :: "packet \<Rightarrow> fault + packet" where
  "free_metadata p =
     (case pk_llmetadata p of
        None \<Rightarrow> Inr p
      | Some FreedMetadata \<Rightarrow> Inl UseAfterFree
      | Some (OverAdhoc m) \<Rightarrow> Inr p
      | Some (OverIP ip port) \<Rightarrow> Inr (p\<lparr>pk_llmetadata := Some FreedMetadata\<rparr>))"

definition OnData :: "os \<Rightarrow> face_id \<Rightarrow> content_header \<Rightarrow> packet \<Rightarrow> l3 \<Rightarrow> fault + l3" where
  "OnData os incomingFace header p s =
     (case pit_LookupData header (l_pit s) of
        Inl NDNPitEntryNotFound \<Rightarrow> bindr (HandleUnsolicitedData header p s) (\<lambda>(s, added). Inr s)
      | Inl e \<Rightarrow> Inl e
      | Inr pitEntry \<Rightarrow>
          if find_key out_face incomingFace (pe_outgoing pitEntry) = None then Inr s
          else
            bindr (free_metadata p) (\<lambda>p.
            bindr (update_fib_status (pe_prefix pitEntry) incomingFace NDN_FIB_GREEN s) (\<lambda>s.
            bindr (cs_Add header p (l_contentStore s)) (\<lambda>(cs, added).
              SatisfyPendingInterests os (pe_prefix pitEntry) p (s\<lparr>l_contentStore := cs\<rparr>)))))"

section \<open>Receiving\<close>

definition l3_Receive :: "os \<Rightarrow> time \<Rightarrow> face_id \<Rightarrow> packet \<Rightarrow> l3 \<Rightarrow> fault + l3" where
  "l3_Receive os now face p s =
     (case (bindr (GetNDNHeaderType p) (\<lambda>type.
              case type of
                INTEREST \<Rightarrow> bindr (GetInterestHeader p) (\<lambda>interestHeader.
                  if ih_nackType interestHeader > 0 then OnNack os now face interestHeader p s
                  else OnInterest os now face interestHeader p s)
              | CONTENT_OBJECT \<Rightarrow> bindr (GetContentHeader p) (\<lambda>contentHeader.
                  OnData os face contentHeader p s))) of
        Inl NDNUnknownHeaderException \<Rightarrow> Inr s
      | r \<Rightarrow> r)"

text \<open>\<open>Reap\<close>, run from a timer.\<close>

definition Reap :: "time \<Rightarrow> l3 \<Rightarrow> l3" where
  "Reap now s = s\<lparr>l_pit := CleanExpired now (l_pit s)\<rparr>"

text \<open>
  \<open>NDNFace::readHandler\<close>: what \<open>InitFromFD\<close> read from the socket, \<open>None\<close> when it threw.
  The flag says whether the face is taken off the event monitor.
\<close>

definition readHandler :: "os \<Rightarrow> time \<Rightarrow> face_id \<Rightarrow> byte list option \<Rightarrow> l3 \<Rightarrow> fault + l3 \<times> bool" where
  "readHandler os now fd input s =
     (case input of
        None \<Rightarrow> Inr (s, True)
      | Some bytes \<Rightarrow>
          bindr (InitFromBuffer bytes) (\<lambda>newPacket.
            if Packet_GetSize newPacket \<le> 0 then bindr (RemoveFace fd s) (\<lambda>s. Inr (s, True))
            else bindr (l3_Receive os now fd newPacket s) (\<lambda>s. Inr (s, False))))"

text \<open>The hub face attaches the sender's address; a failed or empty read is ignored.\<close>

definition hub_readHandler :: "os \<Rightarrow> time \<Rightarrow> face_id \<Rightarrow> (byte list \<times> u32 \<times> 16 word) option \<Rightarrow> l3 \<Rightarrow> fault + l3" where
  "hub_readHandler os now fd input s =
     (case input of
        None \<Rightarrow> Inr s
      | Some (bytes, ip, port) \<Rightarrow>
          if bytes = [] then Inr s
          else bindr (InitFromBuffer bytes) (\<lambda>newPacket.
            l3_Receive os now fd (newPacket\<lparr>pk_llmetadata := Some (OverIP ip port)\<rparr>) s))"

definition net_readHandler :: "os \<Rightarrow> time \<Rightarrow> face_id \<Rightarrow> byte list option \<Rightarrow> l3 \<Rightarrow> fault + l3" where
  "net_readHandler os now fd input s =
     (case input of
        None \<Rightarrow> Inr s
      | Some bytes \<Rightarrow> bindr (InitFromBuffer bytes) (\<lambda>newPacket. l3_Receive os now fd newPacket s))"

end
