(* ===== verification/Mgmt.thy ===== *)
theory Mgmt
  imports L3
begin

text \<open>
  Prefix registration, \<open>daemon/ndn-management.cc\<close>. The message queue and the JSON reader are third-party:
  the queue hands over the bytes of a message, the reader is a parameter that gives the values of the tree.
  \<open>prefixRegistration\<close> takes the fields that it reads. The code runs in a thread of its own without a lock;
  a message is one step here.
\<close>

record forwarding_entry =
  fw_ServiceType :: string
  fw_Action :: string
  fw_Name :: string
  fw_faceID :: u32

definition LOCAL_FACE_METRIC :: int where
  "LOCAL_FACE_METRIC = 0"

text \<open>
  A face that is not found is a null pointer, and is registered all the same. Comparing it with
  the faces of an entry dereferences it; in an entry without faces there is nothing to compare
  with and the null pointer is stored. \<open>NULL_FACE\<close> is that pointer; no descriptor is negative,
  so whoever follows it finds no face.
\<close>

definition NULL_FACE :: face_id where
  "NULL_FACE = - 1"

definition compares_null :: "face_id option \<Rightarrow> name \<Rightarrow> fib \<Rightarrow> bool" where
  "compares_null m_face pfx t \<longleftrightarrow> m_face = None \<and>
     (case fib_find t pfx of None \<Rightarrow> False | Some e \<Rightarrow> length (fe_faces e) > 0)"

definition face_pointer :: "face_id option \<Rightarrow> face_id" where
  "face_pointer m_face = (case m_face of None \<Rightarrow> NULL_FACE | Some fd \<Rightarrow> fd)"

definition prefixRegistration :: "forwarding_entry \<Rightarrow> l3 \<Rightarrow> fault + l3" where
  "prefixRegistration fw s =
     (let m_face = GetFace (fw_faceID fw) s;
          pfx = parse_name (fw_Name fw)
      in if fw_Action fw = ''selfreg'' \<or> fw_Action fw = ''prefixreg'' then
           (if compares_null m_face pfx (l_fib s) then Inl NullDereference
            else Inr (s\<lparr>l_fib := fib_Add pfx (face_pointer m_face) LOCAL_FACE_METRIC (l_fib s)\<rparr>))
         else if fw_Action fw = ''unreg'' then
           (if compares_null m_face pfx (l_fib s) then Inl NullDereference
            else Inr (s\<lparr>l_fib := fst (fib_RemovePrefix pfx (face_pointer m_face) (l_fib s))\<rparr>))
         else Inr s)"

definition management_message :: "forwarding_entry \<Rightarrow> l3 \<Rightarrow> fault + l3" where
  "management_message container s =
     (if fw_ServiceType container = ''ForwardingEntry'' then prefixRegistration container s else Inr s)"

lemma GetFace_Some: "GetFace index s = Some fd \<Longrightarrow> fd \<in> set (l_faces s) \<and> fd = sint index"
  by (auto simp: GetFace_def find_Some_iff) (metis nth_mem)

text \<open>
  A registration under a known face makes exactly that face a next hop of the prefix written in
  the message (with cost 0 when it is new), and a withdrawal removes exactly that next hop; PIT,
  content store and faces are not touched.
\<close>

theorem registration:
  assumes "fw_ServiceType m = ''ForwardingEntry''" and "GetFace (fw_faceID m) s = Some fd"
    and "fw_Action m \<in> {''selfreg'', ''prefixreg'', ''unreg''}"
  shows "\<exists>s'. management_message m s = Inr s' \<and> s' = s\<lparr>l_fib := l_fib s'\<rparr> \<and>
    (\<forall>n k. route (l_fib s') n k =
       (if n = parse_name (fw_Name m) \<and> k = fd
        then (if fw_Action m = ''unreg'' then None
              else Some (case route (l_fib s) n k of None \<Rightarrow> NDNFibFaceMetric fd LOCAL_FACE_METRIC
                         | Some old \<Rightarrow> old\<lparr>fm_routingCost := LOCAL_FACE_METRIC\<rparr>))
        else route (l_fib s) n k))"
proof -
  have r: "route (fib_Add pfx fd c t) n k = (if n = pfx \<and> k = fd
      then Some (case route t pfx fd of None \<Rightarrow> NDNFibFaceMetric fd c | Some m \<Rightarrow> m\<lparr>fm_routingCost := c\<rparr>)
      else route t n k)" for pfx c t n k by (rule route_Add)
  show ?thesis
    using assms by (auto simp: management_message_def prefixRegistration_def Let_def compares_null_def
        face_pointer_def r fib_RemovePrefix_eq route_removed)
qed


theorem registration_witness:
  "\<exists>s'. management_message
       \<lparr>fw_ServiceType = ''ForwardingEntry'', fw_Action = ''selfreg'', fw_Name = ''/a'', fw_faceID = 5\<rparr>
       (fst (AddFace (NDNFace LocalFace 5) NDNL3Protocol)) = Inr s' \<and>
     route (l_fib s') [''a''] 5 = Some (NDNFibFaceMetric 5 0)"
proof -
  let ?m = "\<lparr>fw_ServiceType = ''ForwardingEntry'', fw_Action = ''selfreg'', fw_Name = ''/a'', fw_faceID = 5\<rparr>"
  let ?s = "fst (AddFace (NDNFace LocalFace 5) NDNL3Protocol)"
  have "GetFace (fw_faceID ?m) ?s = Some 5"
    by (simp add: GetFace_def AddFace_def NDNL3Protocol_def NDNFace_def)
  from registration [OF _ this] obtain s' where s': "management_message ?m ?s = Inr s'"
    and r: "\<forall>n k. route (l_fib s') n k = (if n = parse_name ''/a'' \<and> k = 5
        then Some (case route (l_fib ?s) n k of None \<Rightarrow> NDNFibFaceMetric 5 LOCAL_FACE_METRIC
                   | Some old \<Rightarrow> old\<lparr>fm_routingCost := LOCAL_FACE_METRIC\<rparr>)
        else route (l_fib ?s) n k)"
    by auto
  have "parse_name ''/a'' = [''a'']" by code_simp
  moreover have "route (l_fib ?s) [''a''] 5 = None"
    by (simp add: route_def fib_find_def AddFace_def NDNL3Protocol_def NDNFib_def)
  ultimately have "route (l_fib s') [''a''] 5 = Some (NDNFibFaceMetric 5 0)"
    using r by (simp add: LOCAL_FACE_METRIC_def)
  with s' show ?thesis by blast
qed

section \<open>The thread\<close>

text \<open>
  \<open>receive\<close> puts the bytes of a message into a buffer of \<open>BUFLEN\<close> bytes on the stack. Its size is not
  used: the text ends at the first zero, and the message that the clients send has none. What was in the
  buffer before, in practice the message before, is an argument.\<close>

type_synonym tree = "string \<Rightarrow> string option"

definition receive_message :: "string \<Rightarrow> string \<Rightarrow> string" where
  "receive_message message buffer = message @ drop (length message) buffer"

definition c_string :: "string \<Rightarrow> string option" where
  "c_string buffer =
     (if CHR 0x00 \<in> set buffer then Some (takeWhile (\<lambda>c. c \<noteq> CHR 0x00) buffer) else None)"

text \<open>One round. \<open>warn\<close> tells whether warnings are logged: only then the action of another service is read.\<close>

definition InternalThreadEntry ::
  "(string \<Rightarrow> tree option) \<Rightarrow> (string \<Rightarrow> u32 option) \<Rightarrow> bool \<Rightarrow> string \<Rightarrow> l3 \<Rightarrow> fault + l3" where
  "InternalThreadEntry read_json to_uint warn buffer s =
     (case c_string buffer of
        None \<Rightarrow> Inl UndefinedBehaviour
      | Some is \<Rightarrow>
          (case read_json is of
             None \<Rightarrow> Inl JsonParserError
           | Some container \<Rightarrow>
               (case container ''ServiceType'' of
                  None \<Rightarrow> Inl PtreeBadPath
                | Some service \<Rightarrow>
                    if service = ''ForwardingEntry'' then
                      (case (Option.bind (container ''faceID'') to_uint, container ''Name'', container ''Action'') of
                         (Some index, Some nm, Some action) \<Rightarrow>
                           prefixRegistration \<lparr>fw_ServiceType = service, fw_Action = action, fw_Name = nm, fw_faceID = index\<rparr> s
                       | _ \<Rightarrow> Inl PtreeBadPath)
                    else if warn \<and> container ''Action'' = None then Inl PtreeBadPath
                    else Inr s)))"

fun management_thread ::
  "(string \<Rightarrow> tree option) \<Rightarrow> (string \<Rightarrow> u32 option) \<Rightarrow> bool \<Rightarrow> string \<Rightarrow> string list \<Rightarrow> l3 \<Rightarrow> fault + l3" where
  "management_thread read_json to_uint warn buffer [] s = Inr s"
| "management_thread read_json to_uint warn buffer (message # queue) s =
     (let buffer = receive_message message buffer in
      bindr (InternalThreadEntry read_json to_uint warn buffer s)
        (management_thread read_json to_uint warn buffer queue))"

text \<open>The tree of a message whose reader gives back what the client wrote.\<close>

definition tree_of :: "(u32 \<Rightarrow> string) \<Rightarrow> forwarding_entry \<Rightarrow> tree" where
  "tree_of print fw = [''ServiceType'' \<mapsto> fw_ServiceType fw, ''Action'' \<mapsto> fw_Action fw,
     ''faceID'' \<mapsto> print (fw_faceID fw), ''Name'' \<mapsto> fw_Name fw]"

definition plain :: "string \<Rightarrow> bool" where
  "plain message \<longleftrightarrow> CHR 0x00 \<notin> set message \<and> length message < BUFLEN"

definition blank :: string where
  "blank = replicate BUFLEN CHR 0x00"

lemma c_string_prefix: "CHR 0x00 \<notin> set m \<Longrightarrow> c_string (m @ r) = map_option ((@) m) (c_string r)"
proof -
  assume "CHR 0x00 \<notin> set m"
  then have "takeWhile (\<lambda>c. c \<noteq> CHR 0x00) (m @ r) = m @ takeWhile (\<lambda>c. c \<noteq> CHR 0x00) r"
    by (intro takeWhile_append2) auto
  with \<open>CHR 0x00 \<notin> set m\<close> show ?thesis by (simp add: c_string_def)
qed

lemma c_string_zeros: "n > 0 \<Longrightarrow> c_string (replicate n CHR 0x00) = Some []"
  by (cases n) (simp_all add: c_string_def)

lemma c_string_filled: "plain m \<Longrightarrow> length m \<le> n \<Longrightarrow> n < BUFLEN \<Longrightarrow> c_string (m @ replicate (BUFLEN - n) CHR 0x00) = Some m"
  by (simp add: plain_def c_string_prefix c_string_zeros)

lemma entry_of_tree:
  assumes "read_json is = Some (tree_of print fw)" and "\<And>x. to_uint (print x) = Some x" and "c_string buffer = Some is"
  shows "InternalThreadEntry read_json to_uint warn buffer s = management_message fw s"
  using assms by (cases fw) (simp add: InternalThreadEntry_def tree_of_def management_message_def)

text \<open>
  As long as every message is at least as long as the one before, the thread does exactly what the
  messages ask for, one after the other.\<close>

theorem growing_messages:
  assumes "\<And>x. to_uint (print x) = Some x"
    and "\<And>fw. fw \<in> set fws \<Longrightarrow> plain (write_json fw) \<and> read_json (write_json fw) = Some (tree_of print fw)"
    and "sorted (map (\<lambda>fw. length (write_json fw)) fws)"
  shows "management_thread read_json to_uint warn blank (map write_json fws) s = foldr_res management_message fws s"
proof -
  have "management_thread read_json to_uint warn (m @ replicate (BUFLEN - length m) CHR 0x00) (map write_json fws) s =
      foldr_res management_message fws s" if "\<forall>fw \<in> set fws. length m \<le> length (write_json fw)" for m
    using assms(2,3) that
  proof (induction fws arbitrary: m s)
    case (Cons fw fws)
    let ?w = "write_json fw"
    have w: "plain ?w" "read_json ?w = Some (tree_of print fw)" "length m \<le> length ?w" using Cons.prems by simp_all
    have b: "receive_message ?w (m @ replicate (BUFLEN - length m) CHR 0x00) = ?w @ replicate (BUFLEN - length ?w) CHR 0x00"
      using w(3) by (simp add: receive_message_def)
    have "length ?w < BUFLEN" using w(1) by (simp add: plain_def)
    then have "c_string (?w @ replicate (BUFLEN - length ?w) CHR 0x00) = Some ?w" by (intro c_string_filled w(1)) simp_all
    then have "InternalThreadEntry read_json to_uint warn (?w @ replicate (BUFLEN - length ?w) CHR 0x00) s = management_message fw s"
      using entry_of_tree [of read_json ?w print fw to_uint] w(2) assms(1) by blast
    then show ?case using Cons.IH [of ?w] Cons.prems by (auto simp: b intro!: bindr_cong)
  qed simp
  from this [of "[]"] show ?thesis by (simp add: blank_def)
qed

text \<open>
  C30: A message that is shorter than the one before is read with the end of that message behind it. When the
  reader refuses such a text, as a reader of JSON does, its exception leaves the thread and ends the
  daemon: a withdrawal, whose message is shorter than that of the registration, is enough.\<close>

theorem shorter_message:
  assumes "plain m1" and "plain m2" and "length m2 < length m1"
    and "read_json m1 = Some (tree_of print fw)" and "\<And>x. to_uint (print x) = Some x"
    and "management_message fw s = Inr s1" and "read_json (m2 @ drop (length m2) m1) = None"
  shows "management_thread read_json to_uint warn blank [m1] s = Inr s1 \<and>
    management_thread read_json to_uint warn blank [m1, m2] s = Inl JsonParserError"
proof -
  let ?z = "replicate (BUFLEN - length m1) CHR 0x00"
  have l: "length m1 < BUFLEN" using assms(1) by (simp add: plain_def)
  have b1: "receive_message m1 blank = m1 @ ?z" by (simp add: receive_message_def blank_def)
  have b2: "receive_message m2 (m1 @ ?z) = (m2 @ drop (length m2) m1) @ ?z" using assms(3) by (simp add: receive_message_def)
  have "c_string (m1 @ ?z) = Some m1" by (intro c_string_filled assms(1) l) simp
  then have 1: "InternalThreadEntry read_json to_uint warn (m1 @ ?z) s = Inr s1"
    using entry_of_tree [of read_json m1 print fw to_uint] assms(4-6) by simp
  have "CHR 0x00 \<notin> set (m2 @ drop (length m2) m1)" using assms(1,2) by (auto simp: plain_def dest: in_set_dropD)
  from c_string_prefix [OF this, of ?z] have "c_string ((m2 @ drop (length m2) m1) @ ?z) = Some (m2 @ drop (length m2) m1)"
    using l by (simp only: c_string_zeros diff_gt_0_iff_gt zero_less_diff option.map append_Nil2)
  then have 2: "InternalThreadEntry read_json to_uint warn ((m2 @ drop (length m2) m1) @ ?z) s1 = Inl JsonParserError"
    using assms(7) by (simp add: InternalThreadEntry_def)
  show ?thesis using 1 2 by (simp only: management_thread.simps Let_def b1 b2 bindr_simps)
qed

text \<open>A client and a reader for one face, and the messages of a registration and of its withdrawal.\<close>

definition selfreg_a :: forwarding_entry where
  "selfreg_a = \<lparr>fw_ServiceType = ''ForwardingEntry'', fw_Action = ''selfreg'', fw_Name = ''/a'', fw_faceID = 5\<rparr>"

definition digits :: "u32 \<Rightarrow> string" where
  "digits x = replicate (unat x) CHR ''1''"

definition digits_value :: "string \<Rightarrow> u32 option" where
  "digits_value s = Some (word_of_nat (length s))"

lemma digits_value: "digits_value (digits x) = Some x"
  by (simp add: digits_value_def digits_def)

definition json :: "forwarding_entry \<Rightarrow> string" where
  "json fw = ''{'' @ fw_Action fw @ '','' @ fw_Name fw @ ''}''"

definition read_json_a :: "string \<Rightarrow> tree option" where
  "read_json_a text = (if text = json selfreg_a then Some (tree_of digits selfreg_a) else None)"

lemma plain_a: "plain (json selfreg_a)" "plain ''{unreg,/a}''" "length ''{unreg,/a}'' < length (json selfreg_a)"
  by (simp_all add: plain_def json_def selfreg_a_def BUFLEN_def)

theorem growing_messages_witness:
  "management_thread read_json_a digits_value True blank (map json [selfreg_a, selfreg_a]) NDNL3Protocol =
   foldr_res management_message [selfreg_a, selfreg_a] NDNL3Protocol"
  by (rule growing_messages [where print = digits]) (auto simp: digits_value plain_a read_json_a_def)

theorem shorter_message_witness:
  "management_thread read_json_a digits_value True blank [json selfreg_a, ''{unreg,/a}'']
     (fst (AddFace (NDNFace LocalFace 5) NDNL3Protocol)) = Inl JsonParserError"
proof -
  let ?s = "fst (AddFace (NDNFace LocalFace 5) NDNL3Protocol)"
  have "GetFace (fw_faceID selfreg_a) ?s = Some 5"
    by (simp add: GetFace_def AddFace_def NDNL3Protocol_def NDNFace_def selfreg_a_def)
  then have "management_message selfreg_a ?s =
      Inr (?s\<lparr>l_fib := fib_Add (parse_name ''/a'') 5 LOCAL_FACE_METRIC (l_fib ?s)\<rparr>)"
    by (simp add: management_message_def prefixRegistration_def selfreg_a_def compares_null_def face_pointer_def)
  from shorter_message [OF plain_a _ digits_value this, of read_json_a True] show ?thesis
    by (simp add: read_json_a_def json_def selfreg_a_def)
qed

end
