(* ===== verification/Daemon.thy ===== *)
theory Daemon
  imports Mgmt
begin

text \<open>
  The daemon as a whole: its invariant (no dangling reference from the PIT to the FIB, every face
  that a table names exists), the steps it takes, and what its handlers do to a packet.
\<close>

section \<open>The invariant\<close>

definition addrs :: "l3 \<Rightarrow> nat set" where
  "addrs s = fe_addr ` set (f_entries (l_fib s))"

definition fds :: "l3 \<Rightarrow> face_id set" where
  "fds s = fc_fd ` set (l_heap s)"

definition same_heap :: "l3 \<Rightarrow> l3 \<Rightarrow> bool" where
  "same_heap s s' \<longleftrightarrow> map (\<lambda>f. (fc_fd f, fc_kind f)) (l_heap s') = map (\<lambda>f. (fc_fd f, fc_kind f)) (l_heap s)"

definition no_adhoc :: "l3 \<Rightarrow> bool" where
  "no_adhoc s \<longleftrightarrow> (\<forall>f \<in> set (l_heap s). fc_kind f \<noteq> AdhocNetDeviceFace)"

definition sendable :: "l3 \<Rightarrow> packet \<Rightarrow> bool" where
  "sendable s p \<longleftrightarrow> no_adhoc s \<or>
     pk_llmetadata p \<noteq> Some FreedMetadata \<and> pk_linked p \<and> length (m_data (pk_buffer p)) \<le> MAXLLSIZE"

text \<open>
  A packet as the faces deliver it; when there is an ad-hoc face, one without IP metadata and short
  enough for a slot of its ring.
\<close>

definition packet_ok :: "l3 \<Rightarrow> packet \<Rightarrow> bool" where
  "packet_ok s p \<longleftrightarrow> pk_llmetadata p \<noteq> Some FreedMetadata \<and>
     (no_adhoc s \<or> (\<forall>ip port. pk_llmetadata p \<noteq> Some (OverIP ip port)) \<and> pk_linked p \<and>
        length (m_data (pk_buffer p)) \<le> MAXLLSIZE)"

text \<open>
  A packet that the daemon made itself is not linked: on an ad-hoc face it is a null dereference,
  which the set \<open>E\<close> of the faults that may occur has to allow.
\<close>

definition sends :: "fault set \<Rightarrow> l3 \<Rightarrow> packet \<Rightarrow> bool" where
  "sends E s p \<longleftrightarrow> sendable s p \<or> NullDereference \<in> E \<and> \<not> pk_linked p"

lemma sends_sendable [simp]: "sendable s p \<Longrightarrow> sends E s p"
  by (simp add: sends_def)

definition entry_faces :: "pit_entry \<Rightarrow> face_id set" where
  "entry_faces e = in_face ` set (pe_incoming e) \<union> out_face ` set (pe_outgoing e)"

definition entry_ok :: "l3 \<Rightarrow> pit_entry \<Rightarrow> bool" where
  "entry_ok s e \<longleftrightarrow> (\<forall>a. pe_fibEntry e = Some a \<longrightarrow> a \<in> addrs s) \<and> entry_faces e \<subseteq> fds s"

definition l3_inv :: "l3 \<Rightarrow> bool" where
  "l3_inv s \<longleftrightarrow> \<not> l_nacksEnabled s \<and> pit_inv (l_pit s) \<and> fib_inv (l_fib s) \<and> cs_inv (l_contentStore s) \<and>
     set (l_faces s) \<subseteq> fds s \<and> (\<forall>fe \<in> set (f_entries (l_fib s)). fm_face ` set (fe_faces fe) \<subseteq> fds s) \<and>
     (\<forall>n e. pit_find (l_pit s) n = Some e \<longrightarrow> entry_ok s e) \<and>
     (\<forall>n e. trie_lookup (pt_trie (l_contentStore s)) n = Some e \<longrightarrow> sendable s (ce_packet e))"

lemma same_heap_refl [simp]: "same_heap s s"
  by (simp add: same_heap_def)

lemma same_heap_trans: "same_heap a b \<Longrightarrow> same_heap b c \<Longrightarrow> same_heap a c"
  by (simp add: same_heap_def)

lemma same_heapD:
  assumes "same_heap s s'"
  shows "fds s' = fds s" "no_adhoc s' = no_adhoc s" "sendable s' p = sendable s p" "packet_ok s' p = packet_ok s p"
proof -
  let ?g = "\<lambda>f. (fc_fd f, fc_kind f)"
  have eq: "map ?g (l_heap s') = map ?g (l_heap s)" using assms by (simp add: same_heap_def)
  from arg_cong [OF eq, of "map fst"] have fd: "map fc_fd (l_heap s') = map fc_fd (l_heap s)"
    by (simp add: comp_def)
  from arg_cong [OF eq, of "map snd"] have kd: "map fc_kind (l_heap s') = map fc_kind (l_heap s)"
    by (simp add: comp_def)
  show "fds s' = fds s" using arg_cong [OF fd, of set] by (simp add: fds_def)
  have "fc_kind ` set (l_heap s') = fc_kind ` set (l_heap s)" using arg_cong [OF kd, of set] by simp
  moreover have "no_adhoc t \<longleftrightarrow> AdhocNetDeviceFace \<notin> fc_kind ` set (l_heap t)" for t
    unfolding no_adhoc_def image_iff by metis
  ultimately show "no_adhoc s' = no_adhoc s" by simp
  then show "sendable s' p = sendable s p" "packet_ok s' p = packet_ok s p"
    by (simp_all add: sendable_def packet_ok_def)
qed

text \<open>Changes that leave the heap alone.\<close>

lemma heap_updates [simp]:
  "fds (s\<lparr>l_pit := t\<rparr>) = fds s" "fds (s\<lparr>l_fib := b\<rparr>) = fds s" "fds (s\<lparr>l_contentStore := c\<rparr>) = fds s"
  "fds (s\<lparr>l_sent := x\<rparr>) = fds s" "no_adhoc (s\<lparr>l_pit := t\<rparr>) = no_adhoc s" "no_adhoc (s\<lparr>l_fib := b\<rparr>) = no_adhoc s"
  "no_adhoc (s\<lparr>l_contentStore := c\<rparr>) = no_adhoc s" "no_adhoc (s\<lparr>l_sent := x\<rparr>) = no_adhoc s"
  "same_heap s (s\<lparr>l_pit := t\<rparr>)" "same_heap s (s\<lparr>l_fib := b\<rparr>)" "same_heap s (s\<lparr>l_contentStore := c\<rparr>)"
  "same_heap s (s\<lparr>l_sent := x\<rparr>)" "same_heap s (mod_pit n f s)"
  "addrs (s\<lparr>l_pit := t\<rparr>) = addrs s" "addrs (s\<lparr>l_contentStore := c\<rparr>) = addrs s" "addrs (s\<lparr>l_sent := x\<rparr>) = addrs s"
  by (simp_all add: fds_def no_adhoc_def same_heap_def addrs_def mod_pit_def)

section \<open>Results that satisfy a predicate or end in an expected fault\<close>

definition post :: "fault set \<Rightarrow> ('a \<Rightarrow> bool) \<Rightarrow> fault + 'a \<Rightarrow> bool" where
  "post E P r \<longleftrightarrow> (case r of Inl e \<Rightarrow> e \<in> E | Inr a \<Rightarrow> P a)"

lemma post_Inr [simp]: "post E P (Inr a) \<longleftrightarrow> P a"
  by (simp add: post_def)

lemma post_Inl [simp]: "post E P (Inl e) \<longleftrightarrow> e \<in> E"
  by (simp add: post_def)

lemma post_bindr:
  "post E P r \<Longrightarrow> (\<And>a. r = Inr a \<Longrightarrow> P a \<Longrightarrow> post E Q (f a)) \<Longrightarrow> post E Q (bindr r f)"
  by (cases r) auto

lemma post_mono: "post E P r \<Longrightarrow> E \<subseteq> E' \<Longrightarrow> (\<And>a. P a \<Longrightarrow> Q a) \<Longrightarrow> post E' Q r"
  by (cases r) auto

section \<open>What the building blocks preserve\<close>

text \<open>The context of a handler: the invariant, the faces it started with, and its PIT entry.\<close>

definition ctx :: "name \<Rightarrow> l3 \<Rightarrow> l3 \<Rightarrow> bool" where
  "ctx n s0 s \<longleftrightarrow> l3_inv s \<and> same_heap s0 s \<and> pit_find (l_pit s) n \<noteq> None"

lemma l3_inv_mod_pit:
  assumes "l3_inv s" and "\<And>e. pe_prefix (f e) = pe_prefix e" and "\<And>e. pe_inv e \<Longrightarrow> pe_inv (f e)"
    and "\<And>e. pe_fibEntry (f e) = pe_fibEntry e" and "\<And>e. entry_faces (f e) \<subseteq> entry_faces e \<union> fds s"
  shows "l3_inv (mod_pit n f s)"
proof -
  have "pit_inv (pit_modify n f (l_pit s))"
    using assms(1) by (intro pit_modify_inv assms) (simp add: l3_inv_def)
  moreover have "entry_ok (mod_pit n f s) e" if "pit_find (pit_modify n f (l_pit s)) m = Some e" for m e
    using that assms(1,4) assms(5)
    by (auto simp: pit_find_modify [OF assms(2)] l3_inv_def entry_ok_def mod_pit_def split: if_splits)
       (blast+)
  ultimately show ?thesis
    using assms(1) by (auto simp: l3_inv_def mod_pit_def sendable_def)
qed

lemma ctx_mod_pit:
  assumes "ctx n s0 s" and "\<And>e. pe_prefix (f e) = pe_prefix e" and "\<And>e. pe_inv e \<Longrightarrow> pe_inv (f e)"
    and "\<And>e. pe_fibEntry (f e) = pe_fibEntry e" and "\<And>e. entry_faces (f e) \<subseteq> entry_faces e \<union> fds s"
  shows "ctx n s0 (mod_pit n f s)"
proof -
  have "l3_inv (mod_pit n f s)" by (rule l3_inv_mod_pit) (use assms in \<open>auto simp: ctx_def\<close>)
  then show ?thesis
    using assms(1) same_heap_trans [of s0 s "mod_pit n f s"] pit_find_modify [OF assms(2)]
    by (auto simp: ctx_def mod_pit_def)
qed

lemma waiting_faces: "out_face ` set (modify_key out_face face (\<lambda>o1. o1\<lparr>out_waitingInVain := b\<rparr>) l) = out_face ` set l"
proof -
  have "map out_face (modify_key out_face face (\<lambda>o1. o1\<lparr>out_waitingInVain := b\<rparr>) l) = map out_face l" by simp
  then show ?thesis by (metis set_map)
qed

lemma entry_faces_ops:
  "entry_faces (UpdateLifetime now d e) = entry_faces e" "entry_faces (SetExpireTime t e) = entry_faces e"
  "entry_faces (AddSeenNonce nonce e) = entry_faces e" "entry_faces (setSourceMetadata l e) = entry_faces e"
  "entry_faces (SetWaitingInVain face e) = entry_faces e"
  "entry_faces (AddIncoming now face e) \<subseteq> insert face (entry_faces e)"
  "entry_faces (AddOutgoing now face e) \<subseteq> insert face (entry_faces e)"
  "entry_faces (RemoveIncoming face e) \<subseteq> entry_faces e" "entry_faces (ClearIncoming e) \<subseteq> entry_faces e"
  "entry_faces (ClearOutgoing e) \<subseteq> entry_faces e" "entry_faces (RemoveAllReferencesToFace face e) \<subseteq> entry_faces e"
proof -
  show "entry_faces (SetWaitingInVain face e) = entry_faces e"
    by (simp add: entry_faces_def SetWaitingInVain_def waiting_faces)
qed (auto simp: entry_faces_def pe_ops insert_unique_set set_erase_key NDNPitEntryIncomingFace_def
      NDNPitEntryOutgoingFace_def modify_key_def UpdateOnRetransmit_def
      split: option.splits if_splits)

text \<open>Each change to an entry that the handlers make keeps the context.\<close>

lemma ctx_ops:
  assumes "ctx n s0 s"
  shows "ctx n s0 (mod_pit n (UpdateLifetime now d) s)" "ctx n s0 (mod_pit n (SetExpireTime t) s)"
    "ctx n s0 (mod_pit n (setSourceMetadata l) s)" "ctx n s0 (mod_pit n (SetWaitingInVain face) s)"
    "ctx n s0 (mod_pit n (RemoveIncoming face) s)" "ctx n s0 (mod_pit n ClearIncoming s)"
    "ctx n s0 (mod_pit n ClearOutgoing s)"
    "face \<in> fds s0 \<Longrightarrow> ctx n s0 (mod_pit n (AddIncoming now face) s)"
    "face \<in> fds s0 \<Longrightarrow> ctx n s0 (mod_pit n (AddOutgoing now face) s)"
proof -
  have fds: "fds s = fds s0" using assms same_heapD(1) by (auto simp: ctx_def)
  note rule = ctx_mod_pit [OF assms]
  show "ctx n s0 (mod_pit n (UpdateLifetime now d) s)" "ctx n s0 (mod_pit n (SetExpireTime t) s)"
    "ctx n s0 (mod_pit n (setSourceMetadata l) s)" "ctx n s0 (mod_pit n (SetWaitingInVain face) s)"
    by (rule rule; simp add: pe_inv_ops entry_faces_ops)+
  show "ctx n s0 (mod_pit n (RemoveIncoming face) s)" "ctx n s0 (mod_pit n ClearIncoming s)"
    "ctx n s0 (mod_pit n ClearOutgoing s)"
    using entry_faces_ops(8-10) by (intro rule; force simp: pe_inv_ops)+
  show "ctx n s0 (mod_pit n (AddIncoming now face) s)" if "face \<in> fds s0"
    using that entry_faces_ops(6) fds by (intro rule; force simp: pe_inv_ops)
  show "ctx n s0 (mod_pit n (AddOutgoing now face) s)" if "face \<in> fds s0"
    using that entry_faces_ops(7) fds by (intro rule; force simp: pe_inv_ops)
qed

lemma post_entry_at: "ctx n s0 s \<Longrightarrow> post E (\<lambda>e. pit_find (l_pit s) n = Some e \<and> entry_ok s e) (entry_at n s)"
  by (auto simp: ctx_def entry_at_def l3_inv_def)

lemma post_fib_at:
  assumes "a \<in> addrs s"
  shows "post E (\<lambda>fe. fe \<in> set (f_entries (l_fib s)) \<and> fe_addr fe = a) (fib_at a s)"
proof (cases "find_key fe_addr a (f_entries (l_fib s))")
  case None
  then show ?thesis using assms by (auto simp: find_key_None addrs_def)
next
  case (Some fe)
  then show ?thesis using find_key_SomeD [OF Some] by (simp add: fib_at_def)
qed

lemma post_face_at: "fd \<in> fds s \<Longrightarrow> post E (\<lambda>f. f \<in> set (l_heap s) \<and> fc_fd f = fd) (face_at fd s)"
proof (cases "find_key fc_fd fd (l_heap s)")
  case None
  then show "fd \<in> fds s \<Longrightarrow> ?thesis" by (auto simp: find_key_None fds_def)
next
  case (Some f)
  then show ?thesis using find_key_SomeD [OF Some] by (simp add: face_at_def)
qed

lemma l3_inv_sent: "l3_inv (s\<lparr>l_sent := x\<rparr>) \<longleftrightarrow> l3_inv s"
  by (simp add: l3_inv_def entry_ok_def sendable_def)

lemma post_face_Send:
  assumes "fc_kind f \<noteq> AdhocNetDeviceFace \<or> NullDereference \<in> E \<and> \<not> pk_linked p \<or>
    pk_llmetadata p \<noteq> Some FreedMetadata \<and> pk_linked p \<and> length (m_data (pk_buffer p)) \<le> MAXLLSIZE"
  shows "post E (\<lambda>_. True) (face_Send os f p metadata)"
  using assms by (auto simp: face_Send_def adhoc_Send_def post_def split: face_kind.splits)

lemma post_send_on:
  assumes "fd \<in> fds s" and "sends E s p"
  shows "post E (\<lambda>s'. \<exists>x. s' = s\<lparr>l_sent := l_sent s @ x\<rparr>) (send_on os fd p metadata s)"
  unfolding send_on_def
proof (rule post_bindr [OF post_face_at [OF assms(1)]])
  fix f assume "f \<in> set (l_heap s) \<and> fc_fd f = fd"
  then have "fc_kind f \<noteq> AdhocNetDeviceFace \<or> NullDereference \<in> E \<and> \<not> pk_linked p \<or>
      pk_llmetadata p \<noteq> Some FreedMetadata \<and> pk_linked p \<and> length (m_data (pk_buffer p)) \<le> MAXLLSIZE"
    using assms(2) by (auto simp: sends_def sendable_def no_adhoc_def)
  then show "post E (\<lambda>s'. \<exists>x. s' = s\<lparr>l_sent := l_sent s @ x\<rparr>)
      (bindr (face_Send os f p metadata) (\<lambda>(out, ok). Inr (s\<lparr>l_sent := l_sent s @ out\<rparr>)))"
    by (intro post_bindr [OF post_face_Send]) auto
qed

lemma ctx_send_on:
  assumes "ctx n s0 s" and "fd \<in> fds s0" and "sends E s0 p"
  shows "post E (ctx n s0) (send_on os fd p metadata s)"
proof -
  have h: "same_heap s0 s" using assms(1) by (simp add: ctx_def)
  have "post E (\<lambda>s'. \<exists>x. s' = s\<lparr>l_sent := l_sent s @ x\<rparr>) (send_on os fd p metadata s)"
    by (rule post_send_on) (use assms same_heapD [OF h] in \<open>simp_all add: sends_def\<close>)
  then show ?thesis
    by (rule post_mono) (use assms(1) in \<open>auto simp: ctx_def l3_inv_sent intro: same_heap_trans\<close>)
qed

lemma ctx_below_limit:
  assumes "ctx n s0 s" and "fd \<in> fds s0"
  shows "post E (\<lambda>(s', ok). ctx n s0 s') (below_limit now fd s)"
proof -
  let ?s' = "s\<lparr>l_heap := modify_key fc_fd fd (\<lambda>f. fst (IsBelowLimit now f)) (l_heap s)\<rparr>"
  have h: "same_heap s ?s'" by (simp add: same_heap_def modify_key_def)
  have inv: "l3_inv ?s'"
    using assms(1) same_heapD [OF h] by (auto simp: ctx_def l3_inv_def entry_ok_def addrs_def)
  have "same_heap s0 s" using assms(1) by (simp add: ctx_def)
  then have "ctx n s0 ?s'" using assms(1) inv same_heap_trans [OF _ h] by (simp add: ctx_def)
  moreover have "fd \<in> fds s" using assms same_heapD by (auto simp: ctx_def)
  ultimately show ?thesis
    unfolding below_limit_def by (intro post_bindr [OF post_face_at]) auto
qed

section \<open>Forwarding keeps the context\<close>

lemma ctx_green_loop:
  "ctx n s0 s \<Longrightarrow> fm_face ` set ms \<subseteq> fds s0 \<Longrightarrow> sends E s0 p \<Longrightarrow>
     post E (\<lambda>(s', ok). ctx n s0 s') (green_loop os now n p ms s)"
proof (induction ms arbitrary: s)
  case (Cons m ms)
  have IH: "post E (\<lambda>(s', ok). ctx n s0 s') (green_loop os now n p ms s')" if "ctx n s0 s'" for s'
    using Cons that by simp
  have send: "post E (\<lambda>(s', ok). ctx n s0 s')
      (bindr (send_on os (fm_face m) p None (mod_pit n (AddOutgoing now (fm_face m)) s')) (\<lambda>s. Inr (s, True)))"
    if "ctx n s0 s'" for s'
    using Cons.prems that by (intro post_bindr [OF ctx_send_on [OF ctx_ops(9)]]) auto
  show ?case
    using Cons.prems(1,2) IH send
    by (auto intro!: post_bindr [OF post_entry_at] post_bindr [OF ctx_below_limit])
qed simp

lemma ctx_flood_loop:
  "ctx n s0 s \<Longrightarrow> set faces \<subseteq> fds s0 \<Longrightarrow> sends E s0 p \<Longrightarrow>
     post E (\<lambda>(s', c). ctx n s0 s') (flood_loop os now n p faces k s)"
proof (induction faces arbitrary: s k)
  case (Cons fd faces)
  then show ?case
    by (auto intro!: post_bindr [OF ctx_below_limit] post_bindr [OF ctx_send_on [OF ctx_ops(9)]])
qed simp

lemma ctx_PropagateInterest:
  assumes "ctx n s0 s" and "sends E s0 p"
  shows "post E (\<lambda>(s', ok). ctx n s0 s') (PropagateInterest os now n p s)"
proof -
  have faces: "fm_face ` set (fe_faces fe) \<subseteq> fds s0" if "ctx n s0 s'" "fe \<in> set (f_entries (l_fib s'))" for s' fe
    using that same_heapD(1) [of s0 s'] by (auto simp: ctx_def l3_inv_def)
  have green: "post E (\<lambda>(s', ok). ctx n s0 s') (PropagateInterestViaGreen os now n p s)"
    unfolding PropagateInterestViaGreen_def
    using assms faces
    by (intro post_bindr [OF post_entry_at [OF assms(1)]])
      (auto simp: entry_ok_def split: option.splits intro!: post_bindr [OF post_fib_at] ctx_green_loop)
  have eligible: "post E (\<lambda>fs. set fs \<subseteq> fds s0) (flood_faces n s')" if c: "ctx n s0 s'" for s'
  proof -
    have "set (l_faces s') \<subseteq> fds s0"
      using c same_heapD(1) [of s0 s'] by (auto simp: ctx_def l3_inv_def)
    moreover have "set (map fm_face (filter P (fe_faces fe))) \<subseteq> fds s0"
      if "fe \<in> set (f_entries (l_fib s'))" for fe P
      using faces [OF c that] by auto
    ultimately show ?thesis
      unfolding flood_faces_def
      by (intro post_bindr [OF post_entry_at [OF c]])
        (auto simp: entry_ok_def simp del: set_map set_filter split: option.splits intro!: post_bindr [OF post_fib_at])
  qed
  show ?thesis
    unfolding PropagateInterest_def
    using assms eligible
    by (intro post_bindr [OF green])
      (auto intro!: post_bindr [OF eligible] post_bindr [OF ctx_flood_loop])
qed

section \<open>The handlers keep the invariant\<close>

lemma addrs_lpm: "fib_LongestPrefixMatch n (l_fib s) = Some fe \<Longrightarrow> fe_addr fe \<in> addrs s"
  using fibs.lpm_sound(1) [of "l_fib s" n fe] by (simp add: fib_LongestPrefixMatch_def addrs_def)

lemma ctx_Lookup:
  assumes "l3_inv s" and "ih_name h \<noteq> None"
  shows "post E (\<lambda>(t, n, isNew, isDup, ok). ctx n s (s\<lparr>l_pit := t\<rparr>) \<and> ok) (pit_LookupInterest now (l_fib s) h (l_pit s))"
proof -
  have "pit_LookupInterest now (l_fib s) h (l_pit s) \<noteq> Inl e" for e
    using assms(2) by (auto simp: pit_LookupInterest_def ih_GetName_def Let_def split: option.splits)
  then obtain r where "pit_LookupInterest now (l_fib s) h (l_pit s) = Inr r"
    by (cases "pit_LookupInterest now (l_fib s) h (l_pit s)") auto
  then obtain t n isNew isDup ok where
    l: "pit_LookupInterest now (l_fib s) h (l_pit s) = Inr (t, n, isNew, isDup, ok)"
    by (cases r) auto
  have pit: "pit_inv (l_pit s)" using assms(1) by (simp add: l3_inv_def)
  from LookupInterest_find [OF pit l] obtain e0 where
    find: "pit_find t = (pit_find (l_pit s))(n \<mapsto> e0)" "ok"
    and new: "isNew \<Longrightarrow> \<exists>lifetime. e0 = AddSeenNonce (ih_nonce h)
      (NDNPitEntry now n lifetime (map_option fe_addr (fib_LongestPrefixMatch n (l_fib s))))"
    and old: "\<not> isNew \<Longrightarrow> \<exists>e. pit_find (l_pit s) n = Some e \<and> (e0 = e \<or> e0 = AddSeenNonce (ih_nonce h) e)"
    by metis
  have "entry_ok s e0"
  proof (cases isNew)
    case True
    with new obtain lt where e0: "e0 = AddSeenNonce (ih_nonce h)
      (NDNPitEntry now n lt (map_option fe_addr (fib_LongestPrefixMatch n (l_fib s))))" by blast
    then have "pe_fibEntry e0 = map_option fe_addr (fib_LongestPrefixMatch n (l_fib s))" by simp
    moreover have "entry_faces e0 = {}"
      unfolding e0 entry_faces_ops by (simp add: entry_faces_def NDNPitEntry_def)
    ultimately show ?thesis using addrs_lpm by (auto simp: entry_ok_def)
  next
    case False
    with old obtain e where e: "pit_find (l_pit s) n = Some e" "e0 = e \<or> e0 = AddSeenNonce (ih_nonce h) e"
      by blast
    have "entry_ok s e" using assms(1) e(1) by (simp add: l3_inv_def)
    with e(2) show ?thesis by (auto simp: entry_ok_def entry_faces_ops)
  qed
  then have "l3_inv (s\<lparr>l_pit := t\<rparr>)"
    using assms(1) find LookupInterest_inv [OF pit l]
    by (auto simp: l3_inv_def entry_ok_def sendable_def split: if_splits)
  then show ?thesis using l find by (simp add: ctx_def)
qed

lemma ctx_record_source:
  assumes "ctx n s0 s" and "packet_ok s0 p"
  shows "post E (\<lambda>(s', p'). ctx n s0 s' \<and> sendable s0 p') (record_source isDup n p s)"
proof (cases "pk_llmetadata p")
  case None
  then show ?thesis using assms by (auto simp: record_source_def sendable_def packet_ok_def)
next
  case (Some md)
  show ?thesis
  proof (cases md)
    case (OverIP ip port)
    with Some assms(2) have "no_adhoc s0" by (auto simp: packet_ok_def)
    with assms Some OverIP show ?thesis
      by (auto simp: record_source_def sendable_def Let_def split: option.splits
          intro!: post_bindr [OF post_entry_at] ctx_ops)
  qed (use assms Some in \<open>auto simp: record_source_def sendable_def packet_ok_def\<close>)
qed

lemma ctx_update:
  assumes "ctx n s0 s" and "face \<in> fds s0"
  shows "post E (\<lambda>(s', r). ctx n s0 s') (updatePITForInterest now n face h s)"
  unfolding updatePITForInterest_def
  using assms by (auto simp: Let_def intro!: post_bindr [OF post_entry_at] ctx_ops)

lemma inv_after: "ctx n s0 s \<Longrightarrow> l3_inv s \<and> same_heap s0 s"
  by (simp add: ctx_def)

lemma inv_pit_Remove: "l3_inv s \<Longrightarrow> l3_inv (s\<lparr>l_pit := pit_Remove n (l_pit s)\<rparr>)"
  by (auto simp: l3_inv_def pit_Remove_inv pit_find_Remove entry_ok_def sendable_def)

lemma ctx_send_all:
  assumes "ctx n s0 s" and "set (map g xs) \<subseteq> fds s0" and "sendable s0 p"
  shows "post E (ctx n s0) (foldr_res (\<lambda>i s. send_on os (g i) p md s) xs s)"
  using assms
proof (induction xs arbitrary: s)
  case (Cons i xs)
  show ?case
    unfolding foldr_res.simps
  proof (rule post_bindr [OF ctx_send_on])
    show "post E (ctx n s0) (foldr_res (\<lambda>i s. send_on os (g i) p md s) xs s')" if "ctx n s0 s'" for s'
      using Cons.IH [OF that] Cons.prems by auto
  qed (use Cons.prems in auto)
qed simp

lemma post_Satisfy:
  assumes "ctx n s0 s" and "sendable s0 p"
  shows "post E (\<lambda>s'. l3_inv s' \<and> same_heap s0 s') (SatisfyPendingInterests os n p s)"
  unfolding SatisfyPendingInterests_def
proof (rule post_bindr [OF post_entry_at [OF assms(1)]])
  fix e assume e: "pit_find (l_pit s) n = Some e \<and> entry_ok s e"
  then have "set (map in_face (pe_incoming e)) \<subseteq> fds s0"
    using assms(1) same_heapD(1) [of s0 s] by (auto simp: entry_ok_def ctx_def entry_faces_def)
  from ctx_send_all [OF assms(1) this assms(2)]
  show "post E (\<lambda>s'. l3_inv s' \<and> same_heap s0 s')
     (bindr (foldr_res (\<lambda>incoming s. send_on os (in_face incoming) p (pe_sourceMetadata e) s) (pe_incoming e) s)
       (\<lambda>s. Inr (s\<lparr>l_pit := pit_Remove n (l_pit s)\<rparr>)))"
    by (rule post_bindr) (auto simp: ctx_def inv_pit_Remove intro: same_heap_trans)
qed

lemma nack_metadata: "AddInterestHeader h Packet_new = Inr p \<Longrightarrow> \<not> pk_linked p"
  by (auto simp: AddInterestHeader_def Packet_new_def bindr_eq_Inr)

lemma post_AddInterestHeader:
  "ih_name h \<noteq> None \<Longrightarrow> post {AssertionFailed} (\<lambda>p. \<not> pk_linked p) (AddInterestHeader h Packet_new)"
  using nack_metadata [of h]
  by (cases "AddInterestHeader h Packet_new")
    (auto simp: AddInterestHeader_def SerializeInterest_def ih_GetName_def bindr_eq_Inl buffer_write_def
      split: if_splits option.splits)

lemma SetNack_name [simp]: "ih_name (ih_SetNack k h) = ih_name h"
  by (simp add: ih_SetNack_def)

lemma post_GiveUp:
  assumes "ctx n s0 s"
  shows "post E (\<lambda>s'. l3_inv s' \<and> same_heap s0 s') (GiveUpInterest os now n h s)"
proof -
  have off: "\<not> l_nacksEnabled s" using assms by (simp add: ctx_def l3_inv_def)
  show ?thesis
    using inv_after [OF ctx_ops(2) [OF ctx_ops(7) [OF ctx_ops(6) [OF assms]]]]
    by (simp add: GiveUpInterest_def off Let_def mod_pit_def)
qed

lemma ctx_cs_Lookup:
  assumes "ctx n s0 s" and "cs_Lookup h (l_contentStore s) = Inr (c, r)"
  shows "ctx n s0 (s\<lparr>l_contentStore := c\<rparr>)" and "r = Some (hdr, p) \<Longrightarrow> sendable s0 p"
proof -
  have cs: "cs_inv (l_contentStore s)" using assms(1) by (simp add: ctx_def l3_inv_def)
  have inv: "cs_inv c" "pt_trie c = pt_trie (l_contentStore s)" using cs_Lookup_inv [OF cs assms(2)] by auto
  then show "ctx n s0 (s\<lparr>l_contentStore := c\<rparr>)"
    using assms(1) by (auto simp: ctx_def l3_inv_def entry_ok_def sendable_def intro: same_heap_trans)
  show "sendable s0 p" if r: "r = Some (hdr, p)"
  proof -
    obtain q e where "trie_lookup (pt_trie (l_contentStore s)) q = Some e" "p = ce_packet e"
      using cs_Lookup_stored [of h "l_contentStore s" c hdr p] assms(2) r inv(2) by auto
    then have "sendable s p" using assms(1) by (auto simp: ctx_def l3_inv_def)
    then show ?thesis using assms(1) same_heapD(3) by (auto simp: ctx_def)
  qed
qed

lemma post_checkCS:
  assumes "ctx n s0 s" and "ih_name h = Some m" and "m = [] \<Longrightarrow> NullDereference \<in> E"
  shows "post E (\<lambda>(s', found). l3_inv s' \<and> same_heap s0 s' \<and> (\<not> found \<longrightarrow> ctx n s0 s')) (checkContentStoreForInterest os h n s)"
proof (cases "cs_Lookup h (l_contentStore s)")
  case (Inl e)
  have cs: "cs_inv (l_contentStore s)" using assms(1) by (simp add: ctx_def l3_inv_def)
  have "e = NullDereference" by (rule cs_Lookup_fault [OF assms(2) Inl])
  moreover have "m = []"
  proof (rule ccontr)
    assume "m \<noteq> []"
    from cs_Lookup_total [OF cs assms(2) this] Inl show False by auto
  qed
  ultimately show ?thesis using Inl assms(3) by (simp add: checkContentStoreForInterest_def)
next
  case (Inr cr)
  obtain c r where look: "cs_Lookup h (l_contentStore s) = Inr (c, r)" using Inr by (cases cr) auto
  note ctx' = ctx_cs_Lookup [OF assms(1) look]
  show ?thesis
  proof (cases r)
    case None
    then show ?thesis using look ctx'(1) by (simp add: checkContentStoreForInterest_def ctx_def)
  next
    case (Some hp)
    obtain hd p where hp: "hp = (hd, p)" by (cases hp) auto
    then show ?thesis
      using look Some ctx'(2)
      by (auto simp: checkContentStoreForInterest_def intro!: post_bindr [OF post_Satisfy [OF ctx'(1)]])
  qed
qed

lemma post_OnInterest:
  assumes "l3_inv s" and "ih_name h = Some m" and "m = [] \<Longrightarrow> NullDereference \<in> E" and "packet_ok s p"
    and "face \<in> fds s"
  shows "post E (\<lambda>s'. l3_inv s' \<and> same_heap s s') (OnInterest os now face h p s)"
proof -
  have dup: "post E (\<lambda>s'. l3_inv s' \<and> same_heap s s') (handleDuplicateInterest os face h s3)"
    if "ctx n s s3" for n s3
    using inv_after [OF that] by (simp add: handleDuplicateInterest_def l3_inv_def)
  have fwd: "post E (\<lambda>s'. l3_inv s' \<and> same_heap s s')
      (bindr (PropagateInterest os now n p' s3) (\<lambda>(s, propagated).
         if \<not> propagated then GiveUpInterest os now n h s else Inr s))"
    if "ctx n s s3" "sendable s p'" for n s3 p'
    using that assms(2) by (auto intro!: post_bindr [OF ctx_PropagateInterest] post_GiveUp dest: inv_after)
  have rest: "post E (\<lambda>s'. l3_inv s' \<and> same_heap s s')
      (bindr (checkContentStoreForInterest os h n s3) (\<lambda>(s, found).
         if found then Inr s
         else if isDup then handleDuplicateInterest os face h s
         else if success then bindr (PropagateInterest os now n p' s) (\<lambda>(s, propagated).
                if \<not> propagated then GiveUpInterest os now n h s else Inr s)
         else Inr s))"
    if "ctx n s s3" "sendable s p'" for n s3 p' isDup success
    using dup fwd that(2) by (auto simp: inv_after intro!: post_bindr [OF post_checkCS [OF that(1) assms(2,3)]])
  have upd: "post E (ctx n s)
      (if success then bindr (updatePITForInterest now n face h s3) (\<lambda>(s, isRetransmitted). Inr s) else Inr s3)"
    if "ctx n s s3" for n s3 success
    using that assms(5) by (auto intro!: post_bindr [OF ctx_update])
  show ?thesis
    unfolding OnInterest_def Let_def
    by (rule post_bindr [OF ctx_Lookup [OF assms(1)]], simp add: assms(2), clarify)
      (rule post_bindr [OF ctx_record_source [OF _ assms(4)]], assumption, clarify,
       rule post_bindr [OF upd], assumption, rule rest)
qed

lemma l3_inv_fib_status:
  assumes "l3_inv s"
  shows "l3_inv (s\<lparr>l_fib := fib_modify pfx (UpdateStatus face st) (l_fib s)\<rparr>)"
proof -
  let ?t = "fib_modify pfx (UpdateStatus face st) (l_fib s)"
  have faces: "fm_face ` set (fe_faces (UpdateStatus face st fe)) = fm_face ` set (fe_faces fe)" for fe
    by (rule UpdateStatus_faces)
  have "map fe_addr (f_entries ?t) = map fe_addr (f_entries (l_fib s))"
    by (simp add: fib_modify_def modify_key_def)
  then have "fe_addr ` set (f_entries ?t) = addrs s"
    unfolding addrs_def by (metis set_map)
  moreover have "fm_face ` set (fe_faces fe) \<subseteq> fds s" if "fe \<in> set (f_entries ?t)" for fe
  proof -
    from that obtain x where x: "x \<in> set (f_entries (l_fib s))" "fe = x \<or> fe = UpdateStatus face st x"
      by (auto simp: fib_modify_def modify_key_def)
    have "fm_face ` set (fe_faces x) \<subseteq> fds s" using assms x(1) by (simp add: l3_inv_def)
    with x(2) faces [of x] show ?thesis by auto
  qed
  moreover have "fib_inv ?t" using fib_status_inv assms by (simp add: l3_inv_def)
  ultimately show ?thesis
    using assms by (simp add: l3_inv_def entry_ok_def sendable_def addrs_def)
qed

lemma ctx_fib_status:
  assumes "ctx n s0 s"
  shows "post E (ctx n s0) (update_fib_status n face st s)"
proof -
  have "ctx n s0 (s\<lparr>l_fib := fib_modify pfx (UpdateStatus face st) (l_fib s)\<rparr>)" for pfx
    using assms l3_inv_fib_status [of s pfx face st] same_heap_trans [of s0 s]
    by (simp add: ctx_def)
  then show ?thesis
    unfolding update_fib_status_def using assms
    by (auto simp: entry_ok_def split: option.splits
        intro!: post_bindr [OF post_entry_at [OF assms]] post_bindr [OF post_fib_at])
qed

lemma post_OnNack:
  assumes "l3_inv s" and "ih_name h \<noteq> None" and "AssertionFailed \<in> E" and "no_adhoc s \<or> NullDereference \<in> E"
  shows "post E (\<lambda>s'. l3_inv s' \<and> same_heap s s') (OnNack os now face h p s)"
proof -
  have made: "post E (\<lambda>p. \<not> pk_linked p) (AddInterestHeader (ih_SetNack NORMAL_INTEREST h) Packet_new)"
    using assms(2,3) by (intro post_mono [OF post_AddInterestHeader]) auto
  have fwd: "post E (\<lambda>s'. l3_inv s' \<and> same_heap s s')
      (bindr (AddInterestHeader (ih_SetNack NORMAL_INTEREST h) Packet_new) (\<lambda>nonNackInterest.
       bindr (PropagateInterest os now n nonNackInterest s3) (\<lambda>(s, propagated).
         if \<not> propagated then GiveUpInterest os now n (ih_SetNack NORMAL_INTEREST h) s else Inr s)))"
    if "ctx n s s3" for n s3
    using that assms(2-4) made
    by (auto simp: sends_def sendable_def dest: inv_after
        intro!: post_bindr [OF made] post_bindr [OF ctx_PropagateInterest] post_GiveUp)
  have rest: "post E (\<lambda>s'. l3_inv s' \<and> same_heap s s')
      (bindr (update_fib_status n face NDN_FIB_YELLOW s2) (\<lambda>s.
       bindr (entry_at n s) (\<lambda>e.
         if length (pe_incoming e) = 0 then Inr s
         else if \<not> AreAllOutgoingInVain e then Inr s
         else bindr (AddInterestHeader (ih_SetNack NORMAL_INTEREST h) Packet_new) (\<lambda>nonNackInterest.
              bindr (PropagateInterest os now n nonNackInterest s) (\<lambda>(s, propagated).
                if \<not> propagated then GiveUpInterest os now n (ih_SetNack NORMAL_INTEREST h) s else Inr s)))))"
    if "ctx n s s2" for n s2
    using fwd by (auto simp: inv_after intro!: post_bindr [OF ctx_fib_status [OF that]] post_bindr [OF post_entry_at])
  have found: "post E (\<lambda>s'. l3_inv s' \<and> same_heap s s')
      (if find_key out_face face (pe_outgoing e) = None then Inr s1
       else bindr (update_fib_status n face NDN_FIB_YELLOW
              (if ih_nackType h = NACK_GIVEUP_PIT then mod_pit n (RemoveIncoming face) (mod_pit n (SetWaitingInVain face) s1)
               else mod_pit n (SetWaitingInVain face) s1)) (\<lambda>s.
       bindr (entry_at n s) (\<lambda>e.
         if length (pe_incoming e) = 0 then Inr s
         else if \<not> AreAllOutgoingInVain e then Inr s
         else bindr (AddInterestHeader (ih_SetNack NORMAL_INTEREST h) Packet_new) (\<lambda>nonNackInterest.
              bindr (PropagateInterest os now n nonNackInterest s) (\<lambda>(s, propagated).
                if \<not> propagated then GiveUpInterest os now n (ih_SetNack NORMAL_INTEREST h) s else Inr s)))))"
    if "ctx n s s1" for n s1 e
  proof (cases "find_key out_face face (pe_outgoing e) = None")
    case True
    then show ?thesis using inv_after [OF that] by simp
  next
    case False
    have "ctx n s (if ih_nackType h = NACK_GIVEUP_PIT then mod_pit n (RemoveIncoming face) (mod_pit n (SetWaitingInVain face) s1)
               else mod_pit n (SetWaitingInVain face) s1)"
      using that ctx_ops(4,5) by simp
    from rest [OF this] show ?thesis unfolding if_not_P [OF False] .
  qed
  have entry: "post E (\<lambda>s'. l3_inv s' \<and> same_heap s s') (if b then Inr s1 else bindr (entry_at n s1) f)"
    if "ctx n s s1" "\<And>e. post E (\<lambda>s'. l3_inv s' \<and> same_heap s s') (f e)" for n s1 f b
    using that by (cases b) (auto simp: inv_after intro!: post_bindr [OF post_entry_at])
  show ?thesis
    unfolding OnNack_def Let_def
    by (rule post_bindr [OF ctx_Lookup [OF assms(1,2)]], clarify) (rule entry, assumption, rule found, assumption)
qed

lemma l3_inv_store:
  assumes "l3_inv s" and "cs_Add h p (l_contentStore s) = Inr (c, b)" and "sendable s p"
  shows "l3_inv (s\<lparr>l_contentStore := c\<rparr>)"
proof -
  have cs: "cs_inv (l_contentStore s)" using assms(1) by (simp add: l3_inv_def)
  have "sendable s (ce_packet e)" if "trie_lookup (pt_trie c) n = Some e" for n e
    using cs_Add_stored [OF cs assms(2) that] assms(1,3) by (auto simp: l3_inv_def)
  then show ?thesis
    using assms(1) cs_Add_inv [OF cs assms(2)] by (simp add: l3_inv_def entry_ok_def sendable_def)
qed

lemma post_cs_Add: "ch_name h \<noteq> None \<Longrightarrow> post E (\<lambda>(c, b). cs_Add h p s = Inr (c, b)) (cs_Add h p s)"
  by (auto simp: cs_Add_def ch_GetName_def split: prod.splits option.splits)

lemma post_free: "packet_ok s p \<Longrightarrow> post E (sendable s) (free_metadata p)"
  by (auto simp: free_metadata_def packet_ok_def sendable_def split: option.splits ll_metadata.splits)

lemma post_unsolicited:
  assumes "l3_inv s" and "ch_name h \<noteq> None" and "sendable s p"
  shows "post E (\<lambda>(s', b). l3_inv s' \<and> same_heap s s') (HandleUnsolicitedData h p s)"
  using assms unfolding HandleUnsolicitedData_def
  by (auto intro!: post_bindr [OF post_cs_Add] l3_inv_store)

lemma post_OnData:
  assumes "l3_inv s" and "ch_name h \<noteq> None" and "packet_ok s p"
  shows "post {} (\<lambda>s'. l3_inv s' \<and> same_heap s s') (OnData os face h p s)"
proof (cases "pit_LookupData h (l_pit s)")
  case (Inl e)
  then have "e = NDNPitEntryNotFound"
    using assms(2) by (auto simp: pit_LookupData_def ch_GetName_def split: option.splits)
  moreover have "sendable s p" using assms(3) by (auto simp: packet_ok_def sendable_def)
  ultimately show ?thesis
    using Inl assms
    by (auto simp: OnData_def intro!: post_bindr [OF post_unsolicited])
next
  case (Inr e)
  then have e: "pit_find (l_pit s) (pe_prefix e) = Some e"
    using pit_find_entry [of "l_pit s"] by (auto simp: pit_LookupData_def bindr_eq_Inr split: option.splits)
  then have c: "ctx (pe_prefix e) s s" using assms(1) by (simp add: ctx_def)
  have store: "post {} (\<lambda>s'. l3_inv s' \<and> same_heap s s')
      (bindr (cs_Add h p' (l_contentStore s1)) (\<lambda>(cs, added).
         SatisfyPendingInterests os (pe_prefix e) p' (s1\<lparr>l_contentStore := cs\<rparr>)))"
    if "ctx (pe_prefix e) s s1" "sendable s p'" for s1 p'
  proof (rule post_bindr [OF post_cs_Add], rule assms(2), clarify)
    fix cs b assume add: "cs_Add h p' (l_contentStore s1) = Inr (cs, b)"
    have "sendable s1 p'" using that same_heapD(3) by (auto simp: ctx_def)
    then have "l3_inv (s1\<lparr>l_contentStore := cs\<rparr>)"
      using l3_inv_store [OF _ add] that(1) by (simp add: ctx_def)
    then have "ctx (pe_prefix e) s (s1\<lparr>l_contentStore := cs\<rparr>)"
      using that(1) same_heap_trans [of s s1] by (simp add: ctx_def)
    from post_Satisfy [OF this that(2)]
    show "post {} (\<lambda>s'. l3_inv s' \<and> same_heap s s')
        (SatisfyPendingInterests os (pe_prefix e) p' (s1\<lparr>l_contentStore := cs\<rparr>))" .
  qed
  show ?thesis
    using Inr assms(1) store
    by (auto simp: OnData_def intro!: post_bindr [OF post_free [OF assms(3)]] post_bindr [OF ctx_fib_status [OF c]])
qed

end
