(* ===== verification/System.thy ===== *)
theory System
  imports Daemon
begin

text \<open>
  The steps of the running daemon and its reachable states, and the theorems about whole handlers.
\<close>

section \<open>Removing a face\<close>

lemma same_heap_updates:
  "same_heap s (a\<lparr>l_pit := t\<rparr>) \<longleftrightarrow> same_heap s a" "same_heap s (a\<lparr>l_fib := b\<rparr>) \<longleftrightarrow> same_heap s a"
  "same_heap s (a\<lparr>l_faces := fs\<rparr>) \<longleftrightarrow> same_heap s a"
  by (simp_all add: same_heap_def)

lemma l3_inv_heap_same:
  "l3_inv s \<Longrightarrow> l3_inv (s\<lparr>l_faces := remove1 face (l_faces s)\<rparr>)"
  using set_remove1_subset [of face "l_faces s"]
  by (auto simp: l3_inv_def entry_ok_def fds_def sendable_def no_adhoc_def addrs_def)

definition trim_ok :: "l3 \<Rightarrow> name list \<Rightarrow> l3 \<Rightarrow> bool" where
  "trim_ok s0 ns s \<longleftrightarrow> l3_inv s \<and> same_heap s0 s \<and> l_fib s = l_fib s0 \<and> (\<forall>n \<in> set ns. pit_find (l_pit s) n \<noteq> None)"

lemma trim_step:
  assumes "trim_ok s0 ns s" and "n \<in> set ns"
  shows "post E (\<lambda>(s', r). trim_ok s0 ns s') (trim_entry face n (s, r))"
proof -
  let ?s = "mod_pit n (RemoveAllReferencesToFace face) s"
  have "ctx n s0 s" using assms by (simp add: trim_ok_def ctx_def)
  then have c: "ctx n s0 ?s"
    using entry_faces_ops(11) by (intro ctx_mod_pit) (force simp: pe_inv_ops)+
  then have ok: "trim_ok s0 ns ?s"
    using assms(1) by (auto simp: trim_ok_def ctx_def mod_pit_def pit_find_modify)
  show ?thesis
    unfolding trim_entry_def Let_def prod.case
    using ok by (auto simp: entry_ok_def split: option.splits
        intro!: post_bindr [OF post_entry_at [OF c]] post_bindr [OF post_fib_at])
qed

lemma trim_loop:
  "trim_ok s0 ns s \<Longrightarrow> set ms \<subseteq> set ns \<Longrightarrow>
     post E (\<lambda>(s', r). trim_ok s0 ns s') (foldr_res (trim_entry face) ms (s, r))"
proof (induction ms arbitrary: s r)
  case (Cons m ms)
  then show ?case
    by (auto intro!: post_bindr [OF trim_step])
qed simp

lemma l3_inv_pit_Removes: "l3_inv s \<Longrightarrow> l3_inv (s\<lparr>l_pit := fold pit_Remove ns (l_pit s)\<rparr>)"
proof (induction ns arbitrary: s)
  case (Cons n ns)
  from Cons.IH [OF inv_pit_Remove [OF Cons.prems, of n]] show ?case by simp
qed simp

lemma post_Trim:
  assumes "l3_inv s"
  shows "post E (\<lambda>s'. l3_inv s' \<and> same_heap s s' \<and> l_fib s' = l_fib s) (TrimPitEntriesAssociatedWithFace face s)"
  unfolding TrimPitEntriesAssociatedWithFace_def
proof (rule post_bindr)
  have "pit_inv (l_pit s)" using assms by (simp add: l3_inv_def)
  then show "post E (\<lambda>(s', r). trim_ok s (map pe_prefix (p_entries (l_pit s))) s')
      (foldr_res (trim_entry face) (map pe_prefix (p_entries (l_pit s))) (s, []))"
    using assms by (intro trim_loop) (auto simp: trim_ok_def pit_find_complete)
qed (auto simp: trim_ok_def l3_inv_pit_Removes same_heap_updates)

lemma fib_faces_route:
  assumes "fib_inv t"
  shows "(\<forall>fe \<in> set (f_entries t). fm_face ` set (fe_faces fe) \<subseteq> F) \<longleftrightarrow> (\<forall>n k. route t n k \<noteq> None \<longrightarrow> k \<in> F)"
proof -
  have mem: "k \<in> fm_face ` set (fe_faces e) \<longleftrightarrow> face_of k e \<noteq> None" for k e
    by (simp add: face_of_def find_key_None)
  show ?thesis
  proof
    assume *: "\<forall>fe \<in> set (f_entries t). fm_face ` set (fe_faces fe) \<subseteq> F"
    show "\<forall>n k. route t n k \<noteq> None \<longrightarrow> k \<in> F"
    proof (intro allI impI)
      fix n k assume r: "route t n k \<noteq> None"
      then obtain e where e: "fib_find t n = Some e" "face_of k e \<noteq> None"
        by (auto simp: route_def split: option.splits)
      then have "e \<in> set (f_entries t)" by (auto dest: fib_find_entry)
      with * e mem [of k e] show "k \<in> F" by blast
    qed
  next
    assume *: "\<forall>n k. route t n k \<noteq> None \<longrightarrow> k \<in> F"
    show "\<forall>fe \<in> set (f_entries t). fm_face ` set (fe_faces fe) \<subseteq> F"
    proof (intro ballI subsetI)
      fix fe k assume fe: "fe \<in> set (f_entries t)" and k: "k \<in> fm_face ` set (fe_faces fe)"
      have "fib_find t (fe_prefix fe) = Some fe" by (rule fib_find_complete [OF assms fe])
      then have "route t (fe_prefix fe) k \<noteq> None" using mem [of k fe] k by (simp add: route_def)
      with * show "k \<in> F" by blast
    qed
  qed
qed

lemma l3_inv_RemoveFace:
  assumes "l3_inv s" and "RemoveFace face s = Inr s'"
  shows "l3_inv s' \<and> same_heap s s'"
proof -
  obtain s1 t where s1: "TrimPitEntriesAssociatedWithFace face s = Inr s1"
    and t: "fib_RemoveFromAll face (l_fib s1) = Inr t"
    and s': "s' = s1\<lparr>l_fib := t, l_faces := remove1 face (l_faces s1)\<rparr>"
    using assms(2) by (auto simp: RemoveFace_def bindr_eq_Inr)
  have inv: "l3_inv s1" "same_heap s s1"
    using post_Trim [OF assms(1), of UNIV face] s1 by auto
  then have f: "fib_inv (l_fib s1)" by (simp add: l3_inv_def)
  note r = RemoveFromAll_inv [OF t f]
  have "\<forall>n k. route (l_fib s1) n k \<noteq> None \<longrightarrow> k \<in> fds s1"
    using fib_faces_route [OF f] inv(1) by (simp add: l3_inv_def)
  then have faces: "\<forall>fe \<in> set (f_entries t). fm_face ` set (fe_faces fe) \<subseteq> fds s1"
    using fib_faces_route [of t] r by auto
  have "fe_addr ` set (f_entries t) = addrs s1"
    using r unfolding addrs_def by (metis set_map)
  then have "l3_inv (s1\<lparr>l_fib := t\<rparr>)"
    using inv(1) r faces by (simp add: l3_inv_def entry_ok_def sendable_def) (simp add: addrs_def)
  then have "l3_inv (s1\<lparr>l_fib := t, l_faces := remove1 face (l_faces s1)\<rparr>)"
    using l3_inv_heap_same [of "s1\<lparr>l_fib := t\<rparr>" face] by simp
  moreover have "same_heap s s'"
    using inv(2) unfolding s' by (simp add: same_heap_def)
  ultimately show ?thesis by (simp add: s')
qed

section \<open>Registration and clean-up\<close>

lemma l3_inv_Add:
  assumes "l3_inv s" and "fd \<in> fds s"
  shows "l3_inv (s\<lparr>l_fib := fib_Add pfx fd c (l_fib s)\<rparr>)"
proof -
  let ?t = "fib_Add pfx fd c (l_fib s)"
  have f: "fib_inv (l_fib s)" using assms(1) by (simp add: l3_inv_def)
  then have t: "fib_inv ?t" by (rule fib_Add_inv)
  have "\<forall>n k. route ?t n k \<noteq> None \<longrightarrow> k \<in> fds s"
    using fib_faces_route [OF f] assms by (auto simp: route_Add l3_inv_def)
  then have faces: "\<forall>fe \<in> set (f_entries ?t). fm_face ` set (fe_faces fe) \<subseteq> fds s"
    using fib_faces_route [OF t] by simp
  have "addrs s \<subseteq> fe_addr ` set (f_entries ?t)"
    by (auto simp: addrs_def fib_Add_def Let_def fib_modify_def fib_insert_def modify_key_def image_image
        image_Un split: option.splits)
  with assms(1) t faces show ?thesis
    by (auto simp: l3_inv_def entry_ok_def sendable_def) (auto simp: addrs_def)
qed

lemma l3_inv_Reap: "l3_inv s \<Longrightarrow> l3_inv (Reap now s)"
proof -
  assume inv: "l3_inv s"
  then have p: "pit_inv (l_pit s)" by (simp add: l3_inv_def)
  have sub: "pit_find (CleanExpired now (l_pit s)) n = Some e \<Longrightarrow> pit_find (l_pit s) n = Some e" for n e
    using p by (auto simp: pit_find_def CleanExpired_entries find_filter_key pit_inv_def linked_inv_def
        split: option.splits if_splits)
  have "entry_ok s e" if "pit_find (CleanExpired now (l_pit s)) n = Some e" for n e
    using sub [OF that] inv by (simp add: l3_inv_def)
  with inv CleanExpired_inv [OF p] show ?thesis
    by (simp add: Reap_def l3_inv_def entry_ok_def sendable_def)
qed


section \<open>Steps and reachable states\<close>

lemma l3_inv_Receive:
  assumes "l3_inv s" and "packet_ok s p" and "face \<in> fds s" and "l3_Receive os now face p s = Inr s'"
  shows "l3_inv s' \<and> same_heap s s'"
proof -
  have interest: "l3_inv s' \<and> same_heap s s'" if h: "OnInterest os now face h p s = Inr s'" for h s'
  proof (cases "ih_name h")
    case None
    with h show ?thesis by (simp add: OnInterest_def pit_LookupInterest_def ih_GetName_def)
  next
    case (Some m)
    have "post UNIV (\<lambda>s'. l3_inv s' \<and> same_heap s s') (OnInterest os now face h p s)"
      by (rule post_OnInterest [OF assms(1) Some _ assms(2,3)]) simp_all
    with h show ?thesis by simp
  qed
  have nack: "l3_inv s' \<and> same_heap s s'" if h: "OnNack os now face h p s = Inr s'" for h s'
  proof (cases "ih_name h")
    case None
    with h show ?thesis by (simp add: OnNack_def pit_LookupInterest_def ih_GetName_def)
  next
    case (Some m)
    have "post UNIV (\<lambda>s'. l3_inv s' \<and> same_heap s s') (OnNack os now face h p s)"
      by (rule post_OnNack [OF assms(1)]) (simp_all add: Some)
    with h show ?thesis by simp
  qed
  have data: "l3_inv s' \<and> same_heap s s'" if h: "OnData os face h p s = Inr s'" for h s'
  proof (cases "ch_name h")
    case None
    with h show ?thesis by (simp add: OnData_def pit_LookupData_def ch_GetName_def)
  next
    case (Some m)
    with post_OnData [OF assms(1) _ assms(2), of h os face] h show ?thesis by simp
  qed
  have types: "a \<noteq> INTEREST \<longleftrightarrow> a = CONTENT_OBJECT" for a by (cases a) simp_all
  show ?thesis
    using assms(1,4) interest nack data types
    by (auto simp: l3_Receive_def bindr_eq_Inr bindr_eq_Inl split: sum.splits fault.splits header_type.splits if_splits)
qed

text \<open>
  One step of the daemon: an application connects, a packet arrives on a face of the daemon of any
  kind, a face closes, a prefix is registered or withdrawn under a face that exists, the timer fires.
  The kernel gives a new connection a descriptor that is not in use by another kind of face. When there
  is an ad-hoc face, the packets that arrive fit into a slot of its ring. Three things are not
  among the steps, because the code leaves defined behaviour with them: closing a face that is the only
  next hop of a prefix, withdrawing the only next hop of a prefix that a pending Interest was routed by,
  and registering a face that does not exist. What they break is stated in the theory of the scenarios.
\<close>

definition fits :: "l3 \<Rightarrow> byte list \<Rightarrow> bool" where
  "fits s bytes \<longleftrightarrow> no_adhoc s \<or> length bytes \<le> MAXLLSIZE"

text \<open>Another next hop is left, or no pending Interest was routed by the prefix.\<close>

definition withdrawable :: "name \<Rightarrow> face_id \<Rightarrow> l3 \<Rightarrow> bool" where
  "withdrawable pfx fd s \<longleftrightarrow>
     (case fib_find (l_fib s) pfx of
        None \<Rightarrow> True
      | Some fe \<Rightarrow> (\<exists>x \<in> set (fe_faces fe). fm_face x \<noteq> fd) \<or>
          (\<forall>e \<in> set (p_entries (l_pit s)). pe_fibEntry e \<noteq> Some (fe_addr fe)))"

inductive l3_step :: "os \<Rightarrow> l3 \<Rightarrow> l3 \<Rightarrow> bool" for os where
  connect: "(\<And>f. f \<in> set (l_heap s) \<Longrightarrow> fc_fd f = fd \<Longrightarrow> fc_kind f = LocalFace) \<Longrightarrow>
     l3_step os s (fst (AddFace (NDNFace LocalFace fd) s))"
| read: "fd \<in> set (l_faces s) \<Longrightarrow> (\<And>bytes. input = Some bytes \<Longrightarrow> fits s bytes) \<Longrightarrow>
     readHandler os now fd input s = Inr (s', off) \<Longrightarrow> l3_step os s s'"
| hub_read: "fd \<in> set (l_faces s) \<Longrightarrow> (\<exists>f \<in> set (l_heap s). fc_kind f = HubOverIPDeviceFace) \<Longrightarrow>
     hub_readHandler os now fd input s = Inr s' \<Longrightarrow> l3_step os s s'"
| net_read: "fd \<in> set (l_faces s) \<Longrightarrow> (\<And>bytes. input = Some bytes \<Longrightarrow> fits s bytes) \<Longrightarrow>
     net_readHandler os now fd input s = Inr s' \<Longrightarrow> l3_step os s s'"
| adhoc_read: "fd \<in> set (l_faces s) \<Longrightarrow> pk_llmetadata p = Some (OverAdhoc k) \<or> pk_llmetadata p = None \<Longrightarrow>
     pk_linked p \<Longrightarrow> fits s (m_data (pk_buffer p)) \<Longrightarrow> l3_Receive os now fd p s = Inr s' \<Longrightarrow> l3_step os s s'"
| register: "GetFace (fw_faceID m) s \<noteq> None \<Longrightarrow> fw_Action m \<noteq> ''unreg'' \<Longrightarrow>
     management_message m s = Inr s' \<Longrightarrow> l3_step os s s'"
| withdraw: "GetFace (fw_faceID m) s = Some fd \<Longrightarrow> fw_Action m = ''unreg'' \<Longrightarrow>
     withdrawable (parse_name (fw_Name m)) fd s \<Longrightarrow> management_message m s = Inr s' \<Longrightarrow> l3_step os s s'"
| remove: "RemoveFace fd s = Inr s' \<Longrightarrow> l3_step os s s'"
| reap: "l3_step os s (Reap now s)"

inductive_cases l3_stepE: "l3_step os s s'"

text \<open>The daemon starts with the device faces of its command line.\<close>

definition boot :: "face list \<Rightarrow> l3" where
  "boot devices = fold (\<lambda>f s. fst (AddFace f s)) devices NDNL3Protocol"

inductive l3_reachable :: "os \<Rightarrow> face list \<Rightarrow> l3 \<Rightarrow> bool" for os devices where
  start: "l3_reachable os devices (boot devices)"
| step: "l3_reachable os devices s \<Longrightarrow> l3_step os s s' \<Longrightarrow> l3_reachable os devices s'"

definition hub_or_adhoc :: "l3 \<Rightarrow> bool" where
  "hub_or_adhoc s \<longleftrightarrow> no_adhoc s \<or> (\<forall>f \<in> set (l_heap s). fc_kind f \<noteq> HubOverIPDeviceFace)"


lemma boot_heap:
  "distinct (map fc_fd devices) \<Longrightarrow> l_heap (boot devices) = devices \<and> l_faces (boot devices) = map fc_fd devices \<and>
     l_pit (boot devices) = NDNPit \<and> l_fib (boot devices) = NDNFib \<and> l_contentStore (boot devices) = policy_trie_new \<and>
     \<not> l_nacksEnabled (boot devices)"
proof -
  assume d: "distinct (map fc_fd devices)"
  have "l_heap (fold (\<lambda>f s. fst (AddFace f s)) ds s) = l_heap s @ ds \<and>
      l_faces (fold (\<lambda>f s. fst (AddFace f s)) ds s) = l_faces s @ map fc_fd ds \<and>
      l_pit (fold (\<lambda>f s. fst (AddFace f s)) ds s) = l_pit s \<and>
      l_fib (fold (\<lambda>f s. fst (AddFace f s)) ds s) = l_fib s \<and>
      l_contentStore (fold (\<lambda>f s. fst (AddFace f s)) ds s) = l_contentStore s \<and>
      l_nacksEnabled (fold (\<lambda>f s. fst (AddFace f s)) ds s) = l_nacksEnabled s"
    if "distinct (map fc_fd (l_heap s @ ds))" for ds s
    using that
  proof (induction ds arbitrary: s)
    case (Cons f ds)
    have "find_key fc_fd (fc_fd f) (l_heap s) = None" using Cons.prems by (auto simp: find_key_None)
    then have h: "l_heap (fst (AddFace f s)) = l_heap s @ [f]" "l_faces (fst (AddFace f s)) = l_faces s @ [fc_fd f]"
      "l_pit (fst (AddFace f s)) = l_pit s" "l_fib (fst (AddFace f s)) = l_fib s"
      "l_contentStore (fst (AddFace f s)) = l_contentStore s"
      "l_nacksEnabled (fst (AddFace f s)) = l_nacksEnabled s"
      by (simp_all add: AddFace_def)
    have "distinct (map fc_fd (l_heap (fst (AddFace f s)) @ ds))" using Cons.prems h by auto
    from Cons.IH [OF this] h show ?case by simp
  qed simp
  from this [of NDNL3Protocol devices] d show ?thesis by (simp add: boot_def NDNL3Protocol_def)
qed

lemma boot_inv: "distinct (map fc_fd devices) \<Longrightarrow> l3_inv (boot devices)"
proof -
  assume "distinct (map fc_fd devices)"
  note b = boot_heap [OF this]
  have "pit_find NDNPit n = None" for n by (simp add: pit_find_def NDNPit_def)
  moreover have "f_entries NDNFib = []" by (simp add: NDNFib_def)
  moreover have "trie_lookup (pt_trie (policy_trie_new :: content_store)) n = None" for n by (simp add: policy_trie_new_def)
  moreover have "cs_inv (policy_trie_new :: content_store)" using pt_inv_new by (simp add: cs_inv_def policy_trie_new_def)
  ultimately show "l3_inv (boot devices)"
    using pit_new_inv fib_new_inv unfolding l3_inv_def fds_def by (simp add: b)
qed

lemma connect_inv:
  assumes "l3_inv s" and "\<And>f. f \<in> set (l_heap s) \<Longrightarrow> fc_fd f = fd \<Longrightarrow> fc_kind f = LocalFace"
  shows "l3_inv (fst (AddFace (NDNFace LocalFace fd) s)) \<and>
    (hub_or_adhoc s \<longrightarrow> hub_or_adhoc (fst (AddFace (NDNFace LocalFace fd) s))) \<and>
    fds (fst (AddFace (NDNFace LocalFace fd) s)) = insert fd (fds s)"
proof -
  let ?f = "NDNFace LocalFace fd" and ?s = "fst (AddFace (NDNFace LocalFace fd) s)"
  have f: "fc_fd ?f = fd" "fc_kind ?f = LocalFace" by (simp_all add: NDNFace_def)
  have heap: "set (l_heap ?s) = {g \<in> set (l_heap s). fc_fd g \<noteq> fd} \<union> {?f}"
  proof (cases "find_key fc_fd fd (l_heap s)")
    case None
    then show ?thesis by (auto simp: AddFace_def f find_key_None image_iff)
  next
    case (Some g)
    then show ?thesis
      by (auto simp: AddFace_def f modify_key_def dest: find_key_SomeD split: if_splits)
  qed
  then have fd: "fds ?s = insert fd (fds s)" by (auto simp: fds_def f)
  have kinds: "(\<exists>g \<in> set (l_heap ?s). fc_kind g = k) \<longleftrightarrow> (\<exists>g \<in> set (l_heap s). fc_kind g = k)" if "k \<noteq> LocalFace" for k
    using assms(2) that unfolding heap by (auto simp: f)
  have adhoc: "no_adhoc ?s \<longleftrightarrow> no_adhoc s"
    using kinds [of AdhocNetDeviceFace] unfolding no_adhoc_def by auto
  have rest: "l_pit ?s = l_pit s" "l_fib ?s = l_fib s" "l_contentStore ?s = l_contentStore s"
    "l_faces ?s = l_faces s @ [fd]" "l_nacksEnabled ?s = l_nacksEnabled s" by (simp_all add: AddFace_def f)
  have "hub_or_adhoc ?s \<longleftrightarrow> hub_or_adhoc s"
    using kinds [of HubOverIPDeviceFace] adhoc unfolding hub_or_adhoc_def by auto
  moreover have "l3_inv ?s"
  proof -
    have "entry_ok s e \<Longrightarrow> entry_ok ?s e" for e
      using fd rest by (auto simp: entry_ok_def addrs_def)
    moreover have "sendable ?s p \<longleftrightarrow> sendable s p" for p using adhoc by (simp add: sendable_def)
    moreover have "A \<subseteq> fds s \<Longrightarrow> A \<subseteq> fds ?s" for A using fd by auto
    ultimately show ?thesis using assms(1) fd unfolding l3_inv_def rest by auto
  qed
  ultimately show ?thesis using fd by blast
qed

lemma hub_or_adhoc_same:
  assumes "same_heap s s'"
  shows "hub_or_adhoc s' \<longleftrightarrow> hub_or_adhoc s"
proof -
  have "map snd (map (\<lambda>f. (fc_fd f, fc_kind f)) (l_heap s')) = map snd (map (\<lambda>f. (fc_fd f, fc_kind f)) (l_heap s))"
    using assms by (simp add: same_heap_def)
  then have "fc_kind ` set (l_heap s') = fc_kind ` set (l_heap s)"
    by (simp add: comp_def) (metis set_map)
  moreover have "(\<forall>f \<in> set (l_heap t). fc_kind f \<noteq> HubOverIPDeviceFace) \<longleftrightarrow> HubOverIPDeviceFace \<notin> fc_kind ` set (l_heap t)" for t
    unfolding image_iff by metis
  ultimately show ?thesis using same_heapD(2) [OF assms] unfolding hub_or_adhoc_def by metis
qed

lemma InitFromBuffer_meta:
  "InitFromBuffer bytes = Inr p \<Longrightarrow> pk_llmetadata p = None \<and> pk_linked p \<and> m_data (pk_buffer p) = bytes"
  by (auto simp: InitFromBuffer_def split: if_splits)

text \<open>The handlers keep the invariant and leave the faces as they are.\<close>

lemma receive_same:
  assumes "l3_inv s" "hub_or_adhoc s" "fd \<in> fds s" "l3_Receive os now fd p s = Inr t"
    and "pk_llmetadata p = None \<or> no_adhoc s \<and> (\<exists>i q. pk_llmetadata p = Some (OverIP i q)) \<or>
      (\<exists>k. pk_llmetadata p = Some (OverAdhoc k))"
    and "no_adhoc s \<or> pk_linked p \<and> fits s (m_data (pk_buffer p))"
  shows "l3_inv t \<and> same_heap s t"
  by (rule l3_inv_Receive [OF assms(1) _ assms(3,4)]) (use assms(5,6) in \<open>auto simp: packet_ok_def fits_def\<close>)

lemma read_same:
  assumes "l3_inv s" "hub_or_adhoc s" "fd \<in> fds s" "\<And>bytes. input = Some bytes \<Longrightarrow> fits s bytes"
    and "readHandler os now fd input s = Inr (s', off)"
  shows "l3_inv s' \<and> same_heap s s'"
proof -
  consider "s' = s" | "RemoveFace fd s = Inr s'"
    | bytes p where "input = Some bytes" "InitFromBuffer bytes = Inr p" "l3_Receive os now fd p s = Inr s'"
    using assms(5) by (auto simp: readHandler_def bindr_eq_Inr split: option.splits if_splits)
  then show ?thesis
  proof cases
    case 1
    then show ?thesis using assms by simp
  next
    case 2
    then show ?thesis using l3_inv_RemoveFace [OF assms(1)] by blast
  next
    case 3
    then show ?thesis using receive_same [OF assms(1-3) 3(3)] InitFromBuffer_meta assms(4) by simp
  qed
qed

lemma hub_same:
  assumes "l3_inv s" "hub_or_adhoc s" "fd \<in> fds s" "\<exists>f \<in> set (l_heap s). fc_kind f = HubOverIPDeviceFace"
    and "hub_readHandler os now fd input s = Inr s'"
  shows "l3_inv s' \<and> same_heap s s'"
proof -
  have no: "no_adhoc s" using assms(2,4) by (auto simp: hub_or_adhoc_def)
  consider "s' = s" | p ip port where "l3_Receive os now fd p s = Inr s'" "pk_llmetadata p = Some (OverIP ip port)"
    using assms(5) by (fastforce simp: hub_readHandler_def bindr_eq_Inr split: option.splits if_splits)
  then show ?thesis
  proof cases
    case 1
    then show ?thesis using assms by simp
  next
    case 2
    then show ?thesis using receive_same [OF assms(1-3)] no by blast
  qed
qed

lemma net_same:
  assumes "l3_inv s" "hub_or_adhoc s" "fd \<in> fds s" "\<And>bytes. input = Some bytes \<Longrightarrow> fits s bytes"
    and "net_readHandler os now fd input s = Inr s'"
  shows "l3_inv s' \<and> same_heap s s'"
proof -
  consider "s' = s"
    | bytes p where "input = Some bytes" "InitFromBuffer bytes = Inr p" "l3_Receive os now fd p s = Inr s'"
    using assms(5) by (auto simp: net_readHandler_def bindr_eq_Inr split: option.splits if_splits)
  then show ?thesis
  proof cases
    case 1
    then show ?thesis using assms by simp
  next
    case 2
    then show ?thesis using receive_same [OF assms(1-3) 2(3)] InitFromBuffer_meta assms(4) by simp
  qed
qed

lemma register_same:
  assumes "l3_inv s" "GetFace (fw_faceID m) s \<noteq> None" "fw_Action m \<noteq> ''unreg''" "management_message m s = Inr s'"
  shows "l3_inv s' \<and> same_heap s s'"
proof -
  obtain fd where fd: "GetFace (fw_faceID m) s = Some fd" using assms(2) by auto
  then have "fd \<in> fds s" using GetFace_Some [OF fd] assms(1) by (auto simp: l3_inv_def)
  from l3_inv_Add [OF assms(1) this] assms fd show ?thesis
    by (auto simp: management_message_def prefixRegistration_def Let_def compares_null_def face_pointer_def
        same_heap_updates split: if_splits)
qed

lemma removed_addrs:
  assumes "fib_inv t" and "a \<in> fe_addr ` set (f_entries t)" and "a \<notin> fe_addr ` set (f_entries (removed pfx fd t))"
  shows "\<exists>fe. fib_find t pfx = Some fe \<and> fe_addr fe = a \<and> (\<forall>x \<in> set (fe_faces fe). fm_face x = fd)"
proof -
  obtain fe where fe: "fe \<in> set (f_entries t)" "fe_addr fe = a" using assms(2) by auto
  then have find: "fib_find t (fe_prefix fe) = Some fe" using fib_find_complete [OF assms(1)] by blast
  have addr: "fe_addr (fe_RemoveFace fd e) = fe_addr e" for e by (simp add: fe_RemoveFace_def)
  have "fib_find (removed pfx fd t) (fe_prefix fe) = None"
  proof (cases "fib_find (removed pfx fd t) (fe_prefix fe)")
    case (Some e)
    have "e \<in> set (f_entries (removed pfx fd t))" using fib_find_entry [OF Some] by blast
    moreover have "fe_addr e = a" using Some find fe addr by (auto simp: fib_find_removed split: if_splits)
    ultimately have "a \<in> fe_addr ` set (f_entries (removed pfx fd t))" by blast
    with assms(3) show ?thesis by blast
  qed
  then have "fe_prefix fe = pfx" "fe_faces (fe_RemoveFace fd fe) = []"
    using find by (auto simp: fib_find_removed split: if_splits)
  then show ?thesis using find fe(2) by (auto simp: fe_RemoveFace_def erase_key_def filter_empty_conv)
qed

lemma withdraw_same:
  assumes "l3_inv s" "GetFace (fw_faceID m) s = Some fd" "fw_Action m = ''unreg''"
    and "withdrawable (parse_name (fw_Name m)) fd s" "management_message m s = Inr s'"
  shows "l3_inv s' \<and> same_heap s s'"
proof -
  let ?pfx = "parse_name (fw_Name m)"
  let ?t = "removed ?pfx fd (l_fib s)"
  have f: "fib_inv (l_fib s)" and p: "pit_inv (l_pit s)" using assms(1) by (simp_all add: l3_inv_def)
  have faces: "\<forall>fe \<in> set (f_entries ?t). fm_face ` set (fe_faces fe) \<subseteq> fds s"
    using fib_faces_route [OF f] fib_faces_route [OF removed_inv [OF f]] assms(1)
    by (auto simp: l3_inv_def route_removed)
  have "a \<in> fe_addr ` set (f_entries ?t)" if e: "pit_find (l_pit s) n = Some e" "pe_fibEntry e = Some a" for n e a
  proof (rule ccontr)
    assume gone: "a \<notin> fe_addr ` set (f_entries ?t)"
    have "entry_ok s e" using assms(1) e(1) by (simp add: l3_inv_def)
    then have "a \<in> fe_addr ` set (f_entries (l_fib s))" using e(2) by (simp add: entry_ok_def addrs_def)
    from removed_addrs [OF f this gone] obtain fe where fe: "fib_find (l_fib s) ?pfx = Some fe" "fe_addr fe = a"
      "\<forall>x \<in> set (fe_faces fe). fm_face x = fd" by blast
    then show False using assms(4) e pit_find_entry [OF e(1)] by (auto simp: withdrawable_def)
  qed
  then have "l3_inv (s\<lparr>l_fib := ?t\<rparr>)"
    using assms(1) removed_inv [OF f] faces
    by (auto simp: l3_inv_def entry_ok_def sendable_def) (auto simp: addrs_def)
  then show ?thesis
    using assms(1-3,5)
    by (auto simp: management_message_def prefixRegistration_def Let_def compares_null_def face_pointer_def
        fib_RemovePrefix_eq same_heap_updates split: if_splits)
qed

lemma step_inv:
  assumes "l3_step os s s'" and "l3_inv s" and "hub_or_adhoc s"
  shows "l3_inv s' \<and> hub_or_adhoc s'"
proof -
  have same: "l3_inv t \<and> hub_or_adhoc t" if "l3_inv t \<and> same_heap s t" for t
    using that assms(3) hub_or_adhoc_same by auto
  have fds: "set (l_faces s) \<subseteq> fds s" using assms(2) by (simp add: l3_inv_def)
  from assms(1) show ?thesis
  proof (cases rule: l3_step.cases)
    case (connect fd)
    then show ?thesis using connect_inv [OF assms(2), of fd] assms(3) by simp
  next
    case (read fd input now off)
    then show ?thesis using read_same [OF assms(2,3)] same fds by blast
  next
    case (hub_read fd now input)
    then show ?thesis using hub_same [OF assms(2,3)] same fds by blast
  next
    case (net_read fd input now)
    then show ?thesis using net_same [OF assms(2,3)] same fds by blast
  next
    case (adhoc_read fd p k now)
    then show ?thesis using receive_same [OF assms(2,3)] same fds by blast
  next
    case (register m)
    then show ?thesis using register_same [OF assms(2)] same by blast
  next
    case (withdraw m fd)
    then show ?thesis using withdraw_same [OF assms(2)] same by blast
  next
    case (remove fd)
    then show ?thesis using l3_inv_RemoveFace [OF assms(2), of fd] same by blast
  next
    case (reap now)
    have "same_heap s (Reap now s)" by (simp add: Reap_def)
    with reap l3_inv_Reap [OF assms(2)] show ?thesis using same by blast
  qed
qed

lemma reachable_inv:
  assumes "l3_reachable os devices s" and "distinct (map fc_fd devices)" and "hub_or_adhoc (boot devices)"
  shows "l3_inv s \<and> hub_or_adhoc s"
  using assms
proof (induction rule: l3_reachable.induct)
  case start
  then show ?case using boot_inv by simp
next
  case (step s s')
  then show ?case using step_inv by blast
qed

end
