(* ===== verification/Delivery.thy ===== *)
theory Delivery
  imports System
begin

text \<open>
  What a face puts on the wire, and the two fates of content: it answers pending Interests, or nobody waits
  for it.
\<close>

section \<open>What a face sends\<close>

definition delivered :: "os \<Rightarrow> l3 \<Rightarrow> face_id \<Rightarrow> packet \<Rightarrow> source_list option \<Rightarrow> sent list" where
  "delivered os s fd p metadata =
     (case bindr (face_at fd s) (\<lambda>f. face_Send os f p metadata) of Inl e \<Rightarrow> [] | Inr (out, ok) \<Rightarrow> out)"

text \<open>A face over a connected socket or to a fixed peer whose send succeeds.\<close>

definition plain_face :: "os \<Rightarrow> l3 \<Rightarrow> face_id \<Rightarrow> bool" where
  "plain_face os s fd \<longleftrightarrow> (\<exists>f. find_key fc_fd fd (l_heap s) = Some f \<and>
     (fc_kind f = LocalFace \<and> os fd Connected \<or> (\<exists>ip port. fc_kind f = NetDeviceFace ip port \<and> os fd (UdpTo ip port))))"

lemma hub_Send_bytes:
  "hub_Send os fd bytes md = (out, ok) \<Longrightarrow> x \<in> set out \<Longrightarrow> s_face x = fd \<and> s_data x = bytes"
  by (auto simp: hub_Send_def sendto_def split: option.splits if_splits dest!: hub_loop_sent dest: set_takeWhileD)

lemma face_Send_bytes:
  "face_Send os f p md = Inr (out, ok) \<Longrightarrow> x \<in> set out \<Longrightarrow> s_face x = fc_fd f \<and> s_data x = m_data (pk_buffer p)"
  by (auto simp: face_Send_def adhoc_Send_def sendto_def bindr_eq_Inr split: face_kind.splits if_splits
      dest: hub_Send_bytes)

lemma delivered_bytes:
  assumes "x \<in> set (delivered os s fd p md)"
  shows "s_face x = fd \<and> s_data x = m_data (pk_buffer p)"
proof -
  obtain f where f: "find_key fc_fd fd (l_heap s) = Some f"
    using assms by (auto simp: delivered_def face_at_def split: option.splits)
  obtain out ok where r: "face_Send os f p md = Inr (out, ok)"
    using assms f by (cases "face_Send os f p md") (auto simp: delivered_def face_at_def)
  have "x \<in> set out" using assms f r by (simp add: delivered_def face_at_def)
  from face_Send_bytes [OF r this] find_key_SomeD [OF f] show ?thesis by simp
qed

lemma delivered_plain:
  assumes "plain_face os s fd"
  shows "map s_face (delivered os s fd p md) = [fd]"
proof -
  obtain f where f: "find_key fc_fd fd (l_heap s) = Some f" and fd: "fc_fd f = fd"
    and k: "fc_kind f = LocalFace \<and> os fd Connected \<or> (\<exists>ip port. fc_kind f = NetDeviceFace ip port \<and> os fd (UdpTo ip port))"
    using assms find_key_SomeD by (fastforce simp: plain_face_def)
  from k show ?thesis
    using f fd by (auto simp: delivered_def face_at_def face_Send_def sendto_def)
qed

lemma delivered_same [simp]:
  "delivered os (s\<lparr>l_sent := x\<rparr>) fd p md = delivered os s fd p md"
  "delivered os (s\<lparr>l_pit := t\<rparr>) fd p md = delivered os s fd p md"
  "delivered os (s\<lparr>l_fib := b\<rparr>) fd p md = delivered os s fd p md"
  "delivered os (s\<lparr>l_contentStore := c\<rparr>) fd p md = delivered os s fd p md"
  "delivered os (mod_pit n g s) fd p md = delivered os s fd p md"
  by (simp_all add: delivered_def face_at_def mod_pit_def)

lemma plain_face_same [simp]:
  "plain_face os (s\<lparr>l_sent := x\<rparr>) fd = plain_face os s fd" "plain_face os (s\<lparr>l_pit := t\<rparr>) fd = plain_face os s fd"
  "plain_face os (s\<lparr>l_fib := b\<rparr>) fd = plain_face os s fd" "plain_face os (s\<lparr>l_contentStore := c\<rparr>) fd = plain_face os s fd"
  "plain_face os (mod_pit n g s) fd = plain_face os s fd"
  by (simp_all add: plain_face_def mod_pit_def)

lemma send_on_delivered:
  "send_on os fd p md s = Inr s' \<Longrightarrow> s' = s\<lparr>l_sent := l_sent s @ delivered os s fd p md\<rparr>"
  by (auto simp: send_on_def delivered_def bindr_eq_Inr)

lemma send_all_delivered:
  "foldr_res (\<lambda>i s. send_on os (g i) p md s) xs s = Inr s' \<Longrightarrow>
     s' = s\<lparr>l_sent := l_sent s @ concat (map (\<lambda>i. delivered os s (g i) p md) xs)\<rparr>"
proof (induction xs arbitrary: s)
  case (Cons x xs)
  then obtain s1 where s1: "send_on os (g x) p md s = Inr s1"
    and rest: "foldr_res (\<lambda>i s. send_on os (g i) p md s) xs s1 = Inr s'"
    by (auto simp: bindr_eq_Inr)
  let ?s1 = "s\<lparr>l_sent := l_sent s @ delivered os s (g x) p md\<rparr>"
  have "s1 = ?s1" by (rule send_on_delivered [OF s1])
  with rest have "foldr_res (\<lambda>i s. send_on os (g i) p md s) xs ?s1 = Inr s'" by simp
  from Cons.IH [OF this] show ?case by simp
qed simp

lemma concat_plain:
  "\<forall>i \<in> set xs. plain_face os s (g i) \<Longrightarrow>
     map s_face (concat (map (\<lambda>i. delivered os s (g i) p md) xs)) = map g xs"
  by (induction xs) (simp_all add: delivered_plain)

text \<open>
  Where a face sends to, in order: an application, or the peer of a device, once; an ad-hoc device one slot of its
  ring; the hub every recorded address up to the first that fails, or its default client.
\<close>

definition wires :: "os \<Rightarrow> face \<Rightarrow> source_list option \<Rightarrow> destination list" where
  "wires os f metadata =
     (case fc_kind f of
        LocalFace \<Rightarrow> filter (os (fc_fd f)) [Connected]
      | NetDeviceFace ip port \<Rightarrow> filter (os (fc_fd f)) [UdpTo ip port]
      | AdhocNetDeviceFace \<Rightarrow> filter (os (fc_fd f)) [AdhocRing]
      | HubOverIPDeviceFace \<Rightarrow> (case metadata of
          None \<Rightarrow> filter (os (fc_fd f)) [UdpTo DEFAULT_CLIENT_IP NDN_UDP_PORT]
        | Some l \<Rightarrow> takeWhile (os (fc_fd f)) (map (\<lambda>(ip, port). UdpTo ip port) l)))"

definition copies :: "os \<Rightarrow> l3 \<Rightarrow> byte list \<Rightarrow> source_list option \<Rightarrow> face_id \<Rightarrow> sent list" where
  "copies os s bytes metadata fd =
     (case find_key fc_fd fd (l_heap s) of
        None \<Rightarrow> []
      | Some f \<Rightarrow> map (\<lambda>d. \<lparr>s_face = fd, s_dest = d, s_data = bytes\<rparr>) (wires os f metadata))"

lemma face_Send_wires:
  "face_Send os f p md = Inr (out, ok) \<Longrightarrow>
     out = map (\<lambda>d. \<lparr>s_face = fc_fd f, s_dest = d, s_data = m_data (pk_buffer p)\<rparr>) (wires os f md)"
  by (cases "fc_kind f")
    (auto simp: face_Send_def adhoc_Send_def sendto_def hub_Send_def wires_def takeWhile_map comp_def split_def
      split: if_splits option.splits dest!: hub_loop_sent)

lemma send_on_copies:
  assumes "send_on os fd p md s = Inr s'"
  shows "delivered os s fd p md = copies os s (m_data (pk_buffer p)) md fd"
proof -
  obtain f where f: "find_key fc_fd fd (l_heap s) = Some f"
    using assms by (auto simp: send_on_def face_at_def bindr_eq_Inr split: option.splits)
  then obtain out ok where "face_Send os f p md = Inr (out, ok)"
    using assms by (auto simp: send_on_def face_at_def bindr_eq_Inr)
  with face_Send_wires [OF this] f find_key_SomeD [OF f] show ?thesis
    by (simp add: delivered_def face_at_def copies_def)
qed

lemma send_all_copies:
  "foldr_res (\<lambda>i s. send_on os (g i) p md s) xs s = Inr s' \<Longrightarrow> i \<in> set xs \<Longrightarrow>
     delivered os s (g i) p md = copies os s (m_data (pk_buffer p)) md (g i)"
proof (induction xs arbitrary: s)
  case (Cons x xs)
  then obtain s1 where s1: "send_on os (g x) p md s = Inr s1"
    and rest: "foldr_res (\<lambda>i s. send_on os (g i) p md s) xs s1 = Inr s'"
    by (auto simp: bindr_eq_Inr)
  let ?s1 = "s\<lparr>l_sent := l_sent s @ delivered os s (g x) p md\<rparr>"
  have "s1 = ?s1" by (rule send_on_delivered [OF s1])
  with rest have rest: "foldr_res (\<lambda>i s. send_on os (g i) p md s) xs ?s1 = Inr s'" by simp
  have "copies os ?s1 b md k = copies os s b md k" for b k by (simp add: copies_def)
  then show ?case using Cons.prems(2) send_on_copies [OF s1] Cons.IH [OF rest] by auto
qed simp

section \<open>Content that answers pending Interests\<close>

lemma Satisfy_result:
  assumes "SatisfyPendingInterests os n p s = Inr s'"
  shows "\<exists>e. pit_find (l_pit s) n = Some e \<and>
    s' = s\<lparr>l_sent := l_sent s @ concat (map (\<lambda>i. delivered os s (in_face i) p (pe_sourceMetadata e)) (pe_incoming e)),
           l_pit := pit_Remove n (l_pit s)\<rparr>"
proof -
  obtain e s1 where "entry_at n s = Inr e"
    and s1: "foldr_res (\<lambda>i s. send_on os (in_face i) p (pe_sourceMetadata e) s) (pe_incoming e) s = Inr s1"
    and s': "s' = s1\<lparr>l_pit := pit_Remove n (l_pit s1)\<rparr>"
    using assms by (auto simp: SatisfyPendingInterests_def bindr_eq_Inr)
  then show ?thesis
    using send_all_delivered [OF s1] by (auto simp: entry_at_def split: option.splits)
qed

lemma update_fib_status_result:
  assumes "update_fib_status n face st s = Inr s'"
  shows "\<exists>t. s' = s\<lparr>l_fib := t\<rparr>"
proof -
  have "\<exists>t. s = s\<lparr>l_fib := t\<rparr>" by (intro exI [of _ "l_fib s"]) simp
  with assms show ?thesis
    unfolding update_fib_status_def by (auto simp: bindr_eq_Inr split: option.splits)
qed

lemma cs_Add_contains:
  assumes "cs_inv c" and "cs_Add h p c = Inr (c', b)" and "ch_name h = Some n"
  shows "trie_lookup (pt_trie c') n =
    (case trie_lookup (pt_trie c) n of None \<Rightarrow> Some \<lparr>ce_header = h, ce_packet = p\<rparr> | Some e \<Rightarrow> Some e)"
proof -
  let ?e = "\<lparr>ce_header = h, ce_packet = p\<rparr>"
  have inv: "pt_inv c" using assms(1) by (simp add: cs_inv_def)
  obtain node where "pt_insert n ?e c = (c', node, b)" using assms(2,3) by (auto simp: cs_Add_eq)
  then have c': "c' = fst (pt_insert n ?e c)" by simp
  show ?thesis
  proof (cases "n \<in> tries.stored (pt_trie c)")
    case True
    then show ?thesis
      unfolding c' by (auto simp: pt_insert_old tries.lookup_ins tries.stored_def)
  next
    case False
    then have "n \<notin> set (evicted c)" using evicted_stored [OF inv] by blast
    with False show ?thesis
      unfolding c' by (simp add: pt_insert_new [OF False] lookup_pt_insert [OF inv False] tries.stored_def domIff)
  qed
qed

lemma free_metadata_buffer: "free_metadata p = Inr p' \<Longrightarrow> pk_buffer p' = pk_buffer p"
  by (auto simp: free_metadata_def split: option.splits ll_metadata.splits)

lemma OnData_result:
  assumes "OnData os face h p s = Inr s'" and "ch_name h = Some n" and "pit_find (l_pit s) n = Some e"
    and "find_key out_face face (pe_outgoing e) \<noteq> None"
  shows "\<exists>p' t c b. free_metadata p = Inr p' \<and> pk_buffer p' = pk_buffer p \<and> cs_Add h p' (l_contentStore s) = Inr (c, b) \<and>
    s' = s\<lparr>l_sent := l_sent s @ concat (map (\<lambda>i. delivered os s (in_face i) p' (pe_sourceMetadata e)) (pe_incoming e)),
           l_pit := pit_Remove n (l_pit s), l_fib := t, l_contentStore := c\<rparr>"
proof -
  have nm: "pe_prefix e = n" using pit_find_entry [OF assms(3)] by simp
  have look: "pit_LookupData h (l_pit s) = Inr e" using assms(2,3) by (simp add: pit_LookupData_def ch_GetName_def)
  have rest: "bindr (free_metadata p) (\<lambda>p.
      bindr (update_fib_status n face NDN_FIB_GREEN s) (\<lambda>s.
      bindr (cs_Add h p (l_contentStore s)) (\<lambda>(cs, added).
        SatisfyPendingInterests os n p (s\<lparr>l_contentStore := cs\<rparr>)))) = Inr s'"
    using assms(1,4) look nm by (simp add: OnData_def)
  obtain p' where p': "free_metadata p = Inr p'"
    using rest by (auto simp: bindr_eq_Inr)
  obtain s1 where s1: "update_fib_status n face NDN_FIB_GREEN s = Inr s1"
    using rest by (auto simp: bindr_eq_Inr)
  obtain t where t: "s1 = s\<lparr>l_fib := t\<rparr>" using update_fib_status_result [OF s1] by blast
  obtain c b where c: "cs_Add h p' (l_contentStore s) = Inr (c, b)"
    using rest p' s1 t by (auto simp: bindr_eq_Inr)
  have "SatisfyPendingInterests os n p' (s\<lparr>l_fib := t, l_contentStore := c\<rparr>) = Inr s'"
    using rest p' s1 t c by simp
  from Satisfy_result [OF this] assms(3)
  have "s' = s\<lparr>l_sent := l_sent s @ concat (map (\<lambda>i. delivered os s (in_face i) p' (pe_sourceMetadata e)) (pe_incoming e)),
           l_pit := pit_Remove n (l_pit s), l_fib := t, l_contentStore := c\<rparr>" by simp
  with c p' free_metadata_buffer [OF p'] show ?thesis by blast
qed

lemma Satisfy_copies:
  assumes "SatisfyPendingInterests os n p s = Inr s'" and "pit_find (l_pit s) n = Some e" and "i \<in> set (pe_incoming e)"
  shows "delivered os s (in_face i) p (pe_sourceMetadata e) =
    copies os s (m_data (pk_buffer p)) (pe_sourceMetadata e) (in_face i)"
proof -
  obtain s1 where "foldr_res (\<lambda>i s. send_on os (in_face i) p (pe_sourceMetadata e) s) (pe_incoming e) s = Inr s1"
    using assms(1,2) by (auto simp: SatisfyPendingInterests_def entry_at_def bindr_eq_Inr)
  from send_all_copies [OF this assms(3)] show ?thesis .
qed

text \<open>The FIB entry that the Interest was routed by, if any, learns that the face answers.\<close>

definition answers :: "nat option \<Rightarrow> face_id \<Rightarrow> l3 \<Rightarrow> fib" where
  "answers a face s =
     (case a of
        None \<Rightarrow> l_fib s
      | Some a \<Rightarrow> (case fib_at a s of
          Inl e \<Rightarrow> l_fib s | Inr fe \<Rightarrow> fib_modify (fe_prefix fe) (UpdateStatus face NDN_FIB_GREEN) (l_fib s)))"

lemma OnData_parts:
  assumes "OnData os face h p s = Inr s'" and "ch_name h = Some n" and "pit_find (l_pit s) n = Some e"
    and "find_key out_face face (pe_outgoing e) \<noteq> None"
  shows "\<exists>p' c b. free_metadata p = Inr p' \<and> cs_Add h p' (l_contentStore s) = Inr (c, b) \<and>
    SatisfyPendingInterests os n p' (s\<lparr>l_fib := answers (pe_fibEntry e) face s, l_contentStore := c\<rparr>) = Inr s'"
proof -
  have nm: "pe_prefix e = n" using pit_find_entry [OF assms(3)] by simp
  have look: "pit_LookupData h (l_pit s) = Inr e" using assms(2,3) by (simp add: pit_LookupData_def ch_GetName_def)
  obtain p' s1 where p': "free_metadata p = Inr p'" and s1: "update_fib_status n face NDN_FIB_GREEN s = Inr s1"
    and rest: "bindr (cs_Add h p' (l_contentStore s1)) (\<lambda>(cs, added).
        SatisfyPendingInterests os n p' (s1\<lparr>l_contentStore := cs\<rparr>)) = Inr s'"
    using assms(1,4) look nm by (auto simp: OnData_def bindr_eq_Inr)
  have "s1 = s\<lparr>l_fib := answers (pe_fibEntry e) face s\<rparr>"
    using s1 assms(3) by (auto simp: update_fib_status_def entry_at_def answers_def bindr_eq_Inr split: option.splits)
  with p' rest show ?thesis by (auto simp: bindr_eq_Inr)
qed

section \<open>Properties of delivery\<close>

text \<open>
  C4: content (a packet with valid metadata, fit for the ring when there is an ad-hoc face) whose name has a
  pending entry, and that arrives on a face which that entry was forwarded to, is
  delivered. The handler succeeds, and what it sends is exactly, for every face that asked, once each and
  in the order of the entry, the bytes of the content: to the socket of an application or to the peer of a
  device, into one slot of the ring of an ad-hoc device, to every address that was recorded for
  the hub (up to the first that fails; its default client when none was), each as far as the operating system accepts it. The pending entry goes, no
  other entry changes, the face becomes green in the FIB entry that the Interest was routed by, and
  the content store keeps what it has under the name, or else gets this content.
\<close>

theorem data_satisfies:
  assumes "l3_inv s" and "packet_ok s p" and "ch_name h = Some n" and "pit_find (l_pit s) n = Some e"
    and "find_key out_face face (pe_outgoing e) \<noteq> None"
  shows "\<exists>s' p'. OnData os face h p s = Inr s' \<and>
    l_sent s' = l_sent s @ concat (map (copies os s (m_data (pk_buffer p)) (pe_sourceMetadata e) \<circ> in_face) (pe_incoming e)) \<and>
    distinct (map in_face (pe_incoming e)) \<and> (\<forall>i \<in> set (pe_incoming e). find_key fc_fd (in_face i) (l_heap s) \<noteq> None) \<and>
    (\<forall>m. pit_find (l_pit s') m = (if m = n then None else pit_find (l_pit s) m)) \<and>
    l_fib s' = answers (pe_fibEntry e) face s \<and>
    trie_lookup (pt_trie (l_contentStore s')) n =
      (case trie_lookup (pt_trie (l_contentStore s)) n of
         None \<Rightarrow> Some \<lparr>ce_header = h, ce_packet = p'\<rparr> | Some old \<Rightarrow> Some old) \<and>
    pk_buffer p' = pk_buffer p"
proof -
  have "post {} (\<lambda>s'. l3_inv s' \<and> same_heap s s') (OnData os face h p s)"
    by (rule post_OnData [OF assms(1) _ assms(2)]) (simp add: assms(3))
  then obtain s' where s': "OnData os face h p s = Inr s'"
    by (cases "OnData os face h p s") auto
  from OnData_parts [OF s' assms(3,4,5)] obtain p' c b where p': "free_metadata p = Inr p'"
    and add: "cs_Add h p' (l_contentStore s) = Inr (c, b)"
    and sat: "SatisfyPendingInterests os n p' (s\<lparr>l_fib := answers (pe_fibEntry e) face s, l_contentStore := c\<rparr>) = Inr s'"
    by blast
  let ?s = "s\<lparr>l_fib := answers (pe_fibEntry e) face s, l_contentStore := c\<rparr>" and ?md = "pe_sourceMetadata e"
  note bytes = free_metadata_buffer [OF p']
  have e: "pit_find (l_pit ?s) n = Some e" using assms(4) by simp
  have "copies os ?s (m_data (pk_buffer p)) ?md k = copies os s (m_data (pk_buffer p)) ?md k" for k
    by (simp add: copies_def)
  with Satisfy_copies [OF sat e] bytes
  have one: "delivered os ?s (in_face i) p' ?md = copies os s (m_data (pk_buffer p)) ?md (in_face i)"
    if "i \<in> set (pe_incoming e)" for i using that by simp
  then have all: "map (\<lambda>i. delivered os ?s (in_face i) p' ?md) (pe_incoming e) =
      map (copies os s (m_data (pk_buffer p)) ?md \<circ> in_face) (pe_incoming e)" by (intro map_cong) simp_all
  have eq: "s' = ?s\<lparr>l_sent := l_sent s @ concat (map (copies os s (m_data (pk_buffer p)) ?md \<circ> in_face) (pe_incoming e)),
      l_pit := pit_Remove n (l_pit s)\<rparr>"
    using Satisfy_result [OF sat] e all [unfolded delivered_same] by (simp only: delivered_same option.inject ex_simps) simp
  have cs: "cs_inv (l_contentStore s)" and pit: "pit_inv (l_pit s)" and ok: "entry_ok s e"
    using assms(1,4) by (simp_all add: l3_inv_def)
  have "pe_inv e" using pit pit_find_entry [OF assms(4)] by (auto simp: pit_inv_def)
  moreover have "find_key fc_fd (in_face i) (l_heap s) \<noteq> None" if "i \<in> set (pe_incoming e)" for i
    using ok that by (auto simp: entry_ok_def entry_faces_def fds_def find_key_None)
  ultimately show ?thesis
    using s' bytes cs_Add_contains [OF cs add assms(3)]
    by (intro exI [of _ s'] exI [of _ p']) (simp add: eq pit_find_Remove pe_inv_def)
qed

text \<open>
  Content nobody waits for is not sent anywhere: without a pending entry it is at most cached, and
  when it arrives on a face its Interest was not sent to, nothing at all changes.
\<close>

theorem data_unsolicited:
  assumes "ch_name h = Some n"
    and "\<forall>e. pit_find (l_pit s) n = Some e \<longrightarrow> find_key out_face face (pe_outgoing e) = None"
  shows "\<exists>s'. OnData os face h p s = Inr s' \<and> s' = s\<lparr>l_contentStore := l_contentStore s'\<rparr> \<and>
    (pit_find (l_pit s) n \<noteq> None \<or> \<not> l_cacheUnsolicitedData s \<longrightarrow> s' = s) \<and>
    (l3_inv s \<and> pit_find (l_pit s) n = None \<and> l_cacheUnsolicitedData s \<longrightarrow>
       trie_lookup (pt_trie (l_contentStore s')) n \<noteq> None)"
proof (cases "pit_find (l_pit s) n")
  case (Some e)
  then have "OnData os face h p s = Inr s"
    using assms by (simp add: OnData_def pit_LookupData_def ch_GetName_def)
  with Some show ?thesis by (intro exI [of _ s]) simp
next
  case None
  obtain c b where add: "cs_Add h p (l_contentStore s) = Inr (c, b)"
    using post_cs_Add [of h "{}" p "l_contentStore s"] assms(1) by (cases "cs_Add h p (l_contentStore s)") auto
  have r: "OnData os face h p s = Inr (if l_cacheUnsolicitedData s then s\<lparr>l_contentStore := c\<rparr> else s)"
    using None assms(1) add by (simp add: OnData_def pit_LookupData_def ch_GetName_def HandleUnsolicitedData_def)
  have "trie_lookup (pt_trie c) n \<noteq> None" if "l3_inv s"
    using cs_Add_contains [OF _ add assms(1)] that by (simp add: l3_inv_def split: option.splits)
  then show ?thesis
    using r None
    by (intro exI [of _ "if l_cacheUnsolicitedData s then s\<lparr>l_contentStore := c\<rparr> else s"]) simp
qed

section \<open>A running daemon that shows the hypotheses to be satisfiable\<close>

definition sample_os :: os where
  "sample_os fd d = True"

definition sample_boot :: l3 where
  "sample_boot = boot [NDNFace LocalFace 3, NDNFace LocalFace 4]"

definition sample_header :: interest_header where
  "sample_header = InterestHeader_new\<lparr>ih_name := Some [''a''], ih_nonce := 7\<rparr>"

definition sample_packet :: packet where
  "sample_packet = \<lparr>pk_buffer = Buffer_new, pk_llmetadata = None, pk_linked = True\<rparr>"

text \<open>The state after an Interest for \<open>/a\<close> arrived on face 3.\<close>

definition sample_pending :: l3 where
  "sample_pending = (case OnInterest sample_os 0 3 sample_header sample_packet sample_boot of
     Inl e \<Rightarrow> sample_boot | Inr s \<Rightarrow> s)"

lemma sample_boot_inv: "l3_inv sample_boot"
  unfolding sample_boot_def by (rule boot_inv) (simp add: NDNFace_def)

lemma sample_boot_fds: "fds sample_boot = {3, 4}"
proof -
  have "map fc_fd (l_heap sample_boot) = [3, 4]" by code_simp
  from arg_cong [OF this, of set] show ?thesis by (simp add: fds_def)
qed

lemma sample_packet_ok: "packet_ok s sample_packet" and sample_sendable: "sendable s sample_packet"
  by (simp_all add: packet_ok_def sendable_def sample_packet_def Buffer_new_def)

lemma sample_step: "OnInterest sample_os 0 3 sample_header sample_packet sample_boot = Inr sample_pending"
proof -
  have "(case OnInterest sample_os 0 3 sample_header sample_packet sample_boot of Inl e \<Rightarrow> False | Inr s \<Rightarrow> True)"
    by code_simp
  then show ?thesis by (simp add: sample_pending_def split: sum.splits)
qed

lemma sample_pending_inv: "l3_inv sample_pending"
proof -
  have "post UNIV (\<lambda>s'. l3_inv s' \<and> same_heap sample_boot s') (OnInterest sample_os 0 3 sample_header sample_packet sample_boot)"
    by (rule post_OnInterest [OF sample_boot_inv _ _ sample_packet_ok])
      (simp_all add: sample_header_def sample_boot_fds)
  then show ?thesis by (simp add: sample_step)
qed

lemma sample_pending_entry:
  "\<exists>e. pit_find (l_pit sample_pending) [''a''] = Some e \<and> map in_face (pe_incoming e) = [3] \<and>
     find_key out_face 4 (pe_outgoing e) \<noteq> None"
proof -
  have "map_option (\<lambda>e. (map in_face (pe_incoming e), find_key out_face 4 (pe_outgoing e) \<noteq> None))
      (pit_find (l_pit sample_pending) [''a'']) = Some ([3], True)" by code_simp
  then show ?thesis by auto
qed

lemma sample_plain: "plain_face sample_os sample_pending 3"
proof -
  have "map_option fc_kind (find_key fc_fd 3 (l_heap sample_pending)) = Some LocalFace" by code_simp
  then show ?thesis by (auto simp: plain_face_def sample_os_def)
qed

text \<open>Faces of all kinds asked: an application, a peer over UDP, and two addresses behind the hub.\<close>

definition sample_asking :: l3 where
  "sample_asking =
     (let s = boot [NDNFace LocalFace 3, NDNFace (NetDeviceFace 1 2) 5, NDNFace HubOverIPDeviceFace 6, NDNFace LocalFace 4];
          e = (NDNPitEntry 0 [''a''] 5 None)
      in s\<lparr>l_pit := pit_insert (AddOutgoing 0 4 (setSourceMetadata (addIP 8 9 (addIP 6 7 []))
           (AddIncoming 0 6 (AddIncoming 0 5 (AddIncoming 0 3 e))))) (l_pit s)\<rparr>)"

lemma sample_asking_entry:
  "\<exists>e. pit_find (l_pit sample_asking) [''a''] = Some e \<and> map in_face (pe_incoming e) = [3, 5, 6] \<and>
     pe_sourceMetadata e = Some (addIP 8 9 (addIP 6 7 [])) \<and> find_key out_face 4 (pe_outgoing e) \<noteq> None"
proof -
  have "map_option (\<lambda>e. (map in_face (pe_incoming e), pe_sourceMetadata e, find_key out_face 4 (pe_outgoing e) \<noteq> None))
      (pit_find (l_pit sample_asking) [''a'']) = Some ([3, 5, 6], Some (addIP 8 9 (addIP 6 7 [])), True)" by code_simp
  then show ?thesis by auto
qed

lemma sample_asking_inv: "l3_inv sample_asking"
proof -
  let ?d = "[NDNFace LocalFace 3, NDNFace (NetDeviceFace 1 2) 5, NDNFace HubOverIPDeviceFace 6, NDNFace LocalFace 4]"
  let ?e = "AddOutgoing 0 4 (setSourceMetadata (addIP 8 9 (addIP 6 7 []))
     (AddIncoming 0 6 (AddIncoming 0 5 (AddIncoming 0 3 (NDNPitEntry 0 [''a''] 5 None)))))"
  have d: "distinct (map fc_fd ?d)" by (simp add: NDNFace_def)
  note b = boot_heap [OF d]
  have s: "sample_asking = (boot ?d)\<lparr>l_pit := pit_insert ?e NDNPit\<rparr>"
    using b by (simp add: sample_asking_def Let_def)
  have e: "pe_inv ?e" by (intro pe_inv_ops AddOutgoing_inv) (simp add: pe_inv_def NDNPitEntry_def)
  have pfx: "pe_prefix ?e = [''a'']" by simp
  have "pit_inv (pit_insert ?e NDNPit)"
    by (rule pit_insert_inv [OF pit_new_inv e]) (simp add: pit_find_def NDNPit_def)
  moreover have "pit_find (pit_insert ?e NDNPit) n = (if n = [''a''] then Some ?e else None)" for n
  proof -
    have "pit_find NDNPit k = None" for k by (simp add: pit_find_def NDNPit_def)
    then show ?thesis using pfx by (simp add: pit_find_insert)
  qed
  moreover have "entry_faces ?e \<subseteq> {3, 5, 6, 4}" by code_simp
  moreover have "fds (boot ?d) = {3, 5, 6, 4}" using b by (simp add: fds_def NDNFace_def)
  moreover have "pe_fibEntry ?e = None" by simp
  ultimately show ?thesis using boot_inv [OF d] unfolding s by (auto simp: l3_inv_def entry_ok_def sendable_def)
qed

theorem data_satisfies_witness:
  "\<exists>s'. OnData sample_os 4 (header_of [''a'']) sample_packet sample_asking = Inr s' \<and>
     map (\<lambda>x. (s_face x, s_dest x)) (l_sent s') = [(3, Connected), (5, UdpTo 1 2), (6, UdpTo 8 9), (6, UdpTo 6 7)] \<and>
     pit_find (l_pit s') [''a''] = None"
proof -
  obtain e where e: "pit_find (l_pit sample_asking) [''a''] = Some e" "map in_face (pe_incoming e) = [3, 5, 6]"
    "pe_sourceMetadata e = Some (addIP 8 9 (addIP 6 7 []))" "find_key out_face 4 (pe_outgoing e) \<noteq> None"
    using sample_asking_entry by (elim exE conjE)
  have nm: "ch_name (header_of [''a'']) = Some [''a'']" by (simp add: header_of_def)
  from data_satisfies [OF sample_asking_inv sample_packet_ok nm e(1,4), of sample_os]
  obtain s' where s': "OnData sample_os 4 (header_of [''a'']) sample_packet sample_asking = Inr s'"
    and sent: "l_sent s' = l_sent sample_asking @ concat (map (copies sample_os sample_asking (m_data (pk_buffer sample_packet))
        (pe_sourceMetadata e) \<circ> in_face) (pe_incoming e))"
    and gone: "\<forall>m. pit_find (l_pit s') m = (if m = [''a''] then None else pit_find (l_pit sample_asking) m)"
    by (elim exE conjE) (rule that)
  have none: "l_sent sample_asking = []" and empty: "m_data (pk_buffer sample_packet) = []" by code_simp+
  have "concat (map (copies sample_os sample_asking b md \<circ> in_face) (pe_incoming e)) =
      concat (map (copies sample_os sample_asking b md) [3, 5, 6])" for b md using e(2) by (metis map_map)
  with sent none empty e(3)
  have "l_sent s' = concat (map (copies sample_os sample_asking [] (Some (addIP 8 9 (addIP 6 7 [])))) [3, 5, 6])" by simp
  moreover have "map (\<lambda>x. (s_face x, s_dest x)) (concat (map (copies sample_os sample_asking [] (Some (addIP 8 9 (addIP 6 7 [])))) [3, 5, 6])) =
      [(3, Connected), (5, UdpTo 1 2), (6, UdpTo 8 9), (6, UdpTo 6 7)]" by code_simp
  ultimately have "map (\<lambda>x. (s_face x, s_dest x)) (l_sent s') = [(3, Connected), (5, UdpTo 1 2), (6, UdpTo 8 9), (6, UdpTo 6 7)]"
    by (simp only:)
  moreover have "pit_find (l_pit s') [''a''] = None" using gone by simp
  ultimately show ?thesis using s' by (intro exI [of _ s'] conjI)
qed

theorem data_unsolicited_witness:
  "\<exists>s'. OnData sample_os 4 (header_of [''b'']) sample_packet sample_boot = Inr s' \<and>
     s' = sample_boot\<lparr>l_contentStore := l_contentStore s'\<rparr>"
proof -
  have nm: "ch_name (header_of [''b'']) = Some [''b'']" by (simp add: header_of_def)
  have "pit_find (l_pit sample_boot) [''b''] = None" by code_simp
  then have "\<forall>e. pit_find (l_pit sample_boot) [''b''] = Some e \<longrightarrow> find_key out_face 4 (pe_outgoing e) = None" by simp
  from data_unsolicited [OF nm this, of sample_os sample_packet] show ?thesis by blast
qed

end
