(* ===== verification/Propagate.thy ===== *)
theory Propagate
  imports Delivery
begin

text \<open>
  Where Interests go: the green faces of the FIB entry in metric order first, then flooding, and the
  stages of the Interest handler up to that decision.
\<close>

section \<open>Green forwarding\<close>

text \<open>
  A face the strategy may use: green, not one that asked, not retransmitted to too often, and below
  its limit.
\<close>

definition usable :: "time \<Rightarrow> l3 \<Rightarrow> pit_entry \<Rightarrow> face_metric \<Rightarrow> bool" where
  "usable now s e m \<longleftrightarrow> fm_status m = NDN_FIB_GREEN \<and> find_key in_face (fm_face m) (pe_incoming e) = None \<and>
     (case find_key out_face (fm_face m) (pe_outgoing e) of None \<Rightarrow> True | Some o1 \<Rightarrow> out_retxCount o1 < pe_maxRetxCount e) \<and>
     (case find_key fc_fd (fm_face m) (l_heap s) of None \<Rightarrow> False | Some f \<Rightarrow> snd (IsBelowLimit now f))"

text \<open>Two states whose faces differ in their buckets only send the same.\<close>

definition same_sending :: "l3 \<Rightarrow> l3 \<Rightarrow> bool" where
  "same_sending s s' \<longleftrightarrow> (\<forall>fd. map_option fc_kind (find_key fc_fd fd (l_heap s')) = map_option fc_kind (find_key fc_fd fd (l_heap s)))"

lemma face_Send_cong: "fc_kind f = fc_kind g \<Longrightarrow> fc_fd f = fc_fd g \<Longrightarrow> face_Send os f p md = face_Send os g p md"
  by (cases "fc_kind g") (simp_all add: face_Send_def cong: option.case_cong)

lemma delivered_cong:
  assumes "same_sending s s'"
  shows "delivered os s' fd p md = delivered os s fd p md"
proof (cases "find_key fc_fd fd (l_heap s)")
  case None
  moreover have "map_option fc_kind (find_key fc_fd fd (l_heap s')) = map_option fc_kind (find_key fc_fd fd (l_heap s))"
    using assms by (simp add: same_sending_def)
  ultimately have "find_key fc_fd fd (l_heap s') = None" by simp
  with None show ?thesis by (simp add: delivered_def face_at_def)
next
  case (Some f)
  moreover have "map_option fc_kind (find_key fc_fd fd (l_heap s')) = map_option fc_kind (find_key fc_fd fd (l_heap s))"
    using assms by (simp add: same_sending_def)
  ultimately obtain g where g: "find_key fc_fd fd (l_heap s') = Some g" and "fc_kind g = fc_kind f" by auto
  then have "face_Send os g p md = face_Send os f p md"
    using find_key_SomeD [OF Some] find_key_SomeD [OF g] by (intro face_Send_cong) simp_all
  with Some g show ?thesis by (simp add: delivered_def face_at_def)
qed

lemma below_limit_result:
  assumes "below_limit now fd s = Inr (s', ok)"
  shows "\<exists>f. find_key fc_fd fd (l_heap s) = Some f \<and> ok = snd (IsBelowLimit now f) \<and>
    s' = s\<lparr>l_heap := modify_key fc_fd fd (\<lambda>f. fst (IsBelowLimit now f)) (l_heap s)\<rparr> \<and> same_sending s s' \<and>
    (\<forall>k. k \<noteq> fd \<longrightarrow> find_key fc_fd k (l_heap s') = find_key fc_fd k (l_heap s))"
  using assms
  by (auto simp: below_limit_def face_at_def bindr_eq_Inr same_sending_def find_modify_key option.map_comp comp_def
      split: option.splits)

lemma status_mono: "metric_key a \<le> metric_key b \<Longrightarrow> fm_status a \<noteq> NDN_FIB_GREEN \<Longrightarrow> fm_status b \<noteq> NDN_FIB_GREEN"
  by (cases "fm_status a"; cases "fm_status b") (auto simp: metric_key_def less_eq_prod_def less_Status_def less_eq_Status_def)

lemma green_loop_result:
  assumes "green_loop os now n p ms s = Inr (s', ok)" and "pit_find (l_pit s) n = Some e"
    and "sorted (map metric_key ms)" and "distinct (map fm_face ms)"
    and "\<forall>m \<in> set ms. find_key fc_fd (fm_face m) (l_heap s) = find_key fc_fd (fm_face m) (l_heap s0)"
    and "same_sending s0 s"
  shows "case find (usable now s0 e) ms of
      None \<Rightarrow> \<not> ok \<and> l_sent s' = l_sent s \<and> l_pit s' = l_pit s \<and> l_fib s' = l_fib s
    | Some m \<Rightarrow> ok \<and> l_sent s' = l_sent s @ delivered os s0 (fm_face m) p None \<and>
        l_pit s' = pit_modify n (AddOutgoing now (fm_face m)) (l_pit s) \<and> l_fib s' = l_fib s"
  using assms
proof (induction ms arbitrary: s)
  case (Cons m ms)
  have entry: "entry_at n s = Inr e" using Cons.prems(2) by (simp add: entry_at_def)
  show ?case
  proof (cases "fm_status m = NDN_FIB_GREEN")
    case False
    then have "find (usable now s0 e) (m # ms) = None"
      using Cons.prems(3) status_mono by (fastforce simp: find_None_iff usable_def)
    moreover have "s' = s \<and> \<not> ok"
      using Cons.prems(1) False by (cases "fm_status m") auto
    ultimately show ?thesis by simp
  next
    case green: True
    have IH: ?thesis if "\<not> usable now s0 e m" "green_loop os now n p ms s1 = Inr (s', ok)" "l_pit s1 = l_pit s"
      "l_sent s1 = l_sent s" "l_fib s1 = l_fib s"
      "\<forall>m \<in> set ms. find_key fc_fd (fm_face m) (l_heap s1) = find_key fc_fd (fm_face m) (l_heap s0)" "same_sending s0 s1" for s1
      using Cons.IH [OF that(2)] Cons.prems(2-4) that by (cases "find (usable now s0 e) ms") simp_all
    let ?skip = "find_key in_face (fm_face m) (pe_incoming e) \<noteq> None \<or>
        (case find_key out_face (fm_face m) (pe_outgoing e) of None \<Rightarrow> False | Some o1 \<Rightarrow> out_retxCount o1 \<ge> pe_maxRetxCount e)"
    show ?thesis
    proof (cases ?skip)
      case True
      then have "green_loop os now n p ms s = Inr (s', ok)"
        using Cons.prems(1) entry green by (auto split: if_splits)
      moreover have "\<not> usable now s0 e m" using True by (auto simp: usable_def split: option.splits)
      ultimately show ?thesis using IH [of s] Cons.prems(5,6) by simp
    next
      case False
      then obtain s1 free where b: "below_limit now (fm_face m) s = Inr (s1, free)"
        and rest: "(if \<not> free then green_loop os now n p ms s1
          else bindr (send_on os (fm_face m) p None (mod_pit n (AddOutgoing now (fm_face m)) s1)) (\<lambda>s. Inr (s, True))) = Inr (s', ok)"
        using Cons.prems(1) entry green by (auto simp: bindr_eq_Inr split: if_splits)
      obtain f where f: "find_key fc_fd (fm_face m) (l_heap s) = Some f" and free: "free = snd (IsBelowLimit now f)"
        and s1: "s1 = s\<lparr>l_heap := modify_key fc_fd (fm_face m) (\<lambda>f. fst (IsBelowLimit now f)) (l_heap s)\<rparr>"
        and same: "same_sending s s1"
        and others: "\<forall>k. k \<noteq> fm_face m \<longrightarrow> find_key fc_fd k (l_heap s1) = find_key fc_fd k (l_heap s)"
        using below_limit_result [OF b] by blast
      have same0: "same_sending s0 s1" using same Cons.prems(6) by (simp add: same_sending_def)
      have u: "usable now s0 e m \<longleftrightarrow> free"
        using False green f free Cons.prems(5) by (auto simp: usable_def not_le split: option.splits)
      show ?thesis
      proof (cases free)
        case True
        then have "send_on os (fm_face m) p None (mod_pit n (AddOutgoing now (fm_face m)) s1) = Inr s'" "ok"
          using rest by (auto simp: bindr_eq_Inr)
        from send_on_delivered [OF this(1)] this(2) u True delivered_cong [OF same0]
        show ?thesis by (simp add: s1 mod_pit_def)
      next
        case False
        have "\<forall>x \<in> set ms. fm_face x \<noteq> fm_face m" using Cons.prems(4) by (auto simp: image_iff)
        then have "\<forall>x \<in> set ms. find_key fc_fd (fm_face x) (l_heap s1) = find_key fc_fd (fm_face x) (l_heap s0)"
          using others Cons.prems(5) by simp
        with IH [of s1] rest False u same0 show ?thesis by (simp add: s1)
      qed
    qed
  qed
qed simp

section \<open>Flooding\<close>

definition free_face :: "time \<Rightarrow> l3 \<Rightarrow> face_id \<Rightarrow> bool" where
  "free_face now s fd \<longleftrightarrow> (case find_key fc_fd fd (l_heap s) of None \<Rightarrow> False | Some f \<Rightarrow> snd (IsBelowLimit now f))"

lemma flood_loop_result:
  assumes "flood_loop os now n p faces k s = Inr (s', c)" and "distinct faces"
    and "\<forall>fd \<in> set faces. find_key fc_fd fd (l_heap s) = find_key fc_fd fd (l_heap s0)" and "same_sending s0 s"
  shows "l_sent s' = l_sent s @ concat (map (\<lambda>fd. delivered os s0 fd p None) (filter (free_face now s0) faces)) \<and>
    l_pit s' = fold (\<lambda>fd. pit_modify n (AddOutgoing now fd)) (filter (free_face now s0) faces) (l_pit s) \<and>
    c = k + length (filter (free_face now s0) faces) \<and> l_fib s' = l_fib s"
  using assms
proof (induction faces arbitrary: s k)
  case (Cons fd faces)
  obtain s1 free where b: "below_limit now fd s = Inr (s1, free)"
    and rest: "(if \<not> free then flood_loop os now n p faces k s1
      else bindr (send_on os fd p None (mod_pit n (AddOutgoing now fd) s1)) (flood_loop os now n p faces (k + 1))) = Inr (s', c)"
    using Cons.prems(1) by (auto simp: bindr_eq_Inr)
  obtain f where f: "find_key fc_fd fd (l_heap s) = Some f" and free: "free = snd (IsBelowLimit now f)"
    and s1: "s1 = s\<lparr>l_heap := modify_key fc_fd fd (\<lambda>f. fst (IsBelowLimit now f)) (l_heap s)\<rparr>"
    and same: "same_sending s s1"
    and others: "\<forall>k. k \<noteq> fd \<longrightarrow> find_key fc_fd k (l_heap s1) = find_key fc_fd k (l_heap s)"
    using below_limit_result [OF b] by blast
  have same0: "same_sending s0 s1" using same Cons.prems(4) by (simp add: same_sending_def)
  have "find_key fc_fd fd (l_heap s0) = Some f" using Cons.prems(3) f by simp
  then have ff: "free_face now s0 fd \<longleftrightarrow> free" by (simp add: free_face_def free)
  have heap: "\<forall>x \<in> set faces. find_key fc_fd x (l_heap s1) = find_key fc_fd x (l_heap s0)"
    using others Cons.prems(2,3) by auto
  show ?case
  proof (cases free)
    case False
    then have "flood_loop os now n p faces k s1 = Inr (s', c)" using rest by simp
    from Cons.IH [OF this _ heap same0] Cons.prems(2) ff False show ?thesis by (simp add: s1)
  next
    case True
    then obtain s2 where s2: "send_on os fd p None (mod_pit n (AddOutgoing now fd) s1) = Inr s2"
      and r2: "flood_loop os now n p faces (k + 1) s2 = Inr (s', c)"
      using rest by (auto simp: bindr_eq_Inr)
    have e2: "s2 = (mod_pit n (AddOutgoing now fd) s1)\<lparr>l_sent := l_sent s1 @ delivered os s1 fd p None\<rparr>"
      using send_on_delivered [OF s2] by (simp add: mod_pit_def)
    then have "l_heap s2 = l_heap s1" by (simp add: mod_pit_def)
    then have "\<forall>x \<in> set faces. find_key fc_fd x (l_heap s2) = find_key fc_fd x (l_heap s0)" "same_sending s0 s2"
      using heap same0 by (simp_all add: same_sending_def)
    from Cons.IH [OF r2 _ this] Cons.prems(2) ff True delivered_cong [OF same0]
    show ?thesis by (simp add: e2 mod_pit_def s1)
  qed
qed simp

text \<open>A face that is refused is refused again at the same moment.\<close>

lemma LeakBucket_again: "LeakBucket now (LeakBucket now f) = LeakBucket now f"
proof -
  have "seconds_field 0 = 0" by (simp add: seconds_field_def)
  then show ?thesis by (cases "fc_lastLeakTime f") (auto simp: LeakBucket_def Let_def)
qed

lemma refused_again: "\<not> snd (IsBelowLimit now f) \<Longrightarrow> \<not> snd (IsBelowLimit now (fst (IsBelowLimit now f)))"
  by (auto simp: IsBelowLimit_def Let_def LeakBucket_again split: if_splits)

lemma green_loop_refused:
  assumes "green_loop os now n p ms s = Inr (s', False)"
  shows "l_sent s' = l_sent s \<and> l_pit s' = l_pit s \<and> l_fib s' = l_fib s \<and> l_faces s' = l_faces s \<and>
    same_sending s s' \<and> (\<forall>fd. free_face now s' fd \<longleftrightarrow> free_face now s fd)"
  using assms
proof (induction ms arbitrary: s)
  case (Cons m ms)
  show ?case
  proof (cases "green_loop os now n p ms s = Inr (s', False) \<or> s' = s")
    case True
    then show ?thesis using Cons.IH by (auto simp: same_sending_def)
  next
    case False
    then obtain s1 where b: "below_limit now (fm_face m) s = Inr (s1, False)"
      and rest: "green_loop os now n p ms s1 = Inr (s', False)"
      using Cons.prems by (auto simp: bindr_eq_Inr split: if_splits)
    obtain f where f: "find_key fc_fd (fm_face m) (l_heap s) = Some f" and free: "\<not> snd (IsBelowLimit now f)"
      and s1: "s1 = s\<lparr>l_heap := modify_key fc_fd (fm_face m) (\<lambda>f. fst (IsBelowLimit now f)) (l_heap s)\<rparr>"
      and same: "same_sending s s1"
      using below_limit_result [OF b] by blast
    have "free_face now s1 fd \<longleftrightarrow> free_face now s fd" for fd
    proof (cases "fd = fm_face m")
      case True
      then show ?thesis using f free refused_again [OF free] by (simp add: free_face_def s1 find_modify_key)
    next
      case False
      then show ?thesis by (simp add: free_face_def s1 find_modify_key)
    qed
    with Cons.IH [OF rest] same show ?thesis by (simp add: s1 same_sending_def)
  qed
qed (simp add: same_sending_def)

section \<open>The decision as a whole\<close>

text \<open>
  C6: an Interest with a FIB entry goes to exactly one usable green face when there is one, the first in
  metric order, so of least status and cost among the usable ones; that face is recorded as outgoing.
  When there is none, green forwarding sends nothing and changes no table.
\<close>

theorem green_forwarding:
  assumes "l3_inv s" and "sendable s p" and "pit_find (l_pit s) n = Some e" and "pe_fibEntry e = Some a"
    and "fe \<in> set (f_entries (l_fib s))" and "fe_addr fe = a"
  shows "\<exists>s' ok. PropagateInterestViaGreen os now n p s = Inr (s', ok) \<and> l_fib s' = l_fib s \<and>
    (case find (usable now s e) (fe_faces fe) of
       None \<Rightarrow> \<not> ok \<and> l_sent s' = l_sent s \<and> l_pit s' = l_pit s
     | Some m \<Rightarrow> ok \<and> l_sent s' = l_sent s @ delivered os s (fm_face m) p None \<and>
         l_pit s' = pit_modify n (AddOutgoing now (fm_face m)) (l_pit s) \<and>
         (\<forall>m' \<in> set (fe_faces fe). usable now s e m' \<longrightarrow> metric_key m \<le> metric_key m'))"
proof -
  have fib: "fib_inv (l_fib s)" using assms(1) by (simp add: l3_inv_def)
  have fe: "sorted (map metric_key (fe_faces fe))" "distinct (map fm_face (fe_faces fe))"
    using fib assms(5) by (auto simp: fib_inv_def entry_inv_def linked_inv_def)
  have at: "fib_at a s = Inr fe"
    using find_key_in [of fe_addr "f_entries (l_fib s)" fe] fib assms(5,6) by (simp add: fib_at_def fib_inv_def)
  have eq: "PropagateInterestViaGreen os now n p s = green_loop os now n p (fe_faces fe) s"
    using assms(3,4) at by (simp add: PropagateInterestViaGreen_def entry_at_def)
  have "ctx n s s" using assms(1,3) by (simp add: ctx_def)
  moreover have "fm_face ` set (fe_faces fe) \<subseteq> fds s" using assms(1,5) by (simp add: l3_inv_def)
  ultimately have "post {} (\<lambda>(s', ok). ctx n s s') (green_loop os now n p (fe_faces fe) s)"
    by (rule ctx_green_loop) (simp add: assms(2))
  then obtain s' ok where r: "green_loop os now n p (fe_faces fe) s = Inr (s', ok)"
    by (cases "green_loop os now n p (fe_faces fe) s") auto
  have least: "\<forall>m' \<in> set ms. P m' \<longrightarrow> metric_key m \<le> metric_key m'"
    if "find P ms = Some m" "sorted (map metric_key ms)" for P m ms
    using that by (induction ms) (auto split: if_splits)
  have "same_sending s s" by (simp add: same_sending_def)
  note g = green_loop_result [OF r assms(3) fe _ this]
  show ?thesis
    by (intro exI [of _ s'] exI [of _ ok])
      (use g r eq least [OF _ fe(1), of "usable now s e"] in \<open>cases "find (usable now s e) (fe_faces fe)"; simp\<close>)
qed

text \<open>
  C7: when no green face is usable, the Interest is flooded: to every face of its FIB entry that is not
  red, or to every face of the daemon when it has no FIB entry, in each case to those below their limit,
  once each; it counts as propagated exactly when there is such a face. The faces that asked are not
  left out.
\<close>

theorem flooding:
  assumes "l3_inv s" and "sendable s p" and "pit_find (l_pit s) n = Some e" and "distinct (l_faces s)"
    and "\<forall>a fe m. pe_fibEntry e = Some a \<longrightarrow> fe \<in> set (f_entries (l_fib s)) \<longrightarrow> fe_addr fe = a \<longrightarrow>
      m \<in> set (fe_faces fe) \<longrightarrow> \<not> usable now s e m"
  shows "\<exists>s' faces. PropagateInterest os now n p s = Inr (s', faces \<noteq> []) \<and>
    l_sent s' = l_sent s @ concat (map (\<lambda>fd. delivered os s fd p None) faces) \<and> distinct faces \<and>
    (\<forall>fd. fd \<in> set faces \<longleftrightarrow> free_face now s fd \<and>
       (case pe_fibEntry e of
          None \<Rightarrow> fd \<in> set (l_faces s)
        | Some a \<Rightarrow> \<exists>fe m. fe \<in> set (f_entries (l_fib s)) \<and> fe_addr fe = a \<and> m \<in> set (fe_faces fe) \<and>
            fm_face m = fd \<and> fm_status m \<noteq> NDN_FIB_RED))"
proof -
  have "ctx n s s" using assms(1,3) by (simp add: ctx_def)
  from ctx_PropagateInterest [OF this sends_sendable [OF assms(2)], of "{}" os now] obtain s' ok where
    r: "PropagateInterest os now n p s = Inr (s', ok)" by (cases "PropagateInterest os now n p s") auto
  have entry: "entry_at n s = Inr e" using assms(3) by (simp add: entry_at_def)
  obtain s1 greenOk where g: "PropagateInterestViaGreen os now n p s = Inr (s1, greenOk)"
    using r by (auto simp: PropagateInterest_def bindr_eq_Inr)
  have fib: "fib_inv (l_fib s)" using assms(1) by (simp add: l3_inv_def)
  have green: "\<not> greenOk \<and> l_sent s1 = l_sent s \<and> l_pit s1 = l_pit s \<and> l_fib s1 = l_fib s \<and> l_faces s1 = l_faces s \<and>
      same_sending s s1 \<and> (\<forall>fd. free_face now s1 fd \<longleftrightarrow> free_face now s fd)"
  proof (cases "pe_fibEntry e")
    case None
    then show ?thesis using g entry by (simp add: PropagateInterestViaGreen_def same_sending_def)
  next
    case (Some a)
    obtain fe where fe: "fib_at a s = Inr fe"
      using g entry Some by (auto simp: PropagateInterestViaGreen_def bindr_eq_Inr)
    then have mem: "fe \<in> set (f_entries (l_fib s))" "fe_addr fe = a"
      by (auto simp: fib_at_def split: option.splits dest: find_key_SomeD)
    have loop: "green_loop os now n p (fe_faces fe) s = Inr (s1, greenOk)"
      using g entry Some fe by (simp add: PropagateInterestViaGreen_def)
    have o: "sorted (map metric_key (fe_faces fe))" "distinct (map fm_face (fe_faces fe))"
      using fib mem by (auto simp: fib_inv_def entry_inv_def linked_inv_def)
    have "find (usable now s e) (fe_faces fe) = None"
      using assms(5) Some mem by (auto simp: find_None_iff)
    then have "\<not> greenOk"
      using green_loop_result [OF loop assms(3) o, of s] by (simp add: same_sending_def)
    with green_loop_refused [of os now n p "fe_faces fe" s s1] loop show ?thesis by simp
  qed
  have entry1: "entry_at n s1 = Inr e" using assms(3) green by (simp add: entry_at_def)
  obtain targets c where t: "flood_faces n s1 = Inr targets"
      and c: "flood_loop os now n p targets 0 s1 = Inr (s', c)" "ok = (c > 0)"
    using r g green by (auto simp: PropagateInterest_def bindr_eq_Inr)
  have target: "distinct targets \<and> (\<forall>fd. fd \<in> set targets \<longleftrightarrow> (case pe_fibEntry e of
          None \<Rightarrow> fd \<in> set (l_faces s)
        | Some a \<Rightarrow> \<exists>fe m. fe \<in> set (f_entries (l_fib s)) \<and> fe_addr fe = a \<and> m \<in> set (fe_faces fe) \<and>
            fm_face m = fd \<and> fm_status m \<noteq> NDN_FIB_RED))"
  proof (cases "pe_fibEntry e")
    case None
    then show ?thesis using t entry1 green assms(4) by (simp add: flood_faces_def)
  next
    case (Some a)
    obtain fe where fe: "fib_at a s1 = Inr fe"
      and tg: "targets = map fm_face (filter (\<lambda>m. fm_status m \<noteq> NDN_FIB_RED) (fe_faces fe))"
      using t entry1 Some by (auto simp: flood_faces_def bindr_eq_Inr)
    then have mem: "fe \<in> set (f_entries (l_fib s))" "fe_addr fe = a"
      using green by (auto simp: fib_at_def split: option.splits dest: find_key_SomeD)
    have uniq: "fe' = fe" if "fe' \<in> set (f_entries (l_fib s))" "fe_addr fe' = a" for fe'
      using that mem fib by (auto simp: fib_inv_def distinct_map dest: inj_onD)
    have "distinct targets"
      using fib mem unfolding tg by (auto simp: fib_inv_def entry_inv_def linked_inv_def distinct_filter_key)
    moreover have "fd \<in> set targets \<longleftrightarrow> (\<exists>fe m. fe \<in> set (f_entries (l_fib s)) \<and> fe_addr fe = a \<and>
        m \<in> set (fe_faces fe) \<and> fm_face m = fd \<and> fm_status m \<noteq> NDN_FIB_RED)" for fd
    proof -
      have "fd \<in> set targets \<longleftrightarrow> (\<exists>m. m \<in> set (fe_faces fe) \<and> fm_face m = fd \<and> fm_status m \<noteq> NDN_FIB_RED)"
        unfolding tg by auto
      with mem uniq show ?thesis by blast
    qed
    ultimately show ?thesis using Some by simp
  qed
  let ?faces = "filter (free_face now s1) targets"
  have "same_sending s1 s1" by (simp add: same_sending_def)
  from flood_loop_result [OF c(1) _ _ this] target
  have res: "l_sent s' = l_sent s1 @ concat (map (\<lambda>fd. delivered os s1 fd p None) ?faces)" "c = length ?faces" by auto
  have "delivered os s1 fd p None = delivered os s fd p None" for fd
    using delivered_cong green by blast
  with res green have "l_sent s' = l_sent s @ concat (map (\<lambda>fd. delivered os s fd p None) ?faces)" by simp
  moreover have "ok \<longleftrightarrow> ?faces \<noteq> []" using res(2) c(2) by simp
  moreover have "distinct ?faces" using target by simp
  moreover have "\<forall>fd. fd \<in> set ?faces \<longleftrightarrow> free_face now s fd \<and> (case pe_fibEntry e of
          None \<Rightarrow> fd \<in> set (l_faces s)
        | Some a \<Rightarrow> \<exists>fe m. fe \<in> set (f_entries (l_fib s)) \<and> fe_addr fe = a \<and> m \<in> set (fe_faces fe) \<and>
            fm_face m = fd \<and> fm_status m \<noteq> NDN_FIB_RED)"
    using target green by (simp add: conj_commute)
  ultimately show ?thesis
    using r by (intro exI [of _ s'] exI [of _ ?faces]) simp
qed

section \<open>The Interest handler up to the decision\<close>

lemma incoming_ops [simp]:
  "pe_incoming (UpdateLifetime now d e) = pe_incoming e" "pe_incoming (setSourceMetadata l e) = pe_incoming e"
  "pe_incoming (AddSeenNonce nonce e) = pe_incoming e"
  by (simp_all add: pe_ops)

lemma in_faces_AddIncoming: "in_face ` set (pe_incoming (AddIncoming now face e)) = insert face (in_face ` set (pe_incoming e))"
  by (auto simp: pe_ops insert_unique_set NDNPitEntryIncomingFace_def)

lemma record_source_result:
  assumes "record_source isDup n p s = Inr (s', p')"
  shows "pk_buffer p' = pk_buffer p \<and> (s' = s \<or> (\<exists>l. s' = mod_pit n (setSourceMetadata l) s))"
  using assms
  by (auto simp: record_source_def Let_def bindr_eq_Inr split: option.splits ll_metadata.splits)

lemma update_result:
  assumes "updatePITForInterest now n face h s = Inr (s', r)" and "pit_find (l_pit s) n = Some e"
  shows "s' = mod_pit n (UpdateLifetime now (ih_interestLifetime h))
    (if find_key in_face face (pe_incoming e) = None then mod_pit n (AddIncoming now face) s else s)"
  using assms by (auto simp: updatePITForInterest_def entry_at_def Let_def)

lemma pit_find_mod_pit:
  "(\<And>e. pe_prefix (f e) = pe_prefix e) \<Longrightarrow>
     pit_find (l_pit (mod_pit n f s)) k = (if k = n then map_option f (pit_find (l_pit s) k) else pit_find (l_pit s) k)"
  by (simp add: mod_pit_def pit_find_modify)

lemma LookupInterest_prefix:
  assumes "pit_inv t" and "pit_LookupInterest now fib h t = Inr (t', n, isNew, isDup, ok)" and "ih_name h = Some nm"
  shows "prefix n nm"
proof (cases "pit_LongestPrefixMatch nm t")
  case None
  then show ?thesis using assms(2,3) by (auto simp: pit_LookupInterest_def ih_GetName_def Let_def)
next
  case (Some e)
  then show ?thesis using assms(2,3) pits.lpm_sound [of t nm e]
    by (auto simp: pit_LookupInterest_def ih_GetName_def Let_def pit_LongestPrefixMatch_def)
qed

text \<open>
  The state in which the content store is consulted: one entry, at the name the lookup chose, has
  this face among those that asked; everything else is as before.
\<close>

definition recorded :: "name \<Rightarrow> face_id \<Rightarrow> l3 \<Rightarrow> l3 \<Rightarrow> bool" where
  "recorded n face s s3 \<longleftrightarrow> ctx n s s3 \<and> s3 = s\<lparr>l_pit := l_pit s3\<rparr> \<and>
     (\<forall>k. k \<noteq> n \<longrightarrow> pit_find (l_pit s3) k = pit_find (l_pit s) k) \<and>
     (\<exists>e. pit_find (l_pit s3) n = Some e \<and> in_face ` set (pe_incoming e) = insert face
        (case pit_find (l_pit s) n of None \<Rightarrow> {} | Some e0 \<Rightarrow> in_face ` set (pe_incoming e0)))"

lemma OnInterest_stages:
  assumes "l3_inv s" and "ih_name h = Some nm" and "packet_ok s p" and "face \<in> fds s"
    and "pit_LookupInterest now (l_fib s) h (l_pit s) = Inr (t, n, isNew, isDup, ok)"
  shows "\<exists>s3 p3. recorded n face s s3 \<and> pk_buffer p3 = pk_buffer p \<and> sendable s p3 \<and>
    OnInterest os now face h p s =
      bindr (checkContentStoreForInterest os h n s3) (\<lambda>(s, found).
        if found then Inr s
        else if isDup then handleDuplicateInterest os face h s
        else bindr (PropagateInterest os now n p3 s) (\<lambda>(s, propagated).
          if \<not> propagated then GiveUpInterest os now n h s else Inr s))"
proof -
  have pit: "pit_inv (l_pit s)" using assms(1) by (simp add: l3_inv_def)
  let ?s1 = "s\<lparr>l_pit := t\<rparr>"
  have c1: "ctx n s ?s1" "ok"
    using ctx_Lookup [OF assms(1), of h UNIV now] assms(2,5) by simp_all
  from LookupInterest_find [OF pit assms(5)] obtain e0 where
    find: "pit_find t = (pit_find (l_pit s))(n \<mapsto> e0)"
    and new: "isNew \<Longrightarrow> pit_find (l_pit s) n = None \<and> (\<exists>lt fe. e0 = AddSeenNonce (ih_nonce h) (NDNPitEntry now n lt fe))"
    and old: "\<not> isNew \<Longrightarrow> \<exists>e. pit_find (l_pit s) n = Some e \<and> e0 = (if isDup then e else AddSeenNonce (ih_nonce h) e)"
    by metis
  have asked: "in_face ` set (pe_incoming e0) =
      (case pit_find (l_pit s) n of None \<Rightarrow> {} | Some e0 \<Rightarrow> in_face ` set (pe_incoming e0))"
    using new old by (cases isNew; cases isDup) (auto simp: NDNPitEntry_def)
  obtain s2 p3 where r2: "record_source isDup n p ?s1 = Inr (s2, p3)"
    using ctx_record_source [OF c1(1) assms(3), of "{}" isDup] by (cases "record_source isDup n p ?s1") auto
  then have c2: "ctx n s s2" "sendable s p3"
    using ctx_record_source [OF c1(1) assms(3), of "{}" isDup] by simp_all
  have b: "pk_buffer p3 = pk_buffer p" and s2: "s2 = ?s1 \<or> (\<exists>l. s2 = mod_pit n (setSourceMetadata l) ?s1)"
    using record_source_result [OF r2] by auto
  have f2: "s2 = s\<lparr>l_pit := l_pit s2\<rparr>" "\<forall>k. k \<noteq> n \<longrightarrow> pit_find (l_pit s2) k = pit_find (l_pit s) k"
    using s2 find by (auto simp: pit_find_mod_pit) (simp add: mod_pit_def)
  obtain e2 where e2: "pit_find (l_pit s2) n = Some e2" "pe_incoming e2 = pe_incoming e0"
    using s2 find by (auto simp: pit_find_mod_pit)
  obtain s3 r where u: "updatePITForInterest now n face h s2 = Inr (s3, r)"
    using ctx_update [OF c2(1) assms(4), of "{}" now h] by (cases "updatePITForInterest now n face h s2") auto
  then have c3: "ctx n s s3" using ctx_update [OF c2(1) assms(4), of "{}" now h] by simp
  let ?s2 = "if find_key in_face face (pe_incoming e2) = None then mod_pit n (AddIncoming now face) s2 else s2"
  have s3: "s3 = mod_pit n (UpdateLifetime now (ih_interestLifetime h)) ?s2" by (rule update_result [OF u e2(1)])
  have f3: "s3 = s\<lparr>l_pit := l_pit s3\<rparr>"
    using f2(1) unfolding s3 by (cases s; cases s2) (simp add: mod_pit_def)
  have o3: "\<forall>k. k \<noteq> n \<longrightarrow> pit_find (l_pit s3) k = pit_find (l_pit s) k"
    using f2(2) unfolding s3 by (simp add: pit_find_mod_pit)
  have "\<exists>e. pit_find (l_pit s3) n = Some e \<and> in_face ` set (pe_incoming e) = insert face (in_face ` set (pe_incoming e2))"
    using e2(1) unfolding s3
    by (auto simp: pit_find_mod_pit in_faces_AddIncoming find_key_None)
  with e2(2) asked c3 f3 o3 have rec: "recorded n face s s3" by (simp add: recorded_def)
  have "OnInterest os now face h p s =
      bindr (checkContentStoreForInterest os h n s3) (\<lambda>(s, found).
        if found then Inr s
        else if isDup then handleDuplicateInterest os face h s
        else bindr (PropagateInterest os now n p3 s) (\<lambda>(s, propagated).
          if \<not> propagated then GiveUpInterest os now n h s else Inr s))"
    using assms(5) r2 u c1(2) by (simp add: OnInterest_def cong: if_cong)
  with rec b c2(2) show ?thesis by blast
qed

lemma recorded_sending: "recorded n face s s3 \<Longrightarrow> same_sending s s3 \<and> l_heap s3 = l_heap s \<and> l_sent s3 = l_sent s \<and>
    l_contentStore s3 = l_contentStore s \<and> l_fib s3 = l_fib s \<and> l_faces s3 = l_faces s"
  by (cases s; cases s3) (simp add: recorded_def same_sending_def)

section \<open>Properties of the Interest handler\<close>

text \<open>
  C5: an Interest that the content store can answer is answered from it and goes no further: everything
  sent is the stored content, it goes to this face and to the faces that had asked for the pending name,
  that entry is removed, and the FIB and the other entries stay as they are.
\<close>

theorem interest_from_cache:
  assumes "l3_inv s" and "ih_name h = Some nm" and "packet_ok s p" and "face \<in> fds s"
    and "cs_Lookup h (l_contentStore s) = Inr (c, Some (ch, cp))"
  shows "\<exists>s' n out. OnInterest os now face h p s = Inr s' \<and> prefix n nm \<and> l_sent s' = l_sent s @ out \<and>
    (\<forall>x \<in> set out. s_data x = m_data (pk_buffer cp) \<and> (s_face x = face \<or>
       (\<exists>e. pit_find (l_pit s) n = Some e \<and> s_face x \<in> in_face ` set (pe_incoming e)))) \<and>
    (plain_face os s face \<longrightarrow> face \<in> s_face ` set out) \<and> l_fib s' = l_fib s \<and>
    (\<forall>k. pit_find (l_pit s') k = (if k = n then None else pit_find (l_pit s) k))"
proof -
  obtain t n isNew isDup ok where look: "pit_LookupInterest now (l_fib s) h (l_pit s) = Inr (t, n, isNew, isDup, ok)"
    using ctx_Lookup [OF assms(1), of h "{}" now] assms(2)
    by (cases "pit_LookupInterest now (l_fib s) h (l_pit s)") auto
  have pit: "pit_inv (l_pit s)" using assms(1) by (simp add: l3_inv_def)
  have pre: "prefix n nm" by (rule LookupInterest_prefix [OF pit look assms(2)])
  obtain s3 p3 where rec: "recorded n face s s3" and eq: "OnInterest os now face h p s =
      bindr (checkContentStoreForInterest os h n s3) (\<lambda>(s, found).
        if found then Inr s
        else if isDup then handleDuplicateInterest os face h s
        else bindr (PropagateInterest os now n p3 s) (\<lambda>(s, propagated).
          if \<not> propagated then GiveUpInterest os now n h s else Inr s))"
    using OnInterest_stages [OF assms(1-4) look] by blast
  note s3 = recorded_sending [OF rec]
  let ?s4 = "s3\<lparr>l_contentStore := c\<rparr>"
  obtain e where e: "pit_find (l_pit s3) n = Some e" "in_face ` set (pe_incoming e) = insert face
        (case pit_find (l_pit s) n of None \<Rightarrow> {} | Some e0 \<Rightarrow> in_face ` set (pe_incoming e0))"
    using rec by (auto simp: recorded_def)
  have c3: "ctx n s s3" using rec by (simp add: recorded_def)
  have look3: "cs_Lookup h (l_contentStore s3) = Inr (c, Some (ch, cp))" using assms(5) s3 by simp
  note ctx' = ctx_cs_Lookup [OF c3 look3]
  obtain s' where sat: "SatisfyPendingInterests os n cp ?s4 = Inr s'"
    using post_Satisfy [OF ctx'(1) ctx'(2) [OF refl], of "{}" os] by (cases "SatisfyPendingInterests os n cp ?s4") auto
  then have r: "OnInterest os now face h p s = Inr s'"
    unfolding eq using assms(5) s3 by (simp add: checkContentStoreForInterest_def)
  let ?out = "concat (map (\<lambda>i. delivered os s (in_face i) cp (pe_sourceMetadata e)) (pe_incoming e))"
  have d: "delivered os s3 fd q md = delivered os s fd q md" for fd q md using s3 delivered_cong by blast
  have s': "s' = ?s4\<lparr>l_sent := l_sent s @ ?out, l_pit := pit_Remove n (l_pit s3)\<rparr>"
    using Satisfy_result [OF sat] e(1) s3 d by auto
  show ?thesis
  proof (intro exI [of _ s'] exI [of _ n] exI [of _ ?out] conjI)
    show "OnInterest os now face h p s = Inr s'" "prefix n nm" "l_sent s' = l_sent s @ ?out" "l_fib s' = l_fib s"
      using r pre s' s3 by simp_all
    show "\<forall>k. pit_find (l_pit s') k = (if k = n then None else pit_find (l_pit s) k)"
      using rec by (simp add: s' pit_find_Remove recorded_def)
    show "\<forall>x \<in> set ?out. s_data x = m_data (pk_buffer cp) \<and> (s_face x = face \<or>
       (\<exists>e. pit_find (l_pit s) n = Some e \<and> s_face x \<in> in_face ` set (pe_incoming e)))"
    proof
      fix x assume "x \<in> set ?out"
      then obtain i where i: "i \<in> set (pe_incoming e)" "x \<in> set (delivered os s (in_face i) cp (pe_sourceMetadata e))"
        by auto
      then have "in_face i \<in> insert face
        (case pit_find (l_pit s) n of None \<Rightarrow> {} | Some e0 \<Rightarrow> in_face ` set (pe_incoming e0))"
        using e(2) by blast
      then show "s_data x = m_data (pk_buffer cp) \<and> (s_face x = face \<or>
         (\<exists>e. pit_find (l_pit s) n = Some e \<and> s_face x \<in> in_face ` set (pe_incoming e)))"
        using delivered_bytes [OF i(2)] by (cases "pit_find (l_pit s) n") auto
    qed
    show "plain_face os s face \<longrightarrow> face \<in> s_face ` set ?out"
    proof
      assume plain: "plain_face os s face"
      have "face \<in> in_face ` set (pe_incoming e)" unfolding e(2) by simp
      then obtain i where i: "i \<in> set (pe_incoming e)" "in_face i = face" by auto
      obtain x where "delivered os s face cp (pe_sourceMetadata e) = [x]" "s_face x = face"
        using delivered_plain [OF plain, of cp "pe_sourceMetadata e"] by auto
      with i show "face \<in> s_face ` set ?out" by (force simp: image_iff)
    qed
  qed
qed

text \<open>
  A duplicate Interest (its nonce was seen at the pending entry with the longest prefix of its name)
  that the content store cannot answer is dropped when nacks are off: nothing is sent, and neither the
  FIB nor any other entry changes; the face is remembered as one that asked.
\<close>

theorem interest_duplicate:
  assumes "l3_inv s" and "ih_name h = Some nm" and "packet_ok s p" and "face \<in> fds s" and "\<not> l_nacksEnabled s"
    and "cs_Lookup h (l_contentStore s) = Inr (c, None)"
    and "pit_LongestPrefixMatch nm (l_pit s) = Some e0" and "ih_nonce h \<in> pe_seenNonces e0"
  shows "\<exists>s' e. OnInterest os now face h p s = Inr s' \<and> l_sent s' = l_sent s \<and> l_fib s' = l_fib s \<and>
    (\<forall>k. k \<noteq> pe_prefix e0 \<longrightarrow> pit_find (l_pit s') k = pit_find (l_pit s) k) \<and>
    pit_find (l_pit s') (pe_prefix e0) = Some e \<and> face \<in> in_face ` set (pe_incoming e)"
proof -
  have look: "pit_LookupInterest now (l_fib s) h (l_pit s) = Inr (l_pit s, pe_prefix e0, False, True, True)"
    using assms(2,7,8) by (simp add: pit_LookupInterest_def ih_GetName_def IsNonceSeen_def)
  obtain s3 p3 where rec: "recorded (pe_prefix e0) face s s3" and eq: "OnInterest os now face h p s =
      bindr (checkContentStoreForInterest os h (pe_prefix e0) s3) (\<lambda>(s, found).
        if found then Inr s
        else if True then handleDuplicateInterest os face h s
        else bindr (PropagateInterest os now (pe_prefix e0) p3 s) (\<lambda>(s, propagated).
          if \<not> propagated then GiveUpInterest os now (pe_prefix e0) h s else Inr s))"
    using OnInterest_stages [OF assms(1-4) look] by blast
  note s3 = recorded_sending [OF rec]
  obtain e where e: "pit_find (l_pit s3) (pe_prefix e0) = Some e" and ie: "in_face ` set (pe_incoming e) = insert face
        (case pit_find (l_pit s) (pe_prefix e0) of None \<Rightarrow> {} | Some e0 \<Rightarrow> in_face ` set (pe_incoming e0))"
    using rec by (auto simp: recorded_def)
  have "face \<in> in_face ` set (pe_incoming e)" unfolding ie by simp
  moreover have "l_nacksEnabled s3 = l_nacksEnabled s" using rec by (cases s; cases s3) (simp add: recorded_def)
  then have "OnInterest os now face h p s = Inr (s3\<lparr>l_contentStore := c\<rparr>)"
    unfolding eq using assms(5,6) s3 by (simp add: checkContentStoreForInterest_def handleDuplicateInterest_def)
  moreover have "\<forall>k. k \<noteq> pe_prefix e0 \<longrightarrow> pit_find (l_pit s3) k = pit_find (l_pit s) k"
    using rec by (simp add: recorded_def)
  ultimately show ?thesis
    using s3 e by (intro exI [of _ "s3\<lparr>l_contentStore := c\<rparr>"] exI [of _ e]) simp
qed

section \<open>The hypotheses are satisfiable\<close>

text \<open>The daemon of the samples with a green route to face 4 for \<open>/a\<close>, and the Interest recorded.\<close>

definition sample_routed :: l3 where
  "sample_routed = sample_boot\<lparr>l_fib := fib_modify [''a''] (UpdateStatus 4 NDN_FIB_GREEN) (fib_Add [''a''] 4 0 NDNFib)\<rparr>"

definition sample_looked_up :: "l3 \<Rightarrow> l3" where
  "sample_looked_up s = s\<lparr>l_pit := (case pit_LookupInterest 0 (l_fib s) sample_header (l_pit s) of
     Inl e \<Rightarrow> l_pit s | Inr (t, x) \<Rightarrow> t)\<rparr>"

lemma sample_routed_inv: "l3_inv sample_routed"
proof -
  have "l_fib sample_boot = NDNFib" by code_simp
  then have "l3_inv (sample_boot\<lparr>l_fib := fib_Add [''a''] 4 0 NDNFib\<rparr>)"
    using l3_inv_Add [OF sample_boot_inv, of 4 "[''a'']" 0] sample_boot_fds by simp
  from l3_inv_fib_status [OF this, of "[''a'']" 4 NDN_FIB_GREEN] show ?thesis
    by (simp add: sample_routed_def)
qed

lemma looked_up_inv: "l3_inv s \<Longrightarrow> l3_inv (sample_looked_up s)"
proof -
  assume inv: "l3_inv s"
  have "ih_name sample_header \<noteq> None" by (simp add: sample_header_def)
  from ctx_Lookup [OF inv this, of "{}" 0] show ?thesis
    by (auto simp: sample_looked_up_def ctx_def post_def split: sum.splits prod.splits)
qed

theorem green_forwarding_witness:
  "\<exists>s'. PropagateInterestViaGreen sample_os 0 [''a''] sample_packet (sample_looked_up sample_routed) = Inr (s', True) \<and>
     map s_face (l_sent s') = [4]"
proof -
  let ?s = "sample_looked_up sample_routed"
  have "map_option pe_fibEntry (pit_find (l_pit ?s) [''a'']) = Some (Some 0)" by code_simp
  then obtain e where e: "pit_find (l_pit ?s) [''a''] = Some e" "pe_fibEntry e = Some 0" by auto
  have "map fe_addr (f_entries (l_fib ?s)) = [0]" by code_simp
  then obtain fe where fe: "f_entries (l_fib ?s) = [fe]" "fe_addr fe = 0" by auto
  have "map_option fm_face (find (usable 0 ?s (the (pit_find (l_pit ?s) [''a'']))) (fe_faces (hd (f_entries (l_fib ?s))))) = Some 4"
    by code_simp
  then obtain m where m: "find (usable 0 ?s e) (fe_faces fe) = Some m" "fm_face m = 4" using e fe by auto
  have "map_option fc_kind (find_key fc_fd 4 (l_heap ?s)) = Some LocalFace" by code_simp
  then have "plain_face sample_os ?s 4" by (auto simp: plain_face_def sample_os_def)
  note d = delivered_plain [OF this, of sample_packet None]
  have "sendable ?s sample_packet" by (rule sample_sendable)
  from green_forwarding [OF looked_up_inv [OF sample_routed_inv] this e, of fe sample_os 0] fe m
  obtain s' where "PropagateInterestViaGreen sample_os 0 [''a''] sample_packet ?s = Inr (s', True)"
    "l_sent s' = l_sent ?s @ delivered sample_os ?s 4 sample_packet None" by auto
  moreover have "l_sent ?s = []" by code_simp
  ultimately show ?thesis using d by auto
qed

theorem flooding_witness:
  "\<exists>s' faces. PropagateInterest sample_os 0 [''a''] sample_packet (sample_looked_up sample_boot) = Inr (s', True) \<and>
     set faces = {3, 4} \<and>
     l_sent s' = concat (map (\<lambda>fd. delivered sample_os (sample_looked_up sample_boot) fd sample_packet None) faces)"
proof -
  let ?s = "sample_looked_up sample_boot"
  have "map_option pe_fibEntry (pit_find (l_pit ?s) [''a'']) = Some None" by code_simp
  then obtain e where e: "pit_find (l_pit ?s) [''a''] = Some e" "pe_fibEntry e = None" by auto
  have f: "l_faces ?s = [3, 4]" "l_sent ?s = []" by code_simp+
  have free: "free_face 0 ?s 3" "free_face 0 ?s 4" by code_simp+
  have "sendable ?s sample_packet" by (rule sample_sendable)
  from flooding [OF looked_up_inv [OF sample_boot_inv] this e(1), of 0 sample_os] e(2) f
  obtain s' faces where r: "PropagateInterest sample_os 0 [''a''] sample_packet ?s = Inr (s', faces \<noteq> [])"
    "l_sent s' = concat (map (\<lambda>fd. delivered sample_os ?s fd sample_packet None) faces)"
    "\<forall>fd. fd \<in> set faces \<longleftrightarrow> free_face 0 ?s fd \<and> fd \<in> set [3, 4]" by auto
  have "set faces = {3, 4}" using r(3) free by auto
  then have "faces \<noteq> []" by auto
  with r \<open>set faces = {3, 4}\<close> show ?thesis by auto
qed

text \<open>The pending state with content for \<open>/a\<close> in the store.\<close>

definition sample_cached :: l3 where
  "sample_cached = sample_boot\<lparr>l_contentStore :=
     (case cs_Add (header_of [''a'']) sample_packet (l_contentStore sample_boot) of Inl e \<Rightarrow> l_contentStore sample_boot | Inr (c, b) \<Rightarrow> c)\<rparr>"

lemma sample_cached_inv: "l3_inv sample_cached"
proof -
  have nm: "ch_name (header_of [''a'']) \<noteq> None" by (simp add: header_of_def)
  obtain c b where c: "cs_Add (header_of [''a'']) sample_packet (l_contentStore sample_boot) = Inr (c, b)"
    using post_cs_Add [OF nm, of "{}" sample_packet "l_contentStore sample_boot"]
    by (cases "cs_Add (header_of [''a'']) sample_packet (l_contentStore sample_boot)") auto
  have "sendable sample_boot sample_packet" by (rule sample_sendable)
  from l3_inv_store [OF sample_boot_inv c this] c show ?thesis by (simp add: sample_cached_def)
qed

theorem interest_from_cache_witness:
  "\<exists>s' out. OnInterest sample_os 0 3 sample_header sample_packet sample_cached = Inr s' \<and>
     l_sent s' = l_sent sample_cached @ out \<and> 3 \<in> s_face ` set out"
proof -
  have "(case cs_Lookup sample_header (l_contentStore sample_cached) of Inr (c, Some x) \<Rightarrow> True | _ \<Rightarrow> False)"
    by code_simp
  then obtain c ch cp where look: "cs_Lookup sample_header (l_contentStore sample_cached) = Inr (c, Some (ch, cp))"
    by (auto split: sum.splits prod.splits option.splits)
  have nm: "ih_name sample_header = Some [''a'']" by (simp add: sample_header_def)
  have "map_option fc_kind (find_key fc_fd 3 (l_heap sample_cached)) = Some LocalFace" by code_simp
  then have plain: "plain_face sample_os sample_cached 3" by (auto simp: plain_face_def sample_os_def)
  have "fds sample_cached = fds sample_boot" by (simp add: sample_cached_def)
  then have "3 \<in> fds sample_cached" using sample_boot_fds by simp
  from interest_from_cache [OF sample_cached_inv nm sample_packet_ok this look, of sample_os 0] plain
  show ?thesis by blast
qed

theorem interest_duplicate_witness:
  "\<exists>s'. OnInterest sample_os 1 4 sample_header sample_packet sample_pending = Inr s' \<and> l_sent s' = l_sent sample_pending"
proof -
  have "(case cs_Lookup sample_header (l_contentStore sample_pending) of Inr (c, None) \<Rightarrow> True | _ \<Rightarrow> False)"
    by code_simp
  then obtain c where look: "cs_Lookup sample_header (l_contentStore sample_pending) = Inr (c, None)"
    by (auto split: sum.splits prod.splits option.splits)
  have "(case pit_LongestPrefixMatch [''a''] (l_pit sample_pending) of None \<Rightarrow> False
      | Some e \<Rightarrow> ih_nonce sample_header \<in> pe_seenNonces e)" by code_simp
  then obtain e where e: "pit_LongestPrefixMatch [''a''] (l_pit sample_pending) = Some e" "ih_nonce sample_header \<in> pe_seenNonces e"
    by (auto split: option.splits)
  have nm: "ih_name sample_header = Some [''a'']" by (simp add: sample_header_def)
  have "map fc_fd (l_heap sample_pending) = [3, 4]" by code_simp
  from arg_cong [OF this, of set] have fd: "4 \<in> fds sample_pending" by (simp add: fds_def)
  have "\<not> l_nacksEnabled sample_pending" by code_simp
  from interest_duplicate [OF sample_pending_inv nm sample_packet_ok fd this look e, of sample_os 1]
  show ?thesis by blast
qed

end
