(* ===== verification/Closing.thy ===== *)
theory Closing
  imports System
begin

text \<open>
  Closing a face: in every reachable state the tables name only faces that are open, and what
  \<open>NDNL3Protocol::RemoveFace\<close> does to each of them.
\<close>

section \<open>Tables that name only open faces\<close>

definition names_in :: "face_id list \<Rightarrow> name set \<Rightarrow> l3 \<Rightarrow> bool" where
  "names_in L N s \<longleftrightarrow> l_faces s = L \<and> (\<forall>n. pit_find (l_pit s) n \<noteq> None \<longrightarrow> n \<in> N) \<and>
     (\<forall>fe \<in> set (f_entries (l_fib s)). \<forall>m \<in> set (fe_faces fe). fm_face m \<in> set L) \<and>
     (\<forall>n e. pit_find (l_pit s) n = Some e \<longrightarrow> entry_faces e \<subseteq> set L)"

definition only_open :: "l3 \<Rightarrow> bool" where
  "only_open s \<longleftrightarrow> names_in (l_faces s) UNIV s"

text \<open>An Interest makes a PIT entry for its name unless an entry for a prefix of it is pending.\<close>

definition may_add :: "name set \<Rightarrow> l3 \<Rightarrow> bool" where
  "may_add N s \<longleftrightarrow> (\<forall>n. pit_LongestPrefixMatch n (l_pit s) = None \<longrightarrow> n \<in> N)"

lemma may_add_UNIV [simp]: "may_add UNIV s"
  by (simp add: may_add_def)

lemma post_True [simp]: "post UNIV (\<lambda>_. True) r"
  by (cases r) simp_all

lemma names_updates [simp]:
  "names_in L N (s\<lparr>l_contentStore := c\<rparr>) \<longleftrightarrow> names_in L N s" "names_in L N (s\<lparr>l_sent := x\<rparr>) \<longleftrightarrow> names_in L N s"
  "names_in L N (s\<lparr>l_heap := h\<rparr>) \<longleftrightarrow> names_in L N s"
  by (simp_all add: names_in_def)

lemma names_mod_pit:
  assumes "names_in L N s" and "\<And>e. pe_prefix (f e) = pe_prefix e" and "\<And>e. entry_faces (f e) \<subseteq> entry_faces e \<union> set L"
  shows "names_in L N (mod_pit n f s)"
proof -
  have "entry_faces e \<subseteq> set L" if "pit_find (pit_modify n f (l_pit s)) m = Some e" for m e
    using that assms(1) assms(3) by (auto simp: pit_find_modify [OF assms(2)] names_in_def split: if_splits) blast+
  moreover have "\<forall>m. pit_find (pit_modify n f (l_pit s)) m \<noteq> None \<longrightarrow> m \<in> N"
    using assms(1) by (auto simp: pit_find_modify [OF assms(2)] names_in_def split: if_splits)
  ultimately show ?thesis using assms(1) by (simp add: names_in_def mod_pit_def)
qed

lemma names_ops:
  assumes "names_in L N s"
  shows "names_in L N (mod_pit n (UpdateLifetime now d) s)" "names_in L N (mod_pit n (SetExpireTime t) s)"
    "names_in L N (mod_pit n (setSourceMetadata l) s)" "names_in L N (mod_pit n (SetWaitingInVain face) s)"
    "names_in L N (mod_pit n (RemoveIncoming face) s)" "names_in L N (mod_pit n ClearIncoming s)"
    "names_in L N (mod_pit n ClearOutgoing s)" "names_in L N (mod_pit n (RemoveAllReferencesToFace face) s)"
    "face \<in> set L \<Longrightarrow> names_in L N (mod_pit n (AddIncoming now face) s)"
    "face \<in> set L \<Longrightarrow> names_in L N (mod_pit n (AddOutgoing now face) s)"
proof -
  note rule = names_mod_pit [OF assms]
  show "names_in L N (mod_pit n (UpdateLifetime now d) s)" "names_in L N (mod_pit n (SetExpireTime t) s)"
    "names_in L N (mod_pit n (setSourceMetadata l) s)" "names_in L N (mod_pit n (SetWaitingInVain face) s)"
    by (rule rule; simp add: entry_faces_ops)+
  show "names_in L N (mod_pit n (RemoveIncoming face) s)" "names_in L N (mod_pit n ClearIncoming s)"
    "names_in L N (mod_pit n ClearOutgoing s)" "names_in L N (mod_pit n (RemoveAllReferencesToFace face) s)"
    using entry_faces_ops(8-11) by (intro rule; force)+
  show "names_in L N (mod_pit n (AddIncoming now face) s)" if "face \<in> set L"
    using that entry_faces_ops(6) by (intro rule; force)
  show "names_in L N (mod_pit n (AddOutgoing now face) s)" if "face \<in> set L"
    using that entry_faces_ops(7) by (intro rule; force)
qed

lemma names_entry: "names_in L N s \<Longrightarrow> post UNIV (\<lambda>e. entry_faces e \<subseteq> set L) (entry_at n s)"
  by (auto simp: entry_at_def names_in_def split: option.splits)

lemma names_fib: "names_in L N s \<Longrightarrow> post UNIV (\<lambda>fe. \<forall>m \<in> set (fe_faces fe). fm_face m \<in> set L) (fib_at a s)"
  by (auto simp: fib_at_def names_in_def split: option.splits dest: find_key_SomeD)

lemma names_send_on: "names_in L N s \<Longrightarrow> post UNIV (names_in L N) (send_on os fd p md s)"
  unfolding send_on_def by (intro post_bindr [OF post_True]) (auto intro: post_bindr [OF post_True])

lemma names_limit: "names_in L N s \<Longrightarrow> post UNIV (\<lambda>(s', ok). names_in L N s') (below_limit now fd s)"
  unfolding below_limit_def by (intro post_bindr [OF post_True]) simp

lemma names_green:
  "names_in L N s \<Longrightarrow> \<forall>m \<in> set ms. fm_face m \<in> set L \<Longrightarrow>
     post UNIV (\<lambda>(s', ok). names_in L N s') (green_loop os now n p ms s)"
proof (induction ms arbitrary: s)
  case (Cons m ms)
  have send: "post UNIV (\<lambda>(s', ok). names_in L N s')
      (bindr (send_on os (fm_face m) p None (mod_pit n (AddOutgoing now (fm_face m)) s')) (\<lambda>s. Inr (s, True)))"
    if "names_in L N s'" for s'
    using Cons.prems that by (intro post_bindr [OF names_send_on [OF names_ops(10)]]) auto
  show ?case
    using Cons send by (auto intro!: post_bindr [OF names_entry] post_bindr [OF names_limit])
qed simp

lemma names_flood:
  "names_in L N s \<Longrightarrow> set faces \<subseteq> set L \<Longrightarrow>
     post UNIV (\<lambda>(s', c). names_in L N s') (flood_loop os now n p faces k s)"
proof (induction faces arbitrary: s k)
  case (Cons fd faces)
  then show ?case
    by (auto intro!: post_bindr [OF names_limit] post_bindr [OF names_send_on [OF names_ops(10)]])
qed simp

lemma names_Propagate:
  assumes "names_in L N s"
  shows "post UNIV (\<lambda>(s', ok). names_in L N s') (PropagateInterest os now n p s)"
proof -
  have green: "post UNIV (\<lambda>(s', ok). names_in L N s') (PropagateInterestViaGreen os now n p s)"
    unfolding PropagateInterestViaGreen_def
    by (intro post_bindr [OF names_entry [OF assms]])
      (auto simp: assms split: option.splits intro!: post_bindr [OF names_fib [OF assms]] names_green)
  have eligible: "post UNIV (\<lambda>fs. set fs \<subseteq> set L) (flood_faces n s')" if c: "names_in L N s'" for s'
  proof -
    have "l_faces s' = L" using c by (simp add: names_in_def)
    then show ?thesis
      unfolding flood_faces_def
      by (intro post_bindr [OF names_entry [OF c]])
        (auto split: option.splits intro!: post_bindr [OF names_fib [OF c]])
  qed
  show ?thesis
    unfolding PropagateInterest_def
    by (intro post_bindr [OF green]) (auto intro!: post_bindr [OF eligible] post_bindr [OF names_flood])
qed

section \<open>The handlers\<close>

lemma names_Lookup:
  assumes "names_in L N s" and "pit_inv (l_pit s)" and "may_add N s"
  shows "post UNIV (\<lambda>(t, n, isNew, isDup, ok). names_in L N (s\<lparr>l_pit := t\<rparr>)) (pit_LookupInterest now (l_fib s) h (l_pit s))"
proof (cases "pit_LookupInterest now (l_fib s) h (l_pit s)")
  case (Inr r)
  obtain t n isNew isDup ok where l: "pit_LookupInterest now (l_fib s) h (l_pit s) = Inr (t, n, isNew, isDup, ok)"
    using Inr by (cases r) auto
  from LookupInterest_find [OF assms(2) l] obtain e0 where find: "pit_find t = (pit_find (l_pit s))(n \<mapsto> e0)"
    and new: "isNew \<Longrightarrow> \<exists>lifetime. e0 = AddSeenNonce (ih_nonce h)
      (NDNPitEntry now n lifetime (map_option fe_addr (fib_LongestPrefixMatch n (l_fib s))))"
    and old: "\<not> isNew \<Longrightarrow> \<exists>e. pit_find (l_pit s) n = Some e \<and> (e0 = e \<or> e0 = AddSeenNonce (ih_nonce h) e)"
    by metis
  have "entry_faces e0 \<subseteq> set L"
  proof (cases isNew)
    case True
    with new obtain lt where e0: "e0 = AddSeenNonce (ih_nonce h)
      (NDNPitEntry now n lt (map_option fe_addr (fib_LongestPrefixMatch n (l_fib s))))" by blast
    show ?thesis unfolding e0 entry_faces_ops by (simp add: entry_faces_def NDNPitEntry_def)
  next
    case False
    with old obtain e where e: "pit_find (l_pit s) n = Some e" "e0 = e \<or> e0 = AddSeenNonce (ih_nonce h) e" by blast
    have "entry_faces e \<subseteq> set L" using assms(1) e(1) by (simp add: names_in_def)
    with e(2) show ?thesis by (auto simp: entry_faces_ops)
  qed
  moreover have "n \<in> N"
  proof (cases isNew)
    case True
    then have "pit_LongestPrefixMatch n (l_pit s) = None"
      using l by (auto simp: pit_LookupInterest_def bindr_eq_Inr Let_def split: option.splits)
    then show ?thesis using assms(3) by (simp add: may_add_def)
  next
    case False
    then show ?thesis using old assms(1) by (auto simp: names_in_def)
  qed
  ultimately show ?thesis using assms(1) find l by (auto simp: names_in_def)
qed simp

lemma names_Remove: "names_in L N s \<Longrightarrow> names_in L N (s\<lparr>l_pit := pit_Remove n (l_pit s)\<rparr>)"
  by (auto simp: names_in_def pit_find_Remove split: if_splits)

lemma names_send_all:
  "names_in L N s \<Longrightarrow> post UNIV (names_in L N) (foldr_res (\<lambda>i s. send_on os (g i) p md s) xs s)"
proof (induction xs arbitrary: s)
  case (Cons i xs)
  then show ?case by (auto intro!: post_bindr [OF names_send_on])
qed simp

lemma names_Satisfy: "names_in L N s \<Longrightarrow> post UNIV (names_in L N) (SatisfyPendingInterests os n p s)"
  unfolding SatisfyPendingInterests_def
  by (rule post_bindr [OF post_True]) (rule post_bindr [OF names_send_all], assumption, simp add: names_Remove)

lemma names_GiveUp: "names_in L N s \<Longrightarrow> post UNIV (names_in L N) (GiveUpInterest os now n h s)"
proof -
  assume w: "names_in L N s"
  have "post UNIV (names_in L N) (if l_nacksEnabled s then
      bindr (AddInterestHeader (ih_SetNack NACK_GIVEUP_PIT h) Packet_new) (\<lambda>nackPacket.
      bindr (entry_at n s) (\<lambda>e. foldr_res (\<lambda>incoming s. send_on os (in_face incoming) nackPacket None s) (pe_incoming e) s))
      else Inr s)"
    using w by (auto intro!: post_bindr [OF post_True] names_send_all)
  then show ?thesis
    unfolding GiveUpInterest_def Let_def by (rule post_bindr) (simp add: names_ops)
qed

lemma names_source: "names_in L N s \<Longrightarrow> post UNIV (\<lambda>(s', p'). names_in L N s') (record_source isDup n p s)"
  by (auto simp: record_source_def Let_def names_ops split: option.splits ll_metadata.splits
      intro!: post_bindr [OF post_True])

lemma names_update:
  "names_in L N s \<Longrightarrow> face \<in> set L \<Longrightarrow> post UNIV (\<lambda>(s', r). names_in L N s') (updatePITForInterest now n face h s)"
  by (auto simp: updatePITForInterest_def Let_def names_ops intro!: post_bindr [OF post_True])

lemma names_CS: "names_in L N s \<Longrightarrow> post UNIV (\<lambda>(s', found). names_in L N s') (checkContentStoreForInterest os h n s)"
  unfolding checkContentStoreForInterest_def
  by (intro post_bindr [OF post_True])
    (auto simp: Let_def split: option.splits intro!: post_bindr [OF names_Satisfy])

lemma names_forward:
  "names_in L N s \<Longrightarrow> post UNIV (names_in L N) (bindr (PropagateInterest os now n p s) (\<lambda>(s, propagated).
     if \<not> propagated then GiveUpInterest os now n h s else Inr s))"
  by (rule post_bindr [OF names_Propagate]) (auto intro: names_GiveUp)

lemma names_OnInterest:
  assumes "names_in L N s" and "pit_inv (l_pit s)" and "may_add N s" and "face \<in> set L"
  shows "post UNIV (names_in L N) (OnInterest os now face h p s)"
proof -
  have dup: "post UNIV (names_in L N) (handleDuplicateInterest os face h s3)" if "names_in L N s3" for s3
    using that by (auto simp: handleDuplicateInterest_def intro!: post_bindr [OF post_True] names_send_on)
  have rest: "post UNIV (names_in L N)
      (bindr (checkContentStoreForInterest os h n s3) (\<lambda>(s, found).
         if found then Inr s
         else if isDup then handleDuplicateInterest os face h s
         else if success then bindr (PropagateInterest os now n p' s) (\<lambda>(s, propagated).
                if \<not> propagated then GiveUpInterest os now n h s else Inr s)
         else Inr s))" if "names_in L N s3" for n s3 p' isDup success
    using dup names_forward by (auto intro!: post_bindr [OF names_CS [OF that]])
  have upd: "post UNIV (names_in L N)
      (if success then bindr (updatePITForInterest now n face h s3) (\<lambda>(s, isRetransmitted). Inr s) else Inr s3)"
    if "names_in L N s3" for n s3 success
    using that assms(4) by (auto intro!: post_bindr [OF names_update])
  show ?thesis
    unfolding OnInterest_def Let_def
    by (rule post_bindr [OF names_Lookup [OF assms(1-3)]], clarify)
      (rule post_bindr [OF names_source], assumption, clarify, rule post_bindr [OF upd], assumption, rule rest)
qed

lemma names_fib_status: "names_in L N s \<Longrightarrow> post UNIV (names_in L N) (update_fib_status n face st s)"
proof -
  assume w: "names_in L N s"
  have "names_in L N (s\<lparr>l_fib := fib_modify pfx (UpdateStatus face st) (l_fib s)\<rparr>)" for pfx
  proof -
    have "\<forall>m \<in> set (fe_faces fe). fm_face m \<in> set L" if "fe \<in> set (f_entries (fib_modify pfx (UpdateStatus face st) (l_fib s)))" for fe
    proof -
      from that obtain x where x: "x \<in> set (f_entries (l_fib s))" "fe = x \<or> fe = UpdateStatus face st x"
        by (auto simp: fib_modify_def modify_key_def)
      then have "fm_face ` set (fe_faces x) \<subseteq> set L" using w by (auto simp: names_in_def)
      with x(2) UpdateStatus_faces [of face st x] show ?thesis by blast
    qed
    then show ?thesis using w by (simp add: names_in_def)
  qed
  then show ?thesis
    using w by (auto simp: update_fib_status_def split: option.splits intro!: post_bindr [OF post_True])
qed

lemma names_OnNack:
  assumes "names_in L N s" and "pit_inv (l_pit s)" and "may_add N s"
  shows "post UNIV (names_in L N) (OnNack os now face h p s)"
proof -
  have again: "post UNIV (names_in L N)
      (bindr (update_fib_status n face NDN_FIB_YELLOW s1) (\<lambda>s.
       bindr (entry_at n s) (\<lambda>e.
         if length (pe_incoming e) = 0 then Inr s
         else if \<not> AreAllOutgoingInVain e then Inr s
         else bindr (AddInterestHeader nonNackHeader Packet_new) (\<lambda>nonNackInterest.
              bindr (PropagateInterest os now n nonNackInterest s) (\<lambda>(s, propagated).
                if \<not> propagated then GiveUpInterest os now n nonNackHeader s else Inr s)))))"
    if "names_in L N s1" for n s1 nonNackHeader
    by (rule post_bindr [OF names_fib_status [OF that]], rule post_bindr [OF post_True])
      (auto intro!: post_bindr [OF post_True] names_forward)
  have vain: "names_in L N (if b then mod_pit n (RemoveIncoming face) (mod_pit n (SetWaitingInVain face) s1)
      else mod_pit n (SetWaitingInVain face) s1)" if "names_in L N s1" for b n s1
    using that by (simp add: names_ops)
  have entry: "post UNIV (names_in L N) (if b then Inr s1 else bindr (entry_at n s1) (\<lambda>e. if c e then Inr s1 else f e))"
    if "names_in L N s1" "\<And>e. post UNIV (names_in L N) (f e)" for n s1 f b and c :: "pit_entry \<Rightarrow> bool"
    using that by (cases b) (auto intro!: post_bindr [OF post_True])
  show ?thesis
    unfolding OnNack_def Let_def
    by (rule post_bindr [OF names_Lookup [OF assms]], clarify) (rule entry, assumption, rule again, rule vain)
qed

lemma names_OnData: "names_in L N s \<Longrightarrow> post UNIV (names_in L N) (OnData os face h p s)"
proof -
  assume w: "names_in L N s"
  have old: "post UNIV (names_in L N) (bindr (HandleUnsolicitedData h p s) (\<lambda>(s, added). Inr s))"
    by (cases "cs_Add h p (l_contentStore s)") (use w in \<open>auto simp: HandleUnsolicitedData_def\<close>)
  have "post UNIV (names_in L N) (bindr (free_metadata p) (\<lambda>p. bindr (update_fib_status n face NDN_FIB_GREEN s) (\<lambda>s.
      bindr (cs_Add h p (l_contentStore s)) (\<lambda>(cs, added). SatisfyPendingInterests os n p (s\<lparr>l_contentStore := cs\<rparr>)))))" for n
    by (rule post_bindr [OF post_True], rule post_bindr [OF names_fib_status [OF w]], rule post_bindr [OF post_True])
      (auto intro: names_Satisfy)
  with old w show ?thesis by (auto simp: OnData_def split: sum.splits fault.splits)
qed

section \<open>Closing a face\<close>

text \<open>The only next hop of some prefix: closing it is undefined.\<close>

definition only_next_hop :: "face_id \<Rightarrow> l3 \<Rightarrow> bool" where
  "only_next_hop fd s \<longleftrightarrow> (\<exists>fe \<in> set (f_entries (l_fib s)). \<forall>m \<in> set (fe_faces fe). fm_face m = fd)"

lemma RemoveAll_twice: "RemoveAllReferencesToFace fd (RemoveAllReferencesToFace fd e) = RemoveAllReferencesToFace fd e"
  by (simp add: RemoveAllReferencesToFace_def erase_key_def filter_filter cong: conj_cong)

lemma RemoveAll_gone: "fd \<notin> entry_faces (RemoveAllReferencesToFace fd e)"
  by (auto simp: entry_faces_def RemoveAllReferencesToFace_def set_erase_key)

definition trimmed :: "face_id \<Rightarrow> name set \<Rightarrow> l3 \<Rightarrow> l3 \<Rightarrow> bool" where
  "trimmed fd ns s s' \<longleftrightarrow> (\<exists>t. s' = s\<lparr>l_pit := t\<rparr> \<and>
     (\<forall>n. pit_find t n =
        (if n \<in> ns then map_option (RemoveAllReferencesToFace fd) (pit_find (l_pit s) n) else pit_find (l_pit s) n)))"

lemma trim_loop_exact:
  assumes "\<not> only_next_hop fd s0" and "foldr_res (trim_entry fd) ms (s, []) = Inr (s', r)"
    and "trimmed fd ns s0 s"
  shows "trimmed fd (ns \<union> set ms) s0 s' \<and> r = []"
  using assms(2,3)
proof (induction ms arbitrary: s ns)
  case (Cons m ms)
  let ?s = "mod_pit m (RemoveAllReferencesToFace fd) s"
  obtain s1 r1 where one: "trim_entry fd m (s, []) = Inr (s1, r1)"
    and rest: "foldr_res (trim_entry fd) ms (s1, r1) = Inr (s', r)"
    using Cons.prems(1) by (auto simp: bindr_eq_Inr)
  obtain t where t: "s = s0\<lparr>l_pit := t\<rparr>" "\<forall>n. pit_find t n =
        (if n \<in> ns then map_option (RemoveAllReferencesToFace fd) (pit_find (l_pit s0) n) else pit_find (l_pit s0) n)"
    using Cons.prems(2) unfolding trimmed_def by blast
  have fib: "l_fib ?s = l_fib s0" using t(1) by (simp add: mod_pit_def)
  have "\<not> (length (fe_faces fe) = 1 \<and> fm_face (hd (fe_faces fe)) = fd)" if "fib_at a ?s = Inr fe" for a fe
  proof
    assume one: "length (fe_faces fe) = 1 \<and> fm_face (hd (fe_faces fe)) = fd"
    then have "\<forall>m \<in> set (fe_faces fe). fm_face m = fd" by (cases "fe_faces fe") auto
    moreover have "fe \<in> set (f_entries (l_fib s0))"
      using that fib by (auto simp: fib_at_def split: option.splits dest: find_key_SomeD)
    ultimately show False using assms(1) by (auto simp: only_next_hop_def)
  qed
  then have lone: "fib_at a ?s = Inr fe \<Longrightarrow> (length (fe_faces fe) = 1 \<and> fm_face (hd (fe_faces fe)) = fd) = False" for a fe
    by simp
  obtain e where e: "entry_at m ?s = Inr e" using one by (auto simp: trim_entry_def Let_def bindr_eq_Inr)
  have r1: "s1 = ?s" "r1 = []"
  proof -
    have "s1 = ?s \<and> r1 = []"
    proof (cases "pe_fibEntry e")
      case None
      then show ?thesis using one e by (simp add: trim_entry_def Let_def)
    next
      case (Some a)
      then obtain fe where fe: "fib_at a ?s = Inr fe" using one e by (auto simp: trim_entry_def Let_def bindr_eq_Inr)
      show ?thesis using one e Some fe lone [OF fe] by (auto simp: trim_entry_def Let_def split: if_splits)
    qed
    then show "s1 = ?s" "r1 = []" by simp_all
  qed
  have "trimmed fd (insert m ns) s0 ?s"
    unfolding trimmed_def
    by (rule exI [of _ "pit_modify m (RemoveAllReferencesToFace fd) t"])
      (auto simp: t mod_pit_def pit_find_modify RemoveAll_twice option.map_comp comp_def split: option.splits)
  from Cons.IH [OF rest [unfolded r1] this] show ?case by simp
qed simp

lemma RemoveFace_result:
  assumes "l3_inv s"
  shows "if only_next_hop fd s then RemoveFace fd s = Inl UseAfterFree
    else \<exists>s'. RemoveFace fd s = Inr s' \<and> s' = s\<lparr>l_pit := l_pit s', l_fib := l_fib s', l_faces := remove1 fd (l_faces s)\<rparr> \<and>
      (\<forall>n. pit_find (l_pit s') n = map_option (RemoveAllReferencesToFace fd) (pit_find (l_pit s) n)) \<and>
      (\<forall>n k. route (l_fib s') n k = (if k = fd then None else route (l_fib s) n k))"
proof -
  have fib: "fib_inv (l_fib s)" and pit: "pit_inv (l_pit s)" using assms by (simp_all add: l3_inv_def)
  obtain s1 where s1: "TrimPitEntriesAssociatedWithFace fd s = Inr s1" "l_fib s1 = l_fib s"
    using post_Trim [OF assms, of "{}" fd] by (cases "TrimPitEntriesAssociatedWithFace fd s") auto
  have gone: "fe_faces (fe_RemoveFace fd e) = [] \<longleftrightarrow> (\<forall>m \<in> set (fe_faces e). fm_face m = fd)" for e
    by (simp add: fe_RemoveFace_def erase_key_def filter_empty_conv)
  have iff: "fib_RemoveFromAll fd (l_fib s) = Inl UseAfterFree \<longleftrightarrow> only_next_hop fd s"
    unfolding fib_RemoveFromAll_def only_next_hop_def gone [symmetric]
    using remove_all_loop [of "f_entries (l_fib s)" "l_fib s" fd] fib_find_complete [OF fib] fib
    by (simp add: fib_inv_def)
  show ?thesis
  proof (cases "only_next_hop fd s")
    case True
    then show ?thesis using iff s1 by (simp add: RemoveFace_def)
  next
    case False
    then obtain t where t: "fib_RemoveFromAll fd (l_fib s) = Inr t"
      using iff RemoveFromAll_fault [of fd "l_fib s"] by (cases "fib_RemoveFromAll fd (l_fib s)") auto
    let ?ms = "map pe_prefix (p_entries (l_pit s))"
    obtain s2 r where s2: "foldr_res (trim_entry fd) ?ms (s, []) = Inr (s2, r)"
      and s1': "s1 = s2\<lparr>l_pit := fold pit_Remove r (l_pit s2)\<rparr>"
      using s1(1) by (auto simp: TrimPitEntriesAssociatedWithFace_def bindr_eq_Inr)
    have "trimmed fd {} s s" unfolding trimmed_def by (intro exI [of _ "l_pit s"]) simp
    from trim_loop_exact [OF False s2 this] have r: "trimmed fd (set ?ms) s s2" "r = []" by auto
    obtain q where q: "s2 = s\<lparr>l_pit := q\<rparr>" "\<forall>n. pit_find q n =
        (if n \<in> set ?ms then map_option (RemoveAllReferencesToFace fd) (pit_find (l_pit s) n) else pit_find (l_pit s) n)"
      using r(1) unfolding trimmed_def by blast
    have absent: "pit_find (l_pit s) n = None" if "n \<notin> set ?ms" for n
      using that pit_find_entry [of "l_pit s" n] by (cases "pit_find (l_pit s) n") auto
    have find: "pit_find q n = map_option (RemoveAllReferencesToFace fd) (pit_find (l_pit s) n)" for n
      using q(2) absent [of n] by (cases "n \<in> set ?ms") auto
    let ?s' = "s\<lparr>l_pit := q, l_fib := t, l_faces := remove1 fd (l_faces s)\<rparr>"
    have "RemoveFace fd s = Inr ?s'" using s1 t s1' r(2) q(1) by (simp add: RemoveFace_def)
    moreover have "?s' = s\<lparr>l_pit := l_pit ?s', l_fib := l_fib ?s', l_faces := remove1 fd (l_faces s)\<rparr>" by simp
    ultimately show ?thesis
      using False find RemoveFromAll_inv [OF t fib] by auto
  qed
qed

lemma RemoveFace_Inr:
  assumes "l3_inv s" and "RemoveFace fd s = Inr t"
  shows "t = s\<lparr>l_pit := l_pit t, l_fib := l_fib t, l_faces := remove1 fd (l_faces s)\<rparr> \<and>
      (\<forall>n. pit_find (l_pit t) n = map_option (RemoveAllReferencesToFace fd) (pit_find (l_pit s) n)) \<and>
      (\<forall>n k. route (l_fib t) n k = (if k = fd then None else route (l_fib s) n k))"
proof (cases "only_next_hop fd s")
  case True
  then show ?thesis using RemoveFace_result [OF assms(1), of fd] assms(2) by simp
next
  case False
  from RemoveFace_result [OF assms(1), of fd, unfolded if_not_P [OF False]]
  obtain s' where s': "RemoveFace fd s = Inr s'" "s' = s\<lparr>l_pit := l_pit s', l_fib := l_fib s', l_faces := remove1 fd (l_faces s)\<rparr> \<and>
      (\<forall>n. pit_find (l_pit s') n = map_option (RemoveAllReferencesToFace fd) (pit_find (l_pit s) n)) \<and>
      (\<forall>n k. route (l_fib s') n k = (if k = fd then None else route (l_fib s) n k))" by (elim exE conjE) simp
  have "t = s'" using s'(1) assms(2) by simp
  with s'(2) show ?thesis by blast
qed

section \<open>Every step keeps the tables to the open faces\<close>

lemma open_routes:
  assumes "only_open s" "fib_inv (l_fib s)"
  shows "\<forall>n k. route (l_fib s) n k \<noteq> None \<longrightarrow> k \<in> set (l_faces s)"
proof -
  have "\<forall>fe \<in> set (f_entries (l_fib s)). fm_face ` set (fe_faces fe) \<subseteq> set (l_faces s)"
    using assms(1) by (auto simp: only_open_def names_in_def)
  then show ?thesis using fib_faces_route [OF assms(2), of "set (l_faces s)"] by blast
qed

lemma names_open: "names_in (l_faces s) UNIV s' \<Longrightarrow> only_open s'"
  by (simp add: only_open_def names_in_def)

lemma names_Receive:
  assumes "names_in (l_faces s) N s" "l3_inv s" "may_add N s" "fd \<in> set (l_faces s)" "l3_Receive os now fd p s = Inr s'"
  shows "names_in (l_faces s) N s'"
proof -
  let ?L = "l_faces s"
  have pit: "pit_inv (l_pit s)" using assms(2) by (simp add: l3_inv_def)
  note w = assms(1) pit assms(3)
  have types: "a \<noteq> INTEREST \<longleftrightarrow> a = CONTENT_OBJECT" for a by (cases a) simp_all
  have "names_in ?L N t" if "OnInterest os now fd h p s = Inr t" for h t
    using names_OnInterest [OF w assms(4), of os now h p] that by simp
  moreover have "names_in ?L N t" if "OnNack os now fd h p s = Inr t" for h t
    using names_OnNack [OF w, of os now fd h p] that by simp
  moreover have "names_in ?L N t" if "OnData os fd h p s = Inr t" for h t
    using names_OnData [OF assms(1), of os fd h p] that by simp
  ultimately show ?thesis
    using assms(1,5) types
    by (auto simp: l3_Receive_def bindr_eq_Inr bindr_eq_Inl
        split: sum.splits fault.splits header_type.splits if_splits)
qed

lemma open_Receive:
  assumes "only_open s" "l3_inv s" "fd \<in> set (l_faces s)" "l3_Receive os now fd p s = Inr s'"
  shows "only_open s'"
  by (rule names_open [OF names_Receive [OF assms(1) [unfolded only_open_def] assms(2) may_add_UNIV assms(3,4)]])

lemma faces_Receive:
  assumes "only_open s" "l3_inv s" "fd \<in> set (l_faces s)" "l3_Receive os now fd p s = Inr s'"
  shows "l_faces s' = l_faces s"
  using names_Receive [OF assms(1) [unfolded only_open_def] assms(2) may_add_UNIV assms(3,4)] by (simp add: names_in_def)

lemma open_RemoveFace:
  assumes "only_open s" "l3_inv s" "RemoveFace fd s = Inr s'"
  shows "only_open s'"
proof -
  note r = RemoveFace_Inr [OF assms(2,3)]
  have pit: "\<forall>n. pit_find (l_pit s') n = map_option (RemoveAllReferencesToFace fd) (pit_find (l_pit s) n)"
    and fib: "\<forall>n k. route (l_fib s') n k = (if k = fd then None else route (l_fib s) n k)" using r by blast+
  have faces: "l_faces s' = remove1 fd (l_faces s)" by (subst r [THEN conjunct1]) simp
  have left: "set (l_faces s) - {fd} \<subseteq> set (l_faces s')"
  proof
    fix k assume "k \<in> set (l_faces s) - {fd}"
    then show "k \<in> set (l_faces s')" unfolding faces by (simp add: in_set_remove1)
  qed
  have inv: "fib_inv (l_fib s)" "fib_inv (l_fib s')"
    using assms(2) l3_inv_RemoveFace [OF assms(2,3)] by (auto simp: l3_inv_def)
  have "k \<in> set (l_faces s')" if k: "route (l_fib s') n k \<noteq> None" for n k
  proof -
    have "k \<noteq> fd" "route (l_fib s) n k \<noteq> None" using k fib by (auto split: if_splits)
    then show ?thesis using open_routes [OF assms(1) inv(1)] left by blast
  qed
  then have "\<forall>fe \<in> set (f_entries (l_fib s')). fm_face ` set (fe_faces fe) \<subseteq> set (l_faces s')"
    using fib_faces_route [OF inv(2), of "set (l_faces s')"] by blast
  moreover have "entry_faces e \<subseteq> set (l_faces s')" if e: "pit_find (l_pit s') n = Some e" for n e
  proof -
    obtain e0 where e0: "pit_find (l_pit s) n = Some e0" "e = RemoveAllReferencesToFace fd e0" using pit e by auto
    have "entry_faces e0 \<subseteq> set (l_faces s)" using e0(1) assms(1) by (simp add: only_open_def names_in_def)
    then show ?thesis using e0(2) RemoveAll_gone [of fd e0] entry_faces_ops(11) [of fd e0] left by blast
  qed
  ultimately show ?thesis by (auto simp: only_open_def names_in_def)
qed

lemma faces_read:
  assumes "only_open s" "l3_inv s" "fd \<in> set (l_faces s)" "readHandler os now fd input s = Inr (s', off)"
  shows "if off then set (l_faces s) - {fd} \<subseteq> set (l_faces s') else l_faces s' = l_faces s"
proof -
  consider "s' = s" | "RemoveFace fd s = Inr s'" "off" | p where "l3_Receive os now fd p s = Inr s'"
    using assms(4) by (auto simp: readHandler_def bindr_eq_Inr split: option.splits if_splits)
  then show ?thesis
  proof cases
    case 1
    then show ?thesis by auto
  next
    case 2
    have "l_faces s' = remove1 fd (l_faces s)"
      by (subst RemoveFace_Inr [OF assms(2) 2(1), THEN conjunct1]) simp
    moreover have "set (l_faces s) - {fd} \<subseteq> set (remove1 fd (l_faces s))"
      by (rule subsetI) (simp add: in_set_remove1)
    ultimately show ?thesis using 2(2) by simp
  next
    case 3
    then show ?thesis using faces_Receive [OF assms(1-3) 3] by auto
  qed
qed

lemma faces_hub:
  assumes "only_open s" "l3_inv s" "fd \<in> set (l_faces s)" "hub_readHandler os now fd input s = Inr s'"
  shows "l_faces s' = l_faces s"
  using assms faces_Receive [OF assms(1-3)]
  by (auto simp: hub_readHandler_def bindr_eq_Inr split: option.splits if_splits)

lemma faces_net:
  assumes "only_open s" "l3_inv s" "fd \<in> set (l_faces s)" "net_readHandler os now fd input s = Inr s'"
  shows "l_faces s' = l_faces s"
  using assms faces_Receive [OF assms(1-3)] by (auto simp: net_readHandler_def bindr_eq_Inr split: option.splits)

lemma faces_management: "management_message m s = Inr s' \<Longrightarrow> l_faces s' = l_faces s"
  by (auto simp: management_message_def prefixRegistration_def Let_def split: if_splits)

lemma open_Reap:
  assumes "only_open s" "l3_inv s"
  shows "only_open (Reap now s)"
proof -
  have p: "pit_inv (l_pit s)" using assms(2) by (simp add: l3_inv_def)
  have "pit_find (CleanExpired now (l_pit s)) n = Some e \<Longrightarrow> pit_find (l_pit s) n = Some e" for n e
    using p by (auto simp: pit_find_def CleanExpired_entries find_filter_key pit_inv_def linked_inv_def
        split: option.splits if_splits)
  then show ?thesis using assms(1) by (fastforce simp: only_open_def names_in_def Reap_def)
qed

lemma open_fib:
  assumes "only_open s" "fib_inv (l_fib s)" "fib_inv t"
    and "\<And>n k. route t n k \<noteq> None \<Longrightarrow> route (l_fib s) n k \<noteq> None \<or> k \<in> set (l_faces s)"
  shows "only_open (s\<lparr>l_fib := t\<rparr>)"
proof -
  have "\<forall>fe \<in> set (f_entries t). fm_face ` set (fe_faces fe) \<subseteq> set (l_faces s)"
    using fib_faces_route [OF assms(3), of "set (l_faces s)"] open_routes [OF assms(1,2)] assms(4) by blast
  then show ?thesis using assms(1) by (auto simp: only_open_def names_in_def)
qed

lemma open_management:
  assumes "only_open s" "l3_inv s" "GetFace (fw_faceID m) s \<noteq> None" "management_message m s = Inr s'"
  shows "only_open s'"
proof -
  obtain fd where fd: "GetFace (fw_faceID m) s = Some fd" using assms(3) by auto
  have inv: "fib_inv (l_fib s)" using assms(2) by (simp add: l3_inv_def)
  have listed: "fd \<in> set (l_faces s)" using GetFace_Some [OF fd] by blast
  have "only_open (s\<lparr>l_fib := fib_Add pfx fd c (l_fib s)\<rparr>)" for pfx c
    by (rule open_fib [OF assms(1) inv fib_Add_inv [OF inv]]) (auto simp: route_Add listed split: if_splits)
  moreover have "only_open (s\<lparr>l_fib := removed pfx fd (l_fib s)\<rparr>)" for pfx
    by (rule open_fib [OF assms(1) inv removed_inv [OF inv]]) (auto simp: route_removed split: if_splits)
  ultimately show ?thesis
    using assms(1,4) fd
    by (auto simp: management_message_def prefixRegistration_def Let_def compares_null_def face_pointer_def
        fib_RemovePrefix_eq split: if_splits)
qed

lemma open_step:
  assumes "l3_step os s s'" "l3_inv s" "only_open s"
  shows "only_open s'"
  using assms(1)
proof (cases rule: l3_step.cases)
  case (connect fd)
  have "l_faces s' = l_faces s @ [fd]" "l_pit s' = l_pit s" "l_fib s' = l_fib s"
    using connect(1) by (simp_all add: AddFace_def NDNFace_def)
  moreover have "set (l_faces s) \<subseteq> set (l_faces s @ [fd])" by auto
  ultimately show ?thesis using assms(3) unfolding only_open_def names_in_def by (metis subset_trans subsetD)
next
  case (read fd input now off)
  consider "s' = s" | "RemoveFace fd s = Inr s'" | p where "l3_Receive os now fd p s = Inr s'"
    using read(3) by (auto simp: readHandler_def bindr_eq_Inr split: option.splits if_splits)
  then show ?thesis
    using assms open_RemoveFace [OF assms(3,2)] open_Receive [OF assms(3,2) read(1)] by cases auto
next
  case (hub_read fd now input)
  then show ?thesis
    using assms open_Receive [OF assms(3,2) hub_read(1)]
    by (auto simp: hub_readHandler_def bindr_eq_Inr split: option.splits if_splits)
next
  case (net_read fd input now)
  then show ?thesis
    using assms open_Receive [OF assms(3,2) net_read(1)]
    by (auto simp: net_readHandler_def bindr_eq_Inr split: option.splits)
next
  case (adhoc_read fd p k now)
  then show ?thesis using open_Receive [OF assms(3,2)] by blast
next
  case (register m)
  then show ?thesis using open_management [OF assms(3,2)] by blast
next
  case (withdraw m fd)
  then show ?thesis using open_management [OF assms(3,2), of m] by simp
next
  case (remove fd)
  then show ?thesis using open_RemoveFace [OF assms(3,2)] by blast
next
  case (reap now)
  then show ?thesis using open_Reap [OF assms(3,2)] by simp
qed

lemma boot_open: "distinct (map fc_fd devices) \<Longrightarrow> only_open (boot devices)"
proof -
  assume d: "distinct (map fc_fd devices)"
  have none: "pit_find NDNPit n = None" for n by (simp add: pit_find_def NDNPit_def)
  show ?thesis unfolding only_open_def names_in_def using boot_heap [OF d] none by (simp add: NDNFib_def)
qed

lemma reachable_open:
  assumes "l3_reachable os devices s" and "distinct (map fc_fd devices)" and "hub_or_adhoc (boot devices)"
  shows "only_open s"
  using assms(1)
proof (induction rule: l3_reachable.induct)
  case start
  show ?case by (rule boot_open [OF assms(2)])
next
  case (step s s')
  then show ?case using open_step reachable_inv [OF step(1) assms(2,3)] by blast
qed

section \<open>Names without an entry\<close>

text \<open>While an entry for a prefix of a name is pending, no step makes an entry for the name itself.\<close>

lemma absent_step:
  assumes "l3_step os s s'" "l3_inv s" "only_open s" "pit_find (l_pit s) nm = None" "pit_LongestPrefixMatch nm (l_pit s) \<noteq> None"
  shows "pit_find (l_pit s') nm = None"
proof -
  have w: "names_in (l_faces s) (- {nm}) s" "may_add (- {nm}) s"
    using assms(3-5) by (auto simp: only_open_def names_in_def may_add_def)
  have receive: "pit_find (l_pit t) nm = None" if "l3_Receive os now fd p s = Inr t" "fd \<in> set (l_faces s)" for now fd p t
    using names_Receive [OF w(1) assms(2) w(2) that(2,1)] unfolding names_in_def by blast
  have removed: "pit_find (l_pit t) nm = None" if "RemoveFace fd s = Inr t" for fd t
    using RemoveFace_Inr [OF assms(2) that] assms(4) by auto
  have manage: "pit_find (l_pit t) nm = None" if "management_message m s = Inr t" for m t
    using that assms(4) by (auto simp: management_message_def prefixRegistration_def Let_def split: if_splits)
  from assms(1) show ?thesis
  proof (cases rule: l3_step.cases)
    case (connect fd)
    then show ?thesis using assms(4) by (simp add: AddFace_def NDNFace_def)
  next
    case (read fd input now off)
    then show ?thesis
      using receive removed assms(4) by (auto simp: readHandler_def bindr_eq_Inr split: option.splits if_splits)
  next
    case (hub_read fd now input)
    then show ?thesis using receive assms(4) by (auto simp: hub_readHandler_def bindr_eq_Inr split: option.splits if_splits)
  next
    case (net_read fd input now)
    then show ?thesis using receive assms(4) by (auto simp: net_readHandler_def bindr_eq_Inr split: option.splits)
  next
    case (adhoc_read fd p k now)
    then show ?thesis using receive by blast
  next
    case (register m)
    then show ?thesis using manage by blast
  next
    case (withdraw m fd)
    then show ?thesis using manage by blast
  next
    case (remove fd)
    then show ?thesis using removed by blast
  next
    case (reap now)
    have p: "pit_inv (l_pit s)" using assms(2) by (simp add: l3_inv_def)
    then show ?thesis
      using assms(4) reap by (auto simp: Reap_def pit_find_def CleanExpired_entries find_filter_key pit_inv_def linked_inv_def)
  qed
qed

text \<open>Steps during which an entry for a prefix of the name is pending.\<close>

definition shadowed_step :: "os \<Rightarrow> name \<Rightarrow> l3 \<Rightarrow> l3 \<Rightarrow> bool" where
  "shadowed_step os nm s s' \<longleftrightarrow> l3_step os s s' \<and> pit_LongestPrefixMatch nm (l_pit s) \<noteq> None"

lemma absent_run:
  assumes "(shadowed_step os nm)\<^sup>*\<^sup>* s t" "l3_inv s" "hub_or_adhoc s" "only_open s" "pit_find (l_pit s) nm = None"
  shows "l3_inv t \<and> hub_or_adhoc t \<and> only_open t \<and> pit_find (l_pit t) nm = None"
  using assms(1)
proof (induction rule: rtranclp_induct)
  case base
  then show ?case using assms by simp
next
  case (step b c)
  then have "l3_step os b c" "pit_LongestPrefixMatch nm (l_pit b) \<noteq> None" by (simp_all add: shadowed_step_def)
  then show ?case using step.IH step_inv open_step absent_step by blast
qed

end
