(* ===== verification/Scenarios.thy ===== *)
theory Scenarios
  imports Propagate Closing
begin

text \<open>
  What holds in every reachable state of the daemon, and the executions in which the code leaves
  defined behaviour or loses an Interest.
\<close>

section \<open>Reachable states\<close>



text \<open>A prefix is registered under face 4, and an Interest for it arrives on face 3.\<close>

definition sample_reg :: forwarding_entry where
  "sample_reg = \<lparr>fw_ServiceType = ''ForwardingEntry'', fw_Action = ''selfreg'', fw_Name = ''/a'', fw_faceID = 4\<rparr>"

definition sample_registered :: l3 where
  "sample_registered = sample_boot\<lparr>l_fib := fib_Add (parse_name ''/a'') 4 LOCAL_FACE_METRIC (l_fib sample_boot)\<rparr>"

definition sample_asked :: packet where
  "sample_asked = (case AddInterestHeader sample_header Packet_new of Inl e \<Rightarrow> sample_packet | Inr p \<Rightarrow> p\<lparr>pk_linked := True\<rparr>)"

definition sample_forwarded :: l3 where
  "sample_forwarded = (case l3_Receive sample_os 0 3 sample_asked sample_registered of Inl e \<Rightarrow> sample_registered | Inr s \<Rightarrow> s)"

lemma sample_devices:
  "distinct (map fc_fd [NDNFace LocalFace 3, NDNFace LocalFace 4])" "hub_or_adhoc (boot [NDNFace LocalFace 3, NDNFace LocalFace 4])"
proof -
  show d: "distinct (map fc_fd [NDNFace LocalFace 3, NDNFace LocalFace 4])" by (simp add: NDNFace_def)
  show "hub_or_adhoc (boot [NDNFace LocalFace 3, NDNFace LocalFace 4])"
    unfolding hub_or_adhoc_def no_adhoc_def boot_heap [OF d, THEN conjunct1] by (simp add: NDNFace_def)
qed

lemma sample_reachable_forwarded:
  "l3_reachable sample_os [NDNFace LocalFace 3, NDNFace LocalFace 4] sample_forwarded"
proof -
  let ?d = "[NDNFace LocalFace 3, NDNFace LocalFace 4]"
  have face: "GetFace (fw_faceID sample_reg) sample_boot = Some 4" by code_simp
  then have "management_message sample_reg sample_boot = Inr sample_registered"
    by (simp add: management_message_def prefixRegistration_def sample_reg_def Let_def compares_null_def face_pointer_def
        sample_registered_def)
  then have "l3_step sample_os sample_boot sample_registered"
    using face by (intro l3_step.register [of sample_reg]) (simp_all add: sample_reg_def)
  then have r: "l3_reachable sample_os ?d sample_registered"
    using l3_reachable.step [OF l3_reachable.start [of sample_os ?d]] by (simp add: sample_boot_def)
  have go: "case l3_Receive sample_os 0 3 sample_asked sample_registered of Inl e \<Rightarrow> False | Inr s \<Rightarrow> True" by code_simp
  have "l_faces sample_registered = [3, 4]" by code_simp
  moreover have "no_adhoc sample_registered"
    unfolding no_adhoc_def sample_registered_def sample_boot_def using boot_heap [OF sample_devices(1)] by (simp add: NDNFace_def)
  moreover have "pk_llmetadata sample_asked = None" "pk_linked sample_asked" by code_simp+
  ultimately have "l3_step sample_os sample_registered sample_forwarded"
    using go by (intro l3_step.adhoc_read [where fd = 3 and p = sample_asked and now = 0])
      (auto simp: sample_forwarded_def fits_def split: sum.splits)
  with r show ?thesis by (rule l3_reachable.step)
qed



section \<open>Executions that end badly\<close>

text \<open>
  With an ad-hoc face and a hub face, a new Interest that arrives over IP (and that the content store
  cannot answer) makes the ad-hoc face read the metadata that the handler has just freed.
\<close>

theorem hub_interest_dangles:
  assumes "ih_name h = Some (c # n)" and "pk_llmetadata p = Some (OverIP ip port)" and "os 3 AdhocRing" and "pk_linked p"
  shows "OnInterest os now 4 h p (boot [NDNFace AdhocNetDeviceFace 3, NDNFace HubOverIPDeviceFace 4]) = Inl UseAfterFree"
proof -
  let ?d = "[NDNFace AdhocNetDeviceFace 3, NDNFace HubOverIPDeviceFace 4]" and ?n = "c # n"
  let ?s = "boot ?d"
  have d: "distinct (map fc_fd ?d)" by (simp add: NDNFace_def)
  note b = boot_heap [OF d]
  have inv: "l3_inv ?s" by (rule boot_inv [OF d])
  have fresh: "pit_find NDNPit k = None" for k by (simp add: pit_find_def NDNPit_def)
  obtain t m isNew isDup ok where look: "pit_LookupInterest now (l_fib ?s) h (l_pit ?s) = Inr (t, m, isNew, isDup, ok)"
    using ctx_Lookup [OF inv, of h "{}" now] assms(1)
    by (cases "pit_LookupInterest now (l_fib ?s) h (l_pit ?s)") auto
  have ctx1: "ctx m ?s (?s\<lparr>l_pit := t\<rparr>)" "ok" using ctx_Lookup [OF inv, of h "{}" now] assms(1) look by simp_all
  have lpm: "fib_LongestPrefixMatch k NDNFib = None" for k
    using fibs.lpm_None_iff [OF fib_new_inv, of k] by (simp add: fib_LongestPrefixMatch_def NDNFib_def)
  obtain e0 where e0: "pit_find t m = Some e0" "pe_fibEntry e0 = None" "pe_sourceMetadata e0 = None" "\<not> isDup"
    using LookupInterest_find [OF pit_new_inv, of now "l_fib ?s" h t m isNew isDup ok] look b fresh lpm
    by (auto simp: NDNPitEntry_def AddSeenNonce_def)
  let ?s2 = "mod_pit m (setSourceMetadata (addIP ip port [])) (?s\<lparr>l_pit := t\<rparr>)" and ?p = "p\<lparr>pk_llmetadata := Some FreedMetadata\<rparr>"
  have source: "record_source isDup m p (?s\<lparr>l_pit := t\<rparr>) = Inr (?s2, ?p)"
    using assms(2) e0 by (simp add: record_source_def entry_at_def)
  have e2: "pit_find (l_pit ?s2) m = Some (setSourceMetadata (addIP ip port []) e0)"
    using e0(1) by (simp add: pit_find_mod_pit)
  have fd: "4 \<in> fds ?s" using b by (simp add: fds_def NDNFace_def)
  note ctx2 = ctx_ops(3) [OF ctx1(1), of "addIP ip port []"]
  obtain s3 r where u: "updatePITForInterest now m 4 h ?s2 = Inr (s3, r)"
    using ctx_update [OF ctx2 fd, of "{}" now h] by (cases "updatePITForInterest now m 4 h ?s2") auto
  from update_result [OF u e2] e2 e0(2)
  have s3: "\<exists>e3. pit_find (l_pit s3) m = Some e3 \<and> pe_fibEntry e3 = None" "l_heap s3 = ?d" "l_faces s3 = [3, 4]"
    "l_contentStore s3 = policy_trie_new"
    using b by (auto simp: pit_find_mod_pit) (simp_all add: mod_pit_def setSourceMetadata_def NDNFace_def)
  then obtain e3 where e3: "entry_at m s3 = Inr e3" "pe_fibEntry e3 = None" by (auto simp: entry_at_def)
  have "cs_Lookup h (policy_trie_new :: content_store) = Inr (policy_trie_new, None)"
  proof -
    have "\<forall>q \<in> tries.stored (pt_trie (policy_trie_new :: content_store)). \<not> prefix ?n q"
      by (simp add: tries.stored_def policy_trie_new_def dom_def)
    from deepest_match_cases(1) [OF pt_inv_new _ refl this] assms(1) show ?thesis
      by (simp add: cs_Lookup_def ih_GetName_def)
  qed
  then have miss: "checkContentStoreForInterest os h m s3 = Inr (s3, False)"
    using s3(4) by (simp add: checkContentStoreForInterest_def)
  have limit: "below_limit now 3 s3 = Inr (s3\<lparr>l_heap := modify_key fc_fd 3 (\<lambda>f. fst (IsBelowLimit now f)) ?d\<rparr>, True)"
    using s3(2) by (simp add: below_limit_def face_at_def NDNFace_def IsBelowLimit_def LeakBucket_def Let_def)
  have send: "send_on os 3 ?p None (mod_pit m g (s3\<lparr>l_heap := modify_key fc_fd 3 (\<lambda>f. fst (IsBelowLimit now f)) ?d\<rparr>)) = Inl UseAfterFree" for g
    using assms(3,4) by (simp add: send_on_def face_at_def mod_pit_def face_Send_def adhoc_Send_def modify_key_def NDNFace_def)
  have "PropagateInterest os now m ?p s3 = Inl UseAfterFree"
    using e3 s3(3) limit send
    by (simp add: PropagateInterest_def PropagateInterestViaGreen_def flood_faces_def)
  then show ?thesis
    using look source u miss ctx1(2) e0(4) by (simp add: OnInterest_def cong: if_cong)
qed

theorem hub_interest_dangles_witness:
  "OnInterest sample_os 0 4 sample_header (sample_packet\<lparr>pk_llmetadata := Some (OverIP 1 2)\<rparr>)
     (boot [NDNFace AdhocNetDeviceFace 3, NDNFace HubOverIPDeviceFace 4]) = Inl UseAfterFree"
  by (rule hub_interest_dangles [of _ "''a''" "[]" _ 1 2]) (simp_all add: sample_header_def sample_os_def sample_packet_def)

text \<open>
  With an ad-hoc face as its only face, the daemon dereferences the null pointer when a nack comes
  back for a pending Interest that went to no other promising face: it builds the Interest to send
  again from scratch, and such a packet has no \<open>llmetadata\<close>.
\<close>

theorem nack_null_pointer:
  assumes "l3_inv s" and "ih_name h = Some nm" and "pit_LongestPrefixMatch nm (l_pit s) = Some e"
    and "ih_nonce h \<in> pe_seenNonces e" and "pe_fibEntry e = None" and "pe_incoming e \<noteq> []"
    and "find_key out_face fd (pe_outgoing e) \<noteq> None"
    and "\<not> AreTherePromisingOutgoingFacesExcept fd e" and "ih_nackType h \<noteq> NACK_GIVEUP_PIT"
    and "l_faces s = [fd]" and "find_key fc_fd fd (l_heap s) = Some f" and "fc_kind f = AdhocNetDeviceFace"
    and "snd (IsBelowLimit now f)" and "os fd AdhocRing"
    and "AddInterestHeader (ih_SetNack NORMAL_INTEREST h) Packet_new = Inr q"
  shows "OnNack os now fd h p s = Inl NullDereference"
proof -
  let ?n = "pe_prefix e"
  have look: "pit_LookupInterest now (l_fib s) h (l_pit s) = Inr (l_pit s, ?n, False, True, True)"
    using assms(2-4) by (simp add: pit_LookupInterest_def ih_GetName_def IsNonceSeen_def)
  have e: "pit_find (l_pit s) ?n = Some e"
    using pits.lpm_sound(1) [of "l_pit s" nm e] pits.find_complete [of "l_pit s" e] assms(1,3)
    by (simp add: pit_LongestPrefixMatch_def l3_inv_def)
  let ?s1 = "mod_pit ?n (SetWaitingInVain fd) s" and ?e1 = "SetWaitingInVain fd e"
  have e1: "pit_find (l_pit ?s1) ?n = Some ?e1" using e by (simp add: pit_find_mod_pit)
  have vain: "AreAllOutgoingInVain ?e1"
    using assms(8) by (auto simp: all_in_vain promising_iff SetWaitingInVain_def modify_key_def)
  have fib: "update_fib_status ?n fd NDN_FIB_YELLOW ?s1 = Inr ?s1"
    using e1 assms(5) by (simp add: update_fib_status_def entry_at_def)
  have heap: "find_key fc_fd fd (l_heap ?s1) = Some f" "l_faces ?s1 = [fd]"
    using assms(10,11) by (simp_all add: mod_pit_def)
  obtain f' where f': "IsBelowLimit now f = (f', True)" "fc_kind f' = AdhocNetDeviceFace" "fc_fd f' = fd"
    using assms(12,13) find_key_SomeD [OF assms(11)] fd_ops by (cases "IsBelowLimit now f") (metis fst_conv snd_conv)
  let ?s2 = "?s1\<lparr>l_heap := modify_key fc_fd fd (\<lambda>f. fst (IsBelowLimit now f)) (l_heap ?s1)\<rparr>"
  have limit: "below_limit now fd ?s1 = Inr (?s2, True)"
    using heap(1) f'(1) by (simp add: below_limit_def face_at_def)
  have "find_key fc_fd fd (l_heap (mod_pit ?n g ?s2)) = Some f'" for g
    using heap(1) f'(1) by (simp add: mod_pit_def find_modify_key)
  then have send: "send_on os fd q None (mod_pit ?n g ?s2) = Inl NullDereference" for g
    using f'(2,3) assms(14) nack_metadata [OF assms(15)]
    by (simp add: send_on_def face_at_def face_Send_def adhoc_Send_def)
  have "PropagateInterest os now ?n q ?s1 = Inl NullDereference"
    using e1 assms(5) heap(2) limit send
    by (simp add: PropagateInterest_def PropagateInterestViaGreen_def flood_faces_def entry_at_def)
  moreover have "entry_at ?n s = Inr e" "entry_at ?n ?s1 = Inr ?e1" using e e1 by (simp_all add: entry_at_def)
  moreover have "find_key out_face fd (pe_outgoing e) = None \<longleftrightarrow> False" using assms(7) by simp
  moreover have "length (pe_incoming ?e1) = 0 \<longleftrightarrow> False" using assms(6) by (simp add: SetWaitingInVain_def)
  ultimately show ?thesis
    using look fib vain assms(9,15) by (simp add: OnNack_def Let_def)
qed

definition sample_adhoc :: l3 where
  "sample_adhoc = (case OnInterest sample_os 0 3 sample_header sample_packet (boot [NDNFace AdhocNetDeviceFace 3]) of
     Inl e \<Rightarrow> sample_boot | Inr s \<Rightarrow> s)"

lemma sample_adhoc_inv: "l3_inv sample_adhoc"
proof -
  let ?d = "[NDNFace AdhocNetDeviceFace 3]"
  have "l3_inv (boot ?d)" by (rule boot_inv) simp
  moreover have "3 \<in> fds (boot ?d)" using boot_heap [of ?d] by (simp add: fds_def NDNFace_def)
  ultimately have "post UNIV (\<lambda>s'. l3_inv s' \<and> same_heap (boot ?d) s')
      (OnInterest sample_os 0 3 sample_header sample_packet (boot ?d))"
    by (intro post_OnInterest [OF _ _ _ sample_packet_ok]) (simp_all add: sample_header_def)
  then show ?thesis
    by (cases "OnInterest sample_os 0 3 sample_header sample_packet (boot ?d)")
      (auto simp: sample_adhoc_def sample_boot_inv)
qed

theorem nack_null_pointer_witness:
  "OnNack sample_os 1 3 (sample_header\<lparr>ih_nackType := NACK_LOOP\<rparr>) sample_packet sample_adhoc = Inl NullDereference"
proof -
  let ?h = "sample_header\<lparr>ih_nackType := NACK_LOOP\<rparr>"
  have nm: "ih_name ?h = Some [''a'']" "ih_nonce ?h = 7" "ih_nackType ?h \<noteq> NACK_GIVEUP_PIT"
    by (simp_all add: sample_header_def NACK_LOOP_def NACK_GIVEUP_PIT_def)
  have "map_option (\<lambda>e. (pe_seenNonces e, pe_fibEntry e, map in_face (pe_incoming e), map out_face (pe_outgoing e)))
      (pit_LongestPrefixMatch [''a''] (l_pit sample_adhoc)) = Some ({7}, None, [3], [3])" by code_simp
  then obtain e where e: "pit_LongestPrefixMatch [''a''] (l_pit sample_adhoc) = Some e" "pe_seenNonces e = {7}"
    "pe_fibEntry e = None" "map in_face (pe_incoming e) = [3]" "map out_face (pe_outgoing e) = [3]" by auto
  have out: "find_key out_face 3 (pe_outgoing e) \<noteq> None" "\<not> AreTherePromisingOutgoingFacesExcept 3 e"
    "pe_incoming e \<noteq> []" "ih_nonce ?h \<in> pe_seenNonces e"
    using e nm(2) by (auto simp: find_key_None promising_iff)
  have "map_option (\<lambda>f. (fc_kind f, snd (IsBelowLimit 1 f))) (find_key fc_fd 3 (l_heap sample_adhoc)) =
    Some (AdhocNetDeviceFace, True)" by code_simp
  then obtain f where f: "find_key fc_fd 3 (l_heap sample_adhoc) = Some f" "fc_kind f = AdhocNetDeviceFace"
    "snd (IsBelowLimit 1 f)" by auto
  have faces: "l_faces sample_adhoc = [3]" by code_simp
  have "case AddInterestHeader (ih_SetNack NORMAL_INTEREST ?h) Packet_new of Inl e \<Rightarrow> False | Inr q \<Rightarrow> True" by code_simp
  then obtain q where q: "AddInterestHeader (ih_SetNack NORMAL_INTEREST ?h) Packet_new = Inr q"
    by (cases "AddInterestHeader (ih_SetNack NORMAL_INTEREST ?h) Packet_new") auto
  show ?thesis
    by (rule nack_null_pointer [OF sample_adhoc_inv nm(1) e(1) out(4) e(3) out(3,1,2) nm(3) faces f _ q])
      (simp add: sample_os_def)
qed

text \<open>
  Two bytes that announce an Interest and stop there end the daemon: the exception of the decoder
  leaves the receive function whatever the state.
\<close>

theorem malformed_interest: "m_data (pk_buffer p) = [0x01, 0xD2] \<Longrightarrow> l3_Receive os now face p s = Inl CcnbDecodingException"
proof -
  assume m: "m_data (pk_buffer p) = [0x01, 0xD2]"
  have "ParseBlock [0x01, 0xD2] = Inl CcnbDecodingException" by code_simp
  then show ?thesis
    by (simp add: l3_Receive_def GetNDNHeaderType_def CopyData_def buffer_read_def m GetInterestHeader_def
        DeserializeInterest_def)
qed


theorem malformed_interest_witness:
  "l3_Receive sample_os 0 3 (sample_packet\<lparr>pk_buffer := \<lparr>m_data = [0x01, 0xD2]\<rparr>\<rparr>) sample_boot = Inl CcnbDecodingException"
  by (rule malformed_interest) simp

lemma addr_removed:
  assumes "fib_inv t" and "fib_find t pfx = Some fe" and "\<forall>m \<in> set (fe_faces fe). fm_face m = fd"
  shows "find_key fe_addr (fe_addr fe) (f_entries (removed pfx fd t)) = None"
proof -
  have gone: "fe_faces (fe_RemoveFace fd fe) = []"
    using assms(3) by (simp add: fe_RemoveFace_def erase_key_def filter_empty_conv)
  have fe: "fe \<in> set (f_entries t)" "fe_prefix fe = pfx" using fib_find_entry [OF assms(2)] by auto
  have inj: "inj_on fe_addr (set (f_entries t))" using assms(1) by (simp add: fib_inv_def distinct_map)
  let ?g = "\<lambda>e. if fe_prefix e = pfx then fe_RemoveFace fd e else e"
  have "removed pfx fd t = fib_erase pfx (fib_modify pfx (fe_RemoveFace fd) t)"
    using assms(2) gone by (simp add: removed_def)
  then have entries: "f_entries (removed pfx fd t) = erase_key fe_prefix pfx (map ?g (f_entries t))"
    by (simp add: fib_erase_def fib_modify_def modify_key_def)
  have "fe_addr x \<noteq> fe_addr fe" if x0: "x \<in> set (f_entries (removed pfx fd t))" for x
  proof -
    obtain e where e: "e \<in> set (f_entries t)" "x = ?g e" "fe_prefix x \<noteq> pfx"
    proof -
      from x0 have x: "x \<in> ?g ` set (f_entries t)" "fe_prefix x \<noteq> pfx" unfolding entries by (auto simp: erase_key_def)
      then obtain e where "e \<in> set (f_entries t)" "x = ?g e" by blast
      then show thesis using x(2) by (rule that)
    qed
    then have "fe_prefix e \<noteq> pfx" "x = e" by (simp_all split: if_splits)
    then have "e \<noteq> fe" using fe(2) by blast
    then show ?thesis using inj e(1) fe(1) \<open>x = e\<close> by (auto dest: inj_onD)
  qed
  then show ?thesis by (force simp: find_key_None)
qed

text \<open>
  Withdrawing the only next hop of a prefix over the management interface succeeds, but every pending
  Interest that was routed by it keeps its reference to the erased FIB entry: forwarding it again (a
  retransmission, a nack) follows the dangling reference.
\<close>

theorem withdrawal_dangles:
  assumes "l3_inv s" and "pit_find (l_pit s) n = Some e" and "pe_fibEntry e = Some a"
    and "fib_find (l_fib s) (parse_name (fw_Name m)) = Some fe" and "fe_addr fe = a"
    and "\<forall>x \<in> set (fe_faces fe). fm_face x = fd" and "GetFace (fw_faceID m) s = Some fd"
    and "fw_ServiceType m = ''ForwardingEntry''" and "fw_Action m = ''unreg''"
  shows "\<exists>s'. management_message m s = Inr s' \<and> PropagateInterest os now n p s' = Inl UseAfterFree"
proof -
  let ?s = "s\<lparr>l_fib := removed (parse_name (fw_Name m)) fd (l_fib s)\<rparr>"
  have "management_message m s = Inr ?s"
    using assms(4,7-9)
    by (simp add: management_message_def prefixRegistration_def Let_def compares_null_def face_pointer_def fib_RemovePrefix_eq)
  moreover have "fib_at a ?s = Inl UseAfterFree"
    using addr_removed [OF _ assms(4,6)] assms(1,5) by (simp add: fib_at_def l3_inv_def)
  then have "PropagateInterest os now n p ?s = Inl UseAfterFree"
    using assms(2,3) by (simp add: PropagateInterest_def PropagateInterestViaGreen_def entry_at_def)
  ultimately show ?thesis by blast
qed

text \<open>
  Closing a face that is the only next hop of some prefix (a producer that registered a prefix and
  exits) advances an iterator of the FIB that the removal has invalidated.
\<close>

theorem close_only_next_hop:
  assumes "l3_inv s" and "fib_find (l_fib s) pfx = Some fe" and "\<forall>x \<in> set (fe_faces fe). fm_face x = fd"
  shows "RemoveFace fd s = Inl UseAfterFree"
proof -
  obtain s1 where s1: "TrimPitEntriesAssociatedWithFace fd s = Inr s1" "l_fib s1 = l_fib s"
    using post_Trim [OF assms(1), of "{}" fd] by (cases "TrimPitEntriesAssociatedWithFace fd s") auto
  have fib: "fib_inv (l_fib s)" using assms(1) by (simp add: l3_inv_def)
  have "fe_faces (fe_RemoveFace fd fe) = []"
    using assms(3) by (simp add: fe_RemoveFace_def erase_key_def filter_empty_conv)
  then have "\<exists>e \<in> set (f_entries (l_fib s)). fe_faces (fe_RemoveFace fd e) = []"
    using fib_find_entry [OF assms(2)] by blast
  then have "fib_RemoveFromAll fd (l_fib s) = Inl UseAfterFree"
    unfolding fib_RemoveFromAll_def
    using remove_all_loop [of "f_entries (l_fib s)" "l_fib s" fd] fib_find_complete [OF fib] fib
    by (simp add: fib_inv_def)
  with s1 show ?thesis by (simp add: RemoveFace_def)
qed

text \<open>
  A registration that names an unknown face is accepted, and stores the null pointer as the only next
  hop of a prefix that had none: the first Interest routed by it is sent through the null pointer.
\<close>

theorem null_face_registered:
  assumes "fw_ServiceType m = ''ForwardingEntry''" and "fw_Action m = ''selfreg''"
    and "GetFace (fw_faceID m) s = None" and "fib_find (l_fib s) (parse_name (fw_Name m)) = None"
    and "l3_inv s" and "NULL_FACE \<notin> fds s"
  shows "\<exists>s' fe. management_message m s = Inr s' \<and> fib_find (l_fib s') (parse_name (fw_Name m)) = Some fe \<and>
    (\<forall>t n e. pit_find t n = Some e \<longrightarrow> pe_fibEntry e = Some (fe_addr fe) \<longrightarrow>
       PropagateInterest os now n p (s'\<lparr>l_pit := t\<rparr>) = Inl NullDereference)"
proof -
  let ?pfx = "parse_name (fw_Name m)"
  let ?t = "fib_Add ?pfx NULL_FACE LOCAL_FACE_METRIC (l_fib s)"
  let ?s = "s\<lparr>l_fib := ?t\<rparr>"
  have msg: "management_message m s = Inr ?s"
    using assms(1-4) by (simp add: management_message_def prefixRegistration_def Let_def compares_null_def face_pointer_def)
  have fib: "fib_inv ?t" using assms(5) fib_Add_inv by (simp add: l3_inv_def)
  let ?fe = "AddOrUpdateRoutingMetric NULL_FACE LOCAL_FACE_METRIC (NDNFibEntry (f_next_addr (l_fib s)) ?pfx)"
  have fe: "fib_find ?t ?pfx = Some ?fe"
    using assms(4) by (simp add: fib_Add_def Let_def fib_find_modify fib_find_insert)
  have faces: "fe_faces ?fe = [NDNFibFaceMetric NULL_FACE LOCAL_FACE_METRIC]"
    by (simp add: AddOrUpdateRoutingMetric_def NDNFibEntry_def link_metric_def)
  have at: "fib_at (fe_addr ?fe) (?s\<lparr>l_pit := t\<rparr>) = Inr ?fe" for t
    using find_key_in [of fe_addr "f_entries ?t" ?fe] fib fib_find_entry [OF fe]
    by (simp add: fib_at_def fib_inv_def)
  have "find_key fc_fd NULL_FACE (l_heap s) = None" using assms(6) by (simp add: find_key_None fds_def)
  then have bad: "below_limit now NULL_FACE (?s\<lparr>l_pit := t\<rparr>) = Inl NullDereference" for t
    by (simp add: below_limit_def face_at_def)
  have "PropagateInterest os now n p (?s\<lparr>l_pit := t\<rparr>) = Inl NullDereference"
    if "pit_find t n = Some e" "pe_fibEntry e = Some (fe_addr ?fe)" for t n e
    using that at [of t] bad [of t]
    by (simp add: PropagateInterest_def PropagateInterestViaGreen_def flood_faces_def entry_at_def faces NDNFibFaceMetric_def)
  with msg fe show ?thesis by (intro exI [of _ ?s] exI [of _ ?fe]) simp
qed

section \<open>An Interest that is never answered\<close>


section \<open>The scenarios at concrete inputs\<close>

definition sample_unreg :: forwarding_entry where
  "sample_unreg = \<lparr>fw_ServiceType = ''ForwardingEntry'', fw_Action = ''unreg'', fw_Name = ''/a'', fw_faceID = 4\<rparr>"

lemma sample_fib_entry:
  "\<exists>fe. fib_find (l_fib (sample_looked_up sample_routed)) [''a''] = Some fe \<and> fe_addr fe = 0 \<and>
     (\<forall>x \<in> set (fe_faces fe). fm_face x = 4)"
proof -
  have "map_option (\<lambda>fe. (fe_addr fe, map fm_face (fe_faces fe))) (fib_find (l_fib (sample_looked_up sample_routed)) [''a'']) = Some (0, [4])"
    by code_simp
  then obtain fe where "fib_find (l_fib (sample_looked_up sample_routed)) [''a''] = Some fe" "fe_addr fe = 0"
    "map fm_face (fe_faces fe) = [4]" by auto
  then show ?thesis by (cases "fe_faces fe") simp_all
qed

theorem withdrawal_dangles_witness:
  "\<exists>s'. management_message sample_unreg (sample_looked_up sample_routed) = Inr s' \<and>
     PropagateInterest sample_os 0 [''a''] sample_packet s' = Inl UseAfterFree"
proof -
  let ?s = "sample_looked_up sample_routed"
  have "map_option pe_fibEntry (pit_find (l_pit ?s) [''a'']) = Some (Some 0)" by code_simp
  then obtain e where e: "pit_find (l_pit ?s) [''a''] = Some e" "pe_fibEntry e = Some 0" by auto
  have nm: "parse_name (fw_Name sample_unreg) = [''a'']" by code_simp
  obtain fe where fe: "fib_find (l_fib ?s) (parse_name (fw_Name sample_unreg)) = Some fe" "fe_addr fe = 0"
    "\<forall>x \<in> set (fe_faces fe). fm_face x = 4" using sample_fib_entry unfolding nm by blast
  have "GetFace (fw_faceID sample_unreg) ?s = Some 4" by code_simp
  from withdrawal_dangles [OF looked_up_inv [OF sample_routed_inv] e fe this] show ?thesis
    by (simp add: sample_unreg_def)
qed

theorem close_only_next_hop_witness: "RemoveFace 4 (sample_looked_up sample_routed) = Inl UseAfterFree"
proof -
  obtain fe where fe: "fib_find (l_fib (sample_looked_up sample_routed)) [''a''] = Some fe"
    "\<forall>x \<in> set (fe_faces fe). fm_face x = 4" using sample_fib_entry by blast
  show ?thesis by (rule close_only_next_hop [OF looked_up_inv [OF sample_routed_inv] fe])
qed

theorem null_face_registered_witness:
  "\<exists>s' t. management_message \<lparr>fw_ServiceType = ''ForwardingEntry'', fw_Action = ''selfreg'', fw_Name = ''/b'', fw_faceID = 9\<rparr> sample_boot = Inr s' \<and>
     PropagateInterest sample_os 0 [''b''] sample_packet (s'\<lparr>l_pit := t\<rparr>) = Inl NullDereference"
proof -
  let ?m = "\<lparr>fw_ServiceType = ''ForwardingEntry'', fw_Action = ''selfreg'', fw_Name = ''/b'', fw_faceID = 9\<rparr>"
  have pre: "GetFace (fw_faceID ?m) sample_boot = None" "fib_find (l_fib sample_boot) (parse_name (fw_Name ?m)) = None"
    by code_simp+
  have "NULL_FACE \<notin> fds sample_boot" by (simp add: sample_boot_fds NULL_FACE_def)
  have "fw_ServiceType ?m = ''ForwardingEntry''" "fw_Action ?m = ''selfreg''" by simp_all
  from null_face_registered [OF this pre sample_boot_inv \<open>NULL_FACE \<notin> fds sample_boot\<close>, of sample_os 0 sample_packet]
  obtain s' and fe :: fib_entry where
    s': "management_message ?m sample_boot = Inr s'" and
    bad: "\<forall>t n e. pit_find t n = Some e \<longrightarrow> pe_fibEntry e = Some (fe_addr fe) \<longrightarrow>
       PropagateInterest sample_os 0 n sample_packet (s'\<lparr>l_pit := t\<rparr>) = Inl NullDereference"
    by (elim exE conjE) (rule that)
  let ?e = "NDNPitEntry 0 [''b''] 5 (Some (fe_addr fe))"
  have "pit_find NDNPit [''b''] = None" by (simp add: pit_find_def NDNPit_def)
  then have "pit_find (pit_insert ?e NDNPit) [''b''] = Some ?e" by (simp add: pit_find_insert)
  with bad have "PropagateInterest sample_os 0 [''b''] sample_packet (s'\<lparr>l_pit := pit_insert ?e NDNPit\<rparr>) = Inl NullDereference"
    by simp
  with s' show ?thesis by blast
qed


end
