(* ===== verification/Geo.thy ===== *)
theory Geo
  imports VndnPrelude Complex_Main
begin

unbundle bit_operations_syntax

text \<open>
  Positions and their geometry (\<open>utils/geo/coordinate.cc\<close>): the conversion to UTM, the distance of
  two positions, the distance of a point from a segment. A \<open>double\<close> is a real number: rounding is
  not modelled.
\<close>

section \<open>Numbers\<close>

text \<open>The cast \<open>(int)\<close> and \<open>atan2\<close> of the standard library.\<close>

definition int_cast :: "real \<Rightarrow> int" where
  "int_cast x = (if 0 \<le> x then \<lfloor>x\<rfloor> else \<lceil>x\<rceil>)"

definition atan2 :: "real \<Rightarrow> real \<Rightarrow> real" where
  "atan2 y x =
     (if x > 0 then arctan (y / x)
      else if x < 0 then (if y \<ge> 0 then arctan (y / x) + pi else arctan (y / x) - pi)
      else if y > 0 then pi / 2 else if y < 0 then - (pi / 2) else 0)"

definition DEG2RAD :: real where "DEG2RAD = pi / 180"

section \<open>Universal Transverse Mercator\<close>

text \<open>Equatorial radius and square of the eccentricity.\<close>

definition ellipsoid :: "(real \<times> real) list" where
  "ellipsoid =
     [(0, 0), (6377563, 0.00667054), (6378160, 0.006694542), (6377397, 0.006674372), (6377484, 0.006674372),
      (6378206, 0.006768658), (6378249, 0.006803511), (6377276, 0.006637847), (6378166, 0.006693422),
      (6378150, 0.006693422), (6378160, 0.006694605), (6378137, 0.00669438), (6378200, 0.006693422),
      (6378270, 0.00672267), (6378388, 0.00672267), (6378245, 0.006693422), (6377340, 0.00667054),
      (6377304, 0.006637847), (6378155, 0.006693422), (6378160, 0.006694542), (6378165, 0.006693422),
      (6378145, 0.006694542), (6378135, 0.006694318), (6378137, 0.00669438)]"

definition long_temp :: "real \<Rightarrow> real" where
  "long_temp Long = (Long + 180) - of_int (int_cast ((Long + 180) / 360)) * 360 - 180"

definition zone_number :: "real \<Rightarrow> real \<Rightarrow> int" where
  "zone_number Lat LongTemp =
     (let ZoneNumber = int_cast ((LongTemp + 180) / 6) + 1;
          ZoneNumber = (if Lat \<ge> 56 \<and> Lat < 64 \<and> LongTemp \<ge> 3 \<and> LongTemp < 12 then 32 else ZoneNumber)
      in if Lat \<ge> 72 \<and> Lat < 84 then
           if LongTemp \<ge> 0 \<and> LongTemp < 9 then 31
           else if LongTemp \<ge> 9 \<and> LongTemp < 21 then 33
           else if LongTemp \<ge> 21 \<and> LongTemp < 33 then 35
           else if LongTemp \<ge> 33 \<and> LongTemp < 42 then 37
           else ZoneNumber
         else ZoneNumber)"

definition LongOrigin :: "int \<Rightarrow> real" where
  "LongOrigin ZoneNumber = (of_int ZoneNumber - 1) * 6 - 180 + 3"

text \<open>Northing, easting and zone.\<close>

definition LLtoUTM :: "nat \<Rightarrow> real \<Rightarrow> real \<Rightarrow> real \<times> real \<times> int" where
  "LLtoUTM ReferenceEllipsoid Lat Long =
     (let (a, eccSquared) = ellipsoid ! ReferenceEllipsoid;
          k0 = 0.9996;
          LongTemp = long_temp Long;
          LatRad = Lat * DEG2RAD;
          LongRad = LongTemp * DEG2RAD;
          ZoneNumber = zone_number Lat LongTemp;
          LongOriginRad = LongOrigin ZoneNumber * DEG2RAD;
          eccPrimeSquared = eccSquared / (1 - eccSquared);
          N = a / sqrt (1 - eccSquared * sin LatRad * sin LatRad);
          T = tan LatRad * tan LatRad;
          C = eccPrimeSquared * cos LatRad * cos LatRad;
          A = cos LatRad * (LongRad - LongOriginRad);
          M = a * ((1 - eccSquared / 4 - 3 * eccSquared * eccSquared / 64 - 5 * eccSquared * eccSquared * eccSquared / 256) * LatRad
               - (3 * eccSquared / 8 + 3 * eccSquared * eccSquared / 32 + 45 * eccSquared * eccSquared * eccSquared / 1024) * sin (2 * LatRad)
               + (15 * eccSquared * eccSquared / 256 + 45 * eccSquared * eccSquared * eccSquared / 1024) * sin (4 * LatRad)
               - (35 * eccSquared * eccSquared * eccSquared / 3072) * sin (6 * LatRad));
          UTMEasting = k0 * N * (A + (1 - T + C) * A * A * A / 6
               + (5 - 18 * T + T * T + 72 * C - 58 * eccPrimeSquared) * A * A * A * A * A / 120) + 500000;
          UTMNorthing = k0 * (M + N * tan LatRad * (A * A / 2 + (5 - T + 9 * C + 4 * C * C) * A * A * A * A / 24
               + (61 - 58 * T + T * T + 600 * C - 330 * eccPrimeSquared) * A * A * A * A * A * A / 720))
      in (if Lat < 0 then UTMNorthing + 10000000 else UTMNorthing, UTMEasting, ZoneNumber))"

section \<open>Coordinates\<close>

record coordinate =
  co_latitude :: real
  co_longitude :: real
  co_hash :: int
  co_UTMNorthing :: real
  co_UTMEasting :: real
  co_UTMzone :: int

definition hash_code :: "real \<Rightarrow> real \<Rightarrow> int" where
  "hash_code latitude longitude = int_cast ((latitude + 90) * 100000) XOR int_cast ((longitude + 180) * 100000)"

definition coordinate_at :: "real \<Rightarrow> real \<Rightarrow> coordinate" where
  "coordinate_at lat lon =
     (case LLtoUTM 23 lat lon of (UTMNorthing, UTMEasting, UTMzone) \<Rightarrow>
        \<lparr>co_latitude = lat, co_longitude = lon, co_hash = hash_code lat lon,
         co_UTMNorthing = UTMNorthing, co_UTMEasting = UTMEasting, co_UTMzone = UTMzone\<rparr>)"

text \<open>The constructor throws out of the range of degrees: \<open>None\<close>.\<close>

definition Coordinate :: "real \<Rightarrow> real \<Rightarrow> coordinate option" where
  "Coordinate lat lon =
     (if lat < -90 \<or> lat > 90 then None
      else if lon < -180 \<or> lon > 180 then None
      else Some (coordinate_at lat lon))"

definition updateUTM :: "coordinate \<Rightarrow> coordinate" where
  "updateUTM c =
     (case LLtoUTM 23 (co_latitude c) (co_longitude c) of (UTMNorthing, UTMEasting, UTMzone) \<Rightarrow>
        c\<lparr>co_UTMNorthing := UTMNorthing, co_UTMEasting := UTMEasting, co_UTMzone := UTMzone\<rparr>)"

definition co_isEqual :: "coordinate \<Rightarrow> coordinate \<Rightarrow> bool" where
  "co_isEqual c coord \<longleftrightarrow> co_latitude coord = co_latitude c \<and> co_longitude coord = co_longitude c"

definition haversineFormula :: "coordinate \<Rightarrow> real \<Rightarrow> real \<Rightarrow> real" where
  "haversineFormula c0 gpsLat gpsLongitude =
     (let dlong = (gpsLongitude - co_longitude c0) * DEG2RAD;
          dlat = (gpsLat - co_latitude c0) * DEG2RAD;
          a = (sin (dlat / 2))\<^sup>2 + cos (co_latitude c0 * DEG2RAD) * cos (gpsLat * DEG2RAD) * (sin (dlong / 2))\<^sup>2;
          c = 2 * atan2 (sqrt a) (sqrt (1 - a))
      in 1000 * 6367 * c)"

definition asinSafe :: "real \<Rightarrow> real" where
  "asinSafe x = arcsin (max (-1) (min x 1))"

definition greatCircleFormula :: "coordinate \<Rightarrow> real \<Rightarrow> real \<Rightarrow> real" where
  "greatCircleFormula c gpsLat gpsLongitude =
     2 * asinSafe (sqrt ((sin ((gpsLat - co_latitude c) / 2))\<^sup>2 +
           cos gpsLat * cos (co_latitude c) * (sin ((gpsLongitude - co_longitude c) / 2))\<^sup>2))"

definition getDistance :: "coordinate \<Rightarrow> real \<Rightarrow> real \<Rightarrow> real" where
  "getDistance c gpsLat gpsLongitude = haversineFormula c gpsLat gpsLongitude"

definition co_getDistance :: "coordinate \<Rightarrow> coordinate \<Rightarrow> real" where
  "co_getDistance c gps = getDistance c (co_latitude gps) (co_longitude gps)"

definition twoPointsDistance :: "coordinate \<Rightarrow> coordinate \<Rightarrow> real" where
  "twoPointsDistance c coord1 = co_getDistance c coord1"

section \<open>Segments\<close>

definition plane_distance :: "real \<Rightarrow> real \<Rightarrow> real \<Rightarrow> real \<Rightarrow> real" where
  "plane_distance xA yA xB yB = sqrt ((xA - xB)\<^sup>2 + (yA - yB)\<^sup>2)"

definition dot :: "real \<Rightarrow> real \<Rightarrow> real \<Rightarrow> real \<Rightarrow> real \<Rightarrow> real \<Rightarrow> real" where
  "dot xA yA xB yB xC yC = (let xAB = xB - xA; yAB = yB - yA; xBC = xC - xB; yBC = yC - yB in xAB * xBC + yAB * yBC)"

definition cross :: "real \<Rightarrow> real \<Rightarrow> real \<Rightarrow> real \<Rightarrow> real \<Rightarrow> real \<Rightarrow> real" where
  "cross xA yA xB yB xC yC = (let xAB = xB - xA; yAB = yB - yA; xAC = xC - xA; yAC = yC - yA in xAB * yAC - yAB * xAC)"

definition linePointDist :: "real \<Rightarrow> real \<Rightarrow> real \<Rightarrow> real \<Rightarrow> real \<Rightarrow> real \<Rightarrow> real" where
  "linePointDist xA yA xB yB xC yC =
     (if dot xA yA xB yB xC yC > 0 then plane_distance xB yB xC yC
      else if dot xB yB xA yA xC yC > 0 then plane_distance xA yA xC yC
      else let dist = cross xA yA xB yB xC yC / plane_distance xA yA xB yB in if dist < 0 then - dist else dist)"

definition pointToSegmentDistUTM :: "coordinate \<Rightarrow> coordinate \<Rightarrow> coordinate \<Rightarrow> real" where
  "pointToSegmentDistUTM c lineStart lineEnd =
     (if co_isEqual lineStart lineEnd then 0
      else linePointDist (co_UTMEasting lineStart) (co_UTMNorthing lineStart)
             (co_UTMEasting lineEnd) (co_UTMNorthing lineEnd) (co_UTMEasting c) (co_UTMNorthing c))"

definition pointToSegmentDistENU :: "coordinate \<Rightarrow> coordinate \<Rightarrow> coordinate \<Rightarrow> real" where
  "pointToSegmentDistENU c lineStart lineEnd = 0"

definition pointToSegmentDist :: "coordinate \<Rightarrow> coordinate \<Rightarrow> coordinate \<Rightarrow> real" where
  "pointToSegmentDist c start end' =
     (if co_UTMzone c = co_UTMzone start \<and> co_UTMzone c = co_UTMzone end' then pointToSegmentDistUTM c start end'
      else pointToSegmentDistENU c start end')"

definition twoPointsDistanceUTM :: "coordinate \<Rightarrow> real \<Rightarrow> real \<Rightarrow> real" where
  "twoPointsDistanceUTM c northing easting =
     (let xSquare = (northing - co_UTMNorthing c)\<^sup>2; ySquare = (easting - co_UTMEasting c)\<^sup>2 in sqrt (xSquare + ySquare))"

section \<open>Zones\<close>

lemma coordinate_at_simps [simp]:
  "co_latitude (coordinate_at lat lon) = lat" "co_longitude (coordinate_at lat lon) = lon"
  "co_hash (coordinate_at lat lon) = hash_code lat lon"
  by (simp_all add: coordinate_at_def split: prod.split)

lemma Coordinate_eq: "Coordinate lat lon = Some c \<longleftrightarrow> \<bar>lat\<bar> \<le> 90 \<and> \<bar>lon\<bar> \<le> 180 \<and> c = coordinate_at lat lon"
  by (auto simp: Coordinate_def)

lemma long_temp_range:
  assumes "\<bar>lon\<bar> \<le> 180"
  shows "-180 \<le> long_temp lon" "long_temp lon < 180" "lon < 180 \<Longrightarrow> long_temp lon = lon"
proof -
  have lo: "0 \<le> (lon + 180) / 360" using assms by simp
  show "-180 \<le> long_temp lon" "long_temp lon < 180" "lon < 180 \<Longrightarrow> long_temp lon = lon"
  proof -
    have f: "of_int \<lfloor>(lon + 180) / 360\<rfloor> \<le> (lon + 180) / 360" "(lon + 180) / 360 < of_int \<lfloor>(lon + 180) / 360\<rfloor> + 1"
      by linarith+
    then show "-180 \<le> long_temp lon" "long_temp lon < 180"
      using lo by (simp_all add: long_temp_def int_cast_def field_simps)
    assume "lon < 180"
    then have "\<lfloor>(lon + 180) / 360\<rfloor> = 0" using lo by (simp add: floor_eq_iff)
    then show "long_temp lon = lon" using lo by (simp add: long_temp_def int_cast_def)
  qed
qed

lemma zone_cell:
  assumes "-180 \<le> x" "x < 180" and "z = int_cast ((x + 180) / 6) + 1"
  shows "1 \<le> z" "z \<le> 60" "\<bar>x - LongOrigin z\<bar> \<le> 3"
proof -
  have z: "z = \<lfloor>(x + 180) / 6\<rfloor> + 1" using assms by (simp add: int_cast_def)
  have f: "of_int (z - 1) \<le> (x + 180) / 6" "(x + 180) / 6 < of_int z" unfolding z by linarith+
  show "1 \<le> z" using z assms(1) by simp
  have "(x + 180) / 6 < 60" using assms(2) by simp
  then show "z \<le> 60" unfolding z by linarith
  show "\<bar>x - LongOrigin z\<bar> \<le> 3" using f by (simp add: LongOrigin_def abs_le_iff field_simps)
qed

text \<open>
  Every coordinate lies in one of the sixty zones; outside of the extended zones of Norway and
  Svalbard its meridian is at most three degrees from the middle of the zone, inside at most six.\<close>

theorem utm_zone:
  assumes "Coordinate lat lon = Some c"
  shows "1 \<le> co_UTMzone c \<and> co_UTMzone c \<le> 60 \<and> \<bar>long_temp lon - LongOrigin (co_UTMzone c)\<bar> \<le> 6 \<and>
    (\<not> (56 \<le> lat \<and> lat < 84) \<longrightarrow> \<bar>long_temp lon - LongOrigin (co_UTMzone c)\<bar> \<le> 3)"
proof -
  let ?x = "long_temp lon"
  have range: "\<bar>lon\<bar> \<le> 180" and zone: "co_UTMzone c = zone_number lat ?x"
    using assms by (auto simp: Coordinate_eq coordinate_at_def LLtoUTM_def Let_def split: prod.splits)
  note x = long_temp_range(1,2) [OF range]
  have cell: "1 \<le> int_cast ((?x + 180) / 6) + 1" "int_cast ((?x + 180) / 6) + 1 \<le> 60"
    "\<bar>?x - LongOrigin (int_cast ((?x + 180) / 6) + 1)\<bar> \<le> 3"
    using zone_cell [OF x refl] .
  have "1 \<le> zone_number lat ?x \<and> zone_number lat ?x \<le> 60 \<and> \<bar>?x - LongOrigin (zone_number lat ?x)\<bar> \<le> 6"
    using cell by (simp add: zone_number_def Let_def LongOrigin_def split: if_splits) (auto simp: abs_le_iff)
  moreover have "\<bar>?x - LongOrigin (zone_number lat ?x)\<bar> \<le> 3" if "\<not> (56 \<le> lat \<and> lat < 84)"
  proof -
    have "zone_number lat ?x = int_cast ((?x + 180) / 6) + 1" using that by (auto simp: zone_number_def Let_def)
    then show ?thesis using cell(3) by simp
  qed
  ultimately show ?thesis unfolding zone by blast
qed

theorem utm_zone_witness:
  "co_UTMzone (coordinate_at 34 (-118)) \<le> 60 \<and> \<bar>long_temp (-118) - LongOrigin (co_UTMzone (coordinate_at 34 (-118)))\<bar> \<le> 3"
proof -
  have "Coordinate 34 (-118) = Some (coordinate_at 34 (-118))" by (simp add: Coordinate_def)
  from utm_zone [OF this] show ?thesis by simp
qed

section \<open>The distance of two positions\<close>

lemma atan2_arcsin:
  assumes "0 \<le> a" "a \<le> 1"
  shows "atan2 (sqrt a) (sqrt (1 - a)) = arcsin (sqrt a)"
proof (cases "a = 1")
  case False
  then have "0 < sqrt (1 - a)" "-1 < sqrt a" "sqrt a < 1" using assms by (auto intro: order.strict_trans2 [of "-1" 0])
  then show ?thesis using assms(1) arcsin_arctan [of "sqrt a"] by (simp add: atan2_def)
qed (simp add: atan2_def)

text \<open>The cosine of the angle between two directions from the centre of the sphere, in degrees.\<close>

definition cos_angle :: "real \<Rightarrow> real \<Rightarrow> real \<Rightarrow> real \<Rightarrow> real" where
  "cos_angle lat lon lat' lon' =
     sin (lat * DEG2RAD) * sin (lat' * DEG2RAD) +
     cos (lat * DEG2RAD) * cos (lat' * DEG2RAD) * cos ((lon' - lon) * DEG2RAD)"

lemma half_angles:
  "(sin ((b - a) / 2))\<^sup>2 + cos a * cos b * (sin (d / 2))\<^sup>2 = (1 - (sin a * sin b + cos a * cos b * cos d)) / 2" for a b d :: real
proof -
  have "cos (b - a) = 1 - 2 * (sin ((b - a) / 2))\<^sup>2" "cos d = 1 - 2 * (sin (d / 2))\<^sup>2"
    using cos_double_sin [of "(b - a) / 2"] cos_double_sin [of "d / 2"] by (simp_all only: mult_2 field_sum_of_halves)
  then have "(sin ((b - a) / 2))\<^sup>2 = (1 - (cos a * cos b + sin a * sin b)) / 2" "(sin (d / 2))\<^sup>2 = (1 - cos d) / 2"
    by (simp_all add: cos_diff algebra_simps)
  then show ?thesis by (simp only:) (simp add: field_simps)
qed

lemma cos_latitude:
  assumes "\<bar>lat\<bar> \<le> 90"
  shows "0 \<le> cos (lat * DEG2RAD)"
proof -
  have "-90 * DEG2RAD \<le> lat * DEG2RAD" "lat * DEG2RAD \<le> 90 * DEG2RAD"
    using assms by (intro mult_right_mono; simp add: DEG2RAD_def)+
  then show ?thesis by (intro cos_ge_zero) (simp_all add: DEG2RAD_def)
qed

lemma cos_angle_bounds:
  assumes "\<bar>lat\<bar> \<le> 90" "\<bar>lat'\<bar> \<le> 90"
  shows "-1 \<le> cos_angle lat lon lat' lon'" "cos_angle lat lon lat' lon' \<le> 1"
proof -
  let ?a = "lat * DEG2RAD" and ?b = "lat' * DEG2RAD" and ?c = "cos ((lon' - lon) * DEG2RAD)"
  have p: "0 \<le> cos ?a * cos ?b" using assms by (simp add: cos_latitude)
  have "cos ?a * cos ?b * ?c \<le> cos ?a * cos ?b * 1" "cos ?a * cos ?b * (-1) \<le> cos ?a * cos ?b * ?c"
    by (rule mult_left_mono [OF _ p]; simp)+
  then show "-1 \<le> cos_angle lat lon lat' lon'" "cos_angle lat lon lat' lon' \<le> 1"
    using cos_diff [of ?a ?b] cos_add [of ?a ?b] cos_le_one [of "?a - ?b"] cos_le_one [of "?a + ?b"]
    unfolding cos_angle_def by linarith+
qed

lemma getDistance_arcsin:
  assumes "\<bar>co_latitude c\<bar> \<le> 90" "\<bar>lat\<bar> \<le> 90"
  shows "getDistance c lat lon = 6367000 * (2 * arcsin (sqrt ((1 - cos_angle (co_latitude c) (co_longitude c) lat lon) / 2)))"
proof -
  let ?X = "cos_angle (co_latitude c) (co_longitude c) lat lon"
  have "(sin ((lat - co_latitude c) * DEG2RAD / 2))\<^sup>2 + cos (co_latitude c * DEG2RAD) * cos (lat * DEG2RAD) *
      (sin ((lon - co_longitude c) * DEG2RAD / 2))\<^sup>2 = (1 - ?X) / 2" (is "?A = _")
    using half_angles [of "lat * DEG2RAD" "co_latitude c * DEG2RAD" "(lon - co_longitude c) * DEG2RAD"]
    by (simp add: cos_angle_def left_diff_distrib)
  moreover have "getDistance c lat lon = 6367000 * (2 * atan2 (sqrt ?A) (sqrt (1 - ?A)))"
    by (simp add: getDistance_def haversineFormula_def Let_def)
  ultimately have "getDistance c lat lon = 6367000 * (2 * atan2 (sqrt ((1 - ?X) / 2)) (sqrt (1 - (1 - ?X) / 2)))"
    by (simp only:)
  moreover have "atan2 (sqrt ((1 - ?X) / 2)) (sqrt (1 - (1 - ?X) / 2)) = arcsin (sqrt ((1 - ?X) / 2))"
    using cos_angle_bounds [OF assms, of "co_longitude c" lon] by (intro atan2_arcsin) simp_all
  ultimately show ?thesis by (simp only:)
qed

text \<open>
  C17: the distance the link layer measures is the length of the great circle between the two positions on
  a sphere of 6367 kilometres: it is the radius times an angle from zero to a half turn whose cosine
  is that of the two directions, and it does not depend on the order of the positions.\<close>

theorem great_circle_distance:
  assumes "Coordinate lat lon = Some c" and "Coordinate lat' lon' = Some c'"
  shows "\<exists>angle. co_getDistance c c' = 6367000 * angle \<and> 0 \<le> angle \<and> angle \<le> pi \<and>
    cos angle = cos_angle lat lon lat' lon' \<and> co_getDistance c' c = co_getDistance c c'"
proof -
  let ?a = "2 * arcsin (sqrt ((1 - cos_angle lat lon lat' lon') / 2))"
  have c: "\<bar>lat\<bar> \<le> 90" "\<bar>lat'\<bar> \<le> 90" "c = coordinate_at lat lon" "c' = coordinate_at lat' lon'"
    using assms by (simp_all add: Coordinate_eq)
  note b = cos_angle_bounds [OF c(1,2), of lon lon']
  have r: "0 \<le> sqrt ((1 - cos_angle lat lon lat' lon') / 2)" "sqrt ((1 - cos_angle lat lon lat' lon') / 2) \<le> 1"
    using b by simp_all
  have sym: "cos_angle lat' lon' lat lon = cos_angle lat lon lat' lon'"
    using cos_minus [of "(lon' - lon) * DEG2RAD"] by (simp add: cos_angle_def left_diff_distrib)
  have d: "co_getDistance c c' = 6367000 * ?a" "co_getDistance c' c = 6367000 * ?a"
    using c getDistance_arcsin [of c lat' lon'] getDistance_arcsin [of c' lat lon] sym by (simp_all add: co_getDistance_def)
  have "0 \<le> ?a" using r arcsin_le_arcsin [of 0 "sqrt ((1 - cos_angle lat lon lat' lon') / 2)"] by simp
  moreover have "?a \<le> pi" using arcsin_ubound [of "sqrt ((1 - cos_angle lat lon lat' lon') / 2)"] r by simp
  moreover have "cos ?a = cos_angle lat lon lat' lon'"
  proof -
    have "sin (arcsin (sqrt ((1 - cos_angle lat lon lat' lon') / 2))) = sqrt ((1 - cos_angle lat lon lat' lon') / 2)"
      using r by (intro sin_arcsin) linarith+
    then show ?thesis using b by (subst cos_double_sin) (simp add: field_simps)
  qed
  ultimately show ?thesis using d by (intro exI [of _ ?a]) simp
qed

text \<open>On one meridian the distance is the difference of the latitudes.\<close>

lemma meridian_distance:
  assumes "\<bar>co_latitude c\<bar> \<le> 90" "\<bar>lat\<bar> \<le> 90"
  shows "getDistance c lat (co_longitude c) = 6367000 * DEG2RAD * \<bar>lat - co_latitude c\<bar>"
proof -
  let ?d = "\<bar>lat - co_latitude c\<bar> * DEG2RAD / 2"
  have d: "0 \<le> ?d" "?d \<le> pi / 2" using assms by (simp_all add: DEG2RAD_def field_simps abs_le_iff)
  have "(co_latitude c - lat) * DEG2RAD / 2 = ?d \<or> (co_latitude c - lat) * DEG2RAD / 2 = - ?d"
    by (cases "lat \<le> co_latitude c") (simp_all add: left_diff_distrib minus_divide_left)
  then have "(sin ((co_latitude c - lat) * DEG2RAD / 2))\<^sup>2 = (sin ?d)\<^sup>2"
    by (elim disjE) (simp_all only: sin_minus power2_minus)
  moreover have "(1 - cos_angle (co_latitude c) (co_longitude c) lat (co_longitude c)) / 2 =
      (sin ((co_latitude c * DEG2RAD - lat * DEG2RAD) / 2))\<^sup>2"
    using half_angles [of "co_latitude c * DEG2RAD" "lat * DEG2RAD" 0]
    by (simp add: cos_angle_def mult.commute [of "sin (lat * DEG2RAD)"] mult.commute [of "cos (lat * DEG2RAD)"])
  ultimately have "(1 - cos_angle (co_latitude c) (co_longitude c) lat (co_longitude c)) / 2 = (sin ?d)\<^sup>2"
    by (simp only: left_diff_distrib)
  moreover have "0 \<le> sin ?d" using d by (intro sin_ge_zero) simp_all
  moreover have "arcsin (sin ?d) = ?d" using d by (intro arcsin_sin) simp_all
  ultimately show ?thesis using getDistance_arcsin [OF assms, of "co_longitude c"] by (simp add: mult.commute)
qed

lemma getDistance_nonneg:
  assumes "\<bar>co_latitude c\<bar> \<le> 90" "\<bar>lat\<bar> \<le> 90"
  shows "0 \<le> getDistance c lat lon"
proof -
  have "0 \<le> sqrt ((1 - cos_angle (co_latitude c) (co_longitude c) lat lon) / 2)"
    "sqrt ((1 - cos_angle (co_latitude c) (co_longitude c) lat lon) / 2) \<le> 1"
    using cos_angle_bounds [OF assms, of "co_longitude c" lon] by simp_all
  then show ?thesis
    using arcsin_le_arcsin [of 0 "sqrt ((1 - cos_angle (co_latitude c) (co_longitude c) lat lon) / 2)"]
    unfolding getDistance_arcsin [OF assms] by simp
qed

theorem great_circle_distance_witness:
  "\<exists>angle. co_getDistance (coordinate_at 0 0) (coordinate_at 0 90) = 6367000 * angle \<and> cos angle = 0"
proof -
  have "Coordinate 0 0 = Some (coordinate_at 0 0)" "Coordinate 0 90 = Some (coordinate_at 0 90)"
    by (simp_all add: Coordinate_def)
  moreover have "cos_angle 0 0 0 90 = 0" by (simp add: cos_angle_def DEG2RAD_def)
  ultimately show ?thesis using great_circle_distance [of 0 0 _ 0 90] by metis
qed

text \<open>Two positions are at least as far apart as their parallels.\<close>

lemma parallel_distance:
  assumes "\<bar>co_latitude c\<bar> \<le> 90" "\<bar>lat\<bar> \<le> 90"
  shows "6367000 * DEG2RAD * \<bar>lat - co_latitude c\<bar> \<le> getDistance c lat lon"
proof -
  let ?X = "\<lambda>l. cos_angle (co_latitude c) (co_longitude c) lat l"
  have "cos ((lon - co_longitude c) * DEG2RAD) \<le> 1" by simp
  then have "cos (co_latitude c * DEG2RAD) * cos (lat * DEG2RAD) * cos ((lon - co_longitude c) * DEG2RAD) \<le>
      cos (co_latitude c * DEG2RAD) * cos (lat * DEG2RAD) * 1"
    using cos_latitude assms by (intro mult_left_mono) simp_all
  then have "?X lon \<le> ?X (co_longitude c)" by (simp add: cos_angle_def)
  then have "sqrt ((1 - ?X (co_longitude c)) / 2) \<le> sqrt ((1 - ?X lon) / 2)" by simp
  moreover have "0 \<le> sqrt ((1 - ?X (co_longitude c)) / 2)" "sqrt ((1 - ?X lon) / 2) \<le> 1"
    using cos_angle_bounds [OF assms, of "co_longitude c"] by simp_all
  ultimately have "arcsin (sqrt ((1 - ?X (co_longitude c)) / 2)) \<le> arcsin (sqrt ((1 - ?X lon) / 2))"
    by (intro arcsin_le_arcsin) linarith+
  then have "getDistance c lat (co_longitude c) \<le> getDistance c lat lon"
    unfolding getDistance_arcsin [OF assms] by simp
  then show ?thesis unfolding meridian_distance [OF assms] .
qed

section \<open>The distance of a point from a segment\<close>

text \<open>
  With \<open>u, v\<close> the segment and \<open>w, z\<close> the point, both from the first end: the squared distance of the point
  from the place \<open>t\<close> on the line, times the squared length.
\<close>

lemma place_distance:
  fixes u v w z t :: real
  shows "(u\<^sup>2 + v\<^sup>2) * ((w - t * u)\<^sup>2 + (z - t * v)\<^sup>2) = (u * z - v * w)\<^sup>2 + (u * w + v * z - t * (u\<^sup>2 + v\<^sup>2))\<^sup>2"
  by (simp add: power2_eq_square algebra_simps)

lemma segment_squared:
  fixes u v w z :: real
  assumes "u \<noteq> 0 \<or> v \<noteq> 0"
  defines "L \<equiv> u\<^sup>2 + v\<^sup>2" and "s \<equiv> u * w + v * z" and "D \<equiv> \<lambda>t. (w - t * u)\<^sup>2 + (z - t * v)\<^sup>2"
  shows "\<exists>t. 0 \<le> t \<and> t \<le> 1 \<and> (\<forall>r. 0 \<le> r \<longrightarrow> r \<le> 1 \<longrightarrow> D t \<le> D r) \<and>
    D t = (if s > L then (w - u)\<^sup>2 + (z - v)\<^sup>2 else if s < 0 then w\<^sup>2 + z\<^sup>2 else (u * z - v * w)\<^sup>2 / L)"
proof -
  have L: "L > 0" using assms(1) by (auto simp: L_def sum_power2_gt_zero_iff)
  have D: "L * D r = (u * z - v * w)\<^sup>2 + (s - r * L)\<^sup>2" for r by (simp only: L_def D_def s_def place_distance)
  have le: "D t \<le> D r" if "\<bar>s - t * L\<bar> \<le> \<bar>s - r * L\<bar>" for t r
  proof -
    have "L * D t \<le> L * D r" unfolding D using that by (simp add: abs_le_square_iff)
    then show ?thesis using L by simp
  qed
  have prod: "0 \<le> r * L" "r * L \<le> L" if "0 \<le> r" "r \<le> 1" for r
    using that L mult_right_mono [of r 1 L] by simp_all
  consider "s > L" | "s < 0" | "0 \<le> s" "s \<le> L" by linarith
  then show ?thesis
  proof cases
    case 1
    have "D 1 \<le> D r" if "0 \<le> r" "r \<le> 1" for r using 1 prod [OF that] by (intro le) simp
    then show ?thesis using 1 by (intro exI [of _ 1]) (simp add: D_def)
  next
    case 2
    have "D 0 \<le> D r" if "0 \<le> r" "r \<le> 1" for r using 2 prod [OF that] by (intro le) simp
    then show ?thesis using 2 L by (intro exI [of _ 0]) (simp add: D_def)
  next
    case 3
    have sL: "s / L * L = s" using L by simp
    have "D (s / L) \<le> D r" for r by (rule le) (simp add: sL)
    moreover have "D (s / L) = (u * z - v * w)\<^sup>2 / L" using D [of "s / L"] L unfolding sL by (simp add: field_simps)
    moreover have "0 \<le> s / L" "s / L \<le> 1" using 3 L by simp_all
    ultimately show ?thesis using 3 by (intro exI [of _ "s / L"]) simp
  qed
qed

text \<open>
  C18: \<open>linePointDist\<close> is the distance from the segment: no place on the segment is nearer to the point than the
  value it returns, and some place is exactly that far.\<close>

theorem segment_distance:
  assumes "xA \<noteq> xB \<or> yA \<noteq> yB"
  shows "(\<forall>t. 0 \<le> t \<and> t \<le> 1 \<longrightarrow>
      linePointDist xA yA xB yB xC yC \<le> plane_distance (xA + t * (xB - xA)) (yA + t * (yB - yA)) xC yC) \<and>
    (\<exists>t. 0 \<le> t \<and> t \<le> 1 \<and>
      linePointDist xA yA xB yB xC yC = plane_distance (xA + t * (xB - xA)) (yA + t * (yB - yA)) xC yC)"
proof -
  let ?u = "xB - xA" and ?v = "yB - yA" and ?w = "xC - xA" and ?z = "yC - yA"
  let ?L = "?u\<^sup>2 + ?v\<^sup>2" and ?s = "?u * ?w + ?v * ?z"
  have uv: "?u \<noteq> 0 \<or> ?v \<noteq> 0" using assms by auto
  have L: "?L > 0" using uv by (simp only: sum_power2_gt_zero_iff)
  have place: "plane_distance (xA + t * ?u) (yA + t * ?v) xC yC = sqrt ((?w - t * ?u)\<^sup>2 + (?z - t * ?v)\<^sup>2)" for t
    unfolding plane_distance_def by (rule arg_cong [of _ _ sqrt]) (simp add: power2_eq_square algebra_simps)
  have d1: "dot xA yA xB yB xC yC = ?s - ?L" and d2: "dot xB yB xA yA xC yC = - ?s"
    by (simp_all add: dot_def Let_def power2_eq_square algebra_simps)
  have cr: "cross xA yA xB yB xC yC = ?u * ?z - ?v * ?w" by (simp add: cross_def Let_def)
  have len: "plane_distance xA yA xB yB = sqrt ?L"
    by (simp add: plane_distance_def power2_commute)
  have "linePointDist xA yA xB yB xC yC =
      sqrt (if ?s > ?L then (?w - ?u)\<^sup>2 + (?z - ?v)\<^sup>2 else if ?s < 0 then ?w\<^sup>2 + ?z\<^sup>2 else (?u * ?z - ?v * ?w)\<^sup>2 / ?L)"
  proof -
    have "(if x < 0 then - x else x) = sqrt (x\<^sup>2)" for x :: real by simp
    then have "(let dist = (?u * ?z - ?v * ?w) / sqrt ?L in if dist < 0 then - dist else dist) =
        sqrt ((?u * ?z - ?v * ?w)\<^sup>2 / ?L)"
      using real_sqrt_pow2 [of ?L] L by (simp only: Let_def power_divide less_imp_le)
    moreover have "plane_distance xB yB xC yC = sqrt ((?w - ?u)\<^sup>2 + (?z - ?v)\<^sup>2)"
      "plane_distance xA yA xC yC = sqrt (?w\<^sup>2 + ?z\<^sup>2)"
      using place [of 1] place [of 0] by simp_all
    ultimately show ?thesis unfolding linePointDist_def d1 d2 cr len by simp
  qed
  moreover obtain t where t: "0 \<le> t" "t \<le> 1"
    and min: "\<And>r. 0 \<le> r \<Longrightarrow> r \<le> 1 \<Longrightarrow> (?w - t * ?u)\<^sup>2 + (?z - t * ?v)\<^sup>2 \<le> (?w - r * ?u)\<^sup>2 + (?z - r * ?v)\<^sup>2"
    and val: "(?w - t * ?u)\<^sup>2 + (?z - t * ?v)\<^sup>2 =
      (if ?s > ?L then (?w - ?u)\<^sup>2 + (?z - ?v)\<^sup>2 else if ?s < 0 then ?w\<^sup>2 + ?z\<^sup>2 else (?u * ?z - ?v * ?w)\<^sup>2 / ?L)"
    using segment_squared [OF uv, of ?w ?z] by blast
  ultimately have "linePointDist xA yA xB yB xC yC = plane_distance (xA + t * ?u) (yA + t * ?v) xC yC"
    by (simp only: place)
  moreover have "plane_distance (xA + t * ?u) (yA + t * ?v) xC yC \<le> plane_distance (xA + r * ?u) (yA + r * ?v) xC yC"
    if "0 \<le> r" "r \<le> 1" for r
    unfolding place using min [OF that] by simp
  ultimately show ?thesis using t by metis
qed

theorem segment_distance_witness: "linePointDist 0 0 10 0 4 (-3) \<le> 5 \<and> linePointDist 0 0 10 0 4 (-3) = 3"
proof -
  have "linePointDist 0 0 10 0 4 (-3) \<le> plane_distance (0 + 0 * (10 - 0)) (0 + 0 * (0 - 0)) 4 (-3)"
    using segment_distance [of 0 10 0 0 4 "-3"] by (metis order.refl zero_le_one zero_neq_numeral)
  moreover have "linePointDist 0 0 10 0 4 (-3) = 3"
    by (simp add: linePointDist_def dot_def cross_def plane_distance_def Let_def)
  ultimately show ?thesis using real_sqrt_abs [of 5] by (simp add: plane_distance_def)
qed

end
