(* ===== verification/Roads.thy ===== *)
theory Roads
  imports Geo "HOL-Library.List_Lexorder" "HOL-Library.Char_ord" "HOL-Library.Multiset"
begin

text \<open>
  The road map (\<open>utils/geo/map.cc\<close>, \<open>junction.cc\<close>, \<open>link.cc\<close>, \<open>map-element.cc\<close>): junctions and the links
  between them, loaded from two files, and the search for the nearest one. The printed form of a
  number and \<open>boost::hash\<close> are parameters; a file is the list of rows the stream delivers.
\<close>

section \<open>Elements of the map\<close>

record road_env =
  re_print :: "real \<Rightarrow> string"
  re_hash :: "string \<Rightarrow> 64 word"

fun show_nat :: "nat \<Rightarrow> string" where
  "show_nat n = (if n < 10 then [char_of (48 + n)] else show_nat (n div 10) @ [char_of (48 + n mod 10)])"

declare show_nat.simps [simp del]

definition show_int :: "int \<Rightarrow> string" where
  "show_int i = (if i < 0 then CHR ''-'' # show_nat (nat (- i)) else show_nat (nat i))"

record link =
  ln_hash :: int
  ln_stringId :: string
  ln_keyNode1 :: string
  ln_keyNode2 :: string
  ln_streetName :: string
  ln_streetType :: string
  ln_c1 :: coordinate
  ln_c2 :: coordinate
  ln_valid :: bool

text \<open>A \<open>size_t\<close> becomes an \<open>int\<close>.\<close>

definition Link :: "road_env \<Rightarrow> string \<Rightarrow> string \<Rightarrow> string \<Rightarrow> string \<Rightarrow> coordinate \<Rightarrow> coordinate \<Rightarrow> link" where
  "Link env keyNode1 keyNode2 streetName streetType c1 c2 =
     (let hash = sint (ucast (re_hash env keyNode1 XOR re_hash env keyNode2) :: 32 word)
      in \<lparr>ln_hash = hash, ln_stringId = show_int hash, ln_keyNode1 = keyNode1, ln_keyNode2 = keyNode2,
          ln_streetName = streetName, ln_streetType = streetType, ln_c1 = c1, ln_c2 = c2, ln_valid = True\<rparr>)"

definition ln_getDistance :: "link \<Rightarrow> coordinate \<Rightarrow> real" where
  "ln_getDistance l c = pointToSegmentDistUTM c (ln_c1 l) (ln_c2 l)"

definition ln_getConnection :: "link \<Rightarrow> string list" where
  "ln_getConnection l = [ln_keyNode1 l, ln_keyNode2 l]"

record junction =
  jn_hash :: int
  jn_stringId :: string
  jn_coord :: coordinate
  jn_links :: "link list"
  jn_linksId :: "string list"
  jn_valid :: bool

definition Junction :: "road_env \<Rightarrow> coordinate \<Rightarrow> junction" where
  "Junction env coord =
     \<lparr>jn_hash = co_hash coord,
      jn_stringId = ''('' @ re_print env (co_latitude coord) @ '' '' @ re_print env (co_longitude coord) @ '')'',
      jn_coord = coord, jn_links = [], jn_linksId = [], jn_valid = True\<rparr>"

definition jn_less :: "junction \<Rightarrow> junction \<Rightarrow> bool" where
  "jn_less a j \<longleftrightarrow> co_latitude (jn_coord a) < co_latitude (jn_coord j)"

definition jn_getDistance :: "junction \<Rightarrow> coordinate \<Rightarrow> real" where
  "jn_getDistance j c = co_getDistance c (jn_coord j)"

definition jn_isLinkPresent :: "link \<Rightarrow> junction \<Rightarrow> bool" where
  "jn_isLinkPresent l j \<longleftrightarrow> list_ex (\<lambda>it. ln_hash l = ln_hash it) (jn_links j)"

definition jn_isLinkIdPresent :: "string \<Rightarrow> junction \<Rightarrow> bool" where
  "jn_isLinkIdPresent l j \<longleftrightarrow> list_ex (\<lambda>it. l = it) (jn_linksId j)"

definition addLink :: "link \<Rightarrow> junction \<Rightarrow> junction" where
  "addLink link j = (if list_ex (\<lambda>it. ln_hash link = ln_hash it) (jn_links j) then j
                     else j\<lparr>jn_links := jn_links j @ [link]\<rparr>)"

definition addLinkId :: "string \<Rightarrow> junction \<Rightarrow> junction" where
  "addLinkId link j = (if list_ex (\<lambda>it. link = it) (jn_linksId j) then j
                       else j\<lparr>jn_linksId := jn_linksId j @ [link]\<rparr>)"

fun remove_first :: "('a \<Rightarrow> bool) \<Rightarrow> 'a list \<Rightarrow> 'a list" where
  "remove_first f [] = []"
| "remove_first f (it # links) = (if f it then links else it # remove_first f links)"

definition removeLink :: "link \<Rightarrow> junction \<Rightarrow> junction" where
  "removeLink link j = j\<lparr>jn_links := remove_first (\<lambda>it. ln_hash link = ln_hash it) (jn_links j)\<rparr>"

definition removeLinkId :: "string \<Rightarrow> junction \<Rightarrow> junction" where
  "removeLinkId link j = j\<lparr>jn_linksId := remove_first (\<lambda>it. link = it) (jn_linksId j)\<rparr>"

definition jn_getConnection :: "junction \<Rightarrow> string list" where
  "jn_getConnection j = jn_linksId j"

datatype map_element = ElJunction junction | ElLink link

fun getHashCode :: "map_element \<Rightarrow> int" where
  "getHashCode (ElJunction j) = jn_hash j"
| "getHashCode (ElLink l) = ln_hash l"

fun printId :: "map_element \<Rightarrow> string" where
  "printId (ElJunction j) = jn_stringId j"
| "printId (ElLink l) = ln_stringId l"

fun getConnection :: "map_element \<Rightarrow> string list" where
  "getConnection (ElJunction j) = jn_getConnection j"
| "getConnection (ElLink l) = ln_getConnection l"

fun el_getDistance :: "map_element \<Rightarrow> coordinate \<Rightarrow> real" where
  "el_getDistance (ElJunction j) c = jn_getDistance j c"
| "el_getDistance (ElLink l) c = ln_getDistance l c"

definition el_isEqual :: "map_element \<Rightarrow> map_element \<Rightarrow> bool" where
  "el_isEqual a b \<longleftrightarrow> getHashCode a = getHashCode b"

text \<open>
  A \<open>MapElement\<close> that is passed by value is sliced: of the virtual functions the base class's are
  called, whose list of keys is empty.
\<close>

definition sliced_keys :: "map_element \<Rightarrow> string list" where
  "sliced_keys el = []"

fun hasOneIntersectionInCommon :: "map_element \<Rightarrow> map_element \<Rightarrow> bool" where
  "hasOneIntersectionInCommon (ElJunction j) el =
     (if el_isEqual (ElJunction j) el then False else list_ex (\<lambda>it. jn_stringId j \<noteq> it) (sliced_keys el))"
| "hasOneIntersectionInCommon (ElLink l) el =
     (if el_isEqual (ElLink l) el then False
      else list_ex (\<lambda>it. ln_keyNode1 l \<noteq> it \<or> ln_keyNode2 l \<noteq> it) (sliced_keys el))"

section \<open>Loading\<close>

text \<open>A \<open>std::map\<close> is a list in the order of its keys.\<close>

fun smap_insert :: "'k :: linorder \<Rightarrow> 'a \<Rightarrow> ('k \<times> 'a) list \<Rightarrow> ('k \<times> 'a) list" where
  "smap_insert k v [] = [(k, v)]"
| "smap_insert k v ((k', v') # m) =
     (if k < k' then (k, v) # (k', v') # m else if k = k' then (k', v') # m else (k', v') # smap_insert k v m)"

definition smap_modify :: "'k \<Rightarrow> ('a \<Rightarrow> 'a) \<Rightarrow> ('k \<times> 'a) list \<Rightarrow> ('k \<times> 'a) list" where
  "smap_modify k f m = map (\<lambda>(k', v). (k', if k' = k then f v else v)) m"

text \<open>Bounds that were never set are \<open>None\<close>.\<close>

record geo_map =
  mp_nodeTable :: "(string \<times> junction) list"
  mp_linkTable :: "(string \<times> link) list"
  mp_lookupNode :: "junction list"
  mp_minLat :: "real option"
  mp_maxLat :: "real option"
  mp_minLon :: "real option"
  mp_maxLon :: "real option"

definition Map_empty :: geo_map where
  "Map_empty = \<lparr>mp_nodeTable = [], mp_linkTable = [], mp_lookupNode = [],
     mp_minLat = None, mp_maxLat = None, mp_minLon = None, mp_maxLon = None\<rparr>"

definition set_bounds :: "real \<Rightarrow> real option \<times> real option \<Rightarrow> real option \<times> real option" where
  "set_bounds x = (\<lambda>(mi, ma).
     if mi = None \<or> the mi > x then (Some x, ma)
     else if ma = None \<or> the ma < x then (mi, Some x) else (mi, ma))"

definition load_node :: "road_env \<Rightarrow> string \<times> real \<times> real \<Rightarrow> geo_map \<times> (string \<times> string) list \<Rightarrow>
    fault + geo_map \<times> (string \<times> string) list" where
  "load_node env = (\<lambda>(nodeId, lat, lon) (m, tmpJunctionDb).
     if nodeId \<noteq> [] \<and> lat \<noteq> 0 \<and> lon \<noteq> 0 then
       (case Coordinate lat lon of
          None \<Rightarrow> Inl CoordinateException
        | Some coord \<Rightarrow>
            let newJunction = Junction env coord;
                (minLat, maxLat) = set_bounds lat (mp_minLat m, mp_maxLat m);
                (minLon, maxLon) = set_bounds lon (mp_minLon m, mp_maxLon m)
            in Inr (m\<lparr>mp_nodeTable := smap_insert (jn_stringId newJunction) newJunction (mp_nodeTable m),
                      mp_minLat := minLat, mp_maxLat := maxLat, mp_minLon := minLon, mp_maxLon := maxLon\<rparr>,
                    smap_insert nodeId (jn_stringId newJunction) tmpJunctionDb))
     else Inr (m, tmpJunctionDb))"

definition find_node :: "(string \<times> string) list \<Rightarrow> string \<Rightarrow> geo_map \<Rightarrow> junction option" where
  "find_node tmpJunctionDb point m =
     map_of (mp_nodeTable m) (case map_of tmpJunctionDb point of None \<Rightarrow> [] | Some i \<Rightarrow> i)"

definition load_edge :: "road_env \<Rightarrow> (string \<times> string) list \<Rightarrow> string \<times> string \<times> string \<Rightarrow> geo_map \<Rightarrow> geo_map" where
  "load_edge env tmpJunctionDb = (\<lambda>(linkId, startPoint, endPoint) m.
     case find_node tmpJunctionDb startPoint m of
       None \<Rightarrow> m
     | Some startJunction \<Rightarrow>
         (case find_node tmpJunctionDb endPoint m of
            None \<Rightarrow> m
          | Some endJunction \<Rightarrow>
              let newLink = Link env (jn_stringId startJunction) (jn_stringId endJunction) [] []
                    (jn_coord startJunction) (jn_coord endJunction);
                  add = (\<lambda>j. addLink newLink (addLinkId (ln_stringId newLink) j))
              in if map_of (mp_linkTable m) (ln_stringId newLink) = None then
                   m\<lparr>mp_linkTable := smap_insert (ln_stringId newLink) newLink (mp_linkTable m),
                     mp_nodeTable := smap_modify (jn_stringId endJunction) add
                       (smap_modify (jn_stringId startJunction) add (mp_nodeTable m))\<rparr>
                 else m))"

definition Map :: "road_env \<Rightarrow> (string \<times> real \<times> real) list \<Rightarrow> (string \<times> string \<times> string) list \<Rightarrow> fault + geo_map" where
  "Map env nodes edges =
     bindr (foldr_res (load_node env) nodes (Map_empty, [])) (\<lambda>(m, tmpJunctionDb).
       let m = fold (load_edge env tmpJunctionDb) edges m
       in Inr (m\<lparr>mp_lookupNode := sort_key (\<lambda>j. co_latitude (jn_coord j)) (map snd (mp_nodeTable m))\<rparr>))"

definition getMapSegmentById :: "string \<Rightarrow> geo_map \<Rightarrow> fault + map_element" where
  "getMapSegmentById elId m =
     (case map_of (mp_nodeTable m) elId of
        Some j \<Rightarrow> Inr (ElJunction j)
      | None \<Rightarrow> (case map_of (mp_linkTable m) elId of
          Some l \<Rightarrow> Inr (ElLink l)
        | None \<Rightarrow> Inl MapException))"

section \<open>Searching\<close>

definition lower_bound :: "junction \<Rightarrow> junction list \<Rightarrow> nat" where
  "lower_bound jun xs = length (takeWhile (\<lambda>j. jn_less j jun) xs)"

text \<open>
  The least distance so far with its element; \<open>minDistance\<close> starts at \<open>-1\<close>.
\<close>

definition closer :: "'a \<Rightarrow> real \<Rightarrow> real \<times> 'a option \<Rightarrow> real \<times> 'a option" where
  "closer x distance best = (if fst best = -1 \<or> distance < fst best then (distance, Some x) else best)"

definition above :: "coordinate \<Rightarrow> real \<Rightarrow> junction \<Rightarrow> bool" where
  "above c maxResearchBoxSize it \<longleftrightarrow> co_latitude (jn_coord it) > co_latitude c + maxResearchBoxSize"

definition below :: "coordinate \<Rightarrow> real \<Rightarrow> junction \<Rightarrow> bool" where
  "below c maxResearchBoxSize it \<longleftrightarrow> co_latitude (jn_coord it) < co_latitude c - maxResearchBoxSize"

fun junction_loop :: "coordinate \<Rightarrow> (junction \<Rightarrow> bool) \<Rightarrow> junction list \<Rightarrow> real \<times> junction option \<Rightarrow> real \<times> junction option" where
  "junction_loop c stop [] best = best"
| "junction_loop c stop (it # its) best =
     (if stop it then best else junction_loop c stop its (closer it (twoPointsDistance c (jn_coord it)) best))"

text \<open>
  The second loop runs backwards from the lower bound and leaves out the first element of the list.
  Dereferencing the end of the list is undefined.
\<close>

definition backwards :: "nat \<Rightarrow> 'a list \<Rightarrow> 'a list" where
  "backwards k xs = rev (take k (tl xs))"

definition findClosestJunction :: "road_env \<Rightarrow> coordinate \<Rightarrow> real \<Rightarrow> geo_map \<Rightarrow> fault + junction option" where
  "findClosestJunction env c maxResearchBoxSize m =
     (let jun = Junction env c; xs = mp_lookupNode m; lowerBound = lower_bound jun xs in
      if lowerBound \<ge> length xs then Inl UndefinedBehaviour
      else if jn_hash (xs ! lowerBound) = jn_hash jun then Inr (Some (xs ! lowerBound))
      else
        let best = junction_loop c (above c maxResearchBoxSize) (drop lowerBound xs) (-1, None);
            best = junction_loop c (below c maxResearchBoxSize) (backwards lowerBound xs) best
        in Inr (snd best))"

definition link_distance :: "coordinate \<Rightarrow> geo_map \<Rightarrow> link \<Rightarrow> fault + real" where
  "link_distance c m l =
     (case (map_of (mp_nodeTable m) (ln_keyNode1 l), map_of (mp_nodeTable m) (ln_keyNode2 l)) of
        (Some jun1, Some jun2) \<Rightarrow> Inr (pointToSegmentDistUTM c (jn_coord jun1) (jn_coord jun2))
      | _ \<Rightarrow> Inl UndefinedBehaviour)"

fun link_loop :: "coordinate \<Rightarrow> geo_map \<Rightarrow> (junction \<Rightarrow> bool) \<Rightarrow> junction list \<Rightarrow> real \<times> link option \<Rightarrow> fault + real \<times> link option" where
  "link_loop c m stop [] best = Inr best"
| "link_loop c m stop (it # its) best =
     (if stop it then Inr best
      else bindr (foldr_res (\<lambda>l best. bindr (link_distance c m l) (\<lambda>distance. Inr (closer l distance best))) (jn_links it) best)
        (link_loop c m stop its))"

definition findClosestLink :: "road_env \<Rightarrow> coordinate \<Rightarrow> real \<Rightarrow> geo_map \<Rightarrow> fault + link option" where
  "findClosestLink env c maxResearchBoxSize m =
     (let jun = Junction env c; xs = mp_lookupNode m; lowerBound = lower_bound jun xs in
      bindr (link_loop c m (above c maxResearchBoxSize) (drop lowerBound xs) (-1, None)) (\<lambda>best.
      if xs \<noteq> [] \<and> lowerBound \<ge> length xs then Inl UndefinedBehaviour
      else bindr (link_loop c m (below c maxResearchBoxSize) (backwards lowerBound xs) best) (\<lambda>best.
        Inr (snd best))))"

section \<open>Ordered maps\<close>

abbreviation ordered :: "('k :: linorder \<times> 'a) list \<Rightarrow> bool" where
  "ordered m \<equiv> sorted_wrt (<) (map fst m)"

lemma smap_insert_keys: "fst ` set (smap_insert k v m) = insert k (fst ` set m)"
  by (induction k v m rule: smap_insert.induct) (simp_all add: insert_commute)

lemma smap_insert_ordered: "ordered m \<Longrightarrow> ordered (smap_insert k v m)"
proof (induction m)
  case (Cons p m)
  obtain k' v' where p: "p = (k', v')" by force
  have later: "\<forall>x \<in> fst ` set m. k' < x" using Cons.prems p by auto
  show ?case
  proof (cases "k < k' \<or> k = k'")
    case True
    then show ?thesis using Cons.prems later p by (auto intro: order.strict_trans)
  next
    case False
    then have "\<forall>x \<in> fst ` set (smap_insert k v m). k' < x" using later by (auto simp: smap_insert_keys)
    then show ?thesis using False Cons p by auto
  qed
qed simp

lemma map_of_smap_insert:
  "ordered m \<Longrightarrow> map_of (smap_insert k v m) = (if map_of m k = None then (map_of m)(k \<mapsto> v) else map_of m)"
proof (induction m)
  case (Cons p m)
  obtain k' v' where p: "p = (k', v')" by force
  have "map_of m k = None" if "k < k'"
    using Cons.prems p that by (force simp: map_of_eq_None_iff)
  then show ?case using Cons p by (auto simp: fun_eq_iff)
qed simp

lemma smap_modify_keys [simp]: "map fst (smap_modify k f m) = map fst m"
  by (induction m) (auto simp: smap_modify_def)

lemma map_of_smap_modify: "map_of (smap_modify k f m) x = map_option (if x = k then f else (\<lambda>v. v)) (map_of m x)"
  by (induction m) (auto simp: smap_modify_def option.map_ident)

lemma map_of_ordered: "ordered m \<Longrightarrow> (k, v) \<in> set m \<longleftrightarrow> map_of m k = Some v"
  using strict_sorted_iff [of "map fst m"] by auto

section \<open>The network of a loaded map\<close>

definition link_id :: "road_env \<Rightarrow> string \<Rightarrow> string \<Rightarrow> int" where
  "link_id env a b = sint (ucast (re_hash env a XOR re_hash env b) :: 32 word)"

lemma link_id_symmetric: "link_id env a b = link_id env b a"
  by (simp add: link_id_def xor.commute)

definition junction_ok :: "geo_map \<Rightarrow> string \<Rightarrow> junction \<Rightarrow> bool" where
  "junction_ok m k j \<longleftrightarrow> jn_stringId j = k \<and> jn_valid j \<and> jn_hash j = co_hash (jn_coord j) \<and>
     Coordinate (co_latitude (jn_coord j)) (co_longitude (jn_coord j)) = Some (jn_coord j) \<and>
     jn_linksId j = map ln_stringId (jn_links j) \<and>
     set (jn_links j) = {l. map_of (mp_linkTable m) (ln_stringId l) = Some l \<and> (ln_keyNode1 l = k \<or> ln_keyNode2 l = k)}"

definition link_ok :: "road_env \<Rightarrow> geo_map \<Rightarrow> string \<Rightarrow> link \<Rightarrow> bool" where
  "link_ok env m i l \<longleftrightarrow> ln_stringId l = i \<and> i = show_int (ln_hash l) \<and>
     ln_hash l = link_id env (ln_keyNode1 l) (ln_keyNode2 l) \<and> ln_valid l \<and>
     (\<exists>j1 j2. map_of (mp_nodeTable m) (ln_keyNode1 l) = Some j1 \<and> map_of (mp_nodeTable m) (ln_keyNode2 l) = Some j2 \<and>
        ln_c1 l = jn_coord j1 \<and> ln_c2 l = jn_coord j2)"

definition roads_inv :: "road_env \<Rightarrow> geo_map \<Rightarrow> bool" where
  "roads_inv env m \<longleftrightarrow> ordered (mp_nodeTable m) \<and> ordered (mp_linkTable m) \<and>
     (\<forall>k j. map_of (mp_nodeTable m) k = Some j \<longrightarrow> junction_ok m k j) \<and>
     (\<forall>i l. map_of (mp_linkTable m) i = Some l \<longrightarrow> link_ok env m i l)"

lemma roads_inv_empty: "roads_inv env Map_empty"
  by (simp add: roads_inv_def Map_empty_def)

lemma load_node_inv:
  assumes "load_node env row (m, tmp) = Inr (m', tmp')" and "roads_inv env m" and "mp_linkTable m = []"
  shows "roads_inv env m' \<and> mp_linkTable m' = []"
proof -
  obtain nodeId lat lon where row: "row = (nodeId, lat, lon)" by (metis surj_pair)
  show ?thesis
  proof (cases "nodeId \<noteq> [] \<and> lat \<noteq> 0 \<and> lon \<noteq> 0")
    case True
    then obtain c where c: "Coordinate lat lon = Some c"
      using assms(1) by (auto simp: row load_node_def split: option.splits)
    let ?j = "Junction env c"
    have m': "mp_linkTable m' = []" "mp_nodeTable m' = smap_insert (jn_stringId ?j) ?j (mp_nodeTable m)"
      using assms(1,3) True c by (auto simp: row load_node_def Let_def split: prod.splits)
    have "junction_ok m' (jn_stringId ?j) ?j"
      using c m'(1) by (auto simp: junction_ok_def Junction_def Coordinate_eq)
    moreover have "junction_ok m' k j" if "map_of (mp_nodeTable m) k = Some j" for k j
      using that assms(2,3) m'(1) by (auto simp: roads_inv_def junction_ok_def)
    ultimately show ?thesis
      using assms(2) m' by (auto simp: roads_inv_def smap_insert_ordered map_of_smap_insert split: if_splits)
  next
    case False
    then show ?thesis using assms by (auto simp: row load_node_def)
  qed
qed

lemma load_nodes_inv:
  "foldr_res (load_node env) nodes (m, tmp) = Inr (m', tmp') \<Longrightarrow> roads_inv env m \<Longrightarrow> mp_linkTable m = [] \<Longrightarrow>
     roads_inv env m' \<and> mp_linkTable m' = []"
proof (induction nodes arbitrary: m tmp)
  case (Cons row nodes)
  then obtain m1 tmp1 where "load_node env row (m, tmp) = Inr (m1, tmp1)"
    "foldr_res (load_node env) nodes (m1, tmp1) = Inr (m', tmp')" by (auto simp: bindr_eq_Inr)
  then show ?case using Cons load_node_inv by metis
qed simp

text \<open>Adding a link that is not in the table to a junction.\<close>

definition attach :: "link \<Rightarrow> junction \<Rightarrow> junction" where
  "attach l j = addLink l (addLinkId (ln_stringId l) j)"

lemma attach_simps [simp]:
  "jn_stringId (attach l j) = jn_stringId j" "jn_valid (attach l j) = jn_valid j" "jn_hash (attach l j) = jn_hash j"
  "jn_coord (attach l j) = jn_coord j"
  by (simp_all add: attach_def addLink_def addLinkId_def)

lemma attach_links:
  assumes ids: "jn_linksId j = map ln_stringId (jn_links j)"
    and eq: "\<And>x. x \<in> set (jn_links j) \<Longrightarrow> ln_stringId x = ln_stringId l \<longleftrightarrow> ln_hash x = ln_hash l"
    and l: "\<And>x. x \<in> set (jn_links j) \<Longrightarrow> ln_stringId x = ln_stringId l \<Longrightarrow> x = l"
  shows "jn_linksId (attach l j) = map ln_stringId (jn_links (attach l j)) \<and>
    set (jn_links (attach l j)) = insert l (set (jn_links j))"
proof (cases "l \<in> set (jn_links j)")
  case True
  then have "attach l j = j" using ids by (auto simp: attach_def addLink_def addLinkId_def list_ex_iff)
  then show ?thesis using ids True by auto
next
  case False
  then have "\<forall>x \<in> set (jn_links j). ln_stringId x \<noteq> ln_stringId l \<and> ln_hash x \<noteq> ln_hash l"
    using eq l by metis
  then have "attach l j = j\<lparr>jn_linksId := jn_linksId j @ [ln_stringId l], jn_links := jn_links j @ [l]\<rparr>"
    using ids by (force simp: attach_def addLink_def addLinkId_def list_ex_iff)
  then show ?thesis using ids by auto
qed

lemma load_edge_inv:
  assumes inv: "roads_inv env m"
  shows "roads_inv env (load_edge env tmp row m)"
proof -
  obtain e a b where row: "row = (e, a, b)" by (metis surj_pair)
  show ?thesis
  proof (cases "\<exists>s t. find_node tmp a m = Some s \<and> find_node tmp b m = Some t")
    case False
    then have "load_edge env tmp row m = m" by (auto simp: row load_edge_def split: option.splits)
    then show ?thesis using inv by simp
  next
    case True
    then obtain s t where f: "find_node tmp a m = Some s" "find_node tmp b m = Some t" by blast
    obtain ks kt where st: "map_of (mp_nodeTable m) ks = Some s" "map_of (mp_nodeTable m) kt = Some t"
      using f by (auto simp: find_node_def)
    have ok: "junction_ok m k j" if "map_of (mp_nodeTable m) k = Some j" for k j
      using inv that by (simp add: roads_inv_def)
    have k: "jn_stringId s = ks" "jn_stringId t = kt" using ok [OF st(1)] ok [OF st(2)] by (simp_all add: junction_ok_def)
    define l where "l = Link env ks kt [] [] (jn_coord s) (jn_coord t)"
    have l: "ln_keyNode1 l = ks" "ln_keyNode2 l = kt" "ln_stringId l = show_int (ln_hash l)" "ln_valid l"
      "ln_hash l = link_id env ks kt" "ln_c1 l = jn_coord s" "ln_c2 l = jn_coord t"
      by (simp_all add: l_def Link_def Let_def link_id_def)
    show ?thesis
    proof (cases "map_of (mp_linkTable m) (ln_stringId l) = None")
      case False
      then have "load_edge env tmp row m = m" using f k by (auto simp: row load_edge_def Let_def simp flip: l_def)
      then show ?thesis using inv by simp
    next
      case new: True
      let ?m = "load_edge env tmp row m"
      have m: "mp_linkTable ?m = smap_insert (ln_stringId l) l (mp_linkTable m)"
        "mp_nodeTable ?m = smap_modify kt (attach l) (smap_modify ks (attach l) (mp_nodeTable m))"
        using f k new by (simp_all add: row load_edge_def Let_def attach_def [abs_def] flip: l_def)
      have lt: "map_of (mp_linkTable ?m) = (map_of (mp_linkTable m))(ln_stringId l \<mapsto> l)"
        using inv new by (simp add: m(1) roads_inv_def map_of_smap_insert)
      let ?f = "\<lambda>k j. (if k = kt then attach l else (\<lambda>v. v)) ((if k = ks then attach l else (\<lambda>v. v)) j)"
      have nt: "map_of (mp_nodeTable ?m) k = map_option (?f k) (map_of (mp_nodeTable m) k)" for k
        by (simp add: m(2) map_of_smap_modify option.map_comp comp_def)
      have junctions: "junction_ok ?m k (?f k j)" if kj: "map_of (mp_nodeTable m) k = Some j" for k j
      proof -
        have j: "junction_ok m k j" by (rule ok [OF kj])
        have other: "ln_stringId x \<noteq> ln_stringId l" "ln_hash x \<noteq> ln_hash l" if "x \<in> set (jn_links j)" for x
        proof -
          have x: "map_of (mp_linkTable m) (ln_stringId x) = Some x" using that j by (simp add: junction_ok_def)
          then show "ln_stringId x \<noteq> ln_stringId l" using new by auto
          moreover have "link_ok env m (ln_stringId x) x" using x inv by (simp add: roads_inv_def)
          then have "ln_stringId x = show_int (ln_hash x)" by (simp only: link_ok_def)
          ultimately show "ln_hash x \<noteq> ln_hash l" using l(3) by metis
        qed
        have ids: "jn_linksId j = map ln_stringId (jn_links j)" using j by (simp add: junction_ok_def)
        have once: "jn_linksId (attach l j) = map ln_stringId (jn_links (attach l j))"
          "set (jn_links (attach l j)) = insert l (set (jn_links j))"
          using attach_links [OF ids, of l] other by blast+
        have twice: "jn_linksId (attach l (attach l j)) = map ln_stringId (jn_links (attach l (attach l j)))"
          "set (jn_links (attach l (attach l j))) = insert l (set (jn_links j))"
          using attach_links [OF once(1), of l] other unfolding once(2) by blast+
        have "jn_linksId (?f k j) = map ln_stringId (jn_links (?f k j)) \<and>
            set (jn_links (?f k j)) = (if k = ks \<or> k = kt then insert l (set (jn_links j)) else set (jn_links j))"
          using ids once twice by simp
        moreover have "{x. map_of (mp_linkTable ?m) (ln_stringId x) = Some x \<and> (ln_keyNode1 x = k \<or> ln_keyNode2 x = k)} =
            (if k = ks \<or> k = kt then insert l (set (jn_links j)) else set (jn_links j))"
        proof -
          have "set (jn_links j) = {x. map_of (mp_linkTable m) (ln_stringId x) = Some x \<and> (ln_keyNode1 x = k \<or> ln_keyNode2 x = k)}"
            using j by (simp only: junction_ok_def)
          moreover have "map_of (mp_linkTable ?m) (ln_stringId x) = Some x \<longleftrightarrow>
              x = l \<or> map_of (mp_linkTable m) (ln_stringId x) = Some x" for x
            using new by (auto simp: lt)
          ultimately show ?thesis using l(1,2) by (simp only:) auto
        qed
        ultimately show ?thesis using j by (simp add: junction_ok_def)
      qed
      have coord: "\<exists>j'. map_of (mp_nodeTable ?m) k = Some j' \<and> jn_coord j' = jn_coord j"
        if "map_of (mp_nodeTable m) k = Some j" for k j
        using that by (simp add: nt)
      have links: "link_ok env ?m i x" if "map_of (mp_linkTable ?m) i = Some x" for i x
      proof (cases "i = ln_stringId l")
        case True
        then show ?thesis using that l coord [OF st(1)] coord [OF st(2)] by (auto simp: lt link_ok_def)
      next
        case False
        then have "link_ok env m i x" using that inv by (simp add: lt roads_inv_def)
        then obtain j1 j2 where x: "ln_stringId x = i" "i = show_int (ln_hash x)" "ln_hash x = link_id env (ln_keyNode1 x) (ln_keyNode2 x)"
          "ln_valid x" and ends: "map_of (mp_nodeTable m) (ln_keyNode1 x) = Some j1" "map_of (mp_nodeTable m) (ln_keyNode2 x) = Some j2"
          "ln_c1 x = jn_coord j1" "ln_c2 x = jn_coord j2" unfolding link_ok_def by blast
        show ?thesis unfolding link_ok_def using x coord [OF ends(1)] coord [OF ends(2)] ends(3,4) by metis
      qed
      have "junction_ok ?m k j" if "map_of (mp_nodeTable ?m) k = Some j" for k j
        using that junctions by (auto simp: nt)
      moreover have "ordered (mp_nodeTable ?m)" "ordered (mp_linkTable ?m)"
        using inv by (simp_all add: m roads_inv_def smap_insert_ordered)
      ultimately show ?thesis using links by (simp add: roads_inv_def)
    qed
  qed
qed

lemma load_edges_inv: "roads_inv env m \<Longrightarrow> roads_inv env (fold (load_edge env tmp) edges m)"
  by (induction edges arbitrary: m) (simp_all add: load_edge_inv)

lemma roads_inv_lookup [simp]: "roads_inv env (m\<lparr>mp_lookupNode := xs\<rparr>) = roads_inv env m"
  unfolding roads_inv_def junction_ok_def link_ok_def by simp

lemma roads_inv_Map:
  assumes "Map env nodes edges = Inr m"
  shows "roads_inv env m" and "mp_lookupNode m = sort_key (\<lambda>j. co_latitude (jn_coord j)) (map snd (mp_nodeTable m))"
proof -
  obtain m0 tmp where m0: "foldr_res (load_node env) nodes (Map_empty, []) = Inr (m0, tmp)"
    and m: "m = (let m = fold (load_edge env tmp) edges m0
      in m\<lparr>mp_lookupNode := sort_key (\<lambda>j. co_latitude (jn_coord j)) (map snd (mp_nodeTable m))\<rparr>)"
    using assms by (auto simp: Map_def bindr_eq_Inr Let_def)
  have "mp_linkTable Map_empty = []" by (simp add: Map_empty_def)
  then have "roads_inv env m0" using load_nodes_inv [OF m0 roads_inv_empty] by blast
  then have "roads_inv env (fold (load_edge env tmp) edges m0)" by (rule load_edges_inv)
  then show "roads_inv env m" by (simp add: m Let_def)
  show "mp_lookupNode m = sort_key (\<lambda>j. co_latitude (jn_coord j)) (map snd (mp_nodeTable m))" by (simp add: m Let_def)
qed

lemma lookup_junctions:
  assumes "Map env nodes edges = Inr m"
  shows "j \<in> set (mp_lookupNode m) \<longleftrightarrow> map_of (mp_nodeTable m) (jn_stringId j) = Some j"
proof -
  note inv = roads_inv_Map [OF assms]
  have "j \<in> set (mp_lookupNode m) \<longleftrightarrow> (\<exists>k. map_of (mp_nodeTable m) k = Some j)"
    using inv map_of_ordered [of "mp_nodeTable m"] by (auto simp: roads_inv_def image_iff Bex_def)
  moreover have "k = jn_stringId j" if "map_of (mp_nodeTable m) k = Some j" for k
    using inv(1) that by (auto simp: roads_inv_def junction_ok_def)
  ultimately show ?thesis by metis
qed

text \<open>
  C19: whatever the two files hold, a map that loads is a network: the search list has every junction once,
  in the order of latitudes; a junction knows exactly the links of the table that end at it; the
  ends of a link are junctions of the map at the link's coordinates; and two junctions, in either
  order, have one link at most.\<close>

theorem road_network:
  assumes "Map env nodes edges = Inr m"
  shows "sorted (map (\<lambda>j. co_latitude (jn_coord j)) (mp_lookupNode m)) \<and> distinct (map jn_stringId (mp_lookupNode m)) \<and>
    (\<forall>j \<in> set (mp_lookupNode m). jn_linksId j = map ln_stringId (jn_links j) \<and>
      set (jn_links j) = {l \<in> snd ` set (mp_linkTable m). jn_stringId j \<in> set (ln_getConnection l)}) \<and>
    (\<forall>l \<in> snd ` set (mp_linkTable m). \<exists>j1 \<in> set (mp_lookupNode m). \<exists>j2 \<in> set (mp_lookupNode m).
      ln_getConnection l = [jn_stringId j1, jn_stringId j2] \<and> ln_c1 l = jn_coord j1 \<and> ln_c2 l = jn_coord j2) \<and>
    (\<forall>l \<in> snd ` set (mp_linkTable m). \<forall>l' \<in> snd ` set (mp_linkTable m).
      set (ln_getConnection l) = set (ln_getConnection l') \<longrightarrow> l = l')"
proof -
  note inv = roads_inv_Map [OF assms] and look = lookup_junctions [OF assms]
  have ord: "ordered (mp_nodeTable m)" "ordered (mp_linkTable m)" using inv(1) by (simp_all add: roads_inv_def)
  have jok: "junction_ok m (jn_stringId j) j" if "j \<in> set (mp_lookupNode m)" for j
    using inv(1) that look by (simp add: roads_inv_def)
  have table: "l \<in> snd ` set (mp_linkTable m) \<longleftrightarrow> map_of (mp_linkTable m) (ln_stringId l) = Some l" for l
    using map_of_ordered [OF ord(2)] inv(1) by (auto simp: roads_inv_def link_ok_def image_iff Bex_def)
  have lok: "link_ok env m (ln_stringId l) l" if "l \<in> snd ` set (mp_linkTable m)" for l
    using inv(1) that table by (simp add: roads_inv_def)
  have "sorted (map (\<lambda>j. co_latitude (jn_coord j)) (mp_lookupNode m))" by (simp add: inv(2))
  moreover have "distinct (map jn_stringId (mp_lookupNode m))"
  proof -
    have "map jn_stringId (map snd (mp_nodeTable m)) = map fst (mp_nodeTable m)"
      using inv(1) map_of_ordered [OF ord(1)] by (auto simp: roads_inv_def junction_ok_def)
    then have "distinct (map jn_stringId (map snd (mp_nodeTable m)))"
      using strict_sorted_iff ord(1) by metis
    moreover have "mset (map jn_stringId (mp_lookupNode m)) = mset (map jn_stringId (map snd (mp_nodeTable m)))"
      by (simp only: inv(2) mset_map mset_sort)
    ultimately show ?thesis using mset_eq_imp_distinct_iff by blast
  qed
  moreover have "jn_linksId j = map ln_stringId (jn_links j) \<and>
      set (jn_links j) = {l \<in> snd ` set (mp_linkTable m). jn_stringId j \<in> set (ln_getConnection l)}"
    if "j \<in> set (mp_lookupNode m)" for j
  proof -
    have "jn_linksId j = map ln_stringId (jn_links j)"
      and "set (jn_links j) = {l. map_of (mp_linkTable m) (ln_stringId l) = Some l \<and>
        (ln_keyNode1 l = jn_stringId j \<or> ln_keyNode2 l = jn_stringId j)}"
      using jok [OF that] by (simp_all only: junction_ok_def)
    moreover have "jn_stringId j \<in> set (ln_getConnection l) \<longleftrightarrow> ln_keyNode1 l = jn_stringId j \<or> ln_keyNode2 l = jn_stringId j" for l
      by (auto simp: ln_getConnection_def)
    ultimately show ?thesis unfolding table by blast
  qed
  moreover have "\<exists>j1 \<in> set (mp_lookupNode m). \<exists>j2 \<in> set (mp_lookupNode m).
      ln_getConnection l = [jn_stringId j1, jn_stringId j2] \<and> ln_c1 l = jn_coord j1 \<and> ln_c2 l = jn_coord j2"
    if "l \<in> snd ` set (mp_linkTable m)" for l
  proof -
    note mem = that
    obtain j1 j2 where j: "map_of (mp_nodeTable m) (ln_keyNode1 l) = Some j1" "map_of (mp_nodeTable m) (ln_keyNode2 l) = Some j2"
      "ln_c1 l = jn_coord j1" "ln_c2 l = jn_coord j2" using lok [OF mem] by (auto simp: link_ok_def)
    have "jn_stringId j1 = ln_keyNode1 l" "jn_stringId j2 = ln_keyNode2 l"
      using inv(1) j(1,2) by (auto simp: roads_inv_def junction_ok_def)
    then show ?thesis using j look by (intro bexI [of _ j1] bexI [of _ j2]) (simp_all add: ln_getConnection_def)
  qed
  moreover have "l = l'" if "l \<in> snd ` set (mp_linkTable m)" "l' \<in> snd ` set (mp_linkTable m)"
    "set (ln_getConnection l) = set (ln_getConnection l')" for l l'
  proof -
    have "link_id env (ln_keyNode1 l) (ln_keyNode2 l) = link_id env (ln_keyNode1 l') (ln_keyNode2 l')"
      using that(3) link_id_symmetric by (auto simp: ln_getConnection_def doubleton_eq_iff)
    then have "ln_stringId l = ln_stringId l'"
      using lok [OF that(1)] lok [OF that(2)] by (simp add: link_ok_def)
    then show ?thesis using that(1,2) table by simp
  qed
  ultimately show ?thesis by blast
qed

section \<open>The nearest of a list\<close>

text \<open>\<open>best\<close> is a nearest one of the elements seen.\<close>

definition nearest_of :: "('a \<Rightarrow> real) \<Rightarrow> 'a set \<Rightarrow> real \<times> 'a option \<Rightarrow> bool" where
  "nearest_of d S best \<longleftrightarrow> S = {} \<and> best = (-1, None) \<or> (\<exists>y \<in> S. best = (d y, Some y) \<and> (\<forall>x \<in> S. d y \<le> d x))"

lemma nearest_of_start: "nearest_of d {} (-1, None)"
  by (simp add: nearest_of_def)

lemma nearest_of_closer:
  assumes "nearest_of d S best" and "\<And>y. y \<in> S \<Longrightarrow> 0 \<le> d y"
  shows "nearest_of d (insert x S) (closer x (d x) best)"
  using assms(1)
proof (unfold nearest_of_def, elim disjE bexE conjE)
  fix y assume y: "y \<in> S" "best = (d y, Some y)" "\<forall>x \<in> S. d y \<le> d x"
  then have "d y \<noteq> -1" using assms(2) [of y] by simp
  show "insert x S = {} \<and> closer x (d x) best = (-1, None) \<or>
    (\<exists>y \<in> insert x S. closer x (d x) best = (d y, Some y) \<and> (\<forall>x \<in> insert x S. d y \<le> d x))"
  proof (cases "d x < d y")
    case True
    then have "closer x (d x) best = (d x, Some x)" using y(2) by (simp add: closer_def)
    then show ?thesis using True y(3) by fastforce
  next
    case False
    then have "closer x (d x) best = (d y, Some y)" using y(2) \<open>d y \<noteq> -1\<close> by (simp add: closer_def)
    then show ?thesis using False y by fastforce
  qed
qed (simp add: closer_def)

lemma nearest_of_fold:
  "nearest_of d S best \<Longrightarrow> (\<And>y. y \<in> S \<union> set xs \<Longrightarrow> 0 \<le> d y) \<Longrightarrow>
     nearest_of d (S \<union> set xs) (fold (\<lambda>x. closer x (d x)) xs best)"
proof (induction xs arbitrary: S best)
  case (Cons x xs)
  have "nearest_of d (insert x S) (closer x (d x) best)" using Cons.prems by (intro nearest_of_closer) auto
  moreover have "S \<union> set (x # xs) = insert x S \<union> set xs" by auto
  ultimately show ?case using Cons.IH Cons.prems(2) by (simp only: fold_simps)
qed simp

lemma nearest_ofD:
  assumes "nearest_of d S best"
  shows "snd best = None \<longleftrightarrow> S = {}" and "snd best = Some y \<Longrightarrow> y \<in> S \<and> (\<forall>x \<in> S. d y \<le> d x)"
  using assms by (auto simp: nearest_of_def)

section \<open>What the searches return\<close>

lemma junction_loop_fold:
  "junction_loop c stop its best =
     fold (\<lambda>j. closer j (twoPointsDistance c (jn_coord j))) (takeWhile (\<lambda>j. \<not> stop j) its) best"
  by (induction its arbitrary: best) simp_all

definition latitude :: "junction \<Rightarrow> real" where "latitude j = co_latitude (jn_coord j)"

text \<open>The junctions the two loops look at.\<close>

definition candidates :: "coordinate \<Rightarrow> real \<Rightarrow> nat \<Rightarrow> junction list \<Rightarrow> junction list" where
  "candidates c box k xs = takeWhile (\<lambda>j. \<not> above c box j) (drop k xs) @ takeWhile (\<lambda>j. \<not> below c box j) (backwards k xs)"

lemma candidates_sub: "set (candidates c box k xs) \<subseteq> set xs"
  by (auto simp: candidates_def backwards_def dest!: set_takeWhileD in_set_dropD in_set_takeD)
    (metis list.sel(2) list.set_sel(2))

lemma takeWhile_band:
  assumes "sorted (map f xs)"
  shows "set (takeWhile (\<lambda>x. f x \<le> b) xs) = {x \<in> set xs. f x \<le> b}"
  using assms by (induction xs) auto

lemma takeWhile_band_rev:
  assumes "sorted (map f xs)"
  shows "set (takeWhile (\<lambda>x. b \<le> f x) (rev xs)) = {x \<in> set xs. b \<le> (f x :: real)}"
  using assms
proof (induction xs rule: rev_induct)
  case (snoc x xs)
  then show ?case by (cases "b \<le> f x") (auto simp: sorted_append)
qed simp

lemma lower_bound_split:
  fixes xs :: "junction list"
  assumes "sorted (map latitude xs)" and k: "k = lower_bound jun xs"
  shows "k \<le> length xs" "x \<in> set (take k xs) \<Longrightarrow> latitude x < latitude jun" "x \<in> set (drop k xs) \<Longrightarrow> latitude jun \<le> latitude x"
proof -
  let ?P = "\<lambda>j. jn_less j jun"
  have take: "take k xs = takeWhile ?P xs" unfolding k lower_bound_def by (metis takeWhile_eq_take)
  have drop: "drop k xs = dropWhile ?P xs" unfolding k lower_bound_def by (metis dropWhile_eq_drop)
  show "k \<le> length xs" unfolding k lower_bound_def by (rule length_takeWhile_le)
  show "latitude x < latitude jun" if "x \<in> set (take k xs)"
    using that unfolding take by (auto dest!: set_takeWhileD simp: jn_less_def latitude_def)
  show "latitude jun \<le> latitude x" if x: "x \<in> set (drop k xs)"
  proof -
    obtain y ys where y: "drop k xs = y # ys" using x by (cases "drop k xs") auto
    then have "\<not> ?P y" using hd_dropWhile [of ?P xs] drop by auto
    moreover have "sorted (map latitude (drop k xs))" using assms(1) sorted_wrt_drop by (metis drop_map)
    ultimately show ?thesis using x y by (auto simp: jn_less_def latitude_def)
  qed
qed

text \<open>All of the band but the southernmost junction of the map are among them.\<close>

lemma band_candidates:
  assumes sorted: "sorted (map latitude xs)" and k: "k = lower_bound jun xs" and c: "jn_coord jun = c"
    and "x \<in> set (tl xs)" and band: "\<bar>latitude x - co_latitude c\<bar> \<le> box"
  shows "x \<in> set (candidates c box k xs)"
proof -
  note split = lower_bound_split [OF sorted k]
  have sd: "sorted (map latitude (drop k xs))" using sorted sorted_wrt_drop by (metis drop_map)
  have st: "sorted (map latitude (take k (tl xs)))"
    using sorted by (cases xs) (auto simp flip: take_map intro: sorted_wrt_take)
  have up: "(\<lambda>j. \<not> above c box j) = (\<lambda>j. latitude j \<le> co_latitude c + box)"
    and down: "(\<lambda>j. \<not> below c box j) = (\<lambda>j. co_latitude c - box \<le> latitude j)"
    by (auto simp: above_def below_def latitude_def)
  have "x \<in> set (drop k xs) \<or> x \<in> set (take k (tl xs))"
  proof -
    have "tl xs = take k (tl xs) @ drop (Suc k) xs" by (simp add: drop_Suc)
    then have "x \<in> set (take k (tl xs)) \<or> x \<in> set (drop (Suc k) xs)" using assms(4) by (metis Un_iff set_append)
    then show ?thesis using set_drop_subset_set_drop [of k "Suc k" xs] by auto
  qed
  then show ?thesis
    using band unfolding candidates_def backwards_def up down set_append takeWhile_band [OF sd] takeWhile_band_rev [OF st]
    by auto
qed

lemma loaded_junctions:
  assumes "Map env nodes edges = Inr m"
  shows "sorted (map latitude (mp_lookupNode m))"
    and "j \<in> set (mp_lookupNode m) \<Longrightarrow> \<bar>co_latitude (jn_coord j)\<bar> \<le> 90"
    and "j \<in> set (mp_lookupNode m) \<Longrightarrow> l \<in> set (jn_links j) \<Longrightarrow> map_of (mp_linkTable m) (ln_stringId l) = Some l"
    and "map_of (mp_linkTable m) (ln_stringId l) = Some l \<Longrightarrow> link_distance c m l = Inr (ln_getDistance l c)"
proof -
  note inv = roads_inv_Map [OF assms] and look = lookup_junctions [OF assms]
  show "sorted (map latitude (mp_lookupNode m))" unfolding inv(2) latitude_def [abs_def] by (rule sorted_sort_key)
  have ok: "junction_ok m (jn_stringId j) j" if "j \<in> set (mp_lookupNode m)" for j
    using inv(1) that look by (simp add: roads_inv_def)
  show "j \<in> set (mp_lookupNode m) \<Longrightarrow> \<bar>co_latitude (jn_coord j)\<bar> \<le> 90"
    using ok [of j] by (simp add: junction_ok_def Coordinate_eq)
  show "j \<in> set (mp_lookupNode m) \<Longrightarrow> l \<in> set (jn_links j) \<Longrightarrow> map_of (mp_linkTable m) (ln_stringId l) = Some l"
    using ok [of j] by (simp add: junction_ok_def)
  show "map_of (mp_linkTable m) (ln_stringId l) = Some l \<Longrightarrow> link_distance c m l = Inr (ln_getDistance l c)"
    using inv(1) unfolding roads_inv_def link_ok_def link_distance_def ln_getDistance_def by force
qed

lemma junction_coord [simp]: "jn_coord (Junction env c) = c" "jn_hash (Junction env c) = co_hash c"
  "latitude (Junction env c) = co_latitude c"
  by (simp_all add: Junction_def latitude_def)

lemma nearest_two_loops:
  assumes "\<And>y. y \<in> set xs \<union> set ys \<Longrightarrow> 0 \<le> d y"
  shows "nearest_of d (set xs \<union> set ys) (fold (\<lambda>x. closer x (d x)) ys (fold (\<lambda>x. closer x (d x)) xs (-1, None)))"
  using nearest_of_fold [OF nearest_of_start, of "xs @ ys" d] assms by simp

lemma lower_bound_filter:
  assumes "sorted (map latitude xs)" and "k = lower_bound jun xs"
  shows "drop k xs = filter (\<lambda>j. latitude jun \<le> latitude j) xs"
proof -
  note split = lower_bound_split [OF assms]
  have "filter (\<lambda>j. latitude jun \<le> latitude j) (take k xs @ drop k xs) = drop k xs"
    unfolding filter_append using split(2,3) by (auto simp: filter_empty_conv not_le filter_id_conv)
  then show ?thesis by simp
qed


section \<open>The nearest link\<close>

lemma backwards_Nil [simp]: "backwards k [] = []"
  by (simp add: backwards_def)

lemma linePointDist_nonneg: "0 \<le> linePointDist xA yA xB yB xC yC"
  by (simp add: linePointDist_def plane_distance_def Let_def)

lemma ln_getDistance_nonneg: "0 \<le> ln_getDistance l c"
  by (simp add: ln_getDistance_def pointToSegmentDistUTM_def linePointDist_nonneg)

lemma link_loop_fold:
  assumes "\<And>j l. j \<in> set its \<Longrightarrow> l \<in> set (jn_links j) \<Longrightarrow> link_distance c m l = Inr (ln_getDistance l c)"
  shows "link_loop c m stop its best =
    Inr (fold (\<lambda>l. closer l (ln_getDistance l c)) (concat (map jn_links (takeWhile (\<lambda>j. \<not> stop j) its))) best)"
  using assms
proof (induction its arbitrary: best)
  case (Cons j its)
  have inner: "foldr_res (\<lambda>l best. bindr (link_distance c m l) (\<lambda>distance. Inr (closer l distance best))) ls best =
      Inr (fold (\<lambda>l. closer l (ln_getDistance l c)) ls best)"
    if "\<And>l. l \<in> set ls \<Longrightarrow> link_distance c m l = Inr (ln_getDistance l c)" for ls best
    using that by (induction ls arbitrary: best) simp_all
  have "link_distance c m l = Inr (ln_getDistance l c)" if "l \<in> set (jn_links j)" for l
    using Cons.prems [of j l] that by simp
  note inner [OF this]
  moreover have "link_loop c m stop its best' =
      Inr (fold (\<lambda>l. closer l (ln_getDistance l c)) (concat (map jn_links (takeWhile (\<lambda>j. \<not> stop j) its))) best')" for best'
    by (rule Cons.IH) (rule Cons.prems [OF list.set_intros(2)])
  ultimately show ?case by simp
qed simp

text \<open>
  The search for the nearest link goes wrong exactly when the position lies north of every junction;
  otherwise the link found is one of the map and at least as near as every link of a junction in the
  latitude band, the southernmost junction of the map excepted.\<close>

theorem closest_link:
  assumes "Map env nodes edges = Inr m" and "Coordinate lat lon = Some c"
  shows "(findClosestLink env c box m = Inl UndefinedBehaviour \<longleftrightarrow>
      mp_lookupNode m \<noteq> [] \<and> (\<forall>j \<in> set (mp_lookupNode m). latitude j < lat)) \<and>
    (\<forall>e. findClosestLink env c box m = Inl e \<longrightarrow> e = UndefinedBehaviour) \<and>
    (\<forall>r. findClosestLink env c box m = Inr r \<longrightarrow>
      (\<forall>l. r = Some l \<longrightarrow> l \<in> snd ` set (mp_linkTable m)) \<and>
      (\<forall>j \<in> set (tl (mp_lookupNode m)). \<bar>latitude j - lat\<bar> \<le> box \<longrightarrow>
        (\<forall>l' \<in> set (jn_links j). \<exists>l. r = Some l \<and> ln_getDistance l c \<le> ln_getDistance l' c)))"
proof -
  let ?xs = "mp_lookupNode m" and ?d = "\<lambda>l. ln_getDistance l c"
  define k where "k = lower_bound (Junction env c) ?xs"
  have c: "co_latitude c = lat" using assms(2) by (auto simp: Coordinate_eq)
  note load = loaded_junctions [OF assms(1)]
  note split = lower_bound_split [OF load(1) k_def]
  let ?ys = "concat (map jn_links (takeWhile (\<lambda>j. \<not> above c box j) (drop k ?xs)))"
  let ?zs = "concat (map jn_links (takeWhile (\<lambda>j. \<not> below c box j) (backwards k ?xs)))"
  have sub: "set (drop k ?xs) \<subseteq> set ?xs" "set (backwards k ?xs) \<subseteq> set ?xs"
    by (auto simp: backwards_def dest!: in_set_dropD in_set_takeD) (metis list.sel(2) list.set_sel(2))
  have "link_distance c m l = Inr (?d l)" if "j \<in> set ?xs" "l \<in> set (jn_links j)" for j l
    using load(4) [OF load(3) [OF that]] .
  then have loops: "link_loop c m stop (drop k ?xs) best =
      Inr (fold (\<lambda>l. closer l (?d l)) (concat (map jn_links (takeWhile (\<lambda>j. \<not> stop j) (drop k ?xs)))) best)"
    "link_loop c m stop (backwards k ?xs) best =
      Inr (fold (\<lambda>l. closer l (?d l)) (concat (map jn_links (takeWhile (\<lambda>j. \<not> stop j) (backwards k ?xs)))) best)" for stop best
    using sub by (intro link_loop_fold; blast)+
  let ?best = "fold (\<lambda>l. closer l (?d l)) ?zs (fold (\<lambda>l. closer l (?d l)) ?ys (-1, None))"
  have find: "findClosestLink env c box m = (if ?xs \<noteq> [] \<and> k \<ge> length ?xs then Inl UndefinedBehaviour else Inr (snd ?best))"
    by (simp add: findClosestLink_def Let_def loops flip: k_def)
  have north: "k \<ge> length ?xs \<longleftrightarrow> (\<forall>j \<in> set ?xs. latitude j < lat)"
  proof
    assume "k \<ge> length ?xs"
    then show "\<forall>j \<in> set ?xs. latitude j < lat" using split(2) c by simp
  next
    assume "\<forall>j \<in> set ?xs. latitude j < lat"
    then have "drop k ?xs = []" using split(3) [of "hd (drop k ?xs)"] sub(1) c by (cases "drop k ?xs") fastforce+
    then show "k \<ge> length ?xs" by simp
  qed
  have cand: "set ?ys \<union> set ?zs = (\<Union>j \<in> set (candidates c box k ?xs). set (jn_links j))"
    by (auto simp: candidates_def)
  have "nearest_of ?d (set ?ys \<union> set ?zs) ?best"
    by (rule nearest_two_loops) (rule ln_getDistance_nonneg)
  note near = nearest_ofD [OF this, unfolded cand]
  have "l \<in> snd ` set (mp_linkTable m)" if l: "snd ?best = Some l" for l
  proof -
    obtain j where "j \<in> set ?xs" "l \<in> set (jn_links j)" using near(2) [OF l] candidates_sub by blast
    then show ?thesis using load(3) map_of_SomeD by force
  qed
  moreover have "\<exists>l. snd ?best = Some l \<and> ?d l \<le> ?d l'"
    if "j \<in> set (tl ?xs)" "\<bar>latitude j - lat\<bar> \<le> box" "l' \<in> set (jn_links j)" for j l'
  proof -
    have "j \<in> set (candidates c box k ?xs)"
      using band_candidates [OF load(1) k_def _ that(1)] that(2) c by simp
    then show ?thesis using near that(3) by (cases "snd ?best") blast+
  qed
  ultimately show ?thesis unfolding find using north by (auto split: if_splits)
qed

section \<open>A map of two junctions\<close>

definition sample_env :: road_env where
  "sample_env = \<lparr>re_print = (\<lambda>x. if x = 34 then ''S'' else ''N''), re_hash = (\<lambda>s. if s = ''(S N)'' then 5 else 3)\<rparr>"

definition sample_south :: coordinate where "sample_south = coordinate_at 34 (-118)"

definition sample_north :: coordinate where "sample_north = coordinate_at (42501 / 1250) (-118)"

definition sample_road :: link where
  "sample_road = Link sample_env ''(S N)'' ''(N N)'' [] [] sample_south sample_north"

definition sample_junction :: "coordinate \<Rightarrow> junction" where
  "sample_junction c = attach sample_road (Junction sample_env c)"

definition sample_map :: geo_map where
  "sample_map = \<lparr>mp_nodeTable = [(''(N N)'', sample_junction sample_north), (''(S N)'', sample_junction sample_south)],
     mp_linkTable = [(ln_stringId sample_road, sample_road)], mp_lookupNode = [sample_junction sample_south, sample_junction sample_north],
     mp_minLat = Some 34, mp_maxLat = Some (42501 / 1250), mp_minLon = Some (-118), mp_maxLon = Some (-118)\<rparr>"

lemma sample_coordinates:
  "Coordinate 34 (-118) = Some sample_south" "Coordinate (42501 / 1250) (-118) = Some sample_north"
  "co_latitude sample_south = 34" "co_latitude sample_north = (42501 / 1250)" "co_longitude sample_south = -118" "co_longitude sample_north = -118"
  by (simp_all add: Coordinate_def sample_south_def sample_north_def)

definition sample_nodes :: geo_map where
  "sample_nodes = \<lparr>mp_nodeTable = [(''(N N)'', Junction sample_env sample_north), (''(S N)'', Junction sample_env sample_south)],
     mp_linkTable = [], mp_lookupNode = [],
     mp_minLat = Some 34, mp_maxLat = Some (42501 / 1250), mp_minLon = Some (-118), mp_maxLon = Some (-118)\<rparr>"

lemma sample_ids:
  "jn_stringId (Junction sample_env sample_south) = ''(S N)''" "jn_stringId (Junction sample_env sample_north) = ''(N N)''"
  by (simp_all add: Junction_def sample_env_def sample_coordinates)

lemma sample_load: "Map sample_env [(''1'', 34, -118), (''2'', (42501 / 1250), -118)] [(''e'', ''1'', ''2'')] = Inr sample_map"
proof -
  have order: "''(N N)'' < ''(S N)''" by (simp add: less_char_def)
  have nodes: "foldr_res (load_node sample_env) [(''1'', 34, -118), (''2'', (42501 / 1250), -118)] (Map_empty, []) =
      Inr (sample_nodes, [(''1'', ''(S N)''), (''2'', ''(N N)'')])"
    using order
    by (simp add: load_node_def Map_empty_def set_bounds_def sample_coordinates sample_ids sample_nodes_def Let_def
        less_char_def)
  have edge: "load_edge sample_env [(''1'', ''(S N)''), (''2'', ''(N N)'')] (''e'', ''1'', ''2'') sample_nodes =
      sample_map\<lparr>mp_lookupNode := []\<rparr>"
    by (simp add: load_edge_def find_node_def sample_nodes_def sample_map_def Let_def sample_ids
        sample_junction_def smap_modify_def attach_def flip: sample_road_def)
  show ?thesis
    unfolding Map_def nodes by (simp add: edge) (simp add: sample_map_def sample_junction_def sample_coordinates Let_def)
qed

lemma sample_lookup:
  "mp_lookupNode sample_map = [sample_junction sample_south, sample_junction sample_north]"
  "jn_coord (sample_junction c) = c" "jn_hash (sample_junction c) = co_hash c" "latitude (sample_junction c) = co_latitude c"
  by (simp_all add: sample_map_def sample_junction_def latitude_def Junction_def)

definition sample_spot :: coordinate where "sample_spot = coordinate_at (340001 / 10000) (-118)"

lemma sample_spot_facts:
  "Coordinate (340001 / 10000) (-118) = Some sample_spot" "co_latitude sample_spot = 340001 / 10000" "co_longitude sample_spot = -118"
  "co_hash sample_north \<noteq> co_hash sample_spot"
  by (simp_all add: sample_spot_def Coordinate_def sample_north_def hash_code_def int_cast_def)

lemma sample_distances:
  "twoPointsDistance sample_spot sample_south = 6367000 * DEG2RAD * (1 / 10000)"
  "twoPointsDistance sample_spot sample_north = 6367000 * DEG2RAD * (7 / 10000)"
  using meridian_distance [of sample_spot 34] meridian_distance [of sample_spot "42501 / 1250"]
  by (simp_all add: twoPointsDistance_def co_getDistance_def sample_spot_facts sample_coordinates)

lemma sample_search: "findClosestJunction sample_env sample_spot (1 / 1000) sample_map = Inr (Some (sample_junction sample_north))"
proof -
  let ?n = "sample_junction sample_north" and ?d = "twoPointsDistance sample_spot sample_north"
  have k: "lower_bound (Junction sample_env sample_spot) (mp_lookupNode sample_map) = 1"
    by (simp add: lower_bound_def jn_less_def sample_lookup sample_spot_facts sample_coordinates)
  have lists: "drop 1 (mp_lookupNode sample_map) = [?n]" "backwards 1 (mp_lookupNode sample_map) = [?n]"
    "mp_lookupNode sample_map ! 1 = ?n" "\<not> length (mp_lookupNode sample_map) \<le> 1"
    by (simp_all add: sample_lookup(1) backwards_def)
  have band: "\<not> above sample_spot (1 / 1000) ?n" "\<not> below sample_spot (1 / 1000) ?n"
    by (simp_all add: above_def below_def sample_lookup sample_spot_facts sample_coordinates)
  have "0 < DEG2RAD" by (simp add: DEG2RAD_def)
  then have "0 < ?d" by (simp add: sample_distances)
  then have first: "junction_loop sample_spot (above sample_spot (1 / 1000)) [?n] (-1, None) = (?d, Some ?n)"
    and second: "junction_loop sample_spot (below sample_spot (1 / 1000)) [?n] (?d, Some ?n) = (?d, Some ?n)"
    using band by (simp_all only: junction_loop.simps if_False closer_def sample_lookup(2) fst_conv) simp_all
  have hash: "jn_hash ?n \<noteq> jn_hash (Junction sample_env sample_spot)"
    using sample_spot_facts(4) by (simp add: sample_lookup)
  show ?thesis unfolding findClosestJunction_def Let_def k lists first second using hash lists(4) by simp
qed

text \<open>
  The southernmost junction of the map is never found from its north: the search loop stops before the first
  element of its list. Here it is eleven metres away, and the junction at seventy-eight metres is returned.\<close>

theorem southernmost_missed:
  "\<exists>m y. Map sample_env [(''1'', 34, -118), (''2'', 42501 / 1250, -118)] [(''e'', ''1'', ''2'')] = Inr m \<and>
     findClosestJunction sample_env sample_spot (1 / 1000) m = Inr (Some y) \<and>
     (\<exists>j \<in> set (mp_lookupNode m). 7 * twoPointsDistance sample_spot (jn_coord j) = twoPointsDistance sample_spot (jn_coord y) \<and>
        0 < twoPointsDistance sample_spot (jn_coord j))"
proof -
  have "0 < DEG2RAD" by (simp add: DEG2RAD_def)
  then show ?thesis
    using sample_load sample_search
    by (intro exI [of _ sample_map] exI [of _ "sample_junction sample_north"]) (simp add: sample_lookup sample_distances)
qed

theorem road_network_witness: "\<exists>m. Map sample_env [(''1'', 34, -118), (''2'', 42501 / 1250, -118)] [(''e'', ''1'', ''2'')] = Inr m \<and>
    sorted (map (\<lambda>j. co_latitude (jn_coord j)) (mp_lookupNode m)) \<and> distinct (map jn_stringId (mp_lookupNode m))"
  by (intro exI [of _ sample_map] conjI sample_load road_network [OF sample_load, THEN conjunct1]
    road_network [OF sample_load, THEN conjunct2, THEN conjunct1])


theorem closest_link_witness: "findClosestLink sample_env (coordinate_at 35 0) (1 / 1000) sample_map = Inl UndefinedBehaviour"
proof -
  have "Coordinate 35 0 = Some (coordinate_at 35 0)" by (simp add: Coordinate_def)
  from closest_link [OF sample_load this, of "1 / 1000"] show ?thesis by (simp add: sample_lookup sample_coordinates)
qed

end
