(* ===== verification/Gps.thy ===== *)
theory Gps
  imports Roads Ccnb
begin

text \<open>
  The position of the node (\<open>utils/geo/gps-info.cc\<close>, \<open>gpsd-parser.cc\<close>, \<open>location-service.cc\<close>): the reports of
  gpsd are searched for their fields, and the position is placed on the road map. \<open>atof\<close> and \<open>printf\<close> of a
  number are parameters. A pointer into a string is the rest of the string.
\<close>

section \<open>The position\<close>

record platform =
  pf_atof :: "byte list \<Rightarrow> real"
  pf_printf :: "real \<Rightarrow> byte list"

record gps_info =
  gp_lat :: real
  gp_longitude :: real
  gp_alt :: real
  gp_speed :: real
  gp_heading :: real
  gp_latChar :: "byte list"
  gp_longitudeChar :: "byte list"
  gp_previousLat :: real
  gp_previousLongitude :: real
  gp_previousAlt :: real
  gp_previousSpeed :: real
  gp_previousHeading :: real

definition GPS_STRING_SIZE :: nat where "GPS_STRING_SIZE = 12"

definition DEFAULT_COORDINATE_DOUBLE :: real where "DEFAULT_COORDINATE_DOUBLE = 999999 / 1000"

definition DEFAULT_COORDINATE_CHAR :: string where "DEFAULT_COORDINATE_CHAR = ''999.999''"

text \<open>An array of characters that was zeroed, with a string copied to its front.\<close>

definition char_array :: "byte list \<Rightarrow> byte list" where
  "char_array s = s @ replicate (GPS_STRING_SIZE - length s) 0"

definition GpsInfo :: gps_info where
  "GpsInfo = \<lparr>gp_lat = 0, gp_longitude = 0, gp_alt = 0, gp_speed = 0, gp_heading = 0,
     gp_latChar = char_array (bytes_of ''0.0''), gp_longitudeChar = char_array (bytes_of ''0.0''),
     gp_previousLat = 0, gp_previousLongitude = 0, gp_previousAlt = 0, gp_previousSpeed = 0, gp_previousHeading = 0\<rparr>"

definition storeInPrevious :: "gps_info \<Rightarrow> gps_info" where
  "storeInPrevious loc = loc\<lparr>gp_previousAlt := gp_alt loc, gp_previousLat := gp_lat loc,
     gp_previousLongitude := gp_longitude loc, gp_previousSpeed := gp_speed loc, gp_previousHeading := gp_heading loc\<rparr>"

definition getCoordinate :: "gps_info \<Rightarrow> coordinate" where
  "getCoordinate loc =
     (case Coordinate (gp_lat loc) (gp_longitude loc) of
        Some c \<Rightarrow> c
      | None \<Rightarrow> coordinate_at 0 0)"

text \<open>\<open>sprintf\<close> writes a null byte after the number; beyond the array the behaviour is undefined.\<close>

definition print_coordinate :: "platform \<Rightarrow> real \<Rightarrow> fault + byte list" where
  "print_coordinate pf x =
     (if x = DEFAULT_COORDINATE_DOUBLE then Inr (char_array (bytes_of DEFAULT_COORDINATE_CHAR))
      else if length (pf_printf pf x) < GPS_STRING_SIZE then Inr (char_array (pf_printf pf x))
      else Inl UndefinedBehaviour)"

definition setPosition :: "platform \<Rightarrow> real \<Rightarrow> real \<Rightarrow> real \<Rightarrow> real \<Rightarrow> real \<Rightarrow> gps_info \<Rightarrow> fault + gps_info" where
  "setPosition pf latit lon alt speed heading loc =
     bindr (print_coordinate pf latit) (\<lambda>latChar.
     bindr (print_coordinate pf lon) (\<lambda>longitudeChar.
       Inr (loc\<lparr>gp_lat := latit, gp_longitude := lon, gp_alt := alt, gp_speed := speed, gp_heading := heading,
                gp_latChar := latChar, gp_longitudeChar := longitudeChar\<rparr>)))"

section \<open>Reports of gpsd\<close>

fun is_prefix :: "byte list \<Rightarrow> byte list \<Rightarrow> bool" where
  "is_prefix [] s = True"
| "is_prefix (n # ns) [] = False"
| "is_prefix (n # ns) (c # s) = (n = c \<and> is_prefix ns s)"

fun strstr :: "byte list \<Rightarrow> byte list \<Rightarrow> byte list option" where
  "strstr [] needle = (if needle = [] then Some [] else None)"
| "strstr (c # s) needle = (if is_prefix needle (c # s) then Some (c # s) else strstr s needle)"

definition dot_sign :: byte where "dot_sign = byte_of CHR ''.''"
definition comma :: byte where "comma = byte_of CHR '',''"
definition colon :: byte where "colon = byte_of CHR '':''"
definition quote :: byte where "quote = byte_of (char_of (34 :: nat))"

definition field_name :: "string \<Rightarrow> byte list" where
  "field_name s = quote # bytes_of s @ [quote, colon]"

text \<open>
  The text from the character after \<open>start\<close> up to \<open>end\<close> goes into an array of 64 characters, with a null
  byte. If \<open>end\<close> is the null pointer the length is huge.
\<close>

definition copy_between :: "byte list \<Rightarrow> byte list option \<Rightarrow> fault + byte list" where
  "copy_between start end' =
     (case end' of
        None \<Rightarrow> Inl UndefinedBehaviour
      | Some e \<Rightarrow>
          let val = take (length (tl start) - length e) (tl start)
          in if length val < 64 then Inr val else Inl UndefinedBehaviour)"

text \<open>\<open>None\<close> is the result \<open>-1\<close>. Every field is searched from the start of the report.\<close>

definition copy_field :: "byte list \<Rightarrow> string \<Rightarrow> fault + byte list option" where
  "copy_field data nm =
     (case strstr data (field_name nm) of
        None \<Rightarrow> Inr None
      | Some token \<Rightarrow>
          (case strstr token [colon] of
             None \<Rightarrow> Inl UndefinedBehaviour
           | Some start \<Rightarrow> bindr (copy_between start (strstr token [comma])) (\<lambda>val. Inr (Some val))))"

definition copy_time :: "byte list \<Rightarrow> fault + (byte list \<times> byte list) option" where
  "copy_time data =
     (case strstr data (field_name ''time'') of
        None \<Rightarrow> Inr None
      | Some token \<Rightarrow>
          (case strstr token [colon] of
             None \<Rightarrow> Inl UndefinedBehaviour
           | Some start \<Rightarrow>
               bindr (copy_between start (strstr token [dot_sign])) (\<lambda>val_sec.
                 case strstr token [dot_sign] of
                   None \<Rightarrow> Inl UndefinedBehaviour
                 | Some point \<Rightarrow>
                     bindr (copy_between point (strstr point [comma])) (\<lambda>val_usec. Inr (Some (val_sec, val_usec))))))"

definition tpv_class :: "byte list" where
  "tpv_class = quote # bytes_of ''class'' @ [quote, colon, quote] @ bytes_of ''TPV'' @ [quote]"

definition parseData :: "platform \<Rightarrow> byte list \<Rightarrow> gps_info \<Rightarrow> fault + gps_info option" where
  "parseData pf bytes info =
     (let data = takeWhile (\<lambda>b. b \<noteq> 0) bytes in
      if strstr data tpv_class = None then Inr None
      else
        bindr (copy_time data) (\<lambda>time.
        if time = None then Inr None
        else bindr (copy_field data ''lat'') (\<lambda>lat.
          case lat of
            None \<Rightarrow> Inr None
          | Some val_lat \<Rightarrow> bindr (copy_field data ''lon'') (\<lambda>lon.
              case lon of
                None \<Rightarrow> Inr None
              | Some val_log \<Rightarrow>
                  bindr (setPosition pf (pf_atof pf val_lat) (pf_atof pf val_log) 0 0 0 (storeInPrevious info)) (\<lambda>info.
                    Inr (Some info))))))"

section \<open>The place on the map\<close>

text \<open>The pointer to the element is never initialised: \<open>None\<close>.\<close>

record location_service =
  ls_position :: gps_info
  ls_mapElement :: "map_element option"
  ls_map :: geo_map

definition SIZEOFINTERSECTION :: real where "SIZEOFINTERSECTION = 40"

definition noValidData :: "platform \<Rightarrow> location_service \<Rightarrow> fault + location_service" where
  "noValidData pf ls =
     bindr (setPosition pf DEFAULT_COORDINATE_DOUBLE DEFAULT_COORDINATE_DOUBLE DEFAULT_COORDINATE_DOUBLE
              DEFAULT_COORDINATE_DOUBLE DEFAULT_COORDINATE_DOUBLE (ls_position ls)) (\<lambda>position.
       Inr (ls\<lparr>ls_position := position\<rparr>))"

definition LocationService :: "platform \<Rightarrow> geo_map \<Rightarrow> fault + location_service" where
  "LocationService pf map' =
     bindr (noValidData pf \<lparr>ls_position = GpsInfo, ls_mapElement = None, ls_map = Map_empty\<rparr>) (\<lambda>ls.
       Inr (ls\<lparr>ls_map := map'\<rparr>))"

definition findLocationInMap :: "road_env \<Rightarrow> coordinate \<Rightarrow> location_service \<Rightarrow> fault + map_element option" where
  "findLocationInMap env c ls =
     bindr (findClosestJunction env c (1 / 1000) (ls_map ls)) (\<lambda>jun.
       let link = bindr (findClosestLink env c (1 / 1000) (ls_map ls)) (\<lambda>link.
             case link of
               None \<Rightarrow> Inr None
             | Some l \<Rightarrow> if \<not> ln_valid l then Inr None else Inr (Some (ElLink l)))
       in case jun of
            None \<Rightarrow> link
          | Some j \<Rightarrow>
              if jn_valid j \<and> twoPointsDistance c (jn_coord j) < SIZEOFINTERSECTION then Inr (Some (ElJunction j))
              else link)"

definition getNeighbourMapElement :: "map_element option \<Rightarrow> fault + string list" where
  "getNeighbourMapElement el = (case el of None \<Rightarrow> Inl NullDereference | Some e \<Rightarrow> Inr (getConnection e))"

definition updateMapInfo :: "road_env \<Rightarrow> location_service \<Rightarrow> fault + location_service" where
  "updateMapInfo env ls =
     bindr (findLocationInMap env (getCoordinate (ls_position ls)) ls) (\<lambda>mapEl.
       let ls = (case mapEl of None \<Rightarrow> ls | Some e \<Rightarrow> ls\<lparr>ls_mapElement := Some e\<rparr>)
       in bindr (getNeighbourMapElement mapEl) (\<lambda>result. Inr ls))"

definition updatePosition :: "platform \<Rightarrow> road_env \<Rightarrow> byte list \<Rightarrow> location_service \<Rightarrow> fault + location_service" where
  "updatePosition pf env buffer ls =
     bindr (parseData pf buffer (ls_position ls)) (\<lambda>r.
       case r of
         None \<Rightarrow> Inr ls
       | Some position \<Rightarrow> updateMapInfo env (ls\<lparr>ls_position := position\<rparr>))"

definition areInTheSameSegment :: "road_env \<Rightarrow> coordinate \<Rightarrow> coordinate \<Rightarrow> location_service \<Rightarrow> fault + bool" where
  "areInTheSameSegment env c1 c2 ls =
     bindr (findLocationInMap env c1 ls) (\<lambda>mapEl1.
     bindr (findLocationInMap env c2 ls) (\<lambda>mapEl2.
       case (mapEl1, mapEl2) of (Some e1, Some e2) \<Rightarrow> Inr (el_isEqual e1 e2) | _ \<Rightarrow> Inr False))"

definition areWeInTheSameSegment :: "road_env \<Rightarrow> coordinate \<Rightarrow> location_service \<Rightarrow> fault + bool" where
  "areWeInTheSameSegment env c ls =
     bindr (findLocationInMap env c ls) (\<lambda>mapEl.
       case mapEl of
         None \<Rightarrow> Inr False
       | Some e \<Rightarrow> (case ls_mapElement ls of None \<Rightarrow> Inl UndefinedBehaviour | Some here \<Rightarrow> Inr (el_isEqual e here)))"

definition findLocationIdInMap :: "road_env \<Rightarrow> coordinate \<Rightarrow> location_service \<Rightarrow> fault + string" where
  "findLocationIdInMap env c ls =
     bindr (findLocationInMap env c ls) (\<lambda>mapEl. case mapEl of None \<Rightarrow> Inr [] | Some e \<Rightarrow> Inr (printId e))"

fun closest_elements :: "geo_map \<Rightarrow> coordinate \<Rightarrow> coordinate \<Rightarrow> string list \<Rightarrow> string list \<Rightarrow> string list" where
  "closest_elements m position c [] result = result"
| "closest_elements m position c (it # connections) result =
     (case getMapSegmentById it m of
        Inl e \<Rightarrow> closest_elements m position c connections result
      | Inr element \<Rightarrow>
          closest_elements m position c connections
            (if el_getDistance element c \<le> el_getDistance element position then result @ [it] else result))"

definition getClosestMapToParamAndFarthestToMe :: "string \<Rightarrow> coordinate \<Rightarrow> location_service \<Rightarrow> string list" where
  "getClosestMapToParamAndFarthestToMe elId c ls =
     (case getMapSegmentById elId (ls_map ls) of
        Inl e \<Rightarrow> []
      | Inr el \<Rightarrow> closest_elements (ls_map ls) (getCoordinate (ls_position ls)) c (getConnection el) [])"

section \<open>Searching for fields\<close>

lemma strstr_here: "is_prefix needle s \<Longrightarrow> strstr s needle = Some s"
  by (cases s; cases needle) auto

lemma strstr_skip: "n \<notin> set x \<Longrightarrow> strstr (x @ s) (n # ns) = strstr s (n # ns)"
  by (induction x) auto

lemma strstr_char: "n \<notin> set x \<Longrightarrow> strstr (x @ n # s) [n] = Some (n # s)"
  by (simp add: strstr_skip strstr_here)

lemma strstr_none: "n \<notin> set s \<Longrightarrow> strstr s (n # ns) = None"
  by (induction s) auto

lemma is_prefix_append [simp]: "is_prefix needle (needle @ s)"
  by (induction needle) simp_all

text \<open>
  A report as gpsd writes it: an object with fields in any order, each a number or a string without escapes, up to
  what follows the last field that matters.
\<close>

definition plain_field :: "string \<times> byte list \<Rightarrow> bool" where
  "plain_field f \<longleftrightarrow> fst f \<noteq> [] \<and> set (bytes_of (fst f)) \<inter> {quote, comma, colon, 0} = {} \<and> 0 \<notin> set (snd f) \<and>
     (quote \<notin> set (snd f) \<or> (\<exists>s. snd f = quote # s @ [quote] \<and> quote \<notin> set s))"

definition members :: "(string \<times> byte list) list \<Rightarrow> byte list" where
  "members fs = concat (map (\<lambda>(nm, val). field_name nm @ val @ [comma]) fs)"

definition report :: "(string \<times> byte list) list \<Rightarrow> byte list \<Rightarrow> byte list" where
  "report fs rest = bytes_of ''{'' @ members fs @ rest"

lemmas sign_defs = dot_sign_def comma_def colon_def quote_def byte_of_def

lemma signs: "quote \<noteq> comma" "comma \<noteq> quote" "quote \<noteq> colon" "colon \<noteq> quote" "dot_sign \<noteq> quote" "quote \<noteq> dot_sign" "comma \<noteq> colon"
  "colon \<noteq> comma" "colon \<noteq> dot_sign" "dot_sign \<noteq> colon" "comma \<noteq> dot_sign" "dot_sign \<noteq> comma" "quote \<noteq> 0" "comma \<noteq> 0" "colon \<noteq> 0" "dot_sign \<noteq> 0"
  by (simp_all add: sign_defs)

lemma is_prefix_name:
  "quote \<notin> set n \<Longrightarrow> quote \<notin> set m \<Longrightarrow> is_prefix (n @ quote # w) (m @ quote # s) \<longleftrightarrow> n = m \<and> is_prefix w s"
proof (induction n arbitrary: m)
  case Nil
  then show ?case by (cases m) auto
next
  case (Cons c n)
  then show ?case by (cases m) auto
qed

lemma bytes_of_inj: "bytes_of a = bytes_of b \<longleftrightarrow> a = b"
proof -
  have "unat (byte_of x) = of_char x" for x by (simp add: byte_of_def unat_of_nat take_bit_eq_mod)
  then have "inj byte_of" by (metis injI of_char_eq_iff)
  then show ?thesis by (rule inj_map_eq_map)
qed

text \<open>A search for a name passes over the fields of other names.\<close>

lemma strstr_other:
  assumes "plain_field (m, v)" and "plain_field (n, u)" and "m \<noteq> n"
  shows "strstr (field_name m @ v @ comma # s) (field_name n @ w) = strstr s (field_name n @ w)"
proof -
  let ?n = "bytes_of n" and ?m = "bytes_of m"
  have needle: "field_name n @ w = quote # ?n @ quote # colon # w" by (simp add: field_name_def)
  obtain c k where c: "?n = c # k" using assms(2) by (cases n) (auto simp: plain_field_def)
  have free: "quote \<notin> set ?n" "quote \<notin> set ?m" "c \<noteq> colon" "c \<noteq> comma"
    using assms(1,2) c by (auto simp: plain_field_def)
  have other: "?n \<noteq> ?m" using assms(3) bytes_of_inj [of n m] by blast
  have past: "strstr (x @ y) (field_name n @ w) = strstr y (field_name n @ w)" if "quote \<notin> set x" for x y
    unfolding needle by (rule strstr_skip [OF that])
  have name: "strstr (quote # x @ quote # y) (field_name n @ w) = strstr (quote # y) (field_name n @ w)"
    if "quote \<notin> set x" "?n = x \<Longrightarrow> \<not> is_prefix (colon # w) y" for x y
  proof -
    have "\<not> is_prefix (field_name n @ w) (quote # x @ quote # y)"
      unfolding needle using is_prefix_name [OF free(1) that(1)] that(2) by auto
    then show ?thesis using past [OF that(1)] by simp
  qed
  have after: "strstr (quote # d # y) (field_name n @ w) = strstr (d # y) (field_name n @ w)" if "d \<noteq> c" for d y
    unfolding needle c using that by simp
  have tail: "strstr (comma # s) (field_name n @ w) = strstr s (field_name n @ w)"
    using past [of "[comma]"] signs(1) by simp
  have val: "strstr (v @ comma # s) (field_name n @ w) = strstr s (field_name n @ w)"
  proof (cases "quote \<in> set v")
    case False
    then show ?thesis using past [OF False, of "comma # s"] tail by simp
  next
    case True
    then obtain x where x: "v = quote # x @ [quote]" "quote \<notin> set x" using assms(1) by (auto simp: plain_field_def)
    then have "strstr (v @ comma # s) (field_name n @ w) = strstr (quote # comma # s) (field_name n @ w)"
      using name [of x "comma # s"] signs by simp
    then show ?thesis using after [of comma s] free(4) tail by simp
  qed
  have "strstr (field_name m @ v @ comma # s) (field_name n @ w) = strstr (quote # colon # v @ comma # s) (field_name n @ w)"
    using name [OF free(2), of "colon # v @ comma # s"] other by (simp add: field_name_def)
  also have "\<dots> = strstr ([colon] @ v @ comma # s) (field_name n @ w)" using after [of colon "v @ comma # s"] free(3) by simp
  also have "\<dots> = strstr s (field_name n @ w)" using past [of "[colon]"] signs(3) val by simp
  finally show ?thesis .
qed

lemma report_field:
  assumes "\<forall>f \<in> set fs. plain_field f" and "map_of fs nm = Some val" and "is_prefix w val"
  shows "\<exists>rest'. strstr (report fs rest) (field_name nm @ w) = Some (field_name nm @ val @ comma # rest')"
proof -
  have "\<exists>rest'. strstr (members fs @ rest) (field_name nm @ w) = Some (field_name nm @ val @ comma # rest')"
    using assms(1,2)
  proof (induction fs)
    case (Cons f fs)
    obtain m v where f: "f = (m, v)" by (cases f)
    have shape: "members (f # fs) @ rest = field_name m @ v @ comma # members fs @ rest" by (simp add: members_def f)
    have longer: "is_prefix w v \<Longrightarrow> is_prefix w (v @ s)" for v s by (induction w v rule: is_prefix.induct) simp_all
    have named: "is_prefix w s \<Longrightarrow> is_prefix (x @ w) (x @ s)" for x s by (induction x) simp_all
    show ?case
    proof (cases "m = nm")
      case True
      then have "v = val" using Cons.prems(2) f by simp
      then have "is_prefix (field_name nm @ w) (members (f # fs) @ rest)"
        unfolding shape True using assms(3) longer named by blast
      then show ?thesis using strstr_here [of "field_name nm @ w"] unfolding shape True \<open>v = val\<close> by blast
    next
      case False
      obtain u where "plain_field (nm, u)" using Cons.prems f False by (metis list.set_intros(2) map_of_Cons_code(2) map_of_SomeD)
      then have "strstr (members (f # fs) @ rest) (field_name nm @ w) = strstr (members fs @ rest) (field_name nm @ w)"
        unfolding shape using strstr_other [of m v nm u] Cons.prems(1) f False by simp
      then show ?thesis using Cons f False by simp
    qed
  qed simp
  moreover have "strstr (report fs rest) (field_name nm @ w) = strstr (members fs @ rest) (field_name nm @ w)"
    using strstr_skip [of quote "bytes_of ''{''"] by (simp add: report_def field_name_def sign_defs)
  ultimately show ?thesis by simp
qed

text \<open>The value of a field: what stands between its colon and the next end mark.\<close>

lemma copy_field_value:
  assumes "strstr data (field_name nm) = Some (field_name nm @ val @ comma # rest)"
    and "set (bytes_of nm) \<inter> {colon, comma, quote} = {}" and "comma \<notin> set val" and "length val < 64"
  shows "copy_field data nm = Inr (Some val)"
proof -
  let ?front = "quote # bytes_of nm @ [quote]"
  have token: "field_name nm @ val @ comma # rest = ?front @ colon # val @ comma # rest" by (simp add: field_name_def)
  have "strstr (field_name nm @ val @ comma # rest) [colon] = Some (colon # val @ comma # rest)"
    unfolding token by (rule strstr_char) (use assms(2) signs in auto)
  moreover have "strstr (field_name nm @ val @ comma # rest) [comma] = Some (comma # rest)"
  proof -
    have "comma \<notin> set (?front @ colon # val)" using assms(2,3) signs by auto
    from strstr_char [OF this, of rest] show ?thesis unfolding token by simp
  qed
  ultimately show ?thesis using assms(1,4) by (simp add: copy_field_def copy_between_def)
qed

lemma time_value:
  assumes "strstr data (field_name ''time'') = Some (field_name ''time'' @ a @ dot_sign # b @ comma # rest)"
    and "dot_sign \<notin> set a" and "comma \<notin> set b" and "length a < 64" "length b < 64"
  shows "copy_time data = Inr (Some (a, b))"
proof -
  let ?front = "quote # bytes_of ''time'' @ [quote]" and ?token = "field_name ''time'' @ a @ dot_sign # b @ comma # rest"
  have token: "?token = ?front @ colon # a @ dot_sign # b @ comma # rest" by (simp add: field_name_def)
  have front: "colon \<notin> set ?front" "dot_sign \<notin> set ?front" by (simp_all add: sign_defs)
  have "strstr ?token [colon] = Some (colon # a @ dot_sign # b @ comma # rest)"
    unfolding token by (rule strstr_char [OF front(1)])
  moreover have "strstr ?token [dot_sign] = Some (dot_sign # b @ comma # rest)"
  proof -
    have "dot_sign \<notin> set (?front @ colon # a)" using front assms(2) signs by auto
    from strstr_char [OF this] show ?thesis unfolding token by simp
  qed
  moreover have "strstr (dot_sign # b @ comma # rest) [comma] = Some (comma # rest)"
    using strstr_char [of comma "dot_sign # b" rest] assms(3) signs by simp
  ultimately show ?thesis using assms(1,4,5) by (simp add: copy_time_def copy_between_def)
qed

definition printable :: "platform \<Rightarrow> real \<Rightarrow> bool" where
  "printable pf x \<longleftrightarrow> x = DEFAULT_COORDINATE_DOUBLE \<or> length (pf_printf pf x) < GPS_STRING_SIZE"

lemma print_coordinate_length: "print_coordinate pf x = Inr s \<Longrightarrow> length s = GPS_STRING_SIZE"
  by (auto simp: print_coordinate_def char_array_def GPS_STRING_SIZE_def DEFAULT_COORDINATE_CHAR_def split: if_splits)

lemma print_coordinate_total:
  assumes "printable pf x"
  obtains s where "print_coordinate pf x = Inr s"
  using assms by (cases "x = DEFAULT_COORDINATE_DOUBLE") (auto simp: printable_def print_coordinate_def)

lemma setPosition_total:
  assumes "printable pf latit" "printable pf lon"
  shows "\<exists>loc'. setPosition pf latit lon alt speed heading loc = Inr loc' \<and> gp_lat loc' = latit \<and> gp_longitude loc' = lon \<and>
    gp_previousLat loc' = gp_previousLat loc \<and> gp_previousLongitude loc' = gp_previousLongitude loc \<and>
    length (gp_latChar loc') = GPS_STRING_SIZE \<and> length (gp_longitudeChar loc') = GPS_STRING_SIZE"
proof -
  obtain a where "print_coordinate pf latit = Inr a" using assms(1) by (rule print_coordinate_total)
  moreover obtain b where "print_coordinate pf lon = Inr b" using assms(2) by (rule print_coordinate_total)
  ultimately show ?thesis using print_coordinate_length by (simp add: setPosition_def)
qed

lemma whole_string: "0 \<notin> set data \<Longrightarrow> takeWhile (\<lambda>b. b \<noteq> 0) data = data" for data :: "byte list"
  by (rule takeWhile_eq_all_conv [THEN iffD2]) auto

definition position_report :: "(string \<times> byte list) list \<Rightarrow> byte list \<Rightarrow> byte list \<Rightarrow> byte list \<Rightarrow> byte list \<Rightarrow> bool" where
  "position_report fs sec usec lat lon \<longleftrightarrow> (\<forall>f \<in> set fs. plain_field f) \<and>
     map_of fs ''class'' = Some (quote # bytes_of ''TPV'' @ [quote]) \<and>
     map_of fs ''time'' = Some (quote # sec @ dot_sign # usec @ [quote]) \<and>
     map_of fs ''lat'' = Some lat \<and> map_of fs ''lon'' = Some lon \<and>
     dot_sign \<notin> set sec \<and> comma \<notin> set usec \<and> comma \<notin> set lat \<and> comma \<notin> set lon \<and>
     length sec < 63 \<and> length usec < 63 \<and> length lat < 64 \<and> length lon < 64"

lemma report_parsed:
  assumes "position_report fs sec usec lat lon" and "0 \<notin> set rest"
    and "printable pf (pf_atof pf lat)" "printable pf (pf_atof pf lon)"
  shows "\<exists>info'. parseData pf (report fs rest) info = Inr (Some info') \<and>
    gp_lat info' = pf_atof pf lat \<and> gp_longitude info' = pf_atof pf lon \<and>
    gp_previousLat info' = gp_lat info \<and> gp_previousLongitude info' = gp_longitude info \<and>
    length (gp_latChar info') = 12 \<and> length (gp_longitudeChar info') = 12"
proof -
  let ?data = "report fs rest" and ?tpv = "quote # bytes_of ''TPV'' @ [quote]"
  have plain: "\<forall>f \<in> set fs. plain_field f" using assms(1) by (simp add: position_report_def)
  have "0 \<notin> set (members fs)"
  proof -
    have "0 \<notin> set (field_name nm @ val @ [comma])" if "plain_field (nm, val)" for nm val
      using that signs by (auto simp: plain_field_def field_name_def)
    then show ?thesis using plain unfolding members_def by fastforce
  qed
  then have "0 \<notin> set ?data" using assms(2) by (simp add: report_def byte_of_def)
  then have string: "takeWhile (\<lambda>b. b \<noteq> 0) ?data = ?data" by (rule whole_string)
  have "is_prefix ?tpv ?tpv" using is_prefix_append [of ?tpv "[]"] by simp
  from report_field [OF plain _ this, of "''class''" rest] assms(1)
  have cls: "strstr ?data tpv_class \<noteq> None"
    by (auto simp: position_report_def tpv_class_def field_name_def)
  obtain r where "strstr ?data (field_name ''time'') = Some (field_name ''time'' @ (quote # sec @ dot_sign # usec @ [quote]) @ comma # r)"
    using report_field [OF plain, of "''time''" _ "[]" rest] assms(1) by (auto simp: position_report_def)
  then have time: "copy_time ?data = Inr (Some (quote # sec, usec @ [quote]))"
    using assms(1) signs by (intro time_value [of _ _ _ r]) (auto simp: position_report_def)
  have field: "copy_field ?data nm = Inr (Some val)"
    if "map_of fs nm = Some val" "comma \<notin> set val" "length val < 64" for nm val
  proof -
    have "\<exists>r. strstr ?data (field_name nm) = Some (field_name nm @ val @ comma # r)"
      using report_field [OF plain that(1), of "[]" rest] by simp
    then obtain r where r: "strstr ?data (field_name nm) = Some (field_name nm @ val @ comma # r)" ..
    have "plain_field (nm, val)" using plain map_of_SomeD [OF that(1)] by blast
    then show ?thesis using copy_field_value [OF r _ that(2,3)] by (auto simp: plain_field_def)
  qed
  have lat: "copy_field ?data ''lat'' = Inr (Some lat)" and lon: "copy_field ?data ''lon'' = Inr (Some lon)"
    using assms(1) by (auto simp: position_report_def intro: field)
  obtain info' where info': "setPosition pf (pf_atof pf lat) (pf_atof pf lon) 0 0 0 (storeInPrevious info) = Inr info'"
    "gp_lat info' = pf_atof pf lat" "gp_longitude info' = pf_atof pf lon"
    "gp_previousLat info' = gp_previousLat (storeInPrevious info)" "gp_previousLongitude info' = gp_previousLongitude (storeInPrevious info)"
    "length (gp_latChar info') = GPS_STRING_SIZE" "length (gp_longitudeChar info') = GPS_STRING_SIZE"
    using setPosition_total [OF assms(3,4)] by blast
  have "parseData pf ?data info = Inr (Some info')"
    unfolding parseData_def Let_def string using cls info'(1) by (simp add: time lat lon)
  then show ?thesis using info' by (simp add: storeInPrevious_def GPS_STRING_SIZE_def)
qed

text \<open>
  C21: a position report of gpsd is understood whatever other fields it has and in whatever order they come: an object whose
  fields are numbers or strings without escaped quotes, among them the class TPV, a time with a fraction, a latitude and a longitude, each
  followed by a comma, with anything behind them. The position becomes this latitude and longitude, the former position
  is kept as the previous one, and the printed coordinates fill their two arrays exactly. The time and the numbers
  must be of fewer than 64 characters, and the numbers must print in fewer than twelve.\<close>

theorem gps_report:
  assumes "\<forall>f \<in> set fs. plain_field f" and "0 \<notin> set rest"
    and "map_of fs ''class'' = Some (quote # bytes_of ''TPV'' @ [quote])"
    and "map_of fs ''time'' = Some (quote # sec @ dot_sign # usec @ [quote])"
    and "map_of fs ''lat'' = Some lat" and "map_of fs ''lon'' = Some lon"
    and "dot_sign \<notin> set sec" "comma \<notin> set usec" "comma \<notin> set lat" "comma \<notin> set lon"
    and "length sec < 63" "length usec < 63" "length lat < 64" "length lon < 64"
    and "printable pf (pf_atof pf lat)" "printable pf (pf_atof pf lon)"
  shows "\<exists>info'. parseData pf (bytes_of ''{'' @ concat (map (\<lambda>(nm, val). field_name nm @ val @ [comma]) fs) @ rest) info = Inr (Some info') \<and>
    gp_lat info' = pf_atof pf lat \<and> gp_longitude info' = pf_atof pf lon \<and>
    gp_previousLat info' = gp_lat info \<and> gp_previousLongitude info' = gp_longitude info \<and>
    length (gp_latChar info') = 12 \<and> length (gp_longitudeChar info') = 12"
proof -
  have "position_report fs sec usec lat lon" using assms by (simp add: position_report_def)
  from report_parsed [OF this assms(2,15,16)] show ?thesis unfolding report_def members_def .
qed

text \<open>
  A report of a position whose time has no fraction, and no point after it, makes the parser compute the length
  of the seconds from a null pointer.\<close>

theorem report_without_point:
  assumes "0 \<notin> set data" and "strstr data tpv_class \<noteq> None"
    and "strstr data (field_name ''time'') = Some token" and "dot_sign \<notin> set token"
  shows "parseData pf data info = Inl UndefinedBehaviour"
proof -
  have string: "takeWhile (\<lambda>b. b \<noteq> 0) data = data" using assms(1) by (rule whole_string)
  have "strstr token [dot_sign] = None" using assms(4) by (rule strstr_none)
  then have "copy_time data = Inl UndefinedBehaviour"
    using assms(3) by (auto simp: copy_time_def copy_between_def split: option.split)
  then show ?thesis unfolding parseData_def Let_def string using assms(2) by simp
qed

section \<open>Off the map\<close>

lemma no_link_south:
  assumes "Map env nodes edges = Inr m" and c: "Coordinate lat lon = Some c"
    and "mp_lookupNode m \<noteq> []" and south: "\<And>j. j \<in> set (mp_lookupNode m) \<Longrightarrow> lat + box < latitude j" and "0 \<le> box"
  shows "findClosestLink env c box m = Inr None"
    and "findClosestJunction env c box m = Inr None \<or>
      findClosestJunction env c box m = Inr (Some (hd (mp_lookupNode m)))"
proof -
  obtain j js where xs: "mp_lookupNode m = j # js" using assms(3) by (cases "mp_lookupNode m") auto
  have c: "co_latitude c = lat" using c by (simp add: Coordinate_eq)
  have j: "lat + box < latitude j" using south xs by simp
  have k: "lower_bound (Junction env c) (mp_lookupNode m) = 0"
    using j assms(5) c by (simp add: lower_bound_def xs jn_less_def latitude_def)
  have up: "above c box j" using j c by (simp add: above_def latitude_def)
  show "findClosestLink env c box m = Inr None"
    unfolding findClosestLink_def Let_def k using up by (simp add: xs backwards_def)
  show "findClosestJunction env c box m = Inr None \<or> findClosestJunction env c box m = Inr (Some (hd (mp_lookupNode m)))"
    unfolding findClosestJunction_def Let_def k using up by (simp add: xs backwards_def)
qed

lemma far_south:
  assumes "Map env nodes edges = Inr m" and "Coordinate lat lon = Some c"
    and "j \<in> set (mp_lookupNode m)" and "lat + 1 / 1000 < latitude j"
  shows "\<not> twoPointsDistance c (jn_coord j) < SIZEOFINTERSECTION"
proof -
  have c: "co_latitude c = lat" "\<bar>co_latitude c\<bar> \<le> 90" using assms(2) by (auto simp: Coordinate_eq)
  have "pi / 180 * (1 / 1000) \<le> DEG2RAD * \<bar>co_latitude (jn_coord j) - co_latitude c\<bar>"
    using assms(4) c(1) unfolding DEG2RAD_def by (intro mult_left_mono) (simp_all add: latitude_def)
  then have "6367000 * (pi / 180 * (1 / 1000)) \<le> twoPointsDistance c (jn_coord j)"
    using parallel_distance [OF c(2) loaded_junctions(2) [OF assms(1,3)], of "co_longitude (jn_coord j)"]
    by (simp add: twoPointsDistance_def co_getDistance_def)
  then show ?thesis using pi_ge_two by (simp add: SIZEOFINTERSECTION_def)
qed

text \<open>
  A report from off the map ends the link layer: north of every junction, or without a map, the search reads past
  the end of its list; more than a thousandth of a degree south of every junction nothing is found and the
  null pointer is asked for its neighbours.\<close>

theorem off_the_map:
  assumes "parseData pf buffer (ls_position ls) = Inr (Some position)"
    and "Coordinate (gp_lat position) (gp_longitude position) = Some c"
    and "Map env nodes edges = Inr (ls_map ls)"
  shows "((\<forall>j \<in> set (mp_lookupNode (ls_map ls)). latitude j < gp_lat position) \<longrightarrow>
      updatePosition pf env buffer ls = Inl UndefinedBehaviour) \<and>
    (mp_lookupNode (ls_map ls) \<noteq> [] \<and> (\<forall>j \<in> set (mp_lookupNode (ls_map ls)). gp_lat position + 1 / 1000 < latitude j) \<longrightarrow>
      updatePosition pf env buffer ls = Inl NullDereference)"
proof -
  let ?xs = "mp_lookupNode (ls_map ls)" and ?lat = "gp_lat position"
  have c: "co_latitude c = ?lat" using assms(2) by (simp add: Coordinate_eq)
  have pos: "getCoordinate position = c" using assms(2) by (simp add: getCoordinate_def)
  have upd: "updatePosition pf env buffer ls = updateMapInfo env (ls\<lparr>ls_position := position\<rparr>)"
    using assms(1) by (simp add: updatePosition_def)
  have "findClosestJunction env c (1 / 1000) (ls_map ls) = Inl UndefinedBehaviour"
    if north: "\<forall>j \<in> set ?xs. latitude j < ?lat"
  proof -
    have "takeWhile (\<lambda>j. jn_less j (Junction env c)) ?xs = ?xs"
      by (rule takeWhile_eq_all_conv [THEN iffD2]) (use north c in \<open>auto simp: jn_less_def latitude_def\<close>)
    then have "lower_bound (Junction env c) ?xs = length ?xs" unfolding lower_bound_def by (rule arg_cong)
    then show ?thesis by (simp add: findClosestJunction_def Let_def)
  qed
  moreover have "updatePosition pf env buffer ls = Inl NullDereference"
    if "?xs \<noteq> []" and south: "\<forall>j \<in> set ?xs. ?lat + 1 / 1000 < latitude j"
  proof -
    note none = no_link_south [OF assms(3,2) that(1), of "1 / 1000"]
    have "findLocationInMap env c (ls\<lparr>ls_position := position\<rparr>) = Inr None"
    proof -
      have hd: "hd ?xs \<in> set ?xs" using that(1) by simp
      have "\<not> twoPointsDistance c (jn_coord (hd ?xs)) < SIZEOFINTERSECTION"
        using far_south [OF assms(3,2) hd] south hd by blast
      then show ?thesis using none south by (auto simp: findLocationInMap_def Let_def)
    qed
    then show ?thesis by (simp add: upd updateMapInfo_def pos getNeighbourMapElement_def Let_def)
  qed
  ultimately show ?thesis by (simp add: upd updateMapInfo_def pos findLocationInMap_def)
qed

section \<open>Samples\<close>

definition gps_platform :: platform where
  "gps_platform = \<lparr>pf_atof = (\<lambda>bs. of_nat (length bs)), pf_printf = (\<lambda>x. bytes_of ''34.000000'')\<rparr>"

definition gps_fields :: "(string \<times> byte list) list" where
  "gps_fields = [(''class'', quote # bytes_of ''TPV'' @ [quote]), (''device'', quote # bytes_of ''/dev/ttyUSB0'' @ [quote]),
     (''mode'', bytes_of ''3''), (''time'', quote # bytes_of ''2014-05-01T12:00:00'' @ dot_sign # bytes_of ''000Z'' @ [quote]),
     (''ept'', bytes_of ''0.005''), (''lat'', bytes_of ''34.00000''), (''lon'', bytes_of ''-118.464'')]"

definition gps_sample :: "byte list" where
  "gps_sample = bytes_of ''{'' @ concat (map (\<lambda>(nm, val). field_name nm @ val @ [comma]) gps_fields) @
     field_name ''alt'' @ bytes_of ''71.2}''"

lemma gps_sample_data:
  "\<forall>f \<in> set gps_fields. plain_field f" "0 \<notin> set (field_name ''alt'' @ bytes_of ''71.2}'')"
  "map_of gps_fields ''class'' = Some (quote # bytes_of ''TPV'' @ [quote])"
  "map_of gps_fields ''time'' = Some (quote # bytes_of ''2014-05-01T12:00:00'' @ dot_sign # bytes_of ''000Z'' @ [quote])"
  "map_of gps_fields ''lat'' = Some (bytes_of ''34.00000'')" "map_of gps_fields ''lon'' = Some (bytes_of ''-118.464'')"
  "dot_sign \<notin> set (bytes_of ''2014-05-01T12:00:00'')" "comma \<notin> set (bytes_of ''000Z'')"
  "comma \<notin> set (bytes_of ''34.00000'')" "comma \<notin> set (bytes_of ''-118.464'')"
  "length (bytes_of ''2014-05-01T12:00:00'') < 63" "length (bytes_of ''000Z'') < 63"
  "length (bytes_of ''34.00000'') < 64" "length (bytes_of ''-118.464'') < 64" "printable gps_platform x"
proof -
  have num: "plain_field (nm, v)" if "list_all (\<lambda>b. b \<notin> {quote, comma, colon, 0}) (bytes_of nm)" "nm \<noteq> []"
      "list_all (\<lambda>b. b \<notin> {quote, 0}) v" for nm v
    using that by (auto simp: plain_field_def list_all_iff)
  have str: "plain_field (nm, quote # s @ [quote])" if "list_all (\<lambda>b. b \<notin> {quote, comma, colon, 0}) (bytes_of nm)" "nm \<noteq> []"
      "list_all (\<lambda>b. b \<notin> {quote, 0}) s" for nm s
    using that signs by (auto simp: plain_field_def list_all_iff)
  have time: "plain_field (''time'', quote # bytes_of ''2014-05-01T12:00:00'' @ dot_sign # bytes_of ''000Z'' @ [quote])"
    using str [of "''time''" "bytes_of ''2014-05-01T12:00:00'' @ dot_sign # bytes_of ''000Z''"] by (simp add: sign_defs)
  show "\<forall>f \<in> set gps_fields. plain_field f"
    unfolding gps_fields_def list.set ball_simps
    by (intro conjI TrueI time str num ballI) (simp_all add: sign_defs)
qed (simp_all add: gps_fields_def printable_def gps_platform_def GPS_STRING_SIZE_def sign_defs field_name_def)

lemma gps_sample_report: "position_report gps_fields (bytes_of ''2014-05-01T12:00:00'') (bytes_of ''000Z'') (bytes_of ''34.00000'') (bytes_of ''-118.464'')"
  using gps_sample_data by (simp add: position_report_def)

theorem gps_report_witness:
  "\<exists>info'. parseData gps_platform gps_sample GpsInfo = Inr (Some info') \<and> gp_lat info' = 8 \<and> length (gp_latChar info') = 12"
  using gps_report [OF gps_sample_data(1-14) gps_sample_data(15,15), of GpsInfo] unfolding gps_sample_def
  by (auto simp: gps_platform_def)

definition pointless :: "byte list" where
  "pointless = bytes_of ''{'' @ tpv_class @ comma # field_name ''time'' @ bytes_of ''12}''"

theorem report_without_point_witness: "parseData gps_platform pointless GpsInfo = Inl UndefinedBehaviour"
proof (rule report_without_point)
  show "0 \<notin> set pointless" "strstr pointless tpv_class \<noteq> None"
    by (simp_all add: pointless_def tpv_class_def field_name_def sign_defs byte_of_def)
  show "strstr pointless (field_name ''time'') = Some (field_name ''time'' @ bytes_of ''12}'')"
    by (simp add: pointless_def tpv_class_def field_name_def sign_defs byte_of_def)
  show "dot_sign \<notin> set (field_name ''time'' @ bytes_of ''12}'')"
    by (simp add: field_name_def sign_defs byte_of_def)
qed

theorem off_the_map_witness:
  "updatePosition gps_platform sample_env gps_sample \<lparr>ls_position = GpsInfo, ls_mapElement = None, ls_map = sample_map\<rparr> =
     Inl NullDereference"
proof -
  let ?ls = "\<lparr>ls_position = GpsInfo, ls_mapElement = None, ls_map = sample_map\<rparr>"
  obtain info where info: "parseData gps_platform gps_sample (ls_position ?ls) = Inr (Some info)"
    "gp_lat info = 8" "gp_longitude info = 8"
    using report_parsed [OF gps_sample_report gps_sample_data(2) gps_sample_data(15,15), of GpsInfo]
    unfolding gps_sample_def report_def members_def by (auto simp: gps_platform_def)
  have c: "Coordinate (gp_lat info) (gp_longitude info) = Some (coordinate_at 8 8)" by (simp add: info Coordinate_def)
  have m: "Map sample_env [(''1'', 34, -118), (''2'', 42501 / 1250, -118)] [(''e'', ''1'', ''2'')] = Inr (ls_map ?ls)"
    by (simp only: sample_load location_service.select_convs)
  show ?thesis
    by (rule off_the_map [OF info(1) c m, THEN conjunct2, THEN mp]) (simp add: sample_lookup sample_coordinates info)
qed

end
