(* ===== verification/Storage.thy ===== *)
theory Storage
  imports Face Geo "HOL-Library.Product_Lexorder"
begin

text \<open>
  The pending packets of the link adaptation layer (\<open>network/mac/packet-storage.cc\<close>). The
  multi-index container is one list, in the order of the retransmission deadline; the hashed index
  on the packet's key (type and name) and the one on its name components are unique. A pointer to
  an element is its key: it dangles once the element is erased.
\<close>

section \<open>Elements\<close>

text \<open>
  An \<open>AckInfo\<close> is a position, its absence the null pointer.
\<close>

text \<open>\<open>GeoStorage\<close> keeps a position that nobody checked.\<close>

record geo_storage =
  gs_lat :: real
  gs_longitude :: real
  gs_heading :: real
  gs_timestamp :: "u32 \<times> u32"

definition GeoStorage :: "real \<Rightarrow> real \<Rightarrow> geo_storage" where
  "GeoStorage lat longitude =
     \<lparr>gs_lat = lat, gs_longitude = longitude, gs_heading = 0, gs_timestamp = (0, 0)\<rparr>"

type_synonym deadline = "u32 \<times> u32"

record linkLayerPktElement =
  el_name :: string
  el_components :: name
  el_nonce :: u32
  el_data :: "byte list"
  el_size :: u32
  el_retransmission :: u32
  el_retransmissionLimit :: u32
  el_timer :: deadline
  el_ackInfo :: "coordinate option"
  el_geoInfo :: geo_storage

definition el_less :: "linkLayerPktElement \<Rightarrow> linkLayerPktElement \<Rightarrow> bool" where
  "el_less a e \<longleftrightarrow> fst (el_timer a) < fst (el_timer e) \<or>
     fst (el_timer a) = fst (el_timer e) \<and> snd (el_timer a) < snd (el_timer e)"

section \<open>The storage\<close>

type_synonym storage = "linkLayerPktElement list"

definition PacketStorage :: storage where
  "PacketStorage = []"

text \<open>
  \<open>storage.insert\<close> refuses an element whose key or whose name components are there.
\<close>

definition new_element :: "byte list \<Rightarrow> u32 \<Rightarrow> string \<Rightarrow> name \<Rightarrow> u32 \<Rightarrow> deadline \<Rightarrow> geo_storage \<Rightarrow>
    coordinate option \<Rightarrow> linkLayerPktElement" where
  "new_element pkt maxNumberOfRetransmission nm components nonce timerP gpsInfo ackInfo =
     \<lparr>el_name = nm, el_components = components, el_nonce = nonce, el_data = pkt,
      el_size = word_of_nat (length pkt), el_retransmission = 1,
      el_retransmissionLimit = maxNumberOfRetransmission, el_timer = timerP,
      el_ackInfo = ackInfo, el_geoInfo = gpsInfo\<rparr>"

definition insertPkt :: "byte list \<Rightarrow> u32 \<Rightarrow> string \<Rightarrow> name \<Rightarrow> u32 \<Rightarrow> deadline \<Rightarrow> geo_storage \<Rightarrow>
    coordinate option \<Rightarrow> storage \<Rightarrow> storage \<times> bool" where
  "insertPkt pkt maxNumberOfRetransmission nm components nonce timerP gpsInfo ackInfo st =
     (let el = new_element pkt maxNumberOfRetransmission nm components nonce timerP gpsInfo ackInfo
      in if find_key el_name nm st \<noteq> None \<or> find_key el_components components st \<noteq> None then (st, False)
         else (link_key el_timer el st, True))"

definition getFirstDeadline :: "storage \<Rightarrow> linkLayerPktElement option" where
  "getFirstDeadline st = (case st of [] \<Rightarrow> None | el # _ \<Rightarrow> Some el)"

definition getPktByKey :: "string \<Rightarrow> storage \<Rightarrow> linkLayerPktElement option" where
  "getPktByKey key st = find_key el_name key st"

definition deletePktByKey :: "string \<Rightarrow> storage \<Rightarrow> storage \<times> bool" where
  "deletePktByKey key st =
     (case find_key el_name key st of
        None \<Rightarrow> (st, False)
      | Some el \<Rightarrow> (erase_key el_name key st, True))"

definition deleteFirstPkt :: "string \<Rightarrow> storage \<Rightarrow> storage \<times> bool" where
  "deleteFirstPkt key st =
     (case st of
        [] \<Rightarrow> (st, False)
      | el # rest \<Rightarrow> if el_name el \<noteq> key then (st, False) else (rest, True))"

text \<open>
  \<open>storage.replace\<close> relinks the element in the deadline index when its order changed; the two
  unique keys do not change, so they cannot clash.
\<close>

definition setNewTimer :: "string \<Rightarrow> deadline \<Rightarrow> storage \<Rightarrow> storage \<times> bool" where
  "setNewTimer key newTime st =
     (case find_key el_name key st of
        None \<Rightarrow> (st, False)
      | Some el \<Rightarrow> (modify_linked el_name el_timer key (\<lambda>el. el\<lparr>el_timer := newTime\<rparr>) st, True))"

definition increaseRetransmissionCounterAndSetNewTimer :: "string \<Rightarrow> deadline \<Rightarrow> storage \<Rightarrow> storage \<times> bool" where
  "increaseRetransmissionCounterAndSetNewTimer key newTime st =
     (case find_key el_name key st of
        None \<Rightarrow> (st, False)
      | Some el \<Rightarrow>
          (modify_linked el_name el_timer key
             (\<lambda>el. el\<lparr>el_retransmission := el_retransmission el + 1, el_timer := newTime\<rparr>) st, True))"

text \<open>The elements whose name is a prefix of the given one, longest first, as pointers.\<close>

fun prefix_loop :: "name \<Rightarrow> nat \<Rightarrow> storage \<Rightarrow> fault + string list" where
  "prefix_loop components 0 st = Inr []"
| "prefix_loop components (Suc componentsCount) st =
     bindr (GetSubComponents components componentsCount) (\<lambda>subPrefix.
     bindr (prefix_loop components componentsCount st) (\<lambda>rest.
       case find_key el_components subPrefix st of
         None \<Rightarrow> Inr rest
       | Some el \<Rightarrow> Inr (el_name el # rest)))"

definition searchByPrefixMatch :: "name \<Rightarrow> storage \<Rightarrow> fault + string list" where
  "searchByPrefixMatch components st = prefix_loop components (length components + 1) st"

fun delete_loop :: "name \<Rightarrow> nat \<Rightarrow> storage \<Rightarrow> fault + storage \<times> bool" where
  "delete_loop components 0 st = Inr (st, False)"
| "delete_loop components (Suc componentsCount) st =
     bindr (GetSubComponents components componentsCount) (\<lambda>subPrefix.
       case find_key el_components subPrefix st of
         None \<Rightarrow> delete_loop components componentsCount st
       | Some el \<Rightarrow> Inr (erase_key el_components subPrefix st, True))"

definition searchAndDeleteByLongestPrefixMatch :: "name \<Rightarrow> storage \<Rightarrow> fault + storage \<times> bool" where
  "searchAndDeleteByLongestPrefixMatch components st = delete_loop components (length components + 1) st"

text \<open>Reading through a pointer.\<close>

definition el_at :: "string \<Rightarrow> storage \<Rightarrow> fault + linkLayerPktElement" where
  "el_at key st = (case find_key el_name key st of None \<Rightarrow> Inl UseAfterFree | Some el \<Rightarrow> Inr el)"

text \<open>
  The destructor walks the index while it erases from it: after the first element it advances an
  iterator to a freed node.
\<close>

definition PacketStorage_destroy :: "storage \<Rightarrow> fault + storage" where
  "PacketStorage_destroy st = (case st of [] \<Rightarrow> Inr [] | el # rest \<Rightarrow> Inl UseAfterFree)"

section \<open>The invariant\<close>

lemma el_less_iff: "el_less a e \<longleftrightarrow> el_timer a < el_timer e"
  by (cases "el_timer a"; cases "el_timer e") (auto simp: el_less_def)

definition storage_inv :: "storage \<Rightarrow> bool" where
  "storage_inv st \<longleftrightarrow> linked_inv el_name el_timer st \<and> distinct (map el_components st)"

lemma storage_inv_new [simp]: "storage_inv PacketStorage"
  by (simp add: storage_inv_def PacketStorage_def linked_inv_def)

lemma storage_distinct: "storage_inv st \<Longrightarrow> distinct (map el_name st)"
  by (simp add: storage_inv_def linked_inv_def)

lemma distinct_erase: "distinct (map g st) \<Longrightarrow> distinct (map g (erase_key el_name key st))"
  unfolding erase_key_def by (rule distinct_map_filter)

lemma storage_inv_erase: "storage_inv st \<Longrightarrow> storage_inv (erase_key el_name key st)"
  by (simp add: storage_inv_def linked_inv_erase distinct_erase)

lemma storage_inv_filter: "storage_inv st \<Longrightarrow> storage_inv (filter P st)"
  by (simp add: storage_inv_def linked_inv_def distinct_map_filter sorted_filter)

lemma new_element_keys [simp]:
  "el_name (new_element pkt limit nm c nonce timer gps ack) = nm"
  "el_components (new_element pkt limit nm c nonce timer gps ack) = c"
  "el_retransmission (new_element pkt limit nm c nonce timer gps ack) = 1"
  "el_retransmissionLimit (new_element pkt limit nm c nonce timer gps ack) = limit"
  "el_timer (new_element pkt limit nm c nonce timer gps ack) = timer"
  "el_data (new_element pkt limit nm c nonce timer gps ack) = pkt"
  "el_nonce (new_element pkt limit nm c nonce timer gps ack) = nonce"
  "el_ackInfo (new_element pkt limit nm c nonce timer gps ack) = ack"
  by (simp_all add: new_element_def)

lemma storage_inv_insert:
  assumes "storage_inv st" and "insertPkt pkt limit nm c nonce timer gps ack st = (st', ok)"
  shows "storage_inv st'"
  using assms
  by (auto simp: insertPkt_def Let_def storage_inv_def find_key_None image_iff
      intro!: linked_inv_link link_key_distinct split: if_splits)

lemma find_components: "storage_inv st \<Longrightarrow> el \<in> set st \<Longrightarrow> find_key el_components (el_components el) st = Some el"
  by (rule find_key_in) (simp_all add: storage_inv_def)

lemma find_name: "storage_inv st \<Longrightarrow> el \<in> set st \<Longrightarrow> find_key el_name (el_name el) st = Some el"
  by (rule find_key_in) (simp_all add: storage_distinct)

section \<open>Searching by prefix\<close>

interpretation storages: prefix_table "\<lambda>st. st" el_components "\<lambda>st n. find_key el_components n st" storage_inv
  by unfold_locales (auto dest: find_key_SomeD simp: find_components)

lemma delete_loop_eq:
  "k \<le> length c + 1 \<Longrightarrow> delete_loop c k st =
     Inr (case lpm_loop (\<lambda>n. find_key el_components n st) c k of
            None \<Rightarrow> (st, False)
          | Some el \<Rightarrow> (erase_key el_components (el_components el) st, True))"
proof (induction k)
  case (Suc k)
  have sub: "GetSubComponents c k = Inr (take k c)" using Suc.prems by (simp add: GetSubComponents_eq)
  show ?case
  proof (cases "find_key el_components (take k c) st")
    case None
    then show ?thesis using Suc by (simp add: sub)
  next
    case (Some el)
    then show ?thesis using find_key_SomeD [OF Some] by (simp add: sub)
  qed
qed simp

lemma searchAndDelete_eq:
  "searchAndDeleteByLongestPrefixMatch c st =
     Inr (case longest_prefix_match (\<lambda>n. find_key el_components n st) c of
            None \<Rightarrow> (st, False)
          | Some el \<Rightarrow> (erase_key el_components (el_components el) st, True))"
  using delete_loop_eq [of "length c + 1" c st]
  by (simp add: searchAndDeleteByLongestPrefixMatch_def longest_prefix_match_def del: delete_loop.simps lpm_loop.simps)

text \<open>The search finds the elements named by a prefix, each once, the longest names first.\<close>

lemma prefix_loop_total:
  assumes "storage_inv st"
  shows "k \<le> length c + 1 \<Longrightarrow> \<exists>els. prefix_loop c k st = Inr (map el_name els) \<and>
    set els = {el \<in> set st. prefix (el_components el) c \<and> length (el_components el) < k} \<and>
    sorted_wrt (\<lambda>a b. length (el_components b) < length (el_components a)) els"
proof (induction k)
  case (Suc k)
  then obtain els where els: "prefix_loop c k st = Inr (map el_name els)"
    "set els = {el \<in> set st. prefix (el_components el) c \<and> length (el_components el) < k}"
    "sorted_wrt (\<lambda>a b. length (el_components b) < length (el_components a)) els" by auto
  have sub: "GetSubComponents c k = Inr (take k c)" using Suc.prems by (simp add: GetSubComponents_eq)
  have exact: "prefix (el_components el) c \<and> length (el_components el) = k \<longleftrightarrow> el_components el = take k c" for el
  proof
    assume "prefix (el_components el) c \<and> length (el_components el) = k"
    then show "el_components el = take k c" by (metis append_eq_conv_conj prefix_def)
  qed (use Suc.prems in \<open>simp add: take_is_prefix\<close>)
  have split: "{el \<in> set st. prefix (el_components el) c \<and> length (el_components el) < Suc k} =
      {el \<in> set st. el_components el = take k c} \<union> set els"
    unfolding els(2) less_Suc_eq using exact by auto
  show ?case
  proof (cases "find_key el_components (take k c) st")
    case None
    then have none: "{el \<in> set st. el_components el = take k c} = {}" by (force simp: find_key_None)
    show ?thesis using els(1,3) None sub split unfolding none by (intro exI [of _ els]) simp
  next
    case (Some el)
    have el: "el \<in> set st" "el_components el = take k c" using find_key_SomeD [OF Some] by auto
    have "x = el" if "x \<in> set st" "el_components x = take k c" for x
      using find_components [OF assms that(1)] that(2) Some by simp
    then have one: "{el \<in> set st. el_components el = take k c} = {el}" using el by blast
    have "\<forall>x \<in> set els. length (el_components x) < length (el_components el)"
      using el(2) Suc.prems unfolding els(2) by simp
    with els(3) have sorted: "sorted_wrt (\<lambda>a b. length (el_components b) < length (el_components a)) (el # els)"
      by simp
    have loop: "prefix_loop c (Suc k) st = Inr (map el_name (el # els))" using els(1) Some sub by simp
    show ?thesis
      using loop sorted unfolding split one by (intro exI [of _ "el # els"]) simp
  qed
qed simp

lemma search_prefixes:
  assumes "storage_inv st"
  obtains els where "searchByPrefixMatch c st = Inr (map el_name els)"
    and "set els = {el \<in> set st. prefix (el_components el) c}"
    and "sorted_wrt (\<lambda>a b. length (el_components b) < length (el_components a)) els"
proof -
  obtain els where els: "prefix_loop c (length c + 1) st = Inr (map el_name els)"
    "set els = {el \<in> set st. prefix (el_components el) c \<and> length (el_components el) < length c + 1}"
    "sorted_wrt (\<lambda>a b. length (el_components b) < length (el_components a)) els"
    using prefix_loop_total [OF assms, of "length c + 1" c] by auto
  have "length (el_components el) < length c + 1" if "prefix (el_components el) c" for el
    using prefix_length_le [OF that] by simp
  then have "set els = {el \<in> set st. prefix (el_components el) c}" using els(2) by auto
  then show thesis using els(1,3) by (intro that) (simp_all add: searchByPrefixMatch_def)
qed

end
