(* ===== verification/NomPolicy.thy ===== *)
theory NomPolicy
  imports Storage Gps
begin

text \<open>
  The policy of the ad-hoc link layer (\<open>network/mac/ll-nom-policy.cc\<close>, with
  \<open>lal-ack-manager-by-distance.cc\<close>, \<open>lal-stats\<close> and \<open>ll-header.h\<close>): a packet that goes out
  is kept and retransmitted until it is heard again from farther away, answered, or sent eight times.
  The clock and \<open>rand ()\<close> are arguments; \<open>atof\<close> is a parameter; a printed coordinate is read from its twelve
  bytes.
\<close>

section \<open>Where the node is\<close>

definition getLatitude :: "gps_info \<Rightarrow> real" where "getLatitude loc = co_latitude (getCoordinate loc)"

definition getLongitude :: "gps_info \<Rightarrow> real" where "getLongitude loc = co_longitude (getCoordinate loc)"

definition loc_getDistance :: "gps_info \<Rightarrow> real \<Rightarrow> real \<Rightarrow> real" where
  "loc_getDistance loc lat lon = getDistance (getCoordinate loc) lat lon"

section \<open>The header of the link layer\<close>

text \<open>Twelve bytes each for the printed latitude and longitude, four for the type of service.\<close>

definition htonl_75 :: "byte list" where "htonl_75 = [0, 0, 0, 75]"

definition setLLHeader :: "gps_info \<Rightarrow> byte list \<Rightarrow> byte list" where
  "setLLHeader loc data = gp_latChar loc @ gp_longitudeChar loc @ htonl_75 @ data"

definition updateLLHeaderCoordinates :: "gps_info \<Rightarrow> byte list \<Rightarrow> byte list" where
  "updateLLHeaderCoordinates loc data =
     gp_latChar loc @ gp_longitudeChar loc @ drop (2 * GPS_STRING_SIZE) data"

record llHeader =
  ll_lat :: "byte list"
  ll_longitude :: "byte list"
  ll_tos :: "byte list"

definition llHeader_at :: "byte list \<Rightarrow> llHeader" where
  "llHeader_at bytes =
     \<lparr>ll_lat = take 12 bytes, ll_longitude = take 12 (drop 12 bytes), ll_tos = take 4 (drop 24 bytes)\<rparr>"

definition ntohl :: "byte list \<Rightarrow> int" where
  "ntohl bs = sint (fold (\<lambda>b w. w * 256 + ucast b) bs 0 :: u32)"

section \<open>Statistics\<close>

record lal_statistic =
  st_pktSent :: u32
  st_interestSent :: u32
  st_contentSent :: u32
  st_sendingOutRequest :: u32
  st_sendingOutContentRequest :: u32
  st_sendingOutInterestRequest :: u32
  st_receivedPacket :: u32
  st_receivedContent :: u32
  st_receivedInterest :: u32
  st_receivedPacketGoingUp :: u32
  st_receivedContentGoingUp :: u32
  st_receivedInterestGoingUp :: u32
  st_ackedPacket :: u32
  st_numberOfRetransmission :: u32
  st_interestAckedByContent :: u32

definition resetStats :: lal_statistic where
  "resetStats = \<lparr>st_pktSent = 0, st_interestSent = 0, st_contentSent = 0, st_sendingOutRequest = 0,
     st_sendingOutContentRequest = 0, st_sendingOutInterestRequest = 0, st_receivedPacket = 0,
     st_receivedContent = 0, st_receivedInterest = 0, st_receivedPacketGoingUp = 0,
     st_receivedContentGoingUp = 0, st_receivedInterestGoingUp = 0, st_ackedPacket = 0,
     st_numberOfRetransmission = 0, st_interestAckedByContent = 0\<rparr>"

definition increaseInterestSent :: "lal_statistic \<Rightarrow> lal_statistic" where
  "increaseInterestSent t = t\<lparr>st_interestSent := st_interestSent t + 1, st_pktSent := st_pktSent t + 1\<rparr>"

definition increaseContentSent :: "lal_statistic \<Rightarrow> lal_statistic" where
  "increaseContentSent t = t\<lparr>st_contentSent := st_contentSent t + 1, st_pktSent := st_pktSent t + 1\<rparr>"

definition increaseSendingOutContentRequest :: "lal_statistic \<Rightarrow> lal_statistic" where
  "increaseSendingOutContentRequest t = t\<lparr>st_sendingOutContentRequest := st_sendingOutContentRequest t + 1,
     st_sendingOutRequest := st_sendingOutRequest t + 1\<rparr>"

definition increaseSendingOutInterestRequest :: "lal_statistic \<Rightarrow> lal_statistic" where
  "increaseSendingOutInterestRequest t = t\<lparr>st_sendingOutInterestRequest := st_sendingOutInterestRequest t + 1,
     st_sendingOutRequest := st_sendingOutRequest t + 1\<rparr>"

definition increaseReceivedContent :: "lal_statistic \<Rightarrow> lal_statistic" where
  "increaseReceivedContent t = t\<lparr>st_receivedContent := st_receivedContent t + 1,
     st_receivedPacket := st_receivedPacket t + 1\<rparr>"

definition increaseReceivedInterest :: "lal_statistic \<Rightarrow> lal_statistic" where
  "increaseReceivedInterest t = t\<lparr>st_receivedInterest := st_receivedInterest t + 1,
     st_receivedPacket := st_receivedPacket t + 1\<rparr>"

definition increaseReceivedContentGoingUp :: "lal_statistic \<Rightarrow> lal_statistic" where
  "increaseReceivedContentGoingUp t = t\<lparr>st_receivedContentGoingUp := st_receivedContentGoingUp t + 1,
     st_receivedPacketGoingUp := st_receivedPacketGoingUp t + 1\<rparr>"

definition increaseReceivedInterestGoingUp :: "lal_statistic \<Rightarrow> lal_statistic" where
  "increaseReceivedInterestGoingUp t = t\<lparr>st_receivedInterestGoingUp := st_receivedInterestGoingUp t + 1,
     st_receivedPacketGoingUp := st_receivedPacketGoingUp t + 1\<rparr>"

definition increaseAckedPacket :: "lal_statistic \<Rightarrow> lal_statistic" where
  "increaseAckedPacket t = t\<lparr>st_ackedPacket := st_ackedPacket t + 1\<rparr>"

definition increaseNumberOfRetransmission :: "lal_statistic \<Rightarrow> lal_statistic" where
  "increaseNumberOfRetransmission t = t\<lparr>st_numberOfRetransmission := st_numberOfRetransmission t + 1\<rparr>"

definition increaseInterestAckedByContent :: "lal_statistic \<Rightarrow> lal_statistic" where
  "increaseInterestAckedByContent t = t\<lparr>st_interestAckedByContent := st_interestAckedByContent t + 1\<rparr>"

section \<open>The policy\<close>

text \<open>What \<open>writeMessageToNDN\<close> was given, oldest first, is kept in \<open>np_up\<close>.\<close>

record adhoc_metadata =
  md_previousHop :: geo_storage
  md_tos :: int

definition LLMetadata80211AdHoc :: "geo_storage \<Rightarrow> adhoc_metadata" where
  "LLMetadata80211AdHoc gs = \<lparr>md_previousHop = gs, md_tos = 0\<rparr>"

definition setTos :: "int \<Rightarrow> adhoc_metadata \<Rightarrow> adhoc_metadata" where
  "setTos v m = (if 0 \<le> v \<and> v \<le> 100 then m\<lparr>md_tos := v\<rparr> else m)"

record nom_policy =
  np_storage :: storage
  np_stats :: lal_statistic
  np_up :: "(byte list \<times> adhoc_metadata) list"

datatype command = LL_ERROR | GOUPLAYER | GOTONETWORK | DISCARD

definition LLNomPolicy :: nom_policy where
  "LLNomPolicy = \<lparr>np_storage = PacketStorage, np_stats = resetStats, np_up = []\<rparr>"

definition interestKey :: string where "interestKey = ''INTEREST''"
definition dataKey :: string where "dataKey = ''DATAOBJECT''"
definition maxRetransmissionNumber :: u32 where "maxRetransmissionNumber = 8"
definition usecFirstRetransmission :: nat where "usecFirstRetransmission = 500000"
definition secFirstRetransmission :: nat where "secFirstRetransmission = 0"
definition maxTca :: nat where "maxTca = 2000"
definition Tdist :: real where "Tdist = 5000"
definition Dmax :: real where "Dmax = 150"

fun append_components :: "string \<Rightarrow> name \<Rightarrow> string" where
  "append_components nm [] = nm"
| "append_components nm (i # headerCmp) = append_components (nm @ i @ [slash]) headerCmp"

type_synonym timeval = "nat \<times> nat"

definition calculateNextTimer :: "timeval \<Rightarrow> deadline" where
  "calculateNextTimer tt =
     (word_of_nat (secFirstRetransmission + fst tt + (usecFirstRetransmission + snd tt) div 1000000),
      word_of_nat ((usecFirstRetransmission + snd tt) mod 1000000))"

definition calculateTgap :: "real \<Rightarrow> nat" where
  "calculateTgap distance = nat \<lfloor>Tdist * (Dmax - min Dmax distance) / Dmax\<rfloor>"

definition calculateFirstTransmission ::
    "gps_info \<Rightarrow> timeval \<Rightarrow> nat \<Rightarrow> geo_storage option \<Rightarrow> deadline" where
  "calculateFirstTransmission loc tt rand geoStorage =
     (let Tca = rand mod maxTca;
          Tgap = (case geoStorage of
                    None \<Rightarrow> 0
                  | Some g \<Rightarrow> calculateTgap (loc_getDistance loc (gs_lat g) (gs_longitude g)))
      in (word_of_nat (fst tt + (snd tt + Tca + Tgap) div 1000000),
          word_of_nat ((snd tt + Tca + Tgap) mod 1000000)))"

section \<open>Acknowledgements\<close>

definition createAckInfo :: "gps_info \<Rightarrow> geo_storage option \<Rightarrow> coordinate option" where
  "createAckInfo loc previousHop =
     (case previousHop of
        Some g \<Rightarrow> Coordinate (gs_lat g) (gs_longitude g)
      | None \<Rightarrow> Coordinate (getLatitude loc) (getLongitude loc))"

definition receivedRetransmission ::
    "platform \<Rightarrow> llHeader \<Rightarrow> linkLayerPktElement \<Rightarrow> gps_info \<Rightarrow> fault + bool \<times> int" where
  "receivedRetransmission pf receivedHdr storedElement loc =
     (case Coordinate (pf_atof pf (ll_lat receivedHdr)) (pf_atof pf (ll_longitude receivedHdr)) of
        None \<Rightarrow> Inr (False, 1)
      | Some packetCoordinate \<Rightarrow>
          (case el_ackInfo storedElement of
             None \<Rightarrow> Inl NullDereference
           | Some ack \<Rightarrow>
               if co_getDistance packetCoordinate ack >
                  loc_getDistance loc (co_latitude ack) (co_longitude ack)
               then Inr (True, 0) else Inr (False, 1)))"

section \<open>Packets from the daemon\<close>

text \<open>The three exceptions that the policy catches; any other one leaves it.\<close>

definition caught :: "fault \<Rightarrow> bool" where
  "caught e \<longleftrightarrow> e = NDNUnknownHeaderException \<or> e = InterestHeaderException \<or> e = CcnbDecodingException"

definition try_header :: "fault + 'a \<Rightarrow> nom_policy \<Rightarrow> ('a \<Rightarrow> fault + nom_policy \<times> command) \<Rightarrow>
    fault + nom_policy \<times> command" where
  "try_header r ps f = (case r of Inl e \<Rightarrow> if caught e then Inr (ps, DISCARD) else Inl e | Inr x \<Rightarrow> f x)"

definition interest_parts :: "packet \<Rightarrow> fault + name \<times> u32" where
  "interest_parts p = bindr (GetInterestHeader p) (\<lambda>header.
     bindr (ih_GetName header) (\<lambda>n. Inr (n, ih_nonce header)))"

definition content_parts :: "packet \<Rightarrow> fault + name" where
  "content_parts p = bindr (GetContentHeader p) ch_GetName"

fun delete_matching :: "string list \<Rightarrow> storage \<Rightarrow> fault + storage" where
  "delete_matching [] st = Inr st"
| "delete_matching (el # matchIt) st =
     bindr (el_at el st) (\<lambda>e. delete_matching matchIt (fst (deletePktByKey (el_name e) st)))"

definition store_outgoing :: "gps_info \<Rightarrow> timeval \<Rightarrow> nat \<Rightarrow> byte list \<Rightarrow> adhoc_metadata option \<Rightarrow>
    bool \<Rightarrow> string \<Rightarrow> name \<Rightarrow> u32 \<Rightarrow> nom_policy \<Rightarrow> nom_policy \<times> command" where
  "store_outgoing loc tt rand pkt metadata isContent nm components nonce ps =
     (let data = setLLHeader loc pkt;
          (time, ackInfo, geo) =
            (case metadata of
               None \<Rightarrow> (calculateFirstTransmission loc tt rand None, createAckInfo loc None,
                        GeoStorage (getLatitude loc) (getLongitude loc))
             | Some md \<Rightarrow>
                 let hop = md_previousHop md in
                 if gs_lat hop = DEFAULT_COORDINATE_DOUBLE \<or> gs_longitude hop = DEFAULT_COORDINATE_DOUBLE
                 then (calculateFirstTransmission loc tt rand None, createAckInfo loc None,
                       GeoStorage (getLatitude loc) (getLongitude loc))
                 else (calculateFirstTransmission loc tt rand (Some hop), createAckInfo loc (Some hop), hop));
          (st, ok) = insertPkt data maxRetransmissionNumber nm components nonce time geo ackInfo (np_storage ps)
      in if \<not> ok then (ps\<lparr>np_storage := st\<rparr>, LL_ERROR)
         else (ps\<lparr>np_storage := st,
                 np_stats := (if isContent then increaseContentSent else increaseInterestSent) (np_stats ps)\<rparr>,
               DISCARD))"

definition addOutgoingPkt :: "platform \<Rightarrow> gps_info \<Rightarrow> timeval \<Rightarrow> nat \<Rightarrow> byte list \<Rightarrow> adhoc_metadata option \<Rightarrow>
    nom_policy \<Rightarrow> fault + nom_policy \<times> command" where
  "addOutgoingPkt pf loc tt rand pkt metadata ps =
     bindr (InitFromBuffer pkt) (\<lambda>p.
     try_header (GetNDNHeaderType p) ps (\<lambda>type.
       case type of
         INTEREST \<Rightarrow>
           (let ps = ps\<lparr>np_stats := increaseSendingOutInterestRequest (np_stats ps)\<rparr> in
            try_header (interest_parts p) ps (\<lambda>(n, nonce).
              Inr (store_outgoing loc tt rand pkt metadata False (append_components interestKey n) n nonce ps)))
       | CONTENT_OBJECT \<Rightarrow>
           (let ps = ps\<lparr>np_stats := increaseSendingOutContentRequest (np_stats ps)\<rparr> in
            try_header (content_parts p) ps (\<lambda>n.
              bindr (searchByPrefixMatch n (np_storage ps)) (\<lambda>matchingElements.
              bindr (delete_matching matchingElements (np_storage ps)) (\<lambda>st.
                Inr (store_outgoing loc tt rand pkt metadata True (append_components dataKey n) n (-1)
                       (ps\<lparr>np_storage := st\<rparr>))))))))"

section \<open>Packets from the network\<close>

text \<open>
  The deletion loop of \<open>pktFromNetwork\<close> takes the first match once and reads its key in every round.
\<close>

fun ack_matching :: "string \<Rightarrow> string list \<Rightarrow> nom_policy \<Rightarrow> fault + nom_policy" where
  "ack_matching el [] ps = Inr ps"
| "ack_matching el (i # matchIt) ps =
     (let ps = ps\<lparr>np_stats := increaseInterestAckedByContent (np_stats ps)\<rparr> in
      bindr (el_at el (np_storage ps)) (\<lambda>e.
        ack_matching el matchIt (ps\<lparr>np_storage := fst (deletePktByKey (el_name e) (np_storage ps))\<rparr>)))"

text \<open>
  What becomes of a packet whose key is pending: the acknowledgement manager decides. \<open>up\<close> counts
  the packet as one that goes up.
\<close>

definition heard_again :: "platform \<Rightarrow> gps_info \<Rightarrow> llHeader \<Rightarrow> linkLayerPktElement \<Rightarrow> string \<Rightarrow>
    (lal_statistic \<Rightarrow> lal_statistic) \<Rightarrow> nom_policy \<Rightarrow> fault + nom_policy \<times> command" where
  "heard_again pf loc llhdr el nm up ps =
     bindr (receivedRetransmission pf llhdr el loc) (\<lambda>ackResponse.
       if fst ackResponse \<and> snd ackResponse = 0 then
         Inr (ps\<lparr>np_stats := increaseAckedPacket (np_stats ps),
                 np_storage := fst (deletePktByKey nm (np_storage ps))\<rparr>, DISCARD)
       else Inr (ps\<lparr>np_stats := up (np_stats ps)\<rparr>, GOUPLAYER))"

definition interest_from_network :: "platform \<Rightarrow> gps_info \<Rightarrow> llHeader \<Rightarrow> name \<Rightarrow> u32 \<Rightarrow> nom_policy \<Rightarrow>
    fault + nom_policy \<times> command" where
  "interest_from_network pf loc llhdr n nonce ps =
     (let nm = append_components interestKey n in
      case getPktByKey nm (np_storage ps) of
        None \<Rightarrow> Inr (ps\<lparr>np_stats := increaseReceivedInterestGoingUp (np_stats ps)\<rparr>, GOUPLAYER)
      | Some el \<Rightarrow>
          if el_nonce el \<noteq> nonce then
            Inr (ps\<lparr>np_stats := increaseReceivedInterestGoingUp (np_stats ps)\<rparr>, GOUPLAYER)
          else heard_again pf loc llhdr el nm increaseReceivedInterestGoingUp ps)"

definition content_from_network :: "platform \<Rightarrow> gps_info \<Rightarrow> llHeader \<Rightarrow> name \<Rightarrow> nom_policy \<Rightarrow>
    fault + nom_policy \<times> command" where
  "content_from_network pf loc llhdr n ps =
     (let nm = append_components dataKey n in
      bindr (case getPktByKey nm (np_storage ps) of
               None \<Rightarrow> Inr (ps\<lparr>np_stats := increaseReceivedContentGoingUp (np_stats ps)\<rparr>, GOUPLAYER)
             | Some el \<Rightarrow> heard_again pf loc llhdr el nm increaseReceivedContentGoingUp ps) (\<lambda>(ps, returnCommand).
      bindr (searchByPrefixMatch n (np_storage ps)) (\<lambda>matchingElements.
        case matchingElements of
          [] \<Rightarrow> Inr (ps, returnCommand)
        | el # _ \<Rightarrow> bindr (ack_matching el matchingElements ps) (\<lambda>ps. Inr (ps, returnCommand)))))"

text \<open>
  \<open>pkt\<close> holds six bytes of socket metadata, the header and the packet. \<open>room\<close> is the outcome
  of \<open>writeMessageToNDN\<close>.
\<close>

definition pktFromNetwork :: "platform \<Rightarrow> gps_info \<Rightarrow> bool \<Rightarrow> byte list \<Rightarrow> nom_policy \<Rightarrow>
    fault + nom_policy \<times> command" where
  "pktFromNetwork pf loc room pkt ps =
     (let llhdr = llHeader_at (drop 6 pkt); dataWithoutLLHeader = drop (6 + LL_HEADER_SIZE) pkt in
      if dataWithoutLLHeader = [] then Inr (ps, DISCARD)
      else
        let sourceGeoS = GeoStorage (pf_atof pf (ll_lat llhdr)) (pf_atof pf (ll_longitude llhdr)) in
        bindr (bindr (InitFromBuffer dataWithoutLLHeader) (\<lambda>p.
          try_header (GetNDNHeaderType p) ps (\<lambda>type.
            case type of
              INTEREST \<Rightarrow>
                (let ps = ps\<lparr>np_stats := increaseReceivedInterest (np_stats ps)\<rparr> in
                 try_header (interest_parts p) ps (\<lambda>(n, nonce). interest_from_network pf loc llhdr n nonce ps))
            | CONTENT_OBJECT \<Rightarrow>
                (let ps = ps\<lparr>np_stats := increaseReceivedContent (np_stats ps)\<rparr> in
                 try_header (content_parts p) ps (\<lambda>n. content_from_network pf loc llhdr n ps)))))
          (\<lambda>(ps, returnCommand).
            if returnCommand = GOUPLAYER then
              let metaData = setTos (ntohl (ll_tos llhdr)) (LLMetadata80211AdHoc sourceGeoS) in
              if \<not> room then Inr (ps, LL_ERROR)
              else Inr (ps\<lparr>np_up := np_up ps @ [(dataWithoutLLHeader, metaData)]\<rparr>, DISCARD)
            else Inr (ps, returnCommand)))"

section \<open>Retransmission\<close>

text \<open>\<open>None\<close> is \<open>NOTIMER\<close>.\<close>

definition getNextDeadline :: "nom_policy \<Rightarrow> (int \<times> int) option" where
  "getNextDeadline ps =
     (case getFirstDeadline (np_storage ps) of
        None \<Rightarrow> None
      | Some el \<Rightarrow> Some (uint (fst (el_timer el)), uint (snd (el_timer el))))"

definition getPktForRetransmission :: "gps_info \<Rightarrow> timeval \<Rightarrow> nom_policy \<Rightarrow> nom_policy \<times> byte list option" where
  "getPktForRetransmission loc tt ps =
     (case getFirstDeadline (np_storage ps) of
        None \<Rightarrow> (ps, None)
      | Some el \<Rightarrow>
          let ptrData = updateLLHeaderCoordinates loc (take (unat (el_size el)) (el_data el));
              ps = (if el_retransmission el \<noteq> 1
                    then ps\<lparr>np_stats := increaseNumberOfRetransmission (np_stats ps)\<rparr> else ps)
          in if el_retransmission el \<ge> el_retransmissionLimit el then
               (ps\<lparr>np_storage := fst (deleteFirstPkt (el_name el) (np_storage ps))\<rparr>, Some ptrData)
             else
               (case increaseRetransmissionCounterAndSetNewTimer (el_name el) (calculateNextTimer tt) (np_storage ps) of
                  (st, ok) \<Rightarrow>
                    if \<not> ok then (ps\<lparr>np_storage := fst (deleteFirstPkt (el_name el) st)\<rparr>, None)
                    else (ps\<lparr>np_storage := st\<rparr>, Some ptrData)))"

definition printStatistic :: "nom_policy \<Rightarrow> nom_policy" where
  "printStatistic ps = ps\<lparr>np_stats := resetStats\<rparr>"

end
