(* ===== verification/LinkLayer.thy ===== *)
theory LinkLayer
  imports NomPolicy
begin

text \<open>
  The invariant of the link-layer policy, its reachable states, and the theorems about what happens
  to a packet: it is stored, acknowledged, answered, or sent eight times.
\<close>

section \<open>Keys\<close>

lemma append_components_eq: "append_components nm n = nm @ concat (map (\<lambda>c. c @ [slash]) n)"
  by (induction nm n rule: append_components.induct) auto

definition slash_free :: "name \<Rightarrow> bool" where
  "slash_free n \<longleftrightarrow> (\<forall>c \<in> set n. slash \<notin> set c)"

lemma split_slash:
  assumes "slash \<notin> set a" and "slash \<notin> set b" and "a @ slash # x = b @ slash # y"
  shows "a = b \<and> x = y"
proof -
  have cut: "takeWhile (\<lambda>c. c \<noteq> slash) (a @ slash # x) = a" if "slash \<notin> set a" for a x
    using that by (induction a) auto
  have "takeWhile (\<lambda>c. c \<noteq> slash) (a @ slash # x) = takeWhile (\<lambda>c. c \<noteq> slash) (b @ slash # y)"
    using assms(3) by simp
  then have "a = b" using cut [OF assms(1)] cut [OF assms(2)] by simp
  then show ?thesis using assms(3) by simp
qed

lemma components_inj:
  "slash_free n \<Longrightarrow> slash_free m \<Longrightarrow>
     concat (map (\<lambda>c. c @ [slash]) n) = concat (map (\<lambda>c. c @ [slash]) m) \<Longrightarrow> n = m"
proof (induction n arbitrary: m)
  case Nil
  then show ?case by (cases m) auto
next
  case (Cons c n)
  then obtain d m' where m: "m = d # m'" by (cases m) auto
  have "c = d \<and> concat (map (\<lambda>c. c @ [slash]) n) = concat (map (\<lambda>c. c @ [slash]) m')"
    using Cons.prems m by (intro split_slash) (simp_all add: slash_free_def)
  then show ?case using Cons m by (auto simp: slash_free_def)
qed

lemma key_inj:
  "slash_free n \<Longrightarrow> slash_free m \<Longrightarrow> append_components k n = append_components k m \<Longrightarrow> n = m"
  by (auto simp: append_components_eq intro: components_inj)

lemma keys_differ: "append_components interestKey n \<noteq> append_components dataKey m"
  by (simp add: append_components_eq interestKey_def dataKey_def)

section \<open>The invariant\<close>

definition element_ok :: "linkLayerPktElement \<Rightarrow> bool" where
  "element_ok el \<longleftrightarrow> 1 \<le> el_retransmission el \<and> el_retransmission el \<le> maxRetransmissionNumber \<and>
     el_retransmissionLimit el = maxRetransmissionNumber \<and>
     el_name el \<in> {append_components interestKey (el_components el), append_components dataKey (el_components el)}"

definition nom_inv :: "nom_policy \<Rightarrow> bool" where
  "nom_inv ps \<longleftrightarrow> storage_inv (np_storage ps) \<and> (\<forall>el \<in> set (np_storage ps). element_ok el)"

lemma nom_inv_new: "nom_inv LLNomPolicy"
  by (simp add: nom_inv_def LLNomPolicy_def) (simp add: PacketStorage_def)

lemma nom_inv_sub:
  "nom_inv ps \<Longrightarrow> np_storage ps' = filter Q (np_storage ps) \<Longrightarrow> nom_inv ps'"
  by (simp add: nom_inv_def storage_inv_filter)

lemma nom_inv_same: "nom_inv ps \<Longrightarrow> np_storage ps' = np_storage ps \<Longrightarrow> nom_inv ps'"
  by (simp add: nom_inv_def)

lemma deletePktByKey_eq [simp]: "fst (deletePktByKey key st) = erase_key el_name key st"
proof (cases "find_key el_name key st")
  case None
  then have "erase_key el_name key st = st" by (auto simp: find_key_None erase_key_def filter_id_conv)
  with None show ?thesis by (simp add: deletePktByKey_def)
qed (simp add: deletePktByKey_def)

lemma erase_key_filter: "erase_key g k st = filter (\<lambda>el. g el \<noteq> k) st"
  by (simp add: erase_key_def)

lemma delete_matching_filter:
  "delete_matching els st = Inr st' \<Longrightarrow> \<exists>Q. st' = filter Q st"
proof (induction els arbitrary: st)
  case Nil
  then show ?case by (intro exI [of _ "\<lambda>_. True"]) simp
next
  case (Cons el els)
  obtain e :: linkLayerPktElement where "delete_matching els (erase_key el_name (el_name e) st) = Inr st'"
    using Cons.prems by (cases "el_at el st") auto
  from Cons.IH [OF this] show ?case by (auto simp: erase_key_filter)
qed

lemma ack_matching_filter:
  "ack_matching el els ps = Inr ps' \<Longrightarrow> \<exists>Q. np_storage ps' = filter Q (np_storage ps)"
proof (induction els arbitrary: ps)
  case Nil
  then show ?case by (intro exI [of _ "\<lambda>_. True"]) simp
next
  case (Cons i els)
  let ?ps = "ps\<lparr>np_stats := increaseInterestAckedByContent (np_stats ps)\<rparr>"
  obtain e :: linkLayerPktElement where
    "ack_matching el els (?ps\<lparr>np_storage := erase_key el_name (el_name e) (np_storage ps)\<rparr>) = Inr ps'"
    using Cons.prems by (cases "el_at el (np_storage ps)") (auto simp: Let_def)
  from Cons.IH [OF this] show ?case by (auto simp: erase_key_filter)
qed

section \<open>Every operation keeps it\<close>

lemma nom_inv_insert:
  assumes "nom_inv ps" and "nm \<in> {append_components interestKey c, append_components dataKey c}"
    and "insertPkt data maxRetransmissionNumber nm c nonce time geo ack (np_storage ps) = (st, ok)"
  shows "nom_inv (ps\<lparr>np_storage := st\<rparr>)"
proof -
  have "storage_inv st" using storage_inv_insert [OF _ assms(3)] assms(1) by (simp add: nom_inv_def)
  moreover have "element_ok (new_element data maxRetransmissionNumber nm c nonce time geo ack)"
    using assms(2) by (simp add: element_ok_def maxRetransmissionNumber_def)
  ultimately show ?thesis
    using assms(1,3) by (auto simp: nom_inv_def insertPkt_def Let_def split: if_splits)
qed

lemma nom_inv_store:
  assumes "nom_inv ps" and "nm \<in> {append_components interestKey c, append_components dataKey c}"
    and "store_outgoing loc tt rand pkt metadata isContent nm c nonce ps = (ps', cmd)"
  shows "nom_inv ps'"
proof -
  obtain time geo ack st ok where
    "insertPkt (setLLHeader loc pkt) maxRetransmissionNumber nm c nonce time geo ack (np_storage ps) = (st, ok)"
    and "np_storage ps' = st"
    using assms(3)
    by (simp add: store_outgoing_def Let_def split: prod.splits if_splits) (elim conjE, metis nom_policy.select_convs(1) nom_policy.surjective nom_policy.update_convs(1,2))+
  from nom_inv_same [OF nom_inv_insert [OF assms(1,2) this(1)]] this(2) show ?thesis by simp
qed

lemma try_header_Inr:
  assumes "try_header r ps f = Inr (ps', cmd)"
  obtains "ps' = ps" "cmd = DISCARD" | x where "r = Inr x" "f x = Inr (ps', cmd)"
  using assms by (cases r) (auto simp: try_header_def split: if_splits)

lemma nom_inv_stats [simp]: "nom_inv (ps\<lparr>np_stats := t\<rparr>) = nom_inv ps"
  by (simp add: nom_inv_def)

text \<open>Nothing is added to the table.\<close>

definition shrinks :: "nom_policy \<Rightarrow> nom_policy \<Rightarrow> bool" where
  "shrinks ps ps' \<longleftrightarrow> (\<exists>Q. np_storage ps' = filter Q (np_storage ps))"

lemma shrinks_refl: "np_storage ps' = np_storage ps \<Longrightarrow> shrinks ps ps'"
  unfolding shrinks_def by (intro exI [of _ "\<lambda>_. True"]) simp

lemma shrinks_trans: "shrinks ps ps' \<Longrightarrow> shrinks ps' ps'' \<Longrightarrow> shrinks ps ps''"
  by (auto simp: shrinks_def)

lemma shrinks_stats [simp]: "shrinks (ps\<lparr>np_stats := t\<rparr>) ps' = shrinks ps ps'"
  by (simp add: shrinks_def)

text \<open>What \<open>addOutgoingPkt\<close> can do: nothing, or store the packet after removing some others.\<close>

lemma addOutgoing_cases:
  assumes "addOutgoingPkt pf loc tt rand pkt metadata ps = Inr (ps', cmd)"
  shows "length pkt \<le> BUFLEN \<and> (cmd = DISCARD \<and> shrinks ps ps' \<or>
    (\<exists>ps1 isContent nm c nonce. shrinks ps ps1 \<and> nm \<in> {append_components interestKey c, append_components dataKey c} \<and>
      store_outgoing loc tt rand pkt metadata isContent nm c nonce ps1 = (ps', cmd)))"
proof -
  obtain p where p: "InitFromBuffer pkt = Inr p" using assms by (auto simp: addOutgoingPkt_def bindr_eq_Inr)
  then have len: "length pkt \<le> BUFLEN" by (simp add: InitFromBuffer_def split: if_splits)
  let ?si = "ps\<lparr>np_stats := increaseSendingOutInterestRequest (np_stats ps)\<rparr>"
  let ?sc = "ps\<lparr>np_stats := increaseSendingOutContentRequest (np_stats ps)\<rparr>"
  let ?goal = "cmd = DISCARD \<and> shrinks ps ps' \<or>
    (\<exists>ps1 isContent nm c nonce. shrinks ps ps1 \<and> nm \<in> {append_components interestKey c, append_components dataKey c} \<and>
      store_outgoing loc tt rand pkt metadata isContent nm c nonce ps1 = (ps', cmd))"
  have interest: ?goal if "try_header (interest_parts p) ?si (\<lambda>(n, nonce).
      Inr (store_outgoing loc tt rand pkt metadata False (append_components interestKey n) n nonce ?si)) = Inr (ps', cmd)"
    using that
  proof (cases rule: try_header_Inr)
    case 1
    then show ?thesis by (simp add: shrinks_refl)
  next
    case (2 x)
    then have "store_outgoing loc tt rand pkt metadata False (append_components interestKey (fst x)) (fst x) (snd x) ?si =
      (ps', cmd)" by (simp add: case_prod_unfold)
    moreover have "shrinks ps ?si" by (rule shrinks_refl) simp
    ultimately show ?thesis by blast
  qed
  have content: ?goal if "try_header (content_parts p) ?sc (\<lambda>n.
      bindr (searchByPrefixMatch n (np_storage ps)) (\<lambda>m. bindr (delete_matching m (np_storage ps)) (\<lambda>st.
        Inr (store_outgoing loc tt rand pkt metadata True (append_components dataKey n) n (-1)
          (?sc\<lparr>np_storage := st\<rparr>))))) = Inr (ps', cmd)"
    using that
  proof (cases rule: try_header_Inr)
    case 1
    then show ?thesis by (simp add: shrinks_refl)
  next
    case (2 n)
    then obtain m st where m: "delete_matching m (np_storage ps) = Inr st"
      and s: "store_outgoing loc tt rand pkt metadata True (append_components dataKey n) n (-1)
          (?sc\<lparr>np_storage := st\<rparr>) = (ps', cmd)" by (auto simp: bindr_eq_Inr)
    have "shrinks ps (?sc\<lparr>np_storage := st\<rparr>)" using delete_matching_filter [OF m] by (simp add: shrinks_def)
    then show ?thesis using s by blast
  qed
  have "try_header (GetNDNHeaderType p) ps (\<lambda>type. case type of
      INTEREST \<Rightarrow> try_header (interest_parts p) ?si (\<lambda>(n, nonce).
        Inr (store_outgoing loc tt rand pkt metadata False (append_components interestKey n) n nonce ?si))
    | CONTENT_OBJECT \<Rightarrow> try_header (content_parts p) ?sc (\<lambda>n.
      bindr (searchByPrefixMatch n (np_storage ps)) (\<lambda>m. bindr (delete_matching m (np_storage ps)) (\<lambda>st.
        Inr (store_outgoing loc tt rand pkt metadata True (append_components dataKey n) n (-1)
          (?sc\<lparr>np_storage := st\<rparr>)))))) = Inr (ps', cmd)"
    using assms p by (simp add: addOutgoingPkt_def Let_def)
  then have ?goal
  proof (cases rule: try_header_Inr)
    case 1
    then show ?thesis by (simp add: shrinks_refl)
  next
    case (2 type)
    then show ?thesis using interest content by (cases type) simp_all
  qed
  with len show ?thesis by blast
qed

lemma nom_inv_shrinks: "nom_inv ps \<Longrightarrow> shrinks ps ps' \<Longrightarrow> nom_inv ps'"
  by (auto simp: shrinks_def intro: nom_inv_sub)

lemma nom_inv_addOutgoing:
  assumes "nom_inv ps" and "addOutgoingPkt pf loc tt rand pkt metadata ps = Inr (ps', cmd)"
  shows "nom_inv ps'"
  using addOutgoing_cases [OF assms(2)] nom_inv_shrinks [OF assms(1)] nom_inv_store by blast

text \<open>A packet from the network only ever removes pending packets.\<close>

lemma heard_again_shrinks:
  assumes "heard_again pf loc llhdr el nm up ps = Inr (ps', cmd)"
  shows "shrinks ps ps'"
proof -
  have "np_storage ps' = np_storage ps \<or> np_storage ps' = erase_key el_name nm (np_storage ps)"
    using assms by (auto simp: heard_again_def bindr_eq_Inr split: if_splits)
  then show ?thesis using shrinks_refl by (auto simp: erase_key_filter shrinks_def)
qed

lemma ack_case:
  "(case m of [] \<Rightarrow> Inr (ps, c) | el # _ \<Rightarrow> bindr (ack_matching el m ps) (\<lambda>ps. Inr (ps, c))) = Inr (ps', cmd) \<Longrightarrow>
     c = cmd \<and> (ps' = ps \<or> (\<exists>el. ack_matching el m ps = Inr ps'))"
  by (cases m) (auto simp: bindr_eq_Inr simp del: ack_matching.simps)

lemma content_network_shrinks:
  assumes "content_from_network pf loc llhdr n ps = Inr (ps', cmd)"
  shows "shrinks ps ps'"
proof -
  let ?nm = "append_components dataKey n"
  let ?r = "case getPktByKey ?nm (np_storage ps) of
      None \<Rightarrow> Inr (ps\<lparr>np_stats := increaseReceivedContentGoingUp (np_stats ps)\<rparr>, GOUPLAYER)
    | Some el \<Rightarrow> heard_again pf loc llhdr el ?nm increaseReceivedContentGoingUp ps"
  obtain ps1 c where first: "?r = Inr (ps1, c)"
    using assms by (cases ?r) (auto simp: content_from_network_def Let_def)
  obtain m where "(case m of [] \<Rightarrow> Inr (ps1, c) | el # _ \<Rightarrow> bindr (ack_matching el m ps1) (\<lambda>ps. Inr (ps, c))) = Inr (ps', cmd)"
    using assms unfolding content_from_network_def Let_def first
    by (cases "searchByPrefixMatch n (np_storage ps1)") auto
  from ack_case [OF this] have "ps' = ps1 \<or> (\<exists>el. ack_matching el m ps1 = Inr ps')" by blast
  then have "shrinks ps1 ps'" using ack_matching_filter shrinks_refl unfolding shrinks_def by metis
  moreover have "shrinks ps ps1"
    using first heard_again_shrinks shrinks_refl by (auto split: option.splits)
  ultimately show ?thesis using shrinks_trans by blast
qed

lemma interest_network_shrinks:
  "interest_from_network pf loc llhdr n nonce ps = Inr (ps', cmd) \<Longrightarrow> shrinks ps ps'"
  using heard_again_shrinks shrinks_refl
  by (auto simp: interest_from_network_def Let_def split: option.splits if_splits)

lemma pktFromNetwork_shrinks:
  assumes "pktFromNetwork pf loc room pkt ps = Inr (ps', cmd)"
  shows "shrinks ps ps'"
proof (cases "drop (6 + LL_HEADER_SIZE) pkt = []")
  case True
  then show ?thesis using assms by (simp add: pktFromNetwork_def Let_def shrinks_refl)
next
  case False
  let ?h = "llHeader_at (drop 6 pkt)"
  let ?si = "ps\<lparr>np_stats := increaseReceivedInterest (np_stats ps)\<rparr>"
  let ?sc = "ps\<lparr>np_stats := increaseReceivedContent (np_stats ps)\<rparr>"
  obtain p ps1 cmd1 where t: "try_header (GetNDNHeaderType p) ps (\<lambda>type. case type of
      INTEREST \<Rightarrow> try_header (interest_parts p) ?si (\<lambda>(n, nonce). interest_from_network pf loc ?h n nonce ?si)
    | CONTENT_OBJECT \<Rightarrow> try_header (content_parts p) ?sc (\<lambda>n. content_from_network pf loc ?h n ?sc)) = Inr (ps1, cmd1)"
    and up: "np_storage ps' = np_storage ps1"
    using assms False by (auto simp: pktFromNetwork_def Let_def bindr_eq_Inr split: if_splits)
  have interest: "shrinks ps ps1"
    if "try_header (interest_parts p) ?si (\<lambda>(n, nonce). interest_from_network pf loc ?h n nonce ?si) = Inr (ps1, cmd1)"
    using that by (cases rule: try_header_Inr)
      (use interest_network_shrinks [of pf loc ?h _ _ ?si] shrinks_refl in \<open>auto split: prod.splits\<close>)
  have content: "shrinks ps ps1"
    if "try_header (content_parts p) ?sc (\<lambda>n. content_from_network pf loc ?h n ?sc) = Inr (ps1, cmd1)"
    using that by (cases rule: try_header_Inr) (use content_network_shrinks [of pf loc ?h _ ?sc] shrinks_refl in auto)
  from t have "shrinks ps ps1"
  proof (cases rule: try_header_Inr)
    case 1
    then show ?thesis by (simp add: shrinks_refl)
  next
    case (2 type)
    then show ?thesis using interest content by (cases type) simp_all
  qed
  then show ?thesis using up by (simp add: shrinks_def)
qed

lemma nom_inv_pktFromNetwork:
  "nom_inv ps \<Longrightarrow> pktFromNetwork pf loc room pkt ps = Inr (ps', cmd) \<Longrightarrow> nom_inv ps'"
  by (drule pktFromNetwork_shrinks) (rule nom_inv_shrinks)

section \<open>Retransmission\<close>

definition again :: "deadline \<Rightarrow> linkLayerPktElement \<Rightarrow> linkLayerPktElement" where
  "again newTime el = el\<lparr>el_retransmission := el_retransmission el + 1, el_timer := newTime\<rparr>"

lemma again_keys [simp]:
  "el_name (again d el) = el_name el" "el_components (again d el) = el_components el"
  "el_retransmission (again d el) = el_retransmission el + 1"
  "el_retransmissionLimit (again d el) = el_retransmissionLimit el" "el_timer (again d el) = d"
  "el_data (again d el) = el_data el" "el_size (again d el) = el_size el"
  by (simp_all add: again_def)

text \<open>The two cases of a retransmission: the last one, and one more to come.\<close>

lemma retransmission_cases:
  assumes "nom_inv ps" and "np_storage ps = el # rest"
  shows "\<exists>ps'. getPktForRetransmission loc tt ps =
      (ps', Some (updateLLHeaderCoordinates loc (take (unat (el_size el)) (el_data el)))) \<and> np_up ps' = np_up ps \<and>
    np_storage ps' = (if el_retransmission el = maxRetransmissionNumber then rest
      else modify_linked el_name el_timer (el_name el) (again (calculateNextTimer tt)) (np_storage ps))"
proof -
  have el: "element_ok el" using assms by (simp add: nom_inv_def)
  then have "el_retransmission el \<ge> el_retransmissionLimit el \<longleftrightarrow> el_retransmission el = maxRetransmissionNumber"
    by (auto simp: element_ok_def)
  then show ?thesis
    using assms(2)
    by (simp add: getPktForRetransmission_def getFirstDeadline_def deleteFirstPkt_def Let_def
        increaseRetransmissionCounterAndSetNewTimer_def again_def [abs_def])
qed

lemma set_again:
  assumes "nom_inv ps" and "np_storage ps = el # rest"
  shows "set (modify_linked el_name el_timer (el_name el) (again d) (np_storage ps)) = insert (again d el) (set rest)"
proof -
  have d: "distinct (map el_name (np_storage ps))" using assms(1) storage_distinct by (simp add: nom_inv_def)
  then have "\<forall>x \<in> set rest. el_name x \<noteq> el_name el" using assms(2) by (simp add: image_iff) metis
  then have "modify_key el_name (el_name el) (again d) (np_storage ps) = again d el # rest"
    using assms(2) by (simp add: modify_key_def map_idI)
  then show ?thesis using set_modify_linked [OF d, of el_timer "el_name el" "again d"] by simp
qed

lemma modify_components:
  assumes "distinct (map g xs)" and "distinct (map key xs)" and "\<And>x. g (f x) = g x" and "\<And>x. key (f x) = key x"
  shows "distinct (map g (modify_linked key ord k f xs))"
proof -
  have m: "map g (modify_key key k f xs) = map g xs" using assms(3) by (simp add: modify_key_def)
  show ?thesis
  proof (cases "find_key key k xs")
    case None
    then show ?thesis using assms(1) m by (simp add: modify_linked_def Let_def)
  next
    case (Some x)
    have x: "x \<in> set xs" "key x = k" using find_key_SomeD [OF Some] by auto
    have "g x \<notin> g ` set (erase_key key k xs)"
    proof
      assume "g x \<in> g ` set (erase_key key k xs)"
      then obtain y where y: "y \<in> set xs" "key y \<noteq> k" "g y = g x" by (auto simp: set_erase_key)
      then have "y = x" using assms(1) x(1) by (simp add: distinct_map inj_on_def)
      with x y show False by simp
    qed
    moreover have "distinct (map g (erase_key key k xs))"
      using assms(1) unfolding erase_key_def by (rule distinct_map_filter)
    ultimately have "distinct (map g (link_key ord (f x) (erase_key key k xs)))"
      using assms(3) by (intro link_key_distinct) simp_all
    then show ?thesis using assms(1) m Some by (simp add: modify_linked_def Let_def)
  qed
qed

lemma storage_inv_modify:
  assumes "storage_inv st"
  shows "storage_inv (modify_linked el_name el_timer k (again d) st)"
proof -
  have "linked_inv el_name el_timer (modify_linked el_name el_timer k (again d) st)"
    using assms by (intro modify_linked_inv) (simp_all add: storage_inv_def)
  moreover have "distinct (map el_components (modify_linked el_name el_timer k (again d) st))"
    using assms storage_distinct [OF assms] by (intro modify_components) (simp_all add: storage_inv_def)
  ultimately show ?thesis by (simp add: storage_inv_def)
qed

lemma element_ok_again:
  assumes "element_ok el" and "el_retransmission el \<noteq> maxRetransmissionNumber"
  shows "element_ok (again d el)" and "unat (el_retransmission (again d el)) = unat (el_retransmission el) + 1"
proof -
  let ?r = "el_retransmission el"
  have r: "1 \<le> unat ?r" "unat ?r < 8"
    using assms word_unat_eq_iff [of ?r 8]
    by (auto simp: element_ok_def maxRetransmissionNumber_def word_le_nat_alt order_le_less)
  then show one: "unat (el_retransmission (again d el)) = unat ?r + 1"
    by (simp add: unat_word_ariths)
  show "element_ok (again d el)"
    using assms(1) r one by (simp add: element_ok_def maxRetransmissionNumber_def word_le_nat_alt)
qed

lemma nom_inv_retransmission:
  assumes "nom_inv ps" and "getPktForRetransmission loc tt ps = (ps', r)"
  shows "nom_inv ps'"
proof (cases "np_storage ps")
  case Nil
  then show ?thesis using assms by (simp add: getPktForRetransmission_def getFirstDeadline_def)
next
  case (Cons el rest)
  have el: "element_ok el" "\<forall>x \<in> set rest. element_ok x" using assms(1) Cons by (auto simp: nom_inv_def)
  from retransmission_cases [OF assms(1) Cons, of loc tt] assms(2)
  have st: "np_storage ps' = (if el_retransmission el = maxRetransmissionNumber then rest
      else modify_linked el_name el_timer (el_name el) (again (calculateNextTimer tt)) (np_storage ps))" by auto
  show ?thesis
  proof (cases "el_retransmission el = maxRetransmissionNumber")
    case True
    have "storage_inv rest" using assms(1) Cons by (auto simp: nom_inv_def storage_inv_def linked_inv_def)
    then show ?thesis using st True el(2) by (simp add: nom_inv_def)
  next
    case False
    then have st': "np_storage ps' = modify_linked el_name el_timer (el_name el) (again (calculateNextTimer tt)) (np_storage ps)"
      using st by simp
    have "storage_inv (np_storage ps')" unfolding st' using assms(1) by (simp add: nom_inv_def storage_inv_modify)
    moreover have "set (np_storage ps') = insert (again (calculateNextTimer tt) el) (set rest)"
      unfolding st' by (rule set_again [OF assms(1) Cons])
    ultimately show ?thesis using el element_ok_again(1) [OF el(1) False] by (simp add: nom_inv_def)
  qed
qed

section \<open>Reachable states\<close>

inductive nom_step :: "platform \<Rightarrow> nom_policy \<Rightarrow> nom_policy \<Rightarrow> bool" for pf where
  outgoing: "addOutgoingPkt pf loc tt rand pkt metadata ps = Inr (ps', cmd) \<Longrightarrow> nom_step pf ps ps'"
| incoming: "pktFromNetwork pf loc room pkt ps = Inr (ps', cmd) \<Longrightarrow> nom_step pf ps ps'"
| timer: "getPktForRetransmission loc tt ps = (ps', r) \<Longrightarrow> nom_step pf ps ps'"
| statistics: "nom_step pf ps (printStatistic ps)"

inductive nom_reachable :: "platform \<Rightarrow> nom_policy \<Rightarrow> bool" for pf where
  start: "nom_reachable pf LLNomPolicy"
| step: "nom_reachable pf ps \<Longrightarrow> nom_step pf ps ps' \<Longrightarrow> nom_reachable pf ps'"

lemma nom_step_inv: "nom_step pf ps ps' \<Longrightarrow> nom_inv ps \<Longrightarrow> nom_inv ps'"
  by (induction rule: nom_step.induct)
    (auto intro: nom_inv_addOutgoing nom_inv_pktFromNetwork nom_inv_retransmission simp: printStatistic_def)

lemma nom_reachable_inv: "nom_reachable pf ps \<Longrightarrow> nom_inv ps"
  by (induction rule: nom_reachable.induct) (auto simp: nom_inv_new nom_step_inv)

end
