(* ===== verification/Pending.thy ===== *)
theory Pending
  imports LinkLayer
begin

text \<open>
  What happens to a packet in the link layer, over reachable states of the policy: storing it,
  retransmitting it, hearing it again, and answering it.
\<close>

section \<open>Packets and frames\<close>

text \<open>The bytes of an Interest or of a content object, by what the parser makes of them.\<close>

definition is_interest :: "byte list \<Rightarrow> name \<Rightarrow> u32 \<Rightarrow> bool" where
  "is_interest pkt n nonce \<longleftrightarrow> (case bindr (InitFromBuffer pkt) (\<lambda>p.
      bindr (GetNDNHeaderType p) (\<lambda>t. bindr (interest_parts p) (\<lambda>r. Inr (t, r)))) of
     Inl e \<Rightarrow> False | Inr (t, r) \<Rightarrow> t = INTEREST \<and> r = (n, nonce))"

definition is_content :: "byte list \<Rightarrow> name \<Rightarrow> bool" where
  "is_content pkt n \<longleftrightarrow> (case bindr (InitFromBuffer pkt) (\<lambda>p.
      bindr (GetNDNHeaderType p) (\<lambda>t. bindr (content_parts p) (\<lambda>r. Inr (t, r)))) of
     Inl e \<Rightarrow> False | Inr (t, r) \<Rightarrow> t = CONTENT_OBJECT \<and> r = n)"

text \<open>A frame as the raw socket hands it over: sender, printed position, type of service, packet.\<close>

definition frame :: "byte list \<Rightarrow> byte list \<Rightarrow> byte list \<Rightarrow> byte list \<Rightarrow> byte list \<Rightarrow> byte list" where
  "frame mac lat lon tos pkt =
     take 6 (mac @ replicate 6 0) @ take 12 (lat @ replicate 12 0) @ take 12 (lon @ replicate 12 0) @
     take 4 (tos @ replicate 4 0) @ pkt"

definition field :: "nat \<Rightarrow> byte list \<Rightarrow> byte list" where
  "field k bs = take k (bs @ replicate k 0)"

lemma field_length [simp]: "length (field k bs) = k"
  by (simp add: field_def)

lemma frame_fields: "frame mac lat lon tos pkt = field 6 mac @ field 12 lat @ field 12 lon @ field 4 tos @ pkt"
  by (simp add: frame_def field_def)

lemma frame_parts:
  "llHeader_at (drop 6 (frame mac lat lon tos pkt)) =
     \<lparr>ll_lat = field 12 lat, ll_longitude = field 12 lon, ll_tos = field 4 tos\<rparr>"
  "drop (6 + LL_HEADER_SIZE) (frame mac lat lon tos pkt) = pkt"
  by (simp_all add: frame_fields llHeader_at_def LL_HEADER_SIZE_def)

lemma is_interestD:
  assumes "is_interest pkt n nonce"
  shows "\<exists>p. InitFromBuffer pkt = Inr p \<and> GetNDNHeaderType p = Inr INTEREST \<and> interest_parts p = Inr (n, nonce)"
  using assms by (auto simp: is_interest_def bindr_eq_Inr split: sum.splits)

lemma is_contentD:
  assumes "is_content pkt n"
  shows "\<exists>p. InitFromBuffer pkt = Inr p \<and> GetNDNHeaderType p = Inr CONTENT_OBJECT \<and> content_parts p = Inr n"
  using assms by (auto simp: is_content_def bindr_eq_Inr split: sum.splits)

lemma packet_nonempty:
  assumes "InitFromBuffer pkt = Inr p" and "GetNDNHeaderType p = Inr t"
  shows "pkt \<noteq> []"
proof
  assume "pkt = []"
  then have "p = \<lparr>pk_buffer = \<lparr>m_data = []\<rparr>, pk_llmetadata = None, pk_linked = True\<rparr>"
    using assms(1) by (simp add: InitFromBuffer_def)
  moreover have "GetNDNHeaderType \<lparr>pk_buffer = \<lparr>m_data = []\<rparr>, pk_llmetadata = None, pk_linked = True\<rparr> =
    Inl NDNUnknownHeaderException" by code_simp
  ultimately show False using assms(2) by simp
qed

text \<open>The handlers on such packets, with the parsing done.\<close>

lemma outgoing_interest:
  "is_interest pkt n nonce \<Longrightarrow> addOutgoingPkt pf loc tt rand pkt md ps =
     Inr (store_outgoing loc tt rand pkt md False (append_components interestKey n) n nonce
       (ps\<lparr>np_stats := increaseSendingOutInterestRequest (np_stats ps)\<rparr>))"
  by (auto simp: addOutgoingPkt_def try_header_def Let_def dest!: is_interestD)

lemma outgoing_content:
  "is_content pkt n \<Longrightarrow> addOutgoingPkt pf loc tt rand pkt md ps =
     bindr (searchByPrefixMatch n (np_storage ps)) (\<lambda>m. bindr (delete_matching m (np_storage ps)) (\<lambda>st.
       Inr (store_outgoing loc tt rand pkt md True (append_components dataKey n) n (-1)
         (ps\<lparr>np_stats := increaseSendingOutContentRequest (np_stats ps), np_storage := st\<rparr>))))"
  by (auto simp: addOutgoingPkt_def try_header_def Let_def dest!: is_contentD)

definition go_up :: "bool \<Rightarrow> byte list \<Rightarrow> adhoc_metadata \<Rightarrow> nom_policy \<times> command \<Rightarrow> nom_policy \<times> command" where
  "go_up room pkt md r = (case r of (ps, returnCommand) \<Rightarrow>
     if returnCommand = GOUPLAYER then
       if \<not> room then (ps, LL_ERROR) else (ps\<lparr>np_up := np_up ps @ [(pkt, md)]\<rparr>, DISCARD)
     else (ps, returnCommand))"

definition hop_metadata :: "platform \<Rightarrow> byte list \<Rightarrow> byte list \<Rightarrow> byte list \<Rightarrow> adhoc_metadata" where
  "hop_metadata pf lat lon tos = setTos (ntohl (field 4 tos))
     (LLMetadata80211AdHoc (GeoStorage (pf_atof pf (field 12 lat)) (pf_atof pf (field 12 lon))))"

lemma incoming_interest:
  assumes "is_interest pkt n nonce"
  shows "pktFromNetwork pf loc room (frame mac lat lon tos pkt) ps =
    bindr (interest_from_network pf loc \<lparr>ll_lat = field 12 lat, ll_longitude = field 12 lon, ll_tos = field 4 tos\<rparr>
        n nonce (ps\<lparr>np_stats := increaseReceivedInterest (np_stats ps)\<rparr>))
      (\<lambda>r. Inr (go_up room pkt (hop_metadata pf lat lon tos) r))"
proof -
  obtain p where p: "InitFromBuffer pkt = Inr p" "GetNDNHeaderType p = Inr INTEREST" "interest_parts p = Inr (n, nonce)"
    using is_interestD [OF assms] by blast
  have "pkt \<noteq> []" using packet_nonempty [OF p(1,2)] .
  then show ?thesis
    using p
    by (cases "interest_from_network pf loc \<lparr>ll_lat = field 12 lat, ll_longitude = field 12 lon, ll_tos = field 4 tos\<rparr>
      n nonce (ps\<lparr>np_stats := increaseReceivedInterest (np_stats ps)\<rparr>)")
      (auto simp: pktFromNetwork_def frame_parts try_header_def Let_def go_up_def hop_metadata_def)
qed

lemma incoming_content:
  assumes "is_content pkt n"
  shows "pktFromNetwork pf loc room (frame mac lat lon tos pkt) ps =
    bindr (content_from_network pf loc \<lparr>ll_lat = field 12 lat, ll_longitude = field 12 lon, ll_tos = field 4 tos\<rparr>
        n (ps\<lparr>np_stats := increaseReceivedContent (np_stats ps)\<rparr>))
      (\<lambda>r. Inr (go_up room pkt (hop_metadata pf lat lon tos) r))"
proof -
  obtain p where p: "InitFromBuffer pkt = Inr p" "GetNDNHeaderType p = Inr CONTENT_OBJECT" "content_parts p = Inr n"
    using is_contentD [OF assms] by blast
  have "pkt \<noteq> []" using packet_nonempty [OF p(1,2)] .
  then show ?thesis
    using p
    by (cases "content_from_network pf loc \<lparr>ll_lat = field 12 lat, ll_longitude = field 12 lon, ll_tos = field 4 tos\<rparr>
      n (ps\<lparr>np_stats := increaseReceivedContent (np_stats ps)\<rparr>)")
      (auto simp: pktFromNetwork_def frame_parts try_header_def Let_def go_up_def hop_metadata_def)
qed

section \<open>Retransmission\<close>

text \<open>How often a packet will still be sent, and the keys sent when the timer fires again and again.\<close>

definition left :: "linkLayerPktElement \<Rightarrow> nat" where
  "left el = 9 - unat (el_retransmission el)"

fun drain :: "gps_info \<Rightarrow> timeval list \<Rightarrow> nom_policy \<Rightarrow> nom_policy \<times> string list" where
  "drain loc [] ps = (ps, [])"
| "drain loc (tt # tts) ps =
     (case np_storage ps of
        [] \<Rightarrow> (ps, [])
      | el # _ \<Rightarrow>
          let (ps1, data) = getPktForRetransmission loc tt ps; (ps2, keys) = drain loc tts ps1
          in (ps2, if data = None then keys else el_name el # keys))"

text \<open>One firing takes one from what is left of the first packet.\<close>

lemma drain_step:
  assumes "nom_inv ps" and "np_storage ps = el # rest"
  obtains ps' where "getPktForRetransmission loc tt ps =
      (ps', Some (updateLLHeaderCoordinates loc (take (unat (el_size el)) (el_data el))))"
    and "nom_inv ps'" and "np_up ps' = np_up ps"
    and "el_retransmission el = maxRetransmissionNumber \<and> left el = 1 \<and> np_storage ps' = rest \<or>
      el_retransmission el \<noteq> maxRetransmissionNumber \<and> left el = Suc (left (again (calculateNextTimer tt) el)) \<and>
      set (np_storage ps') = insert (again (calculateNextTimer tt) el) (set rest)"
proof -
  have el: "element_ok el" using assms by (simp add: nom_inv_def)
  then have r: "unat (el_retransmission el) \<le> 8" by (simp add: element_ok_def maxRetransmissionNumber_def word_le_nat_alt)
  obtain ps' where ps': "getPktForRetransmission loc tt ps =
      (ps', Some (updateLLHeaderCoordinates loc (take (unat (el_size el)) (el_data el))))" "np_up ps' = np_up ps"
    "np_storage ps' = (if el_retransmission el = maxRetransmissionNumber then rest
      else modify_linked el_name el_timer (el_name el) (again (calculateNextTimer tt)) (np_storage ps))"
    using retransmission_cases [OF assms, of loc tt] by blast
  have inv: "nom_inv ps'" by (rule nom_inv_retransmission [OF assms(1) ps'(1)])
  have "el_retransmission el = maxRetransmissionNumber \<and> left el = 1 \<and> np_storage ps' = rest \<or>
      el_retransmission el \<noteq> maxRetransmissionNumber \<and> left el = Suc (left (again (calculateNextTimer tt) el)) \<and>
      set (np_storage ps') = insert (again (calculateNextTimer tt) el) (set rest)"
  proof (cases "el_retransmission el = maxRetransmissionNumber")
    case True
    then show ?thesis using ps'(3) by (simp add: left_def maxRetransmissionNumber_def)
  next
    case False
    from element_ok_again [OF el False, of "calculateNextTimer tt"]
    have "unat (el_retransmission (again (calculateNextTimer tt) el)) = unat (el_retransmission el) + 1"
      "unat (el_retransmission (again (calculateNextTimer tt) el)) \<le> 8"
      by (simp_all add: element_ok_def maxRetransmissionNumber_def word_le_nat_alt)
    then show ?thesis
      using ps'(3) False set_again [OF assms, of "calculateNextTimer tt"] by (simp add: left_def)
  qed
  from that [OF ps'(1) inv ps'(2) this] show thesis .
qed

lemma drain_keys:
  "nom_inv ps \<Longrightarrow> set (snd (drain loc tts ps)) \<subseteq> el_name ` set (np_storage ps)"
proof (induction tts arbitrary: ps)
  case (Cons tt tts)
  show ?case
  proof (cases "np_storage ps")
    case st: (Cons el rest)
    from drain_step [OF Cons.prems st, of loc tt] obtain ps' where
      ps': "getPktForRetransmission loc tt ps =
        (ps', Some (updateLLHeaderCoordinates loc (take (unat (el_size el)) (el_data el))))" "nom_inv ps'"
      "np_storage ps' = rest \<or> set (np_storage ps') = insert (again (calculateNextTimer tt) el) (set rest)" by metis
    have "el_name ` set (np_storage ps') \<subseteq> el_name ` set (np_storage ps)"
      using ps'(3) st by auto
    with Cons.IH [OF ps'(2)] have "set (snd (drain loc tts ps')) \<subseteq> el_name ` set (np_storage ps)" by blast
    then show ?thesis using st ps'(1) by (auto simp: Let_def split: prod.splits)
  qed simp
qed simp

lemma drain_all:
  "nom_inv ps \<Longrightarrow> length tts = (\<Sum>el \<in> set (np_storage ps). left el) \<Longrightarrow>
     np_storage (fst (drain loc tts ps)) = [] \<and>
     (\<forall>el \<in> set (np_storage ps). count_list (snd (drain loc tts ps)) (el_name el) = left el)"
proof (induction tts arbitrary: ps)
  case Nil
  have "left el > 0" if "el \<in> set (np_storage ps)" for el
    using Nil.prems(1) that by (auto simp: nom_inv_def element_ok_def left_def maxRetransmissionNumber_def word_le_nat_alt)
  then have "set (np_storage ps) = {}" using Nil.prems(2) by fastforce
  then show ?case by simp
next
  case (Cons tt tts)
  show ?case
  proof (cases "np_storage ps")
    case Nil
    then show ?thesis by simp
  next
    case st: (Cons el rest)
    let ?el = "again (calculateNextTimer tt) el"
    have d: "distinct (map el_name (np_storage ps))"
      using Cons.prems(1) storage_distinct by (simp add: nom_inv_def)
    have new: "el_name el \<notin> el_name ` set rest" "el \<notin> set rest" using d st by auto
    then have new': "?el \<notin> set rest" by (metis again_keys(1) imageI)
    have total: "Suc (length tts) = left el + (\<Sum>x \<in> set rest. left x)" using Cons.prems(2) st new(2) by simp
    from drain_step [OF Cons.prems(1) st, of loc tt] obtain ps' where
      ps': "getPktForRetransmission loc tt ps =
        (ps', Some (updateLLHeaderCoordinates loc (take (unat (el_size el)) (el_data el))))" "nom_inv ps'"
      and or: "left el = 1 \<and> np_storage ps' = rest \<or>
        left el = Suc (left ?el) \<and> set (np_storage ps') = insert ?el (set rest)" by metis
    have run: "drain loc (tt # tts) ps = (fst (drain loc tts ps'), el_name el # snd (drain loc tts ps'))"
      using st ps'(1) by (simp add: case_prod_unfold Let_def)
    have len: "length tts = (\<Sum>x \<in> set (np_storage ps'). left x)" using or total new' by auto
    note IH = Cons.IH [OF ps'(2) len]
    have rest: "count_list (snd (drain loc tts ps')) (el_name x) = left x" if "x \<in> set rest" for x
      using IH or that by auto
    have this_el: "Suc (count_list (snd (drain loc tts ps')) (el_name el)) = left el"
      using or
    proof
      assume 1: "left el = 1 \<and> np_storage ps' = rest"
      then have "el_name el \<notin> set (snd (drain loc tts ps'))"
        using drain_keys [OF ps'(2), of loc tts] new(1) by auto
      then show ?thesis using 1 by (simp add: count_list_0_iff)
    next
      assume "left el = Suc (left ?el) \<and> set (np_storage ps') = insert ?el (set rest)"
      then show ?thesis using IH by auto
    qed
    have "el_name el \<noteq> el_name x" if "x \<in> set rest" for x using new(1) that by (metis imageI)
    then show ?thesis using IH run rest this_el st by simp
  qed
qed


text \<open>
  C9: a packet that is neither acknowledged nor answered is sent until its eighth transmission and then
  forgotten: when the timer fires as often as transmissions are left, every pending packet is sent
  exactly as often as it has transmissions left, and the table is empty.
\<close>

theorem retransmission_ends:
  assumes "nom_reachable pf ps" and "length tts = (\<Sum>el \<in> set (np_storage ps). left el)"
  shows "np_storage (fst (drain loc tts ps)) = [] \<and>
    (\<forall>el \<in> set (np_storage ps). count_list (snd (drain loc tts ps)) (el_name el) = left el)"
  by (rule drain_all [OF nom_reachable_inv [OF assms(1)] assms(2)])

text \<open>
  When the timer fires, the packet with the earliest deadline is sent, with the position where the
  node is now; it stays pending with a counter one higher and a new deadline, unless this was its
  eighth transmission, and no other packet changes.
\<close>

theorem retransmit_earliest:
  assumes "nom_reachable pf ps" and "np_storage ps \<noteq> []"
  shows "\<exists>el ps'. el \<in> set (np_storage ps) \<and> (\<forall>x \<in> set (np_storage ps). \<not> el_less x el) \<and>
    getNextDeadline ps = Some (uint (fst (el_timer el)), uint (snd (el_timer el))) \<and>
    getPktForRetransmission loc tt ps = (ps', Some (gp_latChar loc @ gp_longitudeChar loc @
      drop 24 (take (unat (el_size el)) (el_data el)))) \<and>
    set (np_storage ps') = (set (np_storage ps) - {el}) \<union>
      (if el_retransmission el = 8 then {}
       else {el\<lparr>el_retransmission := el_retransmission el + 1, el_timer := calculateNextTimer tt\<rparr>})"
proof -
  obtain el rest where st: "np_storage ps = el # rest" using assms(2) by (cases "np_storage ps") auto
  have inv: "nom_inv ps" by (rule nom_reachable_inv [OF assms(1)])
  then have sorted: "\<forall>x \<in> set rest. el_timer el \<le> el_timer x" and d: "el \<notin> set rest"
    using st by (auto simp: nom_inv_def storage_inv_def linked_inv_def)
  from drain_step [OF inv st, of loc tt] obtain ps' where
    ps': "getPktForRetransmission loc tt ps =
      (ps', Some (updateLLHeaderCoordinates loc (take (unat (el_size el)) (el_data el))))"
    and or: "el_retransmission el = maxRetransmissionNumber \<and> np_storage ps' = rest \<or>
      el_retransmission el \<noteq> maxRetransmissionNumber \<and>
      set (np_storage ps') = insert (again (calculateNextTimer tt) el) (set rest)" by metis
  have "set (np_storage ps') = (set (np_storage ps) - {el}) \<union>
      (if el_retransmission el = 8 then {} else {again (calculateNextTimer tt) el})"
    using or d st by (auto simp: maxRetransmissionNumber_def)
  then show ?thesis
    using st ps' sorted
    by (intro exI [of _ el] exI [of _ ps'])
      (auto simp: el_less_iff not_less getNextDeadline_def getFirstDeadline_def updateLLHeaderCoordinates_def
        GPS_STRING_SIZE_def again_def)
qed

section \<open>Delays\<close>

lemma Tgap_bound: "0 \<le> d \<Longrightarrow> calculateTgap d \<le> 5000"
proof -
  assume "0 \<le> d"
  then have "Tdist * (Dmax - min Dmax d) / Dmax \<le> 5000" by (simp add: Tdist_def Dmax_def min_def field_simps)
  then have "\<lfloor>Tdist * (Dmax - min Dmax d) / Dmax\<rfloor> \<le> 5000" by linarith
  then show ?thesis unfolding calculateTgap_def nat_le_iff by simp
qed

lemma Tgap_antimono: "d \<le> d' \<Longrightarrow> calculateTgap d' \<le> calculateTgap d"
proof -
  assume "d \<le> d'"
  then have "Tdist * (Dmax - min Dmax d') / Dmax \<le> Tdist * (Dmax - min Dmax d) / Dmax"
    by (simp add: Tdist_def Dmax_def field_simps)
  then show ?thesis unfolding calculateTgap_def by (intro nat_mono floor_mono)
qed

text \<open>A deadline as microseconds.\<close>

definition usecs :: "deadline \<Rightarrow> nat" where
  "usecs d = unat (fst d) * 1000000 + unat (snd d)"

lemma usecs_exact:
  assumes "s + k div 1000000 < 2 ^ 32"
  shows "usecs (word_of_nat (s + k div 1000000), word_of_nat (k mod 1000000)) = s * 1000000 + k"
    and "unat (word_of_nat (k mod 1000000) :: u32) < 1000000"
proof -
  have m: "k mod 1000000 < 1000000" by simp
  then have "k mod 1000000 < 2 ^ 32" by (rule order_less_trans) simp
  then have r: "unat (word_of_nat (k mod 1000000) :: u32) = k mod 1000000" by (simp add: unat_of_nat)
  have "unat (word_of_nat (s + k div 1000000) :: u32) = s + k div 1000000"
    by (subst unat_of_nat) (use assms in simp)
  then have "usecs (word_of_nat (s + k div 1000000), word_of_nat (k mod 1000000)) =
      (s + k div 1000000) * 1000000 + k mod 1000000" using r by (simp add: usecs_def)
  also have "\<dots> = s * 1000000 + k" using div_mult_mod_eq [of k 1000000] by (simp add: add_mult_distrib)
  finally show "usecs (word_of_nat (s + k div 1000000), word_of_nat (k mod 1000000)) = s * 1000000 + k" .
  show "unat (word_of_nat (k mod 1000000) :: u32) < 1000000" using r m by simp
qed

lemma earlier_usecs:
  assumes "unat (snd a) < 1000000" and "unat (snd b) < 1000000"
  shows "a \<le> b \<longleftrightarrow> usecs a \<le> usecs b"
proof -
  have "unat (fst a) * 1000000 + unat (snd a) \<le> unat (fst b) * 1000000 + unat (snd b) \<longleftrightarrow>
      unat (fst a) < unat (fst b) \<or> unat (fst a) = unat (fst b) \<and> unat (snd a) \<le> unat (snd b)"
    using assms by linarith
  then show ?thesis
    by (cases a; cases b) (auto simp: usecs_def word_less_nat_alt word_le_nat_alt word_unat_eq_iff)
qed

lemma getCoordinate_latitude: "\<bar>co_latitude (getCoordinate loc)\<bar> \<le> 90"
  by (auto simp: getCoordinate_def Coordinate_eq split: option.split)

text \<open>
  A packet is first sent at most seven milliseconds after it was stored (two for collision avoidance,
  five for the distance), and half a second after each transmission it is due again, with exact
  arithmetic on seconds and microseconds as long as the seconds fit into 32 bits; of two nodes that
  hear the same packet, with the same random delay, the one farther from the previous hop is never later.
\<close>

theorem transmission_delay:
  assumes "fst tt < 2 ^ 32 - 2" and "snd tt < 1000000" and "\<And>g. hop = Some g \<Longrightarrow> \<bar>gs_lat g\<bar> \<le> 90"
  shows "\<exists>delay \<le> 6999. usecs (calculateFirstTransmission loc tt rnd hop) = fst tt * 1000000 + snd tt + delay \<and>
    usecs (calculateNextTimer tt) = fst tt * 1000000 + snd tt + 500000 \<and>
    (hop = Some g \<and> loc_getDistance loc' (gs_lat g) (gs_longitude g) \<le> loc_getDistance loc (gs_lat g) (gs_longitude g)
      \<longrightarrow> calculateFirstTransmission loc tt rnd hop \<le> calculateFirstTransmission loc' tt rnd hop)"
proof -
  define tgap where "tgap l = (case hop of None \<Rightarrow> 0
    | Some g \<Rightarrow> calculateTgap (loc_getDistance l (gs_lat g) (gs_longitude g)))" for l
  let ?k = "\<lambda>l. snd tt + rnd mod maxTca + tgap l"
  have first: "calculateFirstTransmission l tt rnd hop =
      (word_of_nat (fst tt + ?k l div 1000000), word_of_nat (?k l mod 1000000))" for l
    by (simp add: calculateFirstTransmission_def tgap_def Let_def)
  have tgap: "tgap l \<le> 5000" for l
    using Tgap_bound assms(3) getDistance_nonneg [OF getCoordinate_latitude]
    by (auto simp: tgap_def loc_getDistance_def split: option.split)
  have tca: "rnd mod maxTca \<le> 1999" by (simp add: maxTca_def)
  have small: "fst tt + k div 1000000 < 2 ^ 32" if "k < 2000000" for k
  proof -
    have "k div 1000000 \<le> 1" using that by linarith
    then show ?thesis using assms(1) by linarith
  qed
  have bound: "?k l < 2000000" for l using tgap [of l] tca assms(2) by linarith
  note exact = usecs_exact [OF small [OF bound]]
  have "usecs (calculateFirstTransmission loc tt rnd hop) = fst tt * 1000000 + snd tt + (rnd mod maxTca + tgap loc)"
    unfolding first exact(1) by simp
  moreover have "rnd mod maxTca + tgap loc \<le> 6999" using tca tgap [of loc] by linarith
  moreover have "usecs (calculateNextTimer tt) = fst tt * 1000000 + snd tt + 500000"
    using usecs_exact(1) [OF small, of "500000 + snd tt"] assms(2)
    by (simp add: calculateNextTimer_def secFirstRetransmission_def usecFirstRetransmission_def)
  moreover have "calculateFirstTransmission loc tt rnd hop \<le> calculateFirstTransmission loc' tt rnd hop"
    if "hop = Some g" "loc_getDistance loc' (gs_lat g) (gs_longitude g) \<le> loc_getDistance loc (gs_lat g) (gs_longitude g)"
  proof -
    have "tgap loc \<le> tgap loc'" using that Tgap_antimono by (simp add: tgap_def)
    then show ?thesis
      unfolding first by (subst earlier_usecs) (simp_all only: snd_conv exact)
  qed
  ultimately show ?thesis by blast
qed

theorem transmission_delay_witness: "usecs (calculateNextTimer (5, 700000)) = 6200000"
proof -
  let ?loc = GpsInfo
  have "\<exists>delay \<le> 6999. usecs (calculateFirstTransmission ?loc (5, 700000) 3 (Some (GeoStorage 34 0))) =
        5 * 1000000 + 700000 + delay \<and>
      usecs (calculateNextTimer (5, 700000)) = 5 * 1000000 + 700000 + 500000"
    using transmission_delay [of "(5, 700000)" "Some (GeoStorage 34 0)" ?loc 3 "GeoStorage 34 0" ?loc]
    by (simp add: GeoStorage_def)
  then show ?thesis by auto
qed

section \<open>Samples\<close>

text \<open>
  A node at the origin; the printed position of a frame is its first byte in degrees of latitude, and
  the distance is the difference of the latitudes.
\<close>

definition sample_platform :: platform where
  "sample_platform = \<lparr>pf_atof = (\<lambda>bs. of_nat (unat (hd bs))), pf_printf = (\<lambda>_. [])\<rparr>"

definition sample_loc :: gps_info where
  "sample_loc = GpsInfo"

definition sample_interest_bytes :: "byte list" where
  "sample_interest_bytes =
     (case AddInterestHeader (InterestHeader_new\<lparr>ih_name := Some [''a''], ih_nonce := 7\<rparr>) Packet_new of
        Inl e \<Rightarrow> [] | Inr p \<Rightarrow> m_data (pk_buffer p))"

definition sample_content_bytes :: "byte list" where
  "sample_content_bytes = (case NDNContentPacket [''a'', ''b''] [1] of Inl e \<Rightarrow> [] | Inr p \<Rightarrow> m_data (pk_buffer p))"

definition sample_stored :: nom_policy where
  "sample_stored = (case addOutgoingPkt sample_platform sample_loc (10, 20) 3 sample_interest_bytes None LLNomPolicy of
     Inl e \<Rightarrow> LLNomPolicy | Inr (ps, c) \<Rightarrow> ps)"

lemma sample_interest: "is_interest sample_interest_bytes [''a''] 7"
  by code_simp

lemma sample_content: "is_content sample_content_bytes [''a'', ''b'']"
  by code_simp

lemma sample_stored_step: "\<exists>c. addOutgoingPkt sample_platform sample_loc (10, 20) 3 sample_interest_bytes None LLNomPolicy =
    Inr (sample_stored, c)"
  unfolding sample_stored_def outgoing_interest [OF sample_interest] by (simp split: prod.splits)

lemma sample_storage: "np_storage sample_stored =
  [new_element (setLLHeader sample_loc sample_interest_bytes) maxRetransmissionNumber
     (append_components interestKey [''a'']) [''a''] 7 (calculateFirstTransmission sample_loc (10, 20) 3 None)
     (GeoStorage 0 0) (Some (coordinate_at 0 0))]"
proof -
  have c: "getCoordinate sample_loc = coordinate_at 0 0"
    by (simp add: getCoordinate_def sample_loc_def GpsInfo_def Coordinate_def)
  show ?thesis
    unfolding sample_stored_def outgoing_interest [OF sample_interest]
    by (simp add: store_outgoing_def insertPkt_def LLNomPolicy_def PacketStorage_def createAckInfo_def getLatitude_def
        getLongitude_def c Coordinate_def Let_def)
qed

lemma sample_reachable: "nom_reachable sample_platform sample_stored"
  using sample_stored_step nom_reachable.step [OF nom_reachable.start nom_step.outgoing] by blast

lemma sample_pending:
  "\<exists>el. np_storage sample_stored = [el] \<and> el_components el = [''a''] \<and> el_nonce el = 7 \<and>
     el_name el = append_components interestKey [''a''] \<and>
     el_ackInfo el = Some (coordinate_at 0 0) \<and> left el = 8"
  by (simp add: sample_storage left_def)


theorem retransmission_ends_witness:
  "np_storage (fst (drain sample_loc (replicate 8 (20, 0)) sample_stored)) = []"
proof -
  obtain el where el: "np_storage sample_stored = [el]" "left el = 8" using sample_pending by blast
  then have "length (replicate 8 (20, 0)) = (\<Sum>el \<in> set (np_storage sample_stored). left el)" by simp
  from retransmission_ends [OF sample_reachable this] show ?thesis by blast
qed

theorem retransmit_earliest_witness:
  "\<exists>ps' data. getPktForRetransmission sample_loc (20, 0) sample_stored = (ps', Some data)"
proof -
  have "np_storage sample_stored \<noteq> []" using sample_pending by auto
  from retransmit_earliest [OF sample_reachable this, of sample_loc "(20, 0)"] show ?thesis by blast
qed

end
