(* ===== verification/Overhear.thy ===== *)
theory Overhear
  imports Pending
begin

text \<open>
  What the link layer does with a packet from the daemon and with one that it hears: when it is
  stored, what it answers, and when it acknowledges a pending one.
\<close>

section \<open>Storing\<close>

lemma store_insert:
  assumes "insertPkt (setLLHeader loc pkt) maxRetransmissionNumber nm c nonce
      (calculateFirstTransmission loc tt rnd (if locally then None else Some hop))
      (if locally then GeoStorage (getLatitude loc) (getLongitude loc) else hop)
      (createAckInfo loc (if locally then None else Some hop)) (np_storage ps) = (st, ok)"
    and "locally \<longleftrightarrow> md = None \<or> hop = md_previousHop (the md) \<and>
      (gs_lat hop = DEFAULT_COORDINATE_DOUBLE \<or> gs_longitude hop = DEFAULT_COORDINATE_DOUBLE)"
    and "md \<noteq> None \<longrightarrow> hop = md_previousHop (the md)"
  shows "store_outgoing loc tt rnd pkt md isContent nm c nonce ps =
    (ps\<lparr>np_storage := st, np_stats := (if ok then (if isContent then increaseContentSent else increaseInterestSent) (np_stats ps)
       else np_stats ps)\<rparr>, if ok then DISCARD else LL_ERROR)"
  using assms
  by (cases md) (auto simp: store_outgoing_def Let_def split: if_splits)

lemma store_result:
  "\<exists>time geo ack. (\<forall>st ok. insertPkt (setLLHeader loc pkt) maxRetransmissionNumber nm c nonce time geo ack (np_storage ps) = (st, ok) \<longrightarrow>
      (\<exists>ps'. store_outgoing loc tt rnd pkt md isContent nm c nonce ps = (ps', if ok then DISCARD else LL_ERROR) \<and>
        np_storage ps' = st \<and> np_up ps' = np_up ps)) \<and>
    (\<forall>m. md = Some m \<longrightarrow> gs_lat (md_previousHop m) \<noteq> DEFAULT_COORDINATE_DOUBLE \<longrightarrow>
      gs_longitude (md_previousHop m) \<noteq> DEFAULT_COORDINATE_DOUBLE \<longrightarrow>
      ack = Coordinate (gs_lat (md_previousHop m)) (gs_longitude (md_previousHop m)))"
proof -
  define hop where "hop = md_previousHop (the md)"
  define locally where "locally \<longleftrightarrow> md = None \<or> hop = md_previousHop (the md) \<and>
      (gs_lat hop = DEFAULT_COORDINATE_DOUBLE \<or> gs_longitude hop = DEFAULT_COORDINATE_DOUBLE)"
  let ?time = "calculateFirstTransmission loc tt rnd (if locally then None else Some hop)"
    and ?geo = "if locally then GeoStorage (getLatitude loc) (getLongitude loc) else hop"
    and ?ack = "createAckInfo loc (if locally then None else Some hop)"
  have "\<exists>ps'. store_outgoing loc tt rnd pkt md isContent nm c nonce ps = (ps', if ok then DISCARD else LL_ERROR) \<and>
        np_storage ps' = st \<and> np_up ps' = np_up ps"
    if "insertPkt (setLLHeader loc pkt) maxRetransmissionNumber nm c nonce ?time ?geo ?ack (np_storage ps) = (st, ok)"
    for st ok
    using store_insert [OF that locally_def] by (simp add: hop_def)
  moreover have "?ack = Coordinate (gs_lat (md_previousHop m)) (gs_longitude (md_previousHop m))"
    if "md = Some m" "gs_lat (md_previousHop m) \<noteq> DEFAULT_COORDINATE_DOUBLE"
      "gs_longitude (md_previousHop m) \<noteq> DEFAULT_COORDINATE_DOUBLE" for m
    using that by (simp add: locally_def hop_def createAckInfo_def)
  ultimately show ?thesis by blast
qed

text \<open>What the key of a packet says about it.\<close>

definition slash_free_table :: "nom_policy \<Rightarrow> bool" where
  "slash_free_table ps \<longleftrightarrow> (\<forall>el \<in> set (np_storage ps). slash_free (el_components el))"

lemma key_taken:
  assumes "nom_inv ps" and "slash_free_table ps" and "slash_free n" and "k \<in> {interestKey, dataKey}"
    and "find_key el_name (append_components k n) (np_storage ps) = Some el"
  shows "el_components el = n"
proof -
  have el: "el \<in> set (np_storage ps)" "el_name el = append_components k n"
    using find_key_SomeD [OF assms(5)] by auto
  then have "element_ok el" using assms(1) by (simp add: nom_inv_def)
  then have "el_name el \<in> {append_components interestKey (el_components el), append_components dataKey (el_components el)}"
    by (simp add: element_ok_def)
  moreover have "slash_free (el_components el)" using assms(2) el(1) by (simp add: slash_free_table_def)
  ultimately show ?thesis
    using el(2) assms(3,4) keys_differ keys_differ [symmetric] key_inj by (metis insertE singletonD)
qed

lemma insert_free:
  assumes "nom_inv ps" and "slash_free_table ps" and "slash_free n" and "k \<in> {interestKey, dataKey}"
    and "np_storage ps' = np_storage ps"
  shows "insertPkt data limit (append_components k n) n nonce time geo ack (np_storage ps') =
    (if \<exists>el \<in> set (np_storage ps). el_components el = n then (np_storage ps, False)
     else (link_key el_timer (new_element data limit (append_components k n) n nonce time geo ack) (np_storage ps), True))"
proof (cases "find_key el_components n (np_storage ps)")
  case None
  then have no: "\<forall>el \<in> set (np_storage ps). el_components el \<noteq> n" by (auto simp: find_key_None)
  have "find_key el_name (append_components k n) (np_storage ps) = None"
  proof (rule ccontr)
    assume "find_key el_name (append_components k n) (np_storage ps) \<noteq> None"
    then obtain el where el: "find_key el_name (append_components k n) (np_storage ps) = Some el" by auto
    from key_taken [OF assms(1-4) el] no find_key_SomeD [OF el] show False by auto
  qed
  with None no assms(5) show ?thesis by (simp add: insertPkt_def Let_def)
next
  case (Some el)
  then have "\<exists>el \<in> set (np_storage ps). el_components el = n" using find_key_SomeD [OF Some] by blast
  with Some assms(5) show ?thesis by (simp add: insertPkt_def Let_def)
qed

text \<open>
  An Interest from the daemon is stored for transmission exactly when no packet of the same name is
  pending, be it an Interest with another nonce or content: otherwise it is refused and never sent.
\<close>

theorem interest_stored_iff:
  assumes "nom_reachable pf ps" and "slash_free_table ps" and "slash_free n" and "is_interest pkt n nonce"
  shows "\<exists>ps'. addOutgoingPkt pf loc tt rnd pkt md ps =
      Inr (ps', if \<exists>el \<in> set (np_storage ps). el_components el = n then LL_ERROR else DISCARD) \<and>
    (if \<exists>el \<in> set (np_storage ps). el_components el = n then np_storage ps' = np_storage ps
     else \<exists>el. set (np_storage ps') = insert el (set (np_storage ps)) \<and> el_components el = n \<and> el_nonce el = nonce \<and>
       el_name el = append_components interestKey n \<and> el_data el = setLLHeader loc pkt \<and> left el = 8)"
proof -
  have inv: "nom_inv ps" by (rule nom_reachable_inv [OF assms(1)])
  let ?ps = "ps\<lparr>np_stats := increaseSendingOutInterestRequest (np_stats ps)\<rparr>"
  obtain time geo ack where store: "\<And>st ok. insertPkt (setLLHeader loc pkt) maxRetransmissionNumber
      (append_components interestKey n) n nonce time geo ack (np_storage ?ps) = (st, ok) \<Longrightarrow>
      (\<exists>ps'. store_outgoing loc tt rnd pkt md False (append_components interestKey n) n nonce ?ps =
        (ps', if ok then DISCARD else LL_ERROR) \<and> np_storage ps' = st \<and> np_up ps' = np_up ?ps)"
    using store_result [of loc pkt "append_components interestKey n" n nonce ?ps tt rnd md False] by blast
  let ?el = "new_element (setLLHeader loc pkt) maxRetransmissionNumber (append_components interestKey n) n nonce time geo ack"
  have "np_storage ?ps = np_storage ps" by simp
  note ins = insert_free [OF inv assms(2,3) _ this, of interestKey "setLLHeader loc pkt" maxRetransmissionNumber nonce time geo ack, simplified]
  show ?thesis
  proof (cases "\<exists>el \<in> set (np_storage ps). el_components el = n")
    case True
    then have "insertPkt (setLLHeader loc pkt) maxRetransmissionNumber (append_components interestKey n) n nonce time geo ack
        (np_storage ?ps) = (np_storage ps, False)" using ins by simp
    from store [OF this] True show ?thesis by (auto simp: outgoing_interest [OF assms(4)])
  next
    case False
    then have "insertPkt (setLLHeader loc pkt) maxRetransmissionNumber (append_components interestKey n) n nonce time geo ack
        (np_storage ?ps) = (link_key el_timer ?el (np_storage ps), True)" using ins by simp
    from store [OF this] obtain ps' where "store_outgoing loc tt rnd pkt md False (append_components interestKey n) n nonce ?ps =
        (ps', DISCARD)" "np_storage ps' = link_key el_timer ?el (np_storage ps)" by auto
    then show ?thesis
      using False by (intro exI [of _ ps']) (auto simp: outgoing_interest [OF assms(4)] left_def intro: exI [of _ ?el])
  qed
qed

section \<open>Answering\<close>

lemma sorted_distinct:
  "sorted_wrt (\<lambda>a b. (f b :: nat) < f a) xs \<Longrightarrow> distinct xs"
  by (induction xs) auto

lemma names_distinct:
  assumes "storage_inv st" and "set els \<subseteq> set st" and "distinct els"
  shows "distinct (map el_name els)"
  using assms storage_distinct [OF assms(1)] by (auto simp: distinct_map intro: inj_on_subset)

lemma same_element:
  "storage_inv st \<Longrightarrow> x \<in> set st \<Longrightarrow> e \<in> set st \<Longrightarrow> el_name x = el_name e \<longleftrightarrow> x = e"
  using find_name [of st x] find_name [of st e] by (metis option.inject)

lemma filter_name:
  assumes "storage_inv st" and "e \<in> set st"
  shows "filter (\<lambda>x. el_name x \<noteq> el_name e) st = filter (\<lambda>x. x \<noteq> e) st"
  using same_element [OF assms(1) _ assms(2)] by (intro filter_cong) auto

lemma delete_matching_all:
  "storage_inv st \<Longrightarrow> set els \<subseteq> set st \<Longrightarrow> distinct els \<Longrightarrow>
     delete_matching (map el_name els) st = Inr (filter (\<lambda>x. x \<notin> set els) st)"
proof (induction els arbitrary: st)
  case (Cons e els)
  let ?st = "erase_key el_name (el_name e) st"
  have e: "find_key el_name (el_name e) st = Some e" using find_name [OF Cons.prems(1)] Cons.prems(2) by simp
  have same: "el_name x = el_name e \<longleftrightarrow> x = e" if "x \<in> set st" for x
    using same_element [OF Cons.prems(1) that] Cons.prems(2) by simp
  have "set els \<subseteq> set ?st" using Cons.prems(2,3) same by (auto simp: set_erase_key)
  with Cons have "delete_matching (map el_name els) ?st = Inr (filter (\<lambda>x. x \<notin> set els) ?st)"
    by (simp add: storage_inv_erase)
  moreover have "filter (\<lambda>x. x \<notin> set els) ?st = filter (\<lambda>x. x \<notin> set (e # els)) st"
    unfolding erase_key_filter filter_filter using same by (intro filter_cong) auto
  ultimately show ?case using e by (simp add: el_at_def)
qed simp

lemma search_found:
  assumes "storage_inv st"
  shows "\<exists>els. searchByPrefixMatch n st = Inr (map el_name els) \<and> distinct els \<and>
    set els = {el \<in> set st. prefix (el_components el) n}"
  using search_prefixes [OF assms, of n] sorted_distinct by metis

lemma filter_answered:
  "set els = {el \<in> set st. prefix (el_components el) n} \<Longrightarrow>
     filter (\<lambda>x. x \<notin> set els) st = filter (\<lambda>x. \<not> prefix (el_components x) n) st"
  by (intro filter_cong) auto

text \<open>
  Content that the daemon sends out is always stored for transmission, and every pending packet named
  by a prefix of it, which it answers, is withdrawn; all others stay.
\<close>

theorem content_answers:
  assumes "nom_reachable pf ps" and "slash_free_table ps" and "slash_free n" and "is_content pkt n"
  shows "\<exists>ps' el. addOutgoingPkt pf loc tt rnd pkt md ps = Inr (ps', DISCARD) \<and>
    set (np_storage ps') = insert el {x \<in> set (np_storage ps). \<not> prefix (el_components x) n} \<and>
    el_name el = append_components dataKey n \<and> el_components el = n \<and> el_data el = setLLHeader loc pkt \<and> left el = 8"
proof -
  have inv: "nom_inv ps" by (rule nom_reachable_inv [OF assms(1)])
  then have st: "storage_inv (np_storage ps)" by (simp add: nom_inv_def)
  obtain els where els: "searchByPrefixMatch n (np_storage ps) = Inr (map el_name els)" "distinct els"
    "set els = {el \<in> set (np_storage ps). prefix (el_components el) n}" using search_found [OF st] by blast
  let ?st = "filter (\<lambda>x. \<not> prefix (el_components x) n) (np_storage ps)"
  have del: "delete_matching (map el_name els) (np_storage ps) = Inr ?st"
    using delete_matching_all [OF st _ els(2)] els(3) filter_answered [OF els(3)] by auto
  let ?ps = "ps\<lparr>np_stats := increaseSendingOutContentRequest (np_stats ps), np_storage := ?st\<rparr>"
  have inv': "nom_inv ?ps" by (rule nom_inv_sub [OF inv]) simp
  have free: "slash_free_table ?ps" using assms(2) by (simp add: slash_free_table_def)
  obtain time geo ack where store: "\<And>st ok. insertPkt (setLLHeader loc pkt) maxRetransmissionNumber
      (append_components dataKey n) n (-1) time geo ack (np_storage ?ps) = (st, ok) \<Longrightarrow>
      (\<exists>ps'. store_outgoing loc tt rnd pkt md True (append_components dataKey n) n (-1) ?ps =
        (ps', if ok then DISCARD else LL_ERROR) \<and> np_storage ps' = st \<and> np_up ps' = np_up ?ps)"
    using store_result [of loc pkt "append_components dataKey n" n "-1" ?ps tt rnd md True] by blast
  let ?el = "new_element (setLLHeader loc pkt) maxRetransmissionNumber (append_components dataKey n) n (-1) time geo ack"
  have "\<not> (\<exists>el \<in> set (np_storage ?ps). el_components el = n)" by auto
  then have "insertPkt (setLLHeader loc pkt) maxRetransmissionNumber (append_components dataKey n) n (-1) time geo ack
      (np_storage ?ps) = (link_key el_timer ?el ?st, True)"
    using insert_free [OF inv' free assms(3) _ refl, of dataKey "setLLHeader loc pkt" maxRetransmissionNumber "-1" time geo ack]
    by simp
  from store [OF this] obtain ps' where
    "store_outgoing loc tt rnd pkt md True (append_components dataKey n) n (-1) ?ps = (ps', DISCARD)"
    "np_storage ps' = link_key el_timer ?el ?st" by auto
  then show ?thesis
    using els(1) del by (intro exI [of _ ps'] exI [of _ ?el]) (auto simp: outgoing_content [OF assms(4)] left_def)
qed

lemma ack_one:
  assumes "storage_inv (np_storage ps)" and "e \<in> set (np_storage ps)"
  shows "\<exists>ps'. ack_matching (el_name e) [el_name e] ps = Inr ps' \<and>
    np_storage ps' = filter (\<lambda>x. x \<noteq> e) (np_storage ps) \<and> np_up ps' = np_up ps"
proof -
  have e: "find_key el_name (el_name e) (np_storage ps) = Some e" using find_name [OF assms] .
  from filter_name [OF assms] show ?thesis using e by (simp add: Let_def el_at_def erase_key_filter)
qed

lemma ack_two:
  assumes "storage_inv (np_storage ps)" and "e \<in> set (np_storage ps)"
  shows "ack_matching (el_name e) (k # k' # ks) ps = Inl UseAfterFree"
proof -
  have e: "find_key el_name (el_name e) (np_storage ps) = Some e" using find_name [OF assms] .
  have "find_key el_name (el_name e) (erase_key el_name (el_name e) (np_storage ps)) = None"
    by (auto simp: find_key_None set_erase_key)
  then show ?thesis using e by (simp add: Let_def el_at_def)
qed

text \<open>
  Content that comes from the network goes up to the daemon and withdraws the pending packet that it
  answers, when there is at most one; when two pending packets are named by prefixes of it, the loop
  that withdraws them reads an element that it has just freed.
\<close>

theorem content_heard:
  assumes "nom_reachable pf ps" and "is_content pkt n"
    and "\<forall>el \<in> set (np_storage ps). el_name el \<noteq> append_components dataKey n"
  shows "if card {el \<in> set (np_storage ps). prefix (el_components el) n} \<le> 1
    then \<exists>ps'. pktFromNetwork pf loc True (frame mac lat lon tos pkt) ps = Inr (ps', DISCARD) \<and>
      np_storage ps' = filter (\<lambda>x. \<not> prefix (el_components x) n) (np_storage ps) \<and>
      np_up ps' = np_up ps @ [(pkt, hop_metadata pf lat lon tos)]
    else pktFromNetwork pf loc True (frame mac lat lon tos pkt) ps = Inl UseAfterFree"
proof -
  have st: "storage_inv (np_storage ps)" using nom_reachable_inv [OF assms(1)] by (simp add: nom_inv_def)
  obtain els where els: "searchByPrefixMatch n (np_storage ps) = Inr (map el_name els)" "distinct els"
    "set els = {el \<in> set (np_storage ps). prefix (el_components el) n}" using search_found [OF st] by blast
  have card: "card {el \<in> set (np_storage ps). prefix (el_components el) n} = length els"
    using distinct_card [OF els(2)] els(3) by simp
  have key: "find_key el_name (append_components dataKey n) (np_storage ps) = None"
    using assms(3) by (auto simp: find_key_None)
  let ?ps = "ps\<lparr>np_stats := increaseReceivedContentGoingUp (increaseReceivedContent (np_stats ps))\<rparr>"
  have up: "pktFromNetwork pf loc True (frame mac lat lon tos pkt) ps =
      bindr (case map el_name els of [] \<Rightarrow> Inr (?ps, GOUPLAYER)
        | el # _ \<Rightarrow> bindr (ack_matching el (map el_name els) ?ps) (\<lambda>ps. Inr (ps, GOUPLAYER)))
        (\<lambda>r. Inr (go_up True pkt (hop_metadata pf lat lon tos) r))"
    using key els(1) by (simp add: incoming_content [OF assms(2)] content_from_network_def getPktByKey_def)
  note rest = filter_answered [OF els(3)]
  consider (none) "els = []" | (one) e where "els = [e]" | (more) e e' es where "els = e # e' # es"
    by (metis neq_Nil_conv)
  then show ?thesis
  proof cases
    case none
    then have "filter (\<lambda>x. \<not> prefix (el_components x) n) (np_storage ps) = np_storage ps" using rest by simp
    then show ?thesis unfolding card using none up by (simp add: go_up_def)
  next
    case one
    then have "e \<in> set (np_storage ?ps)" using els(3) by auto
    from ack_one [of ?ps, OF _ this] st obtain ps' where ps': "ack_matching (el_name e) [el_name e] ?ps = Inr ps'"
      "np_storage ps' = filter (\<lambda>x. x \<noteq> e) (np_storage ps)" "np_up ps' = np_up ps" by auto
    have "filter (\<lambda>x. x \<noteq> e) (np_storage ps) = filter (\<lambda>x. \<not> prefix (el_components x) n) (np_storage ps)"
      using rest one by simp
    then show ?thesis unfolding card using one up ps' by (simp add: go_up_def del: ack_matching.simps)
  next
    case more
    then have "e \<in> set (np_storage ?ps)" using els(3) by auto
    from ack_two [of ?ps, OF _ this] st have
      "ack_matching (el_name e) (map el_name els) ?ps = Inl UseAfterFree" using more by simp
    then show ?thesis unfolding card using more up by (simp del: ack_matching.simps)
  qed
qed

section \<open>Hearing a packet again\<close>

text \<open>
  C10: what becomes of an Interest that arrives from the network, in every reachable state. It goes up to the daemon,
  with the position printed in its frame as metadata, and the pending packets stay as they are, unless an Interest with the same key and
  nonce is pending and the position in the frame is a valid coordinate. Then it is compared with the position
  that was noted for the pending one: from a node farther away from it than this node is, the copy acknowledges
  the pending Interest, which alone is dropped, and nothing goes up; from a nearer one it goes up like any other; and when no
  valid position was noted, a null pointer is dereferenced. Going up means to append the packet to what the daemon gets, or, when the
  ring is full, to lose it with an error.
\<close>

theorem interest_heard:
  assumes "nom_reachable pf ps" and "is_interest pkt n nonce"
  shows "let r = pktFromNetwork pf loc room (frame mac lat lon tos pkt) ps;
      repeated = {el \<in> set (np_storage ps). el_name el = append_components interestKey n \<and> el_nonce el = nonce};
      up = (\<exists>ps'. r = Inr (ps', if room then DISCARD else LL_ERROR) \<and> np_storage ps' = np_storage ps \<and>
        np_up ps' = np_up ps @ (if room then [(pkt, hop_metadata pf lat lon tos)] else []))
    in case Coordinate (pf_atof pf (field 12 lat)) (pf_atof pf (field 12 lon)) of
         None \<Rightarrow> up
       | Some c \<Rightarrow> if repeated = {} then up
           else \<exists>el. repeated = {el} \<and> (case el_ackInfo el of
               None \<Rightarrow> r = Inl NullDereference
             | Some ack \<Rightarrow>
                 if loc_getDistance loc (co_latitude ack) (co_longitude ack) < co_getDistance c ack
                 then \<exists>ps'. r = Inr (ps', DISCARD) \<and> np_storage ps' = filter (\<lambda>x. x \<noteq> el) (np_storage ps) \<and> np_up ps' = np_up ps
                 else up)"
proof -
  let ?nm = "append_components interestKey n"
  let ?repeated = "{el \<in> set (np_storage ps). el_name el = ?nm \<and> el_nonce el = nonce}"
  have st: "storage_inv (np_storage ps)" using nom_reachable_inv [OF assms(1)] by (simp add: nom_inv_def)
  note heard = incoming_interest [OF assms(2)] interest_from_network_def getPktByKey_def heard_again_def
    receivedRetransmission_def go_up_def erase_key_filter
  show ?thesis
  proof (cases "find_key el_name ?nm (np_storage ps)")
    case None
    then have "?repeated = {}" by (force simp: find_key_None)
    with None show ?thesis by (simp add: heard split: option.split)
  next
    case (Some el)
    then have el: "el \<in> set (np_storage ps)" "el_name el = ?nm" using find_key_SomeD [OF Some] by simp_all
    have only: "?repeated = (if el_nonce el = nonce then {el} else {})"
      using same_element [OF st _ el(1)] el by auto
    have rest: "filter (\<lambda>x. el_name x \<noteq> ?nm) (np_storage ps) = filter (\<lambda>x. x \<noteq> el) (np_storage ps)"
      using filter_name [OF st el(1)] el(2) by simp
    show ?thesis
      using Some rest unfolding Let_def only by (auto simp: heard split: option.split)
  qed
qed

text \<open>
  A position that no coordinate can have, announced by the previous hop of an Interest, is stored with
  the Interest as a null acknowledgement; the next copy of this Interest from a valid position makes the
  policy dereference it.
\<close>

theorem bad_position_crashes:
  assumes "nom_reachable pf ps" and "is_interest pkt n nonce"
    and "slash_free_table ps" and "slash_free n" and "\<forall>el \<in> set (np_storage ps). el_components el \<noteq> n"
    and "md = Some m" and "Coordinate (gs_lat (md_previousHop m)) (gs_longitude (md_previousHop m)) = None"
    and "gs_lat (md_previousHop m) \<noteq> DEFAULT_COORDINATE_DOUBLE" and "gs_longitude (md_previousHop m) \<noteq> DEFAULT_COORDINATE_DOUBLE"
    and "Coordinate (pf_atof pf (field 12 lat)) (pf_atof pf (field 12 lon)) = Some c"
  shows "\<exists>ps'. addOutgoingPkt pf loc tt rnd pkt md ps = Inr (ps', DISCARD) \<and>
    pktFromNetwork pf loc' True (frame mac lat lon tos pkt) ps' = Inl NullDereference"
proof -
  have inv: "nom_inv ps" by (rule nom_reachable_inv [OF assms(1)])
  let ?ps = "ps\<lparr>np_stats := increaseSendingOutInterestRequest (np_stats ps)\<rparr>" and ?nm = "append_components interestKey n"
  obtain time geo ack where store: "\<And>st ok. insertPkt (setLLHeader loc pkt) maxRetransmissionNumber
      ?nm n nonce time geo ack (np_storage ?ps) = (st, ok) \<Longrightarrow>
      (\<exists>ps'. store_outgoing loc tt rnd pkt md False ?nm n nonce ?ps =
        (ps', if ok then DISCARD else LL_ERROR) \<and> np_storage ps' = st \<and> np_up ps' = np_up ?ps)"
    and ack: "ack = None"
    using store_result [of loc pkt ?nm n nonce ?ps tt rnd md False] assms(6-9) by auto
  let ?el = "new_element (setLLHeader loc pkt) maxRetransmissionNumber ?nm n nonce time geo ack"
  have "insertPkt (setLLHeader loc pkt) maxRetransmissionNumber ?nm n nonce time geo ack (np_storage ?ps) =
      (link_key el_timer ?el (np_storage ps), True)"
    using insert_free [OF inv assms(3,4), of interestKey ?ps "setLLHeader loc pkt" maxRetransmissionNumber nonce time geo ack] assms(5)
    by simp
  from store [OF this] obtain ps' where ps': "store_outgoing loc tt rnd pkt md False ?nm n nonce ?ps = (ps', DISCARD)"
    "np_storage ps' = link_key el_timer ?el (np_storage ps)" by auto
  have out: "addOutgoingPkt pf loc tt rnd pkt md ps = Inr (ps', DISCARD)"
    using ps'(1) by (simp add: outgoing_interest [OF assms(2)])
  have "nom_inv ps'" by (rule nom_inv_addOutgoing [OF inv out])
  then have "find_key el_name ?nm (np_storage ps') = Some ?el"
    using find_name [of "np_storage ps'" ?el] ps'(2) by (simp add: nom_inv_def)
  then have "pktFromNetwork pf loc' True (frame mac lat lon tos pkt) ps' = Inl NullDereference"
    using assms(10) ack
    by (simp add: incoming_interest [OF assms(2)] interest_from_network_def getPktByKey_def heard_again_def
        receivedRetransmission_def)
  with out show ?thesis by blast
qed

section \<open>The hypotheses are satisfiable\<close>

lemma sample_free: "slash_free_table sample_stored" "slash_free [''a'']" "slash_free [''a'', ''b'']"
  using sample_pending by (auto simp: slash_free_table_def slash_free_def slash_def)

lemma sample_position:
  "Coordinate (pf_atof sample_platform (field 12 [5])) (pf_atof sample_platform (field 12 [])) =
     Some (coordinate_at 5 0)"
proof -
  have "hd (field 12 [5 :: byte]) = 5" "hd (field 12 [] :: byte list) = 0" by code_simp+
  then show ?thesis by (simp add: sample_platform_def Coordinate_def)
qed

theorem interest_stored_iff_witness:
  "\<exists>ps'. addOutgoingPkt sample_platform sample_loc (30, 0) 3 sample_interest_bytes None sample_stored = Inr (ps', LL_ERROR)"
proof -
  obtain el where "np_storage sample_stored = [el]" "el_components el = [''a'']" using sample_pending by blast
  then have "\<exists>el \<in> set (np_storage sample_stored). el_components el = [''a'']" by simp
  with interest_stored_iff [OF sample_reachable sample_free(1,2) sample_interest, of sample_loc "(30, 0)" 3 None]
  show ?thesis by auto
qed

theorem content_answers_witness:
  "\<exists>ps' el. addOutgoingPkt sample_platform sample_loc (30, 0) 3 sample_content_bytes None sample_stored = Inr (ps', DISCARD) \<and>
     set (np_storage ps') = {el}"
proof -
  obtain el where "np_storage sample_stored = [el]" "el_components el = [''a'']" using sample_pending by blast
  then have "{x \<in> set (np_storage sample_stored). \<not> prefix (el_components x) [''a'', ''b'']} = {}" by auto
  with content_answers [OF sample_reachable sample_free(1,3) sample_content, of sample_loc "(30, 0)" 3 None]
  show ?thesis by auto
qed

theorem content_heard_witness:
  "\<exists>ps'. pktFromNetwork sample_platform sample_loc True (frame [] [] [] [] sample_content_bytes) sample_stored = Inr (ps', DISCARD) \<and>
     np_storage ps' = []"
proof -
  obtain el where el: "np_storage sample_stored = [el]" "el_components el = [''a'']"
    "el_name el = append_components interestKey [''a'']" using sample_pending by blast
  have "\<forall>el \<in> set (np_storage sample_stored). el_name el \<noteq> append_components dataKey [''a'', ''b'']"
    using el keys_differ by simp
  note heard = content_heard [OF sample_reachable sample_content this, of sample_loc "[]" "[]" "[]" "[]"]
  have "{el \<in> set (np_storage sample_stored). prefix (el_components el) [''a'', ''b'']} = {el}" using el by auto
  then have "card {el \<in> set (np_storage sample_stored). prefix (el_components el) [''a'', ''b'']} \<le> 1" by simp
  with heard el show ?thesis by auto
qed

theorem interest_heard_witness:
  "\<exists>ps'. pktFromNetwork sample_platform sample_loc True (frame [] [5] [] [] sample_interest_bytes) sample_stored = Inr (ps', DISCARD) \<and>
     np_storage ps' = []"
proof -
  obtain el where el: "np_storage sample_stored = [el]" "el_nonce el = 7"
    "el_name el = append_components interestKey [''a'']" "el_ackInfo el = Some (coordinate_at 0 0)"
    using sample_pending by blast
  have mem: "el \<in> set (np_storage sample_stored)" using el by simp
  have d: "loc_getDistance sample_loc 0 0 < co_getDistance
      (coordinate_at 5 0) (coordinate_at 0 0)"
  proof -
    have "0 < DEG2RAD" by (simp add: DEG2RAD_def)
    then show ?thesis
      using meridian_distance [of "coordinate_at 0 0" 0] meridian_distance [of "coordinate_at 5 0" 0]
      by (simp add: loc_getDistance_def co_getDistance_def getCoordinate_def sample_loc_def GpsInfo_def Coordinate_def)
  qed
  have "{el \<in> set (np_storage sample_stored). el_name el = append_components interestKey [''a''] \<and> el_nonce el = 7} = {el}"
    using el by auto
  note repeated = this
  note heard = interest_heard [OF sample_reachable sample_interest, of sample_loc True "[]" "[5]" "[]" "[]",
    unfolded Let_def sample_position option.case repeated]
  have "{el} \<noteq> {}" by simp
  from heard [unfolded if_not_P [OF this]] obtain e where "{el} = {e}" and e: "case el_ackInfo e of
      None \<Rightarrow> pktFromNetwork sample_platform sample_loc True (frame [] [5] [] [] sample_interest_bytes) sample_stored = Inl NullDereference
    | Some ack \<Rightarrow> if loc_getDistance sample_loc (co_latitude ack) (co_longitude ack) < co_getDistance (coordinate_at 5 0) ack
        then \<exists>ps'. pktFromNetwork sample_platform sample_loc True (frame [] [5] [] [] sample_interest_bytes) sample_stored = Inr (ps', DISCARD) \<and>
          np_storage ps' = filter (\<lambda>x. x \<noteq> e) (np_storage sample_stored) \<and> np_up ps' = np_up sample_stored
        else \<exists>ps'. pktFromNetwork sample_platform sample_loc True (frame [] [5] [] [] sample_interest_bytes) sample_stored =
            Inr (ps', if True then DISCARD else LL_ERROR) \<and> np_storage ps' = np_storage sample_stored \<and>
          np_up ps' = np_up sample_stored @ (if True then [(sample_interest_bytes, hop_metadata sample_platform [5] [] [])] else [])"
    by (elim exE conjE) (rule that)
  then have "e = el" by simp
  with e d el(1,4) show ?thesis by auto
qed

theorem bad_position_crashes_witness:
  "\<exists>ps'. addOutgoingPkt sample_platform sample_loc (10, 20) 3 sample_interest_bytes
       (Some (LLMetadata80211AdHoc (GeoStorage 500 0))) LLNomPolicy = Inr (ps', DISCARD) \<and>
     pktFromNetwork sample_platform sample_loc True (frame [] [5] [] [] sample_interest_bytes) ps' = Inl NullDereference"
proof -
  have e: "slash_free_table LLNomPolicy" "\<forall>el \<in> set (np_storage LLNomPolicy). el_components el \<noteq> [''a'']"
    by (simp_all add: slash_free_table_def LLNomPolicy_def PacketStorage_def)
  show ?thesis
    by (rule bad_position_crashes [OF nom_reachable.start sample_interest e(1) sample_free(2) e(2) refl _ _ _ sample_position])
      (simp_all add: LLMetadata80211AdHoc_def GeoStorage_def Coordinate_def DEFAULT_COORDINATE_DOUBLE_def)
qed

end
