(* ===== verification/Ring.thy ===== *)
theory Ring
  imports VndnPrelude
begin

text \<open>
  The rings of shared memory between the ad-hoc face and the thread of its link layer
  (\<open>ll-upper-layer-comm-service.cc\<close>, \<open>ndn-adhoc-net-device-face.cc\<close>): one hundred slots, each with
  its semaphore, and an \<open>eventfd\<close> that counts the messages. Writer and reader run concurrently: a
  step is what happens between two points where the other thread can be seen. All slots start
  unused with their semaphore at one.
\<close>

section \<open>Slots and threads\<close>

definition NDNDevicePktExchangeSize :: nat where "NDNDevicePktExchangeSize = 100"

text \<open>Size, bytes and metadata of the message are one value.\<close>

record 'm slot =
  sl_mutex :: nat
  sl_used :: bool
  sl_data :: "'m option"

text \<open>
  Where the threads are: the writer holds a message it is to write, has filled the slot, has released it;
  the reader has taken a count of the trigger, has found the slot used, holds the slot, or has given
  up with an error.
\<close>

datatype 'm writer = W_idle | W_locked 'm | W_filled | W_posted

datatype reader = R_idle | R_triggered | R_checked | R_locked | R_dead

text \<open>Besides the program's state, the history: what was written, read and refused so far.\<close>

record 'm ring =
  rg_slots :: "'m slot list"
  rg_trigger :: nat
  rg_windex :: nat
  rg_rindex :: nat
  rg_wpc :: "'m writer"
  rg_rpc :: reader
  rg_accepted :: "'m list"
  rg_delivered :: "'m list"
  rg_refused :: nat

definition ring_new :: "'m ring" where
  "ring_new = \<lparr>rg_slots = replicate NDNDevicePktExchangeSize \<lparr>sl_mutex = 1, sl_used = False, sl_data = None\<rparr>,
     rg_trigger = 0, rg_windex = 0, rg_rindex = 0, rg_wpc = W_idle, rg_rpc = R_idle,
     rg_accepted = [], rg_delivered = [], rg_refused = 0\<rparr>"

section \<open>Writing\<close>

text \<open>
  \<open>writeMessageToNDN\<close>, and \<open>Send\<close> of the ad-hoc face in the other direction: \<open>sem_wait\<close>; when the
  slot is in use, return without \<open>sem_post\<close>; fill it; \<open>sem_post\<close> and advance; write the trigger.
  \<open>None\<close>: the thread waits.
\<close>

definition set_slot :: "nat \<Rightarrow> ('m slot \<Rightarrow> 'm slot) \<Rightarrow> 'm ring \<Rightarrow> 'm ring" where
  "set_slot i f s = s\<lparr>rg_slots := (rg_slots s)[i := f (rg_slots s ! i)]\<rparr>"

definition writeMessageToNDN :: "'m \<Rightarrow> 'm ring \<Rightarrow> 'm ring option" where
  "writeMessageToNDN msg s =
     (let i = rg_windex s in
      case rg_wpc s of
        W_idle \<Rightarrow>
          if sl_mutex (rg_slots s ! i) = 0 then None
          else Some (set_slot i (\<lambda>l. l\<lparr>sl_mutex := sl_mutex l - 1\<rparr>) (s\<lparr>rg_wpc := W_locked msg\<rparr>))
      | W_locked m \<Rightarrow>
          if sl_used (rg_slots s ! i) then Some (s\<lparr>rg_wpc := W_idle, rg_refused := rg_refused s + 1\<rparr>)
          else Some (set_slot i (\<lambda>l. l\<lparr>sl_used := True, sl_data := Some m\<rparr>)
                 (s\<lparr>rg_wpc := W_filled, rg_accepted := rg_accepted s @ [m]\<rparr>))
      | W_filled \<Rightarrow>
          Some (set_slot i (\<lambda>l. l\<lparr>sl_mutex := sl_mutex l + 1\<rparr>)
            (s\<lparr>rg_wpc := W_posted, rg_windex := (i + 1) mod NDNDevicePktExchangeSize\<rparr>))
      | W_posted \<Rightarrow> Some (s\<lparr>rg_wpc := W_idle, rg_trigger := rg_trigger s + 1\<rparr>))"

definition Send :: "'m \<Rightarrow> 'm ring \<Rightarrow> 'm ring option" where
  "Send = writeMessageToNDN"

section \<open>Reading\<close>

text \<open>What both readers do with the slot: take it, copy it, mark it free, release it, advance.\<close>

definition take_slot :: "'m ring \<Rightarrow> 'm ring option" where
  "take_slot s =
     (let i = rg_rindex s in
      if sl_mutex (rg_slots s ! i) = 0 then None
      else Some (set_slot i (\<lambda>l. l\<lparr>sl_mutex := sl_mutex l - 1\<rparr>) (s\<lparr>rg_rpc := R_locked\<rparr>)))"

definition copy_slot :: "'m ring \<Rightarrow> 'm ring" where
  "copy_slot s =
     (let i = rg_rindex s in
      set_slot i (\<lambda>l. l\<lparr>sl_used := False, sl_mutex := sl_mutex l + 1\<rparr>)
        (s\<lparr>rg_rpc := R_idle, rg_rindex := (i + 1) mod NDNDevicePktExchangeSize,
           rg_delivered := rg_delivered s @ (case sl_data (rg_slots s ! i) of None \<Rightarrow> [] | Some m \<Rightarrow> [m])\<rparr>))"

text \<open>\<open>readMessageFromNDN\<close> gives up with an error when the slot is not in use.\<close>

definition readMessageFromNDN :: "'m ring \<Rightarrow> 'm ring option" where
  "readMessageFromNDN s =
     (case rg_rpc s of
        R_idle \<Rightarrow> if rg_trigger s = 0 then None else Some (s\<lparr>rg_rpc := R_triggered, rg_trigger := rg_trigger s - 1\<rparr>)
      | R_triggered \<Rightarrow>
          if \<not> sl_used (rg_slots s ! rg_rindex s) then Some (s\<lparr>rg_rpc := R_dead\<rparr>) else Some (s\<lparr>rg_rpc := R_checked\<rparr>)
      | R_checked \<Rightarrow> take_slot s
      | R_locked \<Rightarrow> Some (copy_slot s)
      | R_dead \<Rightarrow> None)"

text \<open>\<open>readHandler\<close> of the ad-hoc face does not look at \<open>used\<close>.\<close>

definition adhoc_readHandler :: "'m ring \<Rightarrow> 'm ring option" where
  "adhoc_readHandler s =
     (case rg_rpc s of
        R_idle \<Rightarrow> if rg_trigger s = 0 then None else Some (s\<lparr>rg_rpc := R_triggered, rg_trigger := rg_trigger s - 1\<rparr>)
      | R_triggered \<Rightarrow> Some (s\<lparr>rg_rpc := R_checked\<rparr>)
      | R_checked \<Rightarrow> take_slot s
      | R_locked \<Rightarrow> Some (copy_slot s)
      | R_dead \<Rightarrow> None)"

section \<open>The two rings\<close>

text \<open>A ring is known by its reader: the thread of the link layer, or the face.\<close>

inductive ring_step :: "('m ring \<Rightarrow> 'm ring option) \<Rightarrow> 'm ring \<Rightarrow> 'm ring \<Rightarrow> bool" for reading where
  writes: "writeMessageToNDN msg s = Some s' \<Longrightarrow> ring_step reading s s'"
| reads: "reading s = Some s' \<Longrightarrow> ring_step reading s s'"

inductive ring_reachable :: "('m ring \<Rightarrow> 'm ring option) \<Rightarrow> 'm ring \<Rightarrow> bool" for reading where
  start: "ring_reachable reading ring_new"
| step: "ring_reachable reading s \<Longrightarrow> ring_step reading s s' \<Longrightarrow> ring_reachable reading s'"

definition is_reader :: "('m ring \<Rightarrow> 'm ring option) \<Rightarrow> bool" where
  "is_reader reading \<longleftrightarrow> reading = readMessageFromNDN \<or> reading = adhoc_readHandler"

section \<open>The invariant\<close>

text \<open>
  Messages \<open>length delivered\<close> up to \<open>length accepted\<close> are in the slots; a semaphore is zero
  exactly where a thread holds it, the writer for ever once it was refused.
\<close>

definition writer_holds :: "'m ring \<Rightarrow> bool" where
  "writer_holds s \<longleftrightarrow> rg_refused s > 0 \<or> (\<exists>m. rg_wpc s = W_locked m) \<or> rg_wpc s = W_filled"

definition holds :: "'m ring \<Rightarrow> nat \<Rightarrow> bool" where
  "holds s i \<longleftrightarrow> writer_holds s \<and> i = rg_windex s \<or> rg_rpc s = R_locked \<and> i = rg_rindex s"

abbreviation N :: nat where "N \<equiv> NDNDevicePktExchangeSize"

definition ring_inv :: "'m ring \<Rightarrow> bool" where
  "ring_inv s \<longleftrightarrow> (let k = length (rg_accepted s); d = length (rg_delivered s) in
     length (rg_slots s) = N \<and> d \<le> k \<and> k \<le> d + N \<and> rg_delivered s = take d (rg_accepted s) \<and>
     rg_windex s = (if rg_wpc s = W_filled then k - 1 else k) mod N \<and> (rg_wpc s = W_filled \<longrightarrow> k > 0) \<and>
     rg_rindex s = d mod N \<and>
     (\<forall>i < N. sl_used (rg_slots s ! i) \<longleftrightarrow> (\<exists>j. d \<le> j \<and> j < k \<and> j mod N = i)) \<and>
     (\<forall>j. d \<le> j \<and> j < k \<longrightarrow> sl_data (rg_slots s ! (j mod N)) = Some (rg_accepted s ! j)) \<and>
     (\<forall>i < N. sl_mutex (rg_slots s ! i) = (if holds s i then 0 else 1)) \<and>
     (writer_holds s \<and> rg_rpc s = R_locked \<longrightarrow> rg_windex s \<noteq> rg_rindex s) \<and>
     (rg_refused s > 0 \<longrightarrow> rg_wpc s = W_idle \<and> k = d + N) \<and>
     rg_rpc s \<noteq> R_dead \<and>
     rg_trigger s + (if rg_rpc s = R_idle then 0 else 1) + (if rg_wpc s \<in> {W_filled, W_posted} then 1 else 0) = k - d)"

lemma N_pos [simp]: "0 < N"
  by (simp add: NDNDevicePktExchangeSize_def)

lemma mod_window: "d \<le> j \<Longrightarrow> j < d + N \<Longrightarrow> d \<le> j' \<Longrightarrow> j' < d + N \<Longrightarrow> j mod N = j' mod N \<Longrightarrow> j = j'"
  for d j j' :: nat
proof (induction j j' rule: linorder_wlog)
  case (le j j')
  then have "N dvd j' - j" using mod_eq_dvd_iff_nat by metis
  moreover have "j' - j < N" using le by linarith
  ultimately show ?case using le nat_dvd_not_less by (metis diff_is_0_eq le_antisym neq0_conv)
qed simp

lemma set_slot_simps [simp]:
  "rg_trigger (set_slot i f s) = rg_trigger s" "rg_windex (set_slot i f s) = rg_windex s"
  "rg_rindex (set_slot i f s) = rg_rindex s" "rg_wpc (set_slot i f s) = rg_wpc s" "rg_rpc (set_slot i f s) = rg_rpc s"
  "rg_accepted (set_slot i f s) = rg_accepted s" "rg_delivered (set_slot i f s) = rg_delivered s"
  "rg_refused (set_slot i f s) = rg_refused s" "rg_slots (set_slot i f s) = (rg_slots s)[i := f (rg_slots s ! i)]"
  by (simp_all add: set_slot_def)

text \<open>The parts of the invariant, with the two counts.\<close>

lemma ring_invD:
  assumes "ring_inv s" and "k = length (rg_accepted s)" and "d = length (rg_delivered s)"
  shows "length (rg_slots s) = N" "d \<le> k" "k \<le> d + N" "rg_delivered s = take d (rg_accepted s)"
    "rg_windex s = (if rg_wpc s = W_filled then k - 1 else k) mod N" "rg_wpc s = W_filled \<Longrightarrow> k > 0"
    "rg_rindex s = d mod N"
    "\<And>i. i < N \<Longrightarrow> sl_used (rg_slots s ! i) \<longleftrightarrow> (\<exists>j. d \<le> j \<and> j < k \<and> j mod N = i)"
    "\<And>j. d \<le> j \<Longrightarrow> j < k \<Longrightarrow> sl_data (rg_slots s ! (j mod N)) = Some (rg_accepted s ! j)"
    "\<And>i. i < N \<Longrightarrow> sl_mutex (rg_slots s ! i) = (if holds s i then 0 else 1)"
    "writer_holds s \<Longrightarrow> rg_rpc s = R_locked \<Longrightarrow> rg_windex s \<noteq> rg_rindex s"
    "rg_refused s > 0 \<Longrightarrow> rg_wpc s = W_idle \<and> k = d + N" "rg_rpc s \<noteq> R_dead"
    "rg_trigger s + (if rg_rpc s = R_idle then 0 else 1) + (if rg_wpc s \<in> {W_filled, W_posted} then 1 else 0) = k - d"
  using assms unfolding ring_inv_def Let_def by blast+

lemma ring_invI:
  assumes "k = length (rg_accepted s)" and "d = length (rg_delivered s)"
    and "length (rg_slots s) = N" "d \<le> k" "k \<le> d + N" "rg_delivered s = take d (rg_accepted s)"
    "rg_windex s = (if rg_wpc s = W_filled then k - 1 else k) mod N" "rg_wpc s = W_filled \<Longrightarrow> k > 0"
    "rg_rindex s = d mod N"
    "\<And>i. i < N \<Longrightarrow> sl_used (rg_slots s ! i) \<longleftrightarrow> (\<exists>j. d \<le> j \<and> j < k \<and> j mod N = i)"
    "\<And>j. d \<le> j \<Longrightarrow> j < k \<Longrightarrow> sl_data (rg_slots s ! (j mod N)) = Some (rg_accepted s ! j)"
    "\<And>i. i < N \<Longrightarrow> sl_mutex (rg_slots s ! i) = (if holds s i then 0 else 1)"
    "writer_holds s \<Longrightarrow> rg_rpc s = R_locked \<Longrightarrow> rg_windex s \<noteq> rg_rindex s"
    "rg_refused s > 0 \<Longrightarrow> rg_wpc s = W_idle \<and> k = d + N" "rg_rpc s \<noteq> R_dead"
    "rg_trigger s + (if rg_rpc s = R_idle then 0 else 1) + (if rg_wpc s \<in> {W_filled, W_posted} then 1 else 0) = k - d"
  shows "ring_inv s"
  using assms unfolding ring_inv_def Let_def by blast

lemma ring_inv_new: "ring_inv ring_new"
  by (simp add: ring_inv_def ring_new_def holds_def writer_holds_def)

lemma window_full: "d \<le> j \<Longrightarrow> j < k \<Longrightarrow> k \<le> d + N \<Longrightarrow> j mod N = k mod N \<Longrightarrow> k = d + N" for d j k :: nat
  using mod_window [of d j k] by (cases "k = d + N") auto

lemma inv_writer:
  assumes inv: "ring_inv s" and step: "writeMessageToNDN msg s = Some s'"
  shows "ring_inv s'"
proof -
  let ?i = "rg_windex s"
  define k d where "k = length (rg_accepted s)" and "d = length (rg_delivered s)"
  then have len: "length (rg_accepted s) = k" "length (rg_delivered s) = d" by simp_all
  note D = ring_invD [OF inv k_def d_def]
  have dk: "min k d = d" using D(2) by simp
  have i: "?i < N" using D(5) by simp
  show ?thesis
  proof (cases "rg_wpc s")
    case W_idle
    then have free: "\<not> holds s ?i"
      and s': "s' = set_slot ?i (\<lambda>l. l\<lparr>sl_mutex := sl_mutex l - 1\<rparr>) (s\<lparr>rg_wpc := W_locked msg\<rparr>)"
      using step D(10) [OF i] by (auto simp: writeMessageToNDN_def Let_def split: if_splits)
    then have new: "\<not> writer_holds s" "\<not> (rg_rpc s = R_locked \<and> ?i = rg_rindex s)"
      by (simp_all add: holds_def)
    then have holds: "holds s' j \<longleftrightarrow> j = ?i \<or> holds s j" for j by (auto simp: s' holds_def writer_holds_def)
    show ?thesis
    proof (rule ring_invI [of k _ d])
      show "sl_used (rg_slots s' ! j) \<longleftrightarrow> (\<exists>j'. d \<le> j' \<and> j' < k \<and> j' mod N = j)" if "j < N" for j
        using D(1,8) that i by (simp add: s' nth_list_update)
      show "sl_data (rg_slots s' ! (j mod N)) = Some (rg_accepted s' ! j)" if "d \<le> j" "j < k" for j
        using D(1,9) that i by (simp add: s' nth_list_update)
      show "sl_mutex (rg_slots s' ! j) = (if holds s' j then 0 else 1)" if "j < N" for j
        using D(1,10) that i free unfolding holds by (simp add: s' nth_list_update)
      show "rg_windex s' \<noteq> rg_rindex s'" if "rg_rpc s' = R_locked" using new that by (simp add: s')
      show "rg_wpc s' = W_idle \<and> k = d + N" if "rg_refused s' > 0" using new that by (simp add: s' writer_holds_def)
    qed (use D(1-7,12-14) W_idle in \<open>simp_all add: s' len dk\<close>)
  next
    case (W_locked m)
    then have ref: "rg_refused s = 0" using D(12) by auto
    show ?thesis
    proof (cases "sl_used (rg_slots s ! ?i)")
      case True
      then have s': "s' = s\<lparr>rg_wpc := W_idle, rg_refused := rg_refused s + 1\<rparr>"
        using step W_locked by (simp add: writeMessageToNDN_def)
      obtain j where "d \<le> j" "j < k" "j mod N = k mod N" using D(8) [OF i] True D(5) W_locked by auto
      then have full: "k = d + N" using D(3) window_full by blast
      have h: "writer_holds s" "writer_holds s'" by (auto simp: writer_holds_def W_locked s')
      then have "holds s' j \<longleftrightarrow> holds s j" for j by (simp add: holds_def) (simp add: s')
      then show ?thesis
        using D(1-11,13,14) full h by (intro ring_invI [of k _ d]) (simp_all add: s' len dk W_locked)
    next
      case False
      then have s': "s' = set_slot ?i (\<lambda>l. l\<lparr>sl_used := True, sl_data := Some m\<rparr>)
          (s\<lparr>rg_wpc := W_filled, rg_accepted := rg_accepted s @ [m]\<rparr>)"
        using step W_locked by (simp add: writeMessageToNDN_def)
      have w: "?i = k mod N" using D(5) W_locked by simp
      have "k \<noteq> d + N"
      proof
        assume "k = d + N"
        then have "d \<le> d \<and> d < k \<and> d mod N = ?i" using w by simp
        then show False using D(8) [OF i] False by blast
      qed
      then have room: "k < d + N" using D(3) by simp
      have h: "holds s' j \<longleftrightarrow> holds s j" for j by (auto simp: s' holds_def writer_holds_def W_locked)
      have window: "j mod N \<noteq> ?i" if "d \<le> j" "j < k" for j
        using window_full [of d j k] that room w by auto
      show ?thesis
      proof (rule ring_invI [of "Suc k" _ d])
        show "sl_used (rg_slots s' ! j) \<longleftrightarrow> (\<exists>j'. d \<le> j' \<and> j' < Suc k \<and> j' mod N = j)" if "j < N" for j
          using D(1,2,8) that i w by (auto simp: s' nth_list_update less_Suc_eq)
        show "sl_data (rg_slots s' ! (j mod N)) = Some (rg_accepted s' ! j)" if "d \<le> j" "j < Suc k" for j
        proof (cases "j = k")
          case True
          then show ?thesis using D(1) i w by (simp add: s' nth_append len)
        next
          case False
          then have "j < k" using that by simp
          then show ?thesis using D(1,9) that(1) window [OF that(1)] by (simp add: s' nth_append len)
        qed
        show "sl_mutex (rg_slots s' ! j) = (if holds s' j then 0 else 1)" if "j < N" for j
          using D(1,10) that i unfolding h by (simp add: s' nth_list_update)
        show "rg_windex s' \<noteq> rg_rindex s'" if "rg_rpc s' = R_locked"
          using D(11) that by (simp add: s' writer_holds_def W_locked)
      qed (use D(1-7,12-14) W_locked room ref w in \<open>simp_all add: s' len dk\<close>)
    qed
  next
    case W_filled
    then have s': "s' = set_slot ?i (\<lambda>l. l\<lparr>sl_mutex := sl_mutex l + 1\<rparr>)
        (s\<lparr>rg_wpc := W_posted, rg_windex := (?i + 1) mod N\<rparr>)"
      using step W_filled by (simp add: writeMessageToNDN_def Let_def)
    have ref: "rg_refused s = 0" using D(12) W_filled by auto
    have w: "?i = (k - 1) mod N" "k > 0" using D(5,6) W_filled by simp_all
    then have nxt: "(?i + 1) mod N = k mod N" by (simp add: mod_simps)
    have was: "holds s ?i" by (simp add: holds_def writer_holds_def W_filled)
    have only: "\<not> (rg_rpc s = R_locked \<and> rg_rindex s = ?i)"
      using D(11) by (auto simp: writer_holds_def W_filled)
    then have h: "holds s' j \<longleftrightarrow> holds s j \<and> j \<noteq> ?i" for j
      using ref by (auto simp: s' holds_def writer_holds_def W_filled)
    show ?thesis
    proof (rule ring_invI [of k _ d])
      show "sl_used (rg_slots s' ! j) \<longleftrightarrow> (\<exists>j'. d \<le> j' \<and> j' < k \<and> j' mod N = j)" if "j < N" for j
        using D(1,8) that i by (simp add: s' nth_list_update)
      show "sl_data (rg_slots s' ! (j mod N)) = Some (rg_accepted s' ! j)" if "d \<le> j" "j < k" for j
        using D(1,9) that i by (simp add: s' nth_list_update)
      show "sl_mutex (rg_slots s' ! j) = (if holds s' j then 0 else 1)" if "j < N" for j
        using D(1,10) that i was unfolding h by (simp add: s' nth_list_update)
      show "rg_windex s' \<noteq> rg_rindex s'" if "writer_holds s'" using that ref by (simp add: s' writer_holds_def)
    qed (use D(1-7,12-14) W_filled ref nxt in \<open>simp_all add: s' len dk\<close>)
  next
    case W_posted
    then have s': "s' = s\<lparr>rg_wpc := W_idle, rg_trigger := rg_trigger s + 1\<rparr>"
      using step W_posted by (simp add: writeMessageToNDN_def Let_def)
    have ref: "rg_refused s = 0" using D(12) W_posted by auto
    have h: "writer_holds s' = writer_holds s" "holds s' j = holds s j" for j
      by (auto simp: s' holds_def writer_holds_def W_posted)
    show ?thesis
      using D W_posted ref h by (intro ring_invI [of k _ d]) (simp_all add: s' len dk)
  qed
qed

lemma used_window:
  assumes "ring_inv s" and "length (rg_delivered s) < length (rg_accepted s)"
  shows "sl_used (rg_slots s ! rg_rindex s)"
proof -
  note D = ring_invD [OF assms(1) refl refl]
  have "rg_rindex s < N" using D(7) by simp
  then show ?thesis using D(7,8) assms(2) by auto
qed

lemma inv_copy:
  assumes inv: "ring_inv s" and pc: "rg_rpc s = R_locked"
  shows "ring_inv (copy_slot s)" and "length (rg_delivered (copy_slot s)) = Suc (length (rg_delivered s))"
proof -
  let ?i = "rg_rindex s" and ?s' = "copy_slot s"
  define k d where "k = length (rg_accepted s)" and "d = length (rg_delivered s)"
  then have len: "length (rg_accepted s) = k" "length (rg_delivered s) = d" by simp_all
  note D = ring_invD [OF inv k_def d_def]
  have i: "?i < N" "?i = d mod N" using D(7) by simp_all
  have pending: "d < k" using D(14) pc by auto
  then have m: "sl_data (rg_slots s ! ?i) = Some (rg_accepted s ! d)" using D(9) [of d] i(2) by simp
  have sem: "holds s ?i" using pc by (simp add: holds_def)
  have ref: "rg_refused s = 0"
  proof (rule ccontr)
    assume "rg_refused s \<noteq> 0"
    then have "rg_wpc s = W_idle" "k = d + N" "writer_holds s" using D(12) by (auto simp: writer_holds_def)
    then show False using D(5,11) pc i(2) by simp
  qed
  have other: "\<not> (writer_holds s \<and> ?i = rg_windex s)" using D(11) pc by auto
  have s': "rg_slots ?s' = (rg_slots s)[?i := (rg_slots s ! ?i)\<lparr>sl_used := False, sl_mutex := sl_mutex (rg_slots s ! ?i) + 1\<rparr>]"
    "rg_rpc ?s' = R_idle" "rg_rindex ?s' = (?i + 1) mod N" "rg_delivered ?s' = rg_delivered s @ [rg_accepted s ! d]"
    "rg_wpc ?s' = rg_wpc s" "rg_windex ?s' = rg_windex s" "rg_accepted ?s' = rg_accepted s"
    "rg_refused ?s' = rg_refused s" "rg_trigger ?s' = rg_trigger s"
    using m by (simp_all add: copy_slot_def Let_def)
  show "length (rg_delivered ?s') = Suc (length (rg_delivered s))" by (simp add: s'(4))
  have wh: "writer_holds ?s' = writer_holds s" by (simp add: writer_holds_def s')
  have h: "holds ?s' j \<longleftrightarrow> holds s j \<and> j \<noteq> ?i" for j
    using other by (auto simp: holds_def wh s' pc)
  have window: "j mod N \<noteq> ?i" if "Suc d \<le> j" "j < k" for j
    using mod_window [of d j d] that i(2) D(3) by auto
  show "ring_inv ?s'"
  proof (rule ring_invI [of k _ "Suc d"])
    show "sl_used (rg_slots ?s' ! j) \<longleftrightarrow> (\<exists>j'. Suc d \<le> j' \<and> j' < k \<and> j' mod N = j)" if "j < N" for j
    proof (cases "j = ?i")
      case True
      then show ?thesis using D(1) i window by (auto simp: s')
    next
      case False
      then have "(\<exists>j'. Suc d \<le> j' \<and> j' < k \<and> j' mod N = j) \<longleftrightarrow> (\<exists>j'. d \<le> j' \<and> j' < k \<and> j' mod N = j)"
        using i(2) by (metis Suc_leD le_antisym not_less_eq_eq)
      then show ?thesis using D(8) [OF that] False by (simp add: s')
    qed
    show "sl_data (rg_slots ?s' ! (j mod N)) = Some (rg_accepted ?s' ! j)" if "Suc d \<le> j" "j < k" for j
      using D(9) [of j] that window [OF that] by (simp add: s')
    show "sl_mutex (rg_slots ?s' ! j) = (if holds ?s' j then 0 else 1)" if "j < N" for j
      using D(1,10) that i(1) sem unfolding h by (simp add: s' nth_list_update)
    show "rg_delivered ?s' = take (Suc d) (rg_accepted ?s')"
      using D(4) pending len by (simp add: s' take_Suc_conv_app_nth)
    show "rg_rindex ?s' = Suc d mod N" using i(2) by (simp add: s' mod_simps)
  qed (use D(1,3,5,6,14) pending ref len pc in \<open>auto simp: s'\<close>)
qed

lemma inv_take:
  assumes inv: "ring_inv s" and pc: "rg_rpc s = R_checked" and t: "take_slot s = Some s'"
  shows "ring_inv s'"
proof -
  let ?i = "rg_rindex s"
  define k d where "k = length (rg_accepted s)" and "d = length (rg_delivered s)"
  then have len: "length (rg_accepted s) = k" "length (rg_delivered s) = d" by simp_all
  note D = ring_invD [OF inv k_def d_def]
  have i: "?i < N" using D(7) by simp
  have free: "\<not> holds s ?i" and s': "s' = set_slot ?i (\<lambda>l. l\<lparr>sl_mutex := sl_mutex l - 1\<rparr>) (s\<lparr>rg_rpc := R_locked\<rparr>)"
    using t D(10) [OF i] by (auto simp: take_slot_def Let_def split: if_splits)
  have wh: "writer_holds s' = writer_holds s" by (simp add: writer_holds_def s')
  have h: "holds s' j \<longleftrightarrow> j = ?i \<or> holds s j" for j by (auto simp: holds_def wh) (auto simp: s' pc)
  show ?thesis
  proof (rule ring_invI [of k _ d])
    show "sl_used (rg_slots s' ! j) \<longleftrightarrow> (\<exists>j'. d \<le> j' \<and> j' < k \<and> j' mod N = j)" if "j < N" for j
      using D(1,8) that i by (simp add: s' nth_list_update)
    show "sl_data (rg_slots s' ! (j mod N)) = Some (rg_accepted s' ! j)" if "d \<le> j" "j < k" for j
      using D(1,9) that i by (simp add: s' nth_list_update)
    show "sl_mutex (rg_slots s' ! j) = (if holds s' j then 0 else 1)" if "j < N" for j
      using D(1,10) that i free unfolding h by (simp add: s' nth_list_update)
    show "rg_windex s' \<noteq> rg_rindex s'" if "writer_holds s'"
      using free that wh by (auto simp: holds_def s')
  qed (use D(1-7,12-14) len pc in \<open>simp_all add: s'\<close>)
qed

lemma inv_trigger:
  assumes inv: "ring_inv s" and "rg_rpc s = R_idle" and "rg_trigger s \<noteq> 0"
  shows "ring_inv (s\<lparr>rg_rpc := R_triggered, rg_trigger := rg_trigger s - 1\<rparr>)"
  using assms by (auto simp: ring_inv_def Let_def holds_def writer_holds_def)

lemma inv_checked:
  assumes inv: "ring_inv s" and "rg_rpc s = R_triggered"
  shows "ring_inv (s\<lparr>rg_rpc := R_checked\<rparr>)" and "sl_used (rg_slots s ! rg_rindex s)"
proof -
  show "ring_inv (s\<lparr>rg_rpc := R_checked\<rparr>)"
    using assms by (auto simp: ring_inv_def Let_def holds_def writer_holds_def)
  have "length (rg_delivered s) < length (rg_accepted s)" using ring_invD(14) [OF inv refl refl] assms(2) by auto
  then show "sl_used (rg_slots s ! rg_rindex s)" by (rule used_window [OF inv])
qed

text \<open>Under the invariant the two readers take the same steps.\<close>

lemma reader_same:
  assumes "is_reader reading" and "ring_inv s"
  shows "reading s = adhoc_readHandler s"
  using assms inv_checked(2) [OF assms(2)]
  by (auto simp: is_reader_def readMessageFromNDN_def adhoc_readHandler_def split: reader.splits)

lemma inv_reader:
  assumes "is_reader reading" and "ring_inv s" and "reading s = Some s'"
  shows "ring_inv s'"
  using assms(3) inv_trigger [OF assms(2)] inv_checked(1) [OF assms(2)] inv_take [OF assms(2)] inv_copy(1) [OF assms(2)]
  unfolding reader_same [OF assms(1,2)]
  by (auto simp: adhoc_readHandler_def split: reader.splits if_splits)

lemma ring_step_inv: "is_reader reading \<Longrightarrow> ring_step reading s s' \<Longrightarrow> ring_inv s \<Longrightarrow> ring_inv s'"
  by (erule ring_step.cases) (auto intro: inv_writer inv_reader)

lemma ring_reachable_inv:
  assumes "is_reader reading" and "ring_reachable reading s"
  shows "ring_inv s"
  using assms(2,1) by (induction rule: ring_reachable.induct) (auto simp: ring_inv_new intro: ring_step_inv)

section \<open>Runs\<close>

text \<open>A schedule: \<open>Some m\<close> is a step of the writer, with message \<open>m\<close> if it is idle; \<open>None\<close> is a step of the
  reader. A thread that waits does nothing.\<close>

definition ring_act :: "('m ring \<Rightarrow> 'm ring option) \<Rightarrow> 'm option \<Rightarrow> 'm ring \<Rightarrow> 'm ring" where
  "ring_act reading a s =
     (case (case a of Some m \<Rightarrow> writeMessageToNDN m s | None \<Rightarrow> reading s) of None \<Rightarrow> s | Some s' \<Rightarrow> s')"

definition ring_run :: "('m ring \<Rightarrow> 'm ring option) \<Rightarrow> 'm option list \<Rightarrow> 'm ring \<Rightarrow> 'm ring" where
  "ring_run reading acts s = fold (ring_act reading) acts s"

lemma reachable_act: "ring_reachable reading s \<Longrightarrow> ring_reachable reading (ring_act reading a s)"
  by (cases a) (auto simp: ring_act_def split: option.splits intro: ring_reachable.step ring_step.intros)

lemma reachable_run: "ring_reachable reading s \<Longrightarrow> ring_reachable reading (ring_run reading acts s)"
  unfolding ring_run_def by (induction acts arbitrary: s) (simp_all add: reachable_act)

lemma run_append: "ring_run reading (xs @ ys) s = ring_run reading ys (ring_run reading xs s)"
  by (simp add: ring_run_def)

section \<open>What the ring promises\<close>

text \<open>
  C11: Messages come out of the ring in the order they were written, none lost, doubled or changed, under
  every interleaving of the two threads; never more than a hundred are in it; and the reader of the
  link layer never meets the error of an unused slot.\<close>

theorem ring_fifo:
  assumes "is_reader reading" and "ring_reachable reading s"
  shows "rg_accepted s = rg_delivered s @ drop (length (rg_delivered s)) (rg_accepted s) \<and>
    length (rg_accepted s) - length (rg_delivered s) \<le> 100 \<and> rg_rpc s \<noteq> R_dead"
proof -
  note D = ring_invD [OF ring_reachable_inv [OF assms] refl refl]
  show ?thesis
    using D(2,3,4,13) append_take_drop_id [of "length (rg_delivered s)" "rg_accepted s"]
    by (simp add: NDNDevicePktExchangeSize_def)
qed

text \<open>Writing four times: one message goes in, when there is room.\<close>

lemma write_message:
  assumes inv: "ring_inv s" and "rg_wpc s = W_idle" "rg_rpc s = R_idle" "rg_refused s = 0" "length (rg_accepted s) < length (rg_delivered s) + N"
    and s': "s' = ring_run reading (replicate 4 (Some m)) s"
  shows "rg_wpc s' = W_idle \<and> rg_rpc s' = R_idle \<and> rg_refused s' = 0 \<and> rg_accepted s' = rg_accepted s @ [m] \<and> rg_delivered s' = rg_delivered s"
proof -
  note D = ring_invD [OF inv refl refl]
  have i: "rg_windex s < N" using D(5) by simp
  have sem: "sl_mutex (rg_slots s ! rg_windex s) = 1"
    using D(10) [OF i] assms(2-4) by (simp add: holds_def writer_holds_def)
  have unused: "\<not> sl_used (rg_slots s ! rg_windex s)"
    using D(5) D(8) [OF i] window_full assms(2,5) by fastforce
  show ?thesis
    using assms(2-4) sem unused i D(1)
    by (simp add: s' ring_run_def ring_act_def numeral_eq_Suc writeMessageToNDN_def Let_def)
qed

definition filled :: "('m ring \<Rightarrow> 'm ring option) \<Rightarrow> 'm \<Rightarrow> nat \<Rightarrow> 'm ring" where
  "filled reading m n = ring_run reading (replicate (4 * n) (Some m)) ring_new"

lemma filled_ring:
  assumes "is_reader reading" and "n \<le> N"
  shows "rg_wpc (filled reading m n) = W_idle \<and> rg_rpc (filled reading m n) = R_idle \<and> rg_refused (filled reading m n) = 0 \<and>
    rg_accepted (filled reading m n) = replicate n m \<and> rg_delivered (filled reading m n) = []"
  using assms(2)
proof (induction n)
  case 0
  show ?case by (simp add: filled_def ring_run_def ring_new_def)
next
  case (Suc n)
  have four: "replicate (4 * Suc n) (Some m) = replicate (4 * n) (Some m) @ replicate 4 (Some m)"
    by (simp flip: replicate_add add: add.commute)
  have f: "filled reading m (Suc n) = ring_run reading (replicate 4 (Some m)) (filled reading m n)"
    unfolding filled_def four run_append ..
  have "ring_inv (filled reading m n)"
    unfolding filled_def by (intro ring_reachable_inv [OF assms(1)] reachable_run ring_reachable.start)
  then show ?case using write_message [OF _ _ _ _ _ f] Suc by (simp add: replicate_append_same)
qed

theorem ring_fifo_witness:
  "rg_accepted (filled readMessageFromNDN ''m'' 3) = [''m'', ''m'', ''m''] \<and>
   rg_delivered (ring_run readMessageFromNDN (replicate 4 None) (filled readMessageFromNDN ''m'' 3)) =
     take (length (rg_delivered (ring_run readMessageFromNDN (replicate 4 None) (filled readMessageFromNDN ''m'' 3))))
       (rg_accepted (ring_run readMessageFromNDN (replicate 4 None) (filled readMessageFromNDN ''m'' 3)))"
proof -
  have r: "is_reader (readMessageFromNDN :: string ring \<Rightarrow> _)" by (simp add: is_reader_def)
  have "ring_reachable readMessageFromNDN (ring_run readMessageFromNDN (replicate 4 None) (filled readMessageFromNDN ''m'' 3))"
    unfolding filled_def by (intro reachable_run ring_reachable.start)
  from ring_fifo [OF r this] show ?thesis
    using filled_ring [OF r, of 3 "''m''"]
    by (simp add: NDNDevicePktExchangeSize_def numeral_eq_Suc) (metis append_eq_conv_conj)
qed

section \<open>The full ring\<close>

text \<open>Once a message was refused, nothing the threads do changes the lists.\<close>

lemma refused_step:
  assumes "is_reader reading" and inv: "ring_inv s" and "rg_refused s > 0" and "ring_step reading s s'"
  shows "reading s = Some s' \<and> rg_accepted s' = rg_accepted s \<and> rg_delivered s' = rg_delivered s \<and> rg_refused s' > 0 \<and>
    (rg_rpc s = R_idle \<and> rg_rpc s' = R_triggered \<or> rg_rpc s = R_triggered \<and> rg_rpc s' = R_checked)"
proof -
  note D = ring_invD [OF inv refl refl]
  have w: "rg_wpc s = W_idle" "writer_holds s" using D(12) assms(3) by (simp_all add: writer_holds_def)
  have same: "rg_windex s = rg_rindex s" using D(5,7,12) w(1) assms(3) by simp
  have i: "rg_rindex s < N" using D(7) by simp
  have sem: "sl_mutex (rg_slots s ! rg_rindex s) = 0" using D(10) [OF i] w(2) same by (simp add: holds_def)
  have pc: "rg_rpc s \<noteq> R_locked" using D(11) w(2) same by blast
  from assms(4) show ?thesis
  proof cases
    case (writes msg)
    then show ?thesis using sem same w(1) by (simp add: writeMessageToNDN_def Let_def)
  next
    case reads
    then show ?thesis
      using sem pc D(13) assms(3) reader_same [OF assms(1) inv]
      by (auto simp: adhoc_readHandler_def take_slot_def Let_def split: reader.splits if_splits)
  qed
qed

lemma refused_stays:
  assumes "is_reader reading" and "(ring_step reading)\<^sup>*\<^sup>* s t" and "ring_inv s" and "rg_refused s > 0"
  shows "ring_inv t \<and> rg_refused t > 0 \<and> rg_accepted t = rg_accepted s \<and> rg_delivered t = rg_delivered s"
  using assms(2) assms(3,4)
proof (induction rule: rtranclp_induct)
  case (step t u)
  then show ?case using refused_step [OF assms(1), of t u] ring_step_inv [OF assms(1), of t u] by auto
qed simp

lemma refused_waits:
  assumes "ring_inv s" and "rg_refused s > 0"
  shows "writeMessageToNDN msg s = None"
proof -
  note D = ring_invD [OF assms(1) refl refl]
  have i: "rg_windex s < N" using D(5) by simp
  have "holds s (rg_windex s)" using assms(2) by (simp add: holds_def writer_holds_def)
  then show ?thesis using D(10) [OF i] D(12) assms(2) by (simp add: writeMessageToNDN_def Let_def)
qed

text \<open>
  C13: A writer that finds the ring full gives up without releasing the semaphore. From then on
  nothing is ever written or read again: the writer waits at its next message, the reader waits with a
  hundred messages before it, and within two steps both have stopped.\<close>

theorem ring_deadlock:
  assumes "is_reader reading" and "ring_reachable reading s" and "rg_refused s > 0" and "(ring_step reading)\<^sup>*\<^sup>* s t"
  shows "rg_accepted t = rg_accepted s \<and> rg_delivered t = rg_delivered s \<and>
    length (rg_accepted t) = length (rg_delivered t) + 100 \<and> writeMessageToNDN msg t = None \<and>
    \<not> (\<exists>u. (ring_step reading ^^ 3) t u)"
proof -
  note inv = ring_reachable_inv [OF assms(1,2)]
  note T = refused_stays [OF assms(1,4) inv assms(3)]
  have "length (rg_accepted t) = length (rg_delivered t) + N" using ring_invD(12) [of t, OF _ refl refl] T by simp
  moreover have "\<not> (\<exists>u. (ring_step reading ^^ 3) t u)"
  proof
    assume "\<exists>u. (ring_step reading ^^ 3) t u"
    then obtain a b u where steps: "ring_step reading t a" "ring_step reading a b" "ring_step reading b u"
      by (auto simp: numeral_3_eq_3 elim!: relcomppE)
    have a: "ring_inv a" "rg_refused a > 0" "rg_rpc a \<noteq> R_idle"
      using refused_step [OF assms(1) _ _ steps(1)] ring_step_inv [OF assms(1) steps(1)] T by auto
    have b: "ring_inv b" "rg_refused b > 0" "rg_rpc b = R_checked"
      using refused_step [OF assms(1) a(1,2) steps(2)] ring_step_inv [OF assms(1) steps(2) a(1)] a(3) by auto
    show False using refused_step [OF assms(1) b(1,2) steps(3)] b(3) by auto
  qed
  ultimately show ?thesis using T refused_waits [of t msg] by (simp add: NDNDevicePktExchangeSize_def)
qed

text \<open>A hundred messages and one more.\<close>

lemma overfull:
  assumes "is_reader reading"
  shows "rg_refused (ring_run reading [Some m, Some m] (filled reading m 100)) = 1"
proof -
  let ?s = "filled reading m 100"
  have "ring_reachable reading ?s" unfolding filled_def by (intro reachable_run ring_reachable.start)
  then have inv: "ring_inv ?s" by (rule ring_reachable_inv [OF assms])
  note D = ring_invD [OF inv refl refl]
  have f: "rg_wpc ?s = W_idle" "rg_rpc ?s = R_idle" "rg_refused ?s = 0" "length (rg_accepted ?s) = N" "rg_delivered ?s = []"
    using filled_ring [OF assms, of 100 m] by (simp_all add: NDNDevicePktExchangeSize_def)
  have i: "rg_windex ?s < N" using D(5) by simp
  have sem: "sl_mutex (rg_slots ?s ! rg_windex ?s) = 1"
    using D(10) [OF i] f(1-3) by (simp add: holds_def writer_holds_def)
  have used: "sl_used (rg_slots ?s ! rg_windex ?s)"
    using D(8) [OF i] D(5) f by (simp add: exI [of _ 0])
  show ?thesis
    using f(1-3) sem used i D(1) by (simp add: ring_run_def ring_act_def writeMessageToNDN_def Let_def)
qed

theorem ring_deadlock_witness:
  "let s = ring_run adhoc_readHandler [Some ''m'', Some ''m''] (filled adhoc_readHandler ''m'' 100)
   in rg_refused s = 1 \<and> length (rg_accepted s) = length (rg_delivered s) + 100 \<and> writeMessageToNDN ''new'' s = None"
proof -
  let ?s = "ring_run adhoc_readHandler [Some ''m'', Some ''m''] (filled adhoc_readHandler ''m'' 100)"
  have r: "is_reader (adhoc_readHandler :: string ring \<Rightarrow> _)" by (simp add: is_reader_def)
  have "ring_reachable adhoc_readHandler ?s" unfolding filled_def by (intro reachable_run ring_reachable.start)
  from ring_deadlock [OF r this _ rtranclp.rtrancl_refl] overfull [OF r, of "''m''"] show ?thesis by (simp add: Let_def)
qed

section \<open>Reading on\<close>

fun reader_stage :: "reader \<Rightarrow> nat" where
  "reader_stage R_idle = 0"
| "reader_stage R_triggered = 1"
| "reader_stage R_checked = 2"
| "reader_stage R_locked = 3"
| "reader_stage R_dead = 0"

definition to_read :: "'m ring \<Rightarrow> nat" where
  "to_read s = 4 * (length (rg_accepted s) - length (rg_delivered s)) - reader_stage (rg_rpc s)"

definition quiet :: "'m ring \<Rightarrow> bool" where
  "quiet s \<longleftrightarrow> ring_inv s \<and> rg_refused s = 0 \<and> rg_wpc s = W_idle"

lemma quiet_end:
  assumes "quiet s" and "to_read s = 0"
  shows "rg_delivered s = rg_accepted s"
proof -
  note D = ring_invD [of s, OF _ refl refl]
  have "length (rg_delivered s) = length (rg_accepted s)"
  proof (rule ccontr)
    assume "\<not> ?thesis"
    then have "length (rg_delivered s) < length (rg_accepted s)" using D(2) assms(1) by (simp add: quiet_def)
    moreover have "reader_stage (rg_rpc s) \<le> 3" by (cases "rg_rpc s") simp_all
    ultimately show False using assms(2) by (simp add: to_read_def)
  qed
  then show ?thesis using D(4) assms(1) by (simp add: quiet_def)
qed

lemma quiet_step:
  assumes r: "is_reader reading" and q: "quiet s"
  shows "quiet (ring_act reading None s) \<and> to_read (ring_act reading None s) = to_read s - 1 \<and>
    rg_accepted (ring_act reading None s) = rg_accepted s"
proof (cases "to_read s = 0")
  case True
  have inv: "ring_inv s" "rg_wpc s = W_idle" using q by (simp_all add: quiet_def)
  have "rg_rpc s = R_idle" "rg_trigger s = 0"
    using ring_invD(14) [OF inv(1) refl refl] quiet_end [OF q True] by (auto split: if_splits)
  then have "ring_act reading None s = s"
    using reader_same [OF r inv(1)] by (simp add: ring_act_def adhoc_readHandler_def)
  then show ?thesis using True q by simp
next
  case False
  have inv: "ring_inv s" "rg_wpc s = W_idle" "\<not> writer_holds s" using q by (auto simp: quiet_def writer_holds_def)
  note D = ring_invD [OF inv(1) refl refl]
  have i: "rg_rindex s < N" using D(7) by simp
  have pending: "length (rg_delivered s) < length (rg_accepted s)" using False by (simp add: to_read_def)
  have sem: "rg_rpc s \<noteq> R_locked \<Longrightarrow> sl_mutex (rg_slots s ! rg_rindex s) = 1"
    using D(10) [OF i] inv(3) by (simp add: holds_def)
  have copy: "rg_accepted (copy_slot s) = rg_accepted s \<and> rg_refused (copy_slot s) = rg_refused s \<and> rg_wpc (copy_slot s) = rg_wpc s \<and> rg_rpc (copy_slot s) = R_idle"
    by (simp add: copy_slot_def Let_def)
  obtain s' where s': "reading s = Some s'" and acc: "rg_accepted s' = rg_accepted s" "rg_refused s' = rg_refused s" "rg_wpc s' = rg_wpc s"
    and stage: "to_read s' = to_read s - 1"
  proof (cases "rg_rpc s")
    case R_idle
    then have "rg_trigger s \<noteq> 0" using D(14) inv(2) pending by simp
    then show ?thesis using R_idle reader_same [OF r inv(1)] that by (simp add: adhoc_readHandler_def to_read_def)
  next
    case R_triggered
    then show ?thesis using reader_same [OF r inv(1)] that by (simp add: adhoc_readHandler_def to_read_def)
  next
    case R_checked
    then show ?thesis using reader_same [OF r inv(1)] sem that by (simp add: adhoc_readHandler_def take_slot_def Let_def to_read_def)
  next
    case R_locked
    then show ?thesis
      using reader_same [OF r inv(1)] copy inv_copy(2) [OF inv(1) R_locked] pending that
      by (simp add: adhoc_readHandler_def to_read_def)
  next
    case R_dead
    then show ?thesis using D(13) by simp
  qed
  then show ?thesis using inv_reader [OF r inv(1)] q by (simp add: ring_act_def quiet_def)
qed

lemma quiet_run:
  assumes "is_reader reading" and "quiet s" and "to_read s \<le> n"
  shows "rg_delivered (ring_run reading (replicate n None) s) = rg_accepted s"
  using assms(2,3)
proof (induction n arbitrary: s)
  case 0
  then show ?case by (simp add: ring_run_def quiet_end)
next
  case (Suc n)
  then show ?case using quiet_step [OF assms(1) Suc.prems(1)] by (simp add: ring_run_def)
qed

text \<open>
  C12: As long as no message was refused, whatever the threads did before, a reader that runs while
  the writer rests receives every message written, in four steps for each at most.\<close>

theorem ring_progress:
  assumes "is_reader reading" and "ring_reachable reading s" and "rg_refused s = 0" and "rg_wpc s = W_idle"
    and "4 * (length (rg_accepted s) - length (rg_delivered s)) \<le> n"
  shows "rg_delivered (ring_run reading (replicate n None) s) = rg_accepted s"
  using assms ring_reachable_inv [OF assms(1,2)] by (intro quiet_run) (simp_all add: quiet_def to_read_def)

theorem ring_progress_witness:
  "rg_delivered (ring_run readMessageFromNDN (replicate 400 None) (filled readMessageFromNDN ''m'' 100)) = replicate 100 ''m''"
proof -
  have r: "is_reader (readMessageFromNDN :: string ring \<Rightarrow> _)" by (simp add: is_reader_def)
  have "ring_reachable readMessageFromNDN (filled readMessageFromNDN ''m'' 100)"
    unfolding filled_def by (intro reachable_run ring_reachable.start)
  from ring_progress [OF r this, of 400] show ?thesis
    using filled_ring [OF r, of 100 "''m''"] by (simp add: NDNDevicePktExchangeSize_def)
qed

end
