(* ===== verification/RawSocket.thy ===== *)
theory RawSocket
  imports VndnPrelude
begin

text \<open>
  The raw socket (\<open>network/mac/ndnsock/ndn-raw-socket.cc\<close>): packets travel in Ethernet frames of the
  daemon's own protocol. What the operating system answers is an argument: the file descriptor of a
  new socket, the hardware address of a device (\<open>None\<close> when it has none) and whether it can be bound, the
  outcome of \<open>sendto\<close> and \<open>recvfrom\<close>. \<open>llcOffset\<close> is zero.
\<close>

section \<open>The socket\<close>

type_synonym device_query = "byte list option \<times> bool"

record raw_socket =
  rs_socketId :: int
  rs_deviceName :: string
  rs_sll_addr :: "byte list"
  rs_h_dest :: "byte list"
  rs_h_source :: "byte list"
  rs_destinationIsSet :: bool

definition NULLDEVICE :: string where "NULLDEVICE = ''empty''"

definition MACPROTO :: "byte list" where "MACPROTO = [0x88, 0xb5]"

definition ETH_ALEN :: nat where "ETH_ALEN = 6"

definition sizeof_ethhdr :: nat where "sizeof_ethhdr = 14"

definition setSockAddr :: "raw_socket \<Rightarrow> int" where
  "setSockAddr rs = (if rs_socketId rs \<le> 0 then -1 else 1)"

definition setSourceMacAddress :: "string \<Rightarrow> device_query \<Rightarrow> raw_socket \<Rightarrow> raw_socket \<times> int" where
  "setSourceMacAddress newDeviceName query rs =
     (if newDeviceName = NULLDEVICE then (rs, -1)
      else if rs_socketId rs \<le> 0 then (rs, -1)
      else
        let rs = rs\<lparr>rs_deviceName := newDeviceName\<rparr> in
        case fst query of
          None \<Rightarrow> (rs, -1)
        | Some mac \<Rightarrow> (rs\<lparr>rs_h_source := mac\<rparr>, if snd query then 1 else -1))"

definition NdnRawSocket :: "string \<Rightarrow> int \<Rightarrow> device_query \<Rightarrow> fault + raw_socket" where
  "NdnRawSocket deviceNameP socketId query =
     (if socketId = -1 then Inl NdnSocketException
      else
        let rs = \<lparr>rs_socketId = socketId, rs_deviceName = NULLDEVICE, rs_sll_addr = replicate ETH_ALEN 0,
                  rs_h_dest = replicate ETH_ALEN 0, rs_h_source = replicate ETH_ALEN 0, rs_destinationIsSet = False\<rparr>
        in if setSockAddr rs = -1 then Inl NdnSocketException
           else
             case setSourceMacAddress deviceNameP query rs of
               (rs, res) \<Rightarrow> if res = -1 then Inl NdnSocketException else Inr rs)"

definition closeSocket :: "raw_socket \<Rightarrow> raw_socket" where
  "closeSocket rs = rs\<lparr>rs_socketId := -1, rs_destinationIsSet := False, rs_deviceName := NULLDEVICE\<rparr>"

definition unsetDevice :: "int \<Rightarrow> raw_socket \<Rightarrow> fault + raw_socket" where
  "unsetDevice socketId rs =
     (if rs_deviceName rs = NULLDEVICE then Inr rs
      else if socketId = -1 then Inl NdnSocketException
      else Inr (rs\<lparr>rs_deviceName := NULLDEVICE, rs_socketId := socketId\<rparr>))"

definition setDevice :: "string \<Rightarrow> int \<Rightarrow> device_query \<Rightarrow> raw_socket \<Rightarrow> fault + raw_socket" where
  "setDevice newDeviceName socketId query rs =
     bindr (unsetDevice socketId rs) (\<lambda>rs.
       case setSourceMacAddress newDeviceName query rs of
         (rs, res) \<Rightarrow> if res = -1 then Inl NdnSocketException else Inr rs)"

definition setDestSockAddr :: "byte list \<Rightarrow> raw_socket \<Rightarrow> raw_socket" where
  "setDestSockAddr destMacAddress rs = rs\<lparr>rs_sll_addr := destMacAddress\<rparr>"

definition setDestEthHeader :: "byte list \<Rightarrow> raw_socket \<Rightarrow> raw_socket" where
  "setDestEthHeader destMacAddress rs = rs\<lparr>rs_h_dest := destMacAddress\<rparr>"

definition setDestination :: "byte list \<Rightarrow> raw_socket \<Rightarrow> raw_socket" where
  "setDestination destMacAddress rs =
     (setDestEthHeader destMacAddress (setDestSockAddr destMacAddress rs))\<lparr>rs_destinationIsSet := True\<rparr>"

definition unsetDestination :: "raw_socket \<Rightarrow> raw_socket" where
  "unsetDestination rs = rs\<lparr>rs_destinationIsSet := False\<rparr>"

section \<open>Frames\<close>

definition ethernet :: "byte list \<Rightarrow> raw_socket \<Rightarrow> byte list \<Rightarrow> byte list" where
  "ethernet dest rs data = dest @ rs_h_source rs @ MACPROTO @ data"

text \<open>The frame that goes out and the number of bytes sent.\<close>

definition rs_send :: "byte list \<Rightarrow> bool \<Rightarrow> raw_socket \<Rightarrow> fault + byte list \<times> nat" where
  "rs_send data sendto rs =
     (if rs_socketId rs = -1 then Inl NdnSocketException
      else if rs_deviceName rs = NULLDEVICE then Inl NdnSocketException
      else if \<not> rs_destinationIsSet rs then Inl NdnSocketException
      else if \<not> sendto then Inl NdnSocketException
      else Inr (ethernet (rs_h_dest rs) rs data, length data))"

definition rs_sendTo :: "byte list \<Rightarrow> byte list \<Rightarrow> bool \<Rightarrow> raw_socket \<Rightarrow> fault + byte list \<times> nat" where
  "rs_sendTo data destMacAddress sendto rs =
     (if rs_socketId rs = -1 then Inl NdnSocketException
      else if rs_deviceName rs = NULLDEVICE then Inl NdnSocketException
      else if \<not> sendto then Inl NdnSocketException
      else Inr (ethernet destMacAddress rs data, length data))"

text \<open>In a frame shorter than its header the protocol is memory that was never written.\<close>

definition extractDataFromPacket :: "byte list \<Rightarrow> bool \<Rightarrow> fault + byte list" where
  "extractDataFromPacket dataWithHeader flag =
     (if length dataWithHeader < sizeof_ethhdr then Inl UndefinedBehaviour
      else if take 2 (drop (2 * ETH_ALEN) dataWithHeader) = MACPROTO then
        Inr ((if flag then take ETH_ALEN (drop ETH_ALEN dataWithHeader) else []) @ drop sizeof_ethhdr dataWithHeader)
      else Inr [])"

text \<open>\<open>recvfrom\<close> cuts a frame that is too long.\<close>

definition rs_read :: "nat \<Rightarrow> bool \<Rightarrow> byte list option \<Rightarrow> raw_socket \<Rightarrow> fault + byte list" where
  "rs_read maxSize flag recvfrom rs =
     (if rs_deviceName rs = NULLDEVICE then Inl NdnSocketException
      else if rs_socketId rs < 0 then Inl NdnSocketException
      else
        case recvfrom of
          None \<Rightarrow> Inl NdnSocketException
        | Some fr \<Rightarrow> extractDataFromPacket (take (maxSize + sizeof_ethhdr) fr) flag)"

section \<open>Sending and receiving\<close>

definition usable :: "raw_socket \<Rightarrow> bool" where
  "usable rs \<longleftrightarrow> 0 < rs_socketId rs \<and> rs_deviceName rs \<noteq> NULLDEVICE \<and> rs_destinationIsSet rs \<and>
     length (rs_h_dest rs) = ETH_ALEN"

lemma new_socket_usable:
  assumes "NdnRawSocket devname socketId query = Inr rs" and "length dest = ETH_ALEN"
  shows "usable (setDestination dest rs)"
  using assms
  by (auto simp: NdnRawSocket_def usable_def setDestination_def setDestEthHeader_def setDestSockAddr_def setSockAddr_def
      setSourceMacAddress_def Let_def split: if_splits option.splits)

lemma setDestination_fields [simp]:
  "rs_h_dest (setDestination dest rs) = dest" "rs_h_source (setDestination dest rs) = rs_h_source rs"
  by (simp_all add: setDestination_def setDestEthHeader_def setDestSockAddr_def)

lemma new_socket_source:
  "NdnRawSocket devname socketId query = Inr rs \<Longrightarrow> fst query = Some (rs_h_source rs)"
  by (auto simp: NdnRawSocket_def setSourceMacAddress_def Let_def split: if_splits option.splits)

lemma send_usable: "usable rs \<Longrightarrow> rs_send data True rs = Inr (ethernet (rs_h_dest rs) rs data, length data)"
  by (auto simp: usable_def rs_send_def)

lemma read_ethernet:
  assumes "usable rs" and "length dest = ETH_ALEN" and "length (rs_h_source from) = ETH_ALEN"
    and "length data \<le> maxSize"
  shows "rs_read maxSize True (Some (ethernet dest from data)) rs = Inr (rs_h_source from @ data)"
  using assms by (auto simp: usable_def rs_read_def ethernet_def extractDataFromPacket_def MACPROTO_def ETH_ALEN_def
      sizeof_ethhdr_def)

end
