(* ===== verification/Adapter.thy ===== *)
theory Adapter
  imports Overhear RawSocket
begin

text \<open>
  The device adapter (\<open>network/mac/ndn-device-adapter.cc\<close>): the loop that connects a network device,
  the link-layer policy, the daemon and gpsd. One round of the loop is a function of what happens
  in it: the answer of \<open>select\<close>, what can be read, the clocks, and whether sockets work.
\<close>

section \<open>What happens in a round\<close>

datatype gps_connect = NoSocket | NoRequest | Connected

datatype select_result = SelectError | TimerExpired | Ready

text \<open>
  A failed read leaves the length of the last packet, whatever it was, in \<open>len\<close>.
\<close>

datatype network_event = Frame "byte list" | ReadFails nat

datatype daemon_event = DaemonPacket "byte list" "adhoc_metadata option" | DaemonFails

datatype gps_event = GpsClosed | GpsFails | GpsData "byte list"

text \<open>
  \<open>in_now\<close>, \<open>in_clock\<close> and \<open>in_end\<close> are the time after \<open>select\<close>, in the policy and at the end of the round.
\<close>

record inputs =
  in_connect :: gps_connect
  in_select :: select_result
  in_network :: "network_event option"
  in_daemon :: "daemon_event option"
  in_gps :: "gps_event option"
  in_sendto :: bool
  in_reconnect :: "int \<times> device_query"
  in_rand :: nat
  in_room :: bool
  in_now :: timeval
  in_clock :: timeval
  in_end :: timeval

section \<open>The adapter\<close>

text \<open>
  \<open>ad_gps\<close> holds when \<open>gpsdSocket\<close> is not \<open>-1\<close>, \<open>None\<close> is \<open>NOTIMER\<close>, and \<open>ad_sent\<close> keeps the frames that went
  out, oldest first.
\<close>

record adapter =
  ad_name :: string
  ad_policy :: nom_policy
  ad_socket :: raw_socket
  ad_location :: location_service
  ad_gps :: bool
  ad_deadline :: "(int \<times> int) option"
  ad_nextStatisticUpdate :: timeval
  ad_sent :: "byte list list"

definition STATISTIC_FREQUENCY_UPDATE :: nat where "STATISTIC_FREQUENCY_UPDATE = 10"

definition broadcastAddr :: "byte list" where "broadcastAddr = replicate ETH_ALEN 0xff"

definition gps_connected :: "gps_connect \<Rightarrow> bool" where "gps_connected c \<longleftrightarrow> c = Connected"

text \<open>The constructor and the first request to gpsd.\<close>

definition NDNDeviceAdapter ::
    "platform \<Rightarrow> string \<Rightarrow> int \<Rightarrow> device_query \<Rightarrow> gps_connect \<Rightarrow> geo_map \<Rightarrow> timeval \<Rightarrow> fault + adapter" where
  "NDNDeviceAdapter pf devname socketId query gps map' now =
     bindr (LocationService pf map') (\<lambda>location.
     bindr (NdnRawSocket devname socketId query) (\<lambda>ndnSocket.
       Inr \<lparr>ad_name = devname, ad_policy = LLNomPolicy, ad_socket = setDestination broadcastAddr ndnSocket,
            ad_location = location, ad_gps = gps_connected gps, ad_deadline = None,
            ad_nextStatisticUpdate = (fst now + STATISTIC_FREQUENCY_UPDATE, snd now), ad_sent = []\<rparr>))"

definition connectToNDNSocket :: "int \<times> device_query \<Rightarrow> adapter \<Rightarrow> adapter option" where
  "connectToNDNSocket reconnect ad =
     (case NdnRawSocket (ad_name ad) (fst reconnect) (snd reconnect) of
        Inl e \<Rightarrow> None
      | Inr ndnSocket \<Rightarrow> Some (ad\<lparr>ad_socket := setDestination broadcastAddr ndnSocket\<rparr>))"

definition gps_reconnect :: "platform \<Rightarrow> inputs \<Rightarrow> adapter \<Rightarrow> fault + adapter" where
  "gps_reconnect pf i ad =
     (if ad_gps ad then Inr ad
      else
        case in_connect i of
          Connected \<Rightarrow> Inr (ad\<lparr>ad_gps := True\<rparr>)
        | NoRequest \<Rightarrow> Inr ad
        | NoSocket \<Rightarrow> bindr (noValidData pf (ad_location ad)) (\<lambda>location. Inr (ad\<lparr>ad_location := location\<rparr>)))"

definition selectForGpsd :: "adapter \<Rightarrow> bool" where
  "selectForGpsd ad \<longleftrightarrow> ad_deadline ad = None \<and> \<not> ad_gps ad"

definition select_timeout :: "adapter \<Rightarrow> (int \<times> int) option" where
  "select_timeout ad = (if ad_deadline ad = None \<and> \<not> ad_gps ad then Some (2, 0) else ad_deadline ad)"

definition statistic_update :: "timeval \<Rightarrow> adapter \<Rightarrow> adapter" where
  "statistic_update tt ad =
     (if fst tt > fst (ad_nextStatisticUpdate ad) \<or>
         fst tt = fst (ad_nextStatisticUpdate ad) \<and> snd tt > snd (ad_nextStatisticUpdate ad)
      then ad\<lparr>ad_policy := printStatistic (ad_policy ad),
              ad_nextStatisticUpdate := (fst tt + STATISTIC_FREQUENCY_UPDATE, snd tt)\<rparr>
      else ad)"

definition position :: "adapter \<Rightarrow> gps_info" where "position ad = ls_position (ad_location ad)"

text \<open>The boolean of a result says whether the loop goes on; otherwise \<open>start\<close> returns \<open>-1\<close>.\<close>

definition reconnect_or_end :: "inputs \<Rightarrow> adapter \<Rightarrow> bool \<times> adapter" where
  "reconnect_or_end i ad =
     (case connectToNDNSocket (in_reconnect i) ad of None \<Rightarrow> (False, ad) | Some ad \<Rightarrow> (True, ad))"

definition timer_expired :: "inputs \<Rightarrow> adapter \<Rightarrow> bool \<times> adapter" where
  "timer_expired i ad =
     (case getPktForRetransmission (position ad) (in_clock i) (ad_policy ad) of
        (ps, r) \<Rightarrow>
          let ad = ad\<lparr>ad_policy := ps\<rparr> in
          case r of
            None \<Rightarrow> (True, ad)
          | Some buffer \<Rightarrow>
              (case rs_send buffer (in_sendto i) (ad_socket ad) of
                 Inl e \<Rightarrow> reconnect_or_end i ad
               | Inr (fr, n) \<Rightarrow> (True, ad\<lparr>ad_sent := ad_sent ad @ [fr]\<rparr>)))"

text \<open>
  After a failed read the cleared buffer is handled as a packet of the old length. The policy hands
  packets to the daemon itself: it never answers \<open>GOUPLAYER\<close>.
\<close>

definition handle_network :: "platform \<Rightarrow> inputs \<Rightarrow> byte list \<Rightarrow> adapter \<Rightarrow> fault + bool \<times> adapter" where
  "handle_network pf i buffer ad =
     bindr (pktFromNetwork pf (position ad) (in_room i) buffer (ad_policy ad)) (\<lambda>(ps, cmd).
       Inr (True, ad\<lparr>ad_policy := ps\<rparr>))"

definition read_failed :: "platform \<Rightarrow> inputs \<Rightarrow> nat \<Rightarrow> adapter \<Rightarrow> fault + bool \<times> adapter" where
  "read_failed pf i len ad =
     (case reconnect_or_end i ad of
        (go, ad) \<Rightarrow>
          if \<not> go then Inr (False, ad)
          else if len > MAXNETWORKPKTSIZE then Inl UndefinedBehaviour
          else handle_network pf i (replicate len 0) ad)"

definition packet_from_network :: "platform \<Rightarrow> inputs \<Rightarrow> network_event \<Rightarrow> adapter \<Rightarrow> fault + bool \<times> adapter" where
  "packet_from_network pf i event ad =
     (case event of
        ReadFails len \<Rightarrow> read_failed pf i len ad
      | Frame fr \<Rightarrow> bindr (rs_read MAXNETWORKPKTSIZE True (Some fr) (ad_socket ad)) (\<lambda>buffer. handle_network pf i buffer ad))"

text \<open>The policy stores what it is given: it never answers \<open>GOTONETWORK\<close>.\<close>

definition packet_from_daemon :: "platform \<Rightarrow> inputs \<Rightarrow> daemon_event \<Rightarrow> adapter \<Rightarrow> fault + bool \<times> adapter" where
  "packet_from_daemon pf i event ad =
     (case event of
        DaemonFails \<Rightarrow> Inr (False, ad)
      | DaemonPacket buffer metadata \<Rightarrow>
          bindr (addOutgoingPkt pf (position ad) (in_clock i) (in_rand i) buffer metadata (ad_policy ad)) (\<lambda>(ps, cmd).
            Inr (True, ad\<lparr>ad_policy := ps\<rparr>)))"

text \<open>
  \<open>parseData\<close> ends the report with a null byte at its length, which is \<open>-1\<close> after a failed read.
\<close>

definition report_from_gpsd :: "platform \<Rightarrow> road_env \<Rightarrow> gps_event \<Rightarrow> adapter \<Rightarrow> fault + adapter" where
  "report_from_gpsd pf env event ad =
     (if \<not> ad_gps ad then Inr ad
      else case event of
             GpsClosed \<Rightarrow> Inr (ad\<lparr>ad_gps := False\<rparr>)
           | GpsFails \<Rightarrow> Inl UndefinedBehaviour
           | GpsData buffer \<Rightarrow>
               bindr (updatePosition pf env (take MAXNETWORKPKTSIZE buffer) (ad_location ad)) (\<lambda>location.
                 Inr (ad\<lparr>ad_location := location\<rparr>)))"

definition next_timeout :: "int \<times> int \<Rightarrow> timeval \<Rightarrow> int \<times> int" where
  "next_timeout deadline now =
     (let aux_sec = int (fst now); aux_usec = int (snd now) in
      if fst deadline < aux_sec \<or> fst deadline = aux_sec \<and> snd deadline < aux_usec then (0, 0)
      else
        let sec = (if snd deadline < aux_usec then fst deadline - 1 else fst deadline);
            usec = (snd deadline - aux_usec + 1000000) mod 1000000
        in (sec - aux_sec, usec))"

definition set_next_deadline :: "timeval \<Rightarrow> adapter \<Rightarrow> adapter" where
  "set_next_deadline now ad =
     ad\<lparr>ad_deadline := (case getNextDeadline (ad_policy ad) of
                         None \<Rightarrow> None
                       | Some deadline \<Rightarrow> Some (next_timeout deadline now))\<rparr>"

text \<open>Handling an event that may not have occurred, unless the loop has ended.\<close>

definition on_event :: "'e option \<Rightarrow> ('e \<Rightarrow> adapter \<Rightarrow> fault + bool \<times> adapter) \<Rightarrow> bool \<times> adapter \<Rightarrow> fault + bool \<times> adapter" where
  "on_event event f r =
     (case r of (go, ad) \<Rightarrow>
        if \<not> go then Inr (False, ad) else case event of None \<Rightarrow> Inr (True, ad) | Some e \<Rightarrow> f e ad)"

definition adapter_round :: "platform \<Rightarrow> road_env \<Rightarrow> inputs \<Rightarrow> adapter \<Rightarrow> fault + bool \<times> adapter" where
  "adapter_round pf env i ad =
     bindr (gps_reconnect pf i ad) (\<lambda>ad.
       if in_select i = SelectError then Inr (False, ad)
       else
         let forGpsd = selectForGpsd ad;
             ad = statistic_update (in_now i) ad;
             ready = (in_select i = Ready)
         in bindr
              (if in_select i = TimerExpired \<and> \<not> forGpsd then Inr (timer_expired i ad)
               else bindr (on_event (if ready then in_network i else None) (packet_from_network pf i) (True, ad))
                      (on_event (if ready then in_daemon i else None) (packet_from_daemon pf i)))
              (\<lambda>r. bindr (on_event (if ready then in_gps i else None)
                             (\<lambda>e ad. bindr (report_from_gpsd pf env e ad) (\<lambda>ad. Inr (True, ad))) r)
                (\<lambda>(go, ad). Inr (go, if go then set_next_deadline (in_end i) ad else ad))))"

section \<open>Reachable states\<close>

definition handed :: "inputs \<Rightarrow> byte list set" where
  "handed i = (case in_daemon i of Some (DaemonPacket buffer metadata) \<Rightarrow> {buffer} | _ \<Rightarrow> {})"

text \<open>The set holds the packets that the daemon has handed over.\<close>

inductive adapter_reachable :: "platform \<Rightarrow> road_env \<Rightarrow> byte list set \<Rightarrow> adapter \<Rightarrow> bool" for pf env where
  start: "NDNDeviceAdapter pf devname socketId query gps map' now = Inr ad \<Longrightarrow> adapter_reachable pf env {} ad"
| "round": "adapter_reachable pf env pkts ad \<Longrightarrow> adapter_round pf env i ad = Inr (True, ad') \<Longrightarrow>
    adapter_reachable pf env (pkts \<union> handed i) ad'"

text \<open>The two branches left out above, for packets that the policy leaves to the adapter, are never taken.\<close>

lemma policy_never_delegates:
  "pktFromNetwork pf loc room pkt ps = Inr (ps', cmd) \<Longrightarrow> cmd \<noteq> GOUPLAYER"
  "addOutgoingPkt pf loc tt rand pkt metadata ps = Inr (ps', cmd) \<Longrightarrow> cmd \<noteq> GOTONETWORK"
  by (auto simp: pktFromNetwork_def Let_def bindr_eq_Inr split: if_splits)
    (auto simp: store_outgoing_def Let_def dest!: addOutgoing_cases split: prod.splits if_splits)

section \<open>The invariant\<close>

text \<open>A packet of the daemon behind a printed position.\<close>

definition headed :: "byte list set \<Rightarrow> byte list \<Rightarrow> bool" where
  "headed pkts data \<longleftrightarrow> (\<exists>lat lon pkt. pkt \<in> pkts \<and> length lat = 12 \<and> length lon = 12 \<and> length pkt \<le> BUFLEN \<and>
     data = lat @ lon @ htonl_75 @ pkt)"

definition stored_ok :: "byte list set \<Rightarrow> linkLayerPktElement \<Rightarrow> bool" where
  "stored_ok pkts el \<longleftrightarrow> headed pkts (el_data el) \<and> el_size el = word_of_nat (length (el_data el)) \<and>
     unat (snd (el_timer el)) < 1000000"

definition air_frame :: "byte list set \<Rightarrow> byte list \<Rightarrow> bool" where
  "air_frame pkts fr \<longleftrightarrow> (\<exists>mac data. fr = broadcastAddr @ mac @ MACPROTO @ data \<and> headed pkts data)"

definition printed :: "location_service \<Rightarrow> bool" where
  "printed ls \<longleftrightarrow> length (gp_latChar (ls_position ls)) = GPS_STRING_SIZE \<and>
     length (gp_longitudeChar (ls_position ls)) = GPS_STRING_SIZE"

definition adapter_inv :: "platform \<Rightarrow> byte list set \<Rightarrow> adapter \<Rightarrow> bool" where
  "adapter_inv pf pkts ad \<longleftrightarrow> nom_reachable pf (ad_policy ad) \<and> printed (ad_location ad) \<and>
     usable (ad_socket ad) \<and> rs_h_dest (ad_socket ad) = broadcastAddr \<and>
     (\<forall>el \<in> set (np_storage (ad_policy ad)). stored_ok pkts el) \<and> (\<forall>fr \<in> set (ad_sent ad). air_frame pkts fr)"

lemma headed_mono: "headed pkts data \<Longrightarrow> pkts \<subseteq> pkts' \<Longrightarrow> headed pkts' data"
  unfolding headed_def by blast

lemma stored_ok_mono: "stored_ok pkts el \<Longrightarrow> pkts \<subseteq> pkts' \<Longrightarrow> stored_ok pkts' el"
  using headed_mono by (auto simp: stored_ok_def)

lemma air_frame_mono: "air_frame pkts fr \<Longrightarrow> pkts \<subseteq> pkts' \<Longrightarrow> air_frame pkts' fr"
  using headed_mono unfolding air_frame_def by blast

lemma adapter_inv_policy:
  assumes "adapter_inv pf pkts ad" and "nom_step pf (ad_policy ad) ps" and "pkts \<subseteq> pkts'"
    and "\<forall>el \<in> set (np_storage ps). stored_ok pkts' el"
  shows "adapter_inv pf pkts' (ad\<lparr>ad_policy := ps\<rparr>)"
  using assms nom_reachable.step air_frame_mono by (fastforce simp: adapter_inv_def)

lemma adapter_inv_mono: "adapter_inv pf pkts ad \<Longrightarrow> pkts \<subseteq> pkts' \<Longrightarrow> adapter_inv pf pkts' ad"
  using stored_ok_mono air_frame_mono by (fastforce simp: adapter_inv_def)

subsection \<open>The position\<close>

lemma setPosition_printed:
  "setPosition pf latit lon alt speed heading loc = Inr loc' \<Longrightarrow>
     length (gp_latChar loc') = GPS_STRING_SIZE \<and> length (gp_longitudeChar loc') = GPS_STRING_SIZE"
  by (auto simp: setPosition_def bindr_eq_Inr print_coordinate_length)

lemma noValidData_printed: "noValidData pf ls = Inr ls' \<Longrightarrow> printed ls'"
  by (auto simp: noValidData_def bindr_eq_Inr printed_def dest: setPosition_printed)

lemma parseData_printed:
  "parseData pf bytes info = Inr (Some info') \<Longrightarrow>
     length (gp_latChar info') = GPS_STRING_SIZE \<and> length (gp_longitudeChar info') = GPS_STRING_SIZE"
  by (auto simp: parseData_def Let_def bindr_eq_Inr dest: setPosition_printed split: if_splits option.splits)

lemma updateMapInfo_position: "updateMapInfo env ls = Inr ls' \<Longrightarrow> ls_position ls' = ls_position ls"
  by (auto simp: updateMapInfo_def Let_def bindr_eq_Inr split: option.splits)

lemma updatePosition_printed: "updatePosition pf env buffer ls = Inr ls' \<Longrightarrow> printed ls \<Longrightarrow> printed ls'"
  by (auto simp: updatePosition_def bindr_eq_Inr printed_def dest!: parseData_printed updateMapInfo_position
      split: option.splits)

subsection \<open>The policy\<close>

lemma timers_valid:
  "unat (snd (calculateNextTimer tt)) < 1000000" "unat (snd (calculateFirstTransmission loc tt rand g)) < 1000000"
proof -
  have m: "unat (word_of_nat (k mod 1000000) :: u32) < 1000000" for k
  proof -
    have "k mod 1000000 < 1000000" by simp
    moreover from this have "k mod 1000000 < 2 ^ 32" by (rule order_less_trans) simp
    ultimately show ?thesis by (simp add: unat_of_nat)
  qed
  show "unat (snd (calculateNextTimer tt)) < 1000000" "unat (snd (calculateFirstTransmission loc tt rand g)) < 1000000"
    unfolding calculateNextTimer_def calculateFirstTransmission_def Let_def snd_conv by (rule m)+
qed

lemma insertPkt_elements:
  assumes "insertPkt data limit nm c nonce time geo ack st = (st', ok)"
  shows "set st' \<subseteq> insert (new_element data limit nm c nonce time geo ack) (set st)"
proof -
  have "st' = st \<or> st' = link_key el_timer (new_element data limit nm c nonce time geo ack) st"
    using assms unfolding insertPkt_def Let_def by (auto split: if_splits)
  then show ?thesis by auto
qed

lemma store_elements:
  assumes "store_outgoing loc tt rand pkt metadata isContent nm c nonce ps = (ps', cmd)" and "el \<in> set (np_storage ps')"
  shows "el \<in> set (np_storage ps) \<or> (el_data el = setLLHeader loc pkt \<and>
    el_size el = word_of_nat (length (el_data el)) \<and> unat (snd (el_timer el)) < 1000000)"
proof -
  define hop where "hop = md_previousHop (the metadata)"
  define locally where "locally \<longleftrightarrow> metadata = None \<or> hop = md_previousHop (the metadata) \<and>
      (gs_lat hop = DEFAULT_COORDINATE_DOUBLE \<or> gs_longitude hop = DEFAULT_COORDINATE_DOUBLE)"
  let ?time = "calculateFirstTransmission loc tt rand (if locally then None else Some hop)"
  let ?geo = "if locally then GeoStorage (getLatitude loc) (getLongitude loc) else hop"
  let ?ack = "createAckInfo loc (if locally then None else Some hop)"
  obtain st ok where ins: "insertPkt (setLLHeader loc pkt) maxRetransmissionNumber nm c nonce ?time ?geo ?ack (np_storage ps) =
      (st, ok)" by (rule prod.exhaust)
  then have "np_storage ps' = st" using store_insert [OF ins locally_def] assms(1) by (auto simp: hop_def)
  moreover have "unat (snd ?time) < 1000000" by (rule timers_valid(2))
  moreover have "el \<in> insert (new_element (setLLHeader loc pkt) maxRetransmissionNumber nm c nonce ?time ?geo ?ack) (set (np_storage ps))"
    using insertPkt_elements [OF ins] assms(2) \<open>np_storage ps' = st\<close> by blast
  ultimately show ?thesis unfolding new_element_def by auto
qed

lemma outgoing_elements:
  assumes "addOutgoingPkt pf loc tt rand pkt metadata ps = Inr (ps', cmd)" and "el \<in> set (np_storage ps')"
  shows "el \<in> set (np_storage ps) \<or> (length pkt \<le> BUFLEN \<and> el_data el = setLLHeader loc pkt \<and>
    el_size el = word_of_nat (length (el_data el)) \<and> unat (snd (el_timer el)) < 1000000)"
proof -
  have sub: "set (np_storage ps1) \<subseteq> set (np_storage ps)" if "shrinks ps ps1" for ps1
    using that by (auto simp: shrinks_def)
  from addOutgoing_cases [OF assms(1)] consider "shrinks ps ps'" |
    ps1 isContent nm c nonce where "shrinks ps ps1" "length pkt \<le> BUFLEN"
      "store_outgoing loc tt rand pkt metadata isContent nm c nonce ps1 = (ps', cmd)" by blast
  then show ?thesis
  proof cases
    case 1
    then show ?thesis using assms(2) sub by blast
  next
    case 2
    from store_elements [OF 2(3) assms(2)] show ?thesis using sub [OF 2(1)] 2(2) by blast
  qed
qed

lemma setLLHeader_headed:
  "printed (ad_location ad) \<Longrightarrow> length pkt \<le> BUFLEN \<Longrightarrow> pkt \<in> pkts \<Longrightarrow> headed pkts (setLLHeader (position ad) pkt)"
  unfolding headed_def
  by (intro exI [of _ "gp_latChar (position ad)"] exI [of _ "gp_longitudeChar (position ad)"] exI [of _ pkt])
    (simp add: setLLHeader_def position_def printed_def GPS_STRING_SIZE_def)

lemma updated_headed:
  "printed (ad_location ad) \<Longrightarrow> headed pkts data \<Longrightarrow> headed pkts (updateLLHeaderCoordinates (position ad) data)"
  unfolding headed_def
  by (elim exE, rule_tac x = "gp_latChar (position ad)" in exI, rule_tac x = "gp_longitudeChar (position ad)" in exI)
    (auto simp: updateLLHeaderCoordinates_def position_def printed_def GPS_STRING_SIZE_def)

lemma stored_whole:
  assumes "stored_ok pkts el"
  shows "take (unat (el_size el)) (el_data el) = el_data el"
proof -
  have "length (el_data el) < 2 ^ 32" using assms by (auto simp: stored_ok_def headed_def BUFLEN_def htonl_75_def)
  then show ?thesis using assms by (simp add: stored_ok_def unat_of_nat)
qed

subsection \<open>Every part of a round keeps it\<close>

lemma inv_socket:
  assumes "adapter_inv pf pkts ad" and "connectToNDNSocket reconnect ad = Some ad'"
  shows "adapter_inv pf pkts ad' \<and> ad_policy ad' = ad_policy ad"
  using assms new_socket_usable [of "ad_name ad" "fst reconnect" "snd reconnect" _ broadcastAddr]
  by (auto simp: connectToNDNSocket_def adapter_inv_def broadcastAddr_def split: sum.splits)

lemma inv_reconnect:
  assumes "adapter_inv pf pkts ad" and "reconnect_or_end i ad = (go, ad')"
  shows "adapter_inv pf pkts ad' \<and> ad_policy ad' = ad_policy ad"
  using assms(2) assms(1) inv_socket [OF assms(1)] by (auto simp: reconnect_or_end_def split: option.splits)

lemma inv_timer:
  assumes inv: "adapter_inv pf pkts ad" and "timer_expired i ad = (go, ad')"
  shows "adapter_inv pf pkts ad'"
proof -
  obtain ps r where ret: "getPktForRetransmission (position ad) (in_clock i) (ad_policy ad) = (ps, r)"
    by (rule prod.exhaust)
  let ?st = "np_storage (ad_policy ad)"
  have nom: "nom_inv (ad_policy ad)"
    using inv nom_reachable_inv [of pf "ad_policy ad"] by (simp add: adapter_inv_def)
  have "(\<forall>el \<in> set (np_storage ps). stored_ok pkts el) \<and> (\<forall>data. r = Some data \<longrightarrow> headed pkts data)"
  proof (cases ?st)
    case Nil
    then show ?thesis using ret by (auto simp: getPktForRetransmission_def getFirstDeadline_def)
  next
    case (Cons el rest)
    have ok: "\<forall>x \<in> insert el (set rest). stored_ok pkts x" using inv Cons by (simp add: adapter_inv_def)
    then have r: "r = Some (updateLLHeaderCoordinates (position ad) (el_data el))"
      and st: "np_storage ps = (if el_retransmission el = maxRetransmissionNumber then rest
        else modify_linked el_name el_timer (el_name el) (again (calculateNextTimer (in_clock i))) ?st)"
      using retransmission_cases [OF nom Cons, of "position ad" "in_clock i"] ret stored_whole by auto
    have "stored_ok pkts (again (calculateNextTimer (in_clock i)) el)"
      using ok timers_valid(1) by (simp add: stored_ok_def)
    then have "\<forall>x \<in> set (np_storage ps). stored_ok pkts x"
      using st set_again [OF nom Cons] ok by auto
    moreover have "headed pkts (updateLLHeaderCoordinates (position ad) (el_data el))"
      using ok inv by (intro updated_headed) (simp_all add: adapter_inv_def stored_ok_def)
    ultimately show ?thesis using r by simp
  qed
  then have headed: "\<And>data. r = Some data \<Longrightarrow> headed pkts data" and ok: "\<forall>el \<in> set (np_storage ps). stored_ok pkts el" by auto
  have inv': "adapter_inv pf pkts (ad\<lparr>ad_policy := ps\<rparr>)"
    using inv nom_step.timer [OF ret] ok by (intro adapter_inv_policy) auto
  show ?thesis
  proof (cases r)
    case None
    then show ?thesis using assms(2) ret inv' by (simp add: timer_expired_def)
  next
    case (Some data)
    show ?thesis
    proof (cases "rs_send data (in_sendto i) (ad_socket ad)")
      case (Inl e)
      then show ?thesis using assms(2) ret Some inv_reconnect [OF inv'] by (simp add: timer_expired_def Let_def)
    next
      case (Inr x)
      then have "fst x = broadcastAddr @ rs_h_source (ad_socket ad) @ MACPROTO @ data"
        using inv by (auto simp: rs_send_def ethernet_def adapter_inv_def split: if_splits)
      then have "air_frame pkts (fst x)" using headed [OF Some] unfolding air_frame_def by blast
      then have "adapter_inv pf pkts (ad\<lparr>ad_policy := ps, ad_sent := ad_sent ad @ [fst x]\<rparr>)"
        using inv' by (simp add: adapter_inv_def)
      then show ?thesis using assms(2) ret Some Inr by (simp add: timer_expired_def Let_def case_prod_unfold)
    qed
  qed
qed

lemma inv_network:
  assumes inv: "adapter_inv pf pkts ad" and "packet_from_network pf i event ad = Inr (go, ad')"
  shows "adapter_inv pf pkts ad'"
proof -
  have handle: "adapter_inv pf pkts ad'"
    if inv: "adapter_inv pf pkts ad" and run: "handle_network pf i buffer ad = Inr (go, ad')" for buffer ad
  proof -
    obtain ps cmd where ps: "pktFromNetwork pf (position ad) (in_room i) buffer (ad_policy ad) = Inr (ps, cmd)"
      and ad': "ad' = ad\<lparr>ad_policy := ps\<rparr>" using run by (auto simp: handle_network_def bindr_eq_Inr)
    have "\<forall>el \<in> set (np_storage ps). stored_ok pkts el"
      using pktFromNetwork_shrinks [OF ps] inv by (auto simp: shrinks_def adapter_inv_def)
    then show ?thesis unfolding ad' using inv nom_step.incoming [OF ps] by (intro adapter_inv_policy) auto
  qed
  show ?thesis
  proof (cases event)
    case (Frame fr)
    then show ?thesis using assms handle [OF inv] by (auto simp: packet_from_network_def bindr_eq_Inr)
  next
    case (ReadFails len)
    obtain go1 ad1 where r: "reconnect_or_end i ad = (go1, ad1)" by (rule prod.exhaust)
    from inv_reconnect [OF inv r] have "adapter_inv pf pkts ad1" by simp
    then show ?thesis
      using assms(2) ReadFails r handle [of ad1] by (auto simp: packet_from_network_def read_failed_def split: if_splits)
  qed
qed

lemma inv_daemon:
  assumes inv: "adapter_inv pf pkts ad" and "packet_from_daemon pf i event ad = Inr (go, ad')"
    and "in_daemon i = Some event"
  shows "adapter_inv pf (pkts \<union> handed i) ad'"
proof (cases event)
  case (DaemonPacket buffer metadata)
  then obtain ps cmd where
    ps: "addOutgoingPkt pf (position ad) (in_clock i) (in_rand i) buffer metadata (ad_policy ad) = Inr (ps, cmd)"
    and ad': "ad' = ad\<lparr>ad_policy := ps\<rparr>" using assms(2) by (auto simp: packet_from_daemon_def bindr_eq_Inr)
  have b: "buffer \<in> pkts \<union> handed i" using DaemonPacket assms(3) by (simp add: handed_def)
  have "stored_ok (pkts \<union> handed i) el" if "el \<in> set (np_storage ps)" for el
    using outgoing_elements [OF ps that]
  proof
    assume "el \<in> set (np_storage (ad_policy ad))"
    then show ?thesis using inv stored_ok_mono unfolding adapter_inv_def by blast
  next
    assume new: "length buffer \<le> BUFLEN \<and> el_data el = setLLHeader (position ad) buffer \<and>
      el_size el = word_of_nat (length (el_data el)) \<and> unat (snd (el_timer el)) < 1000000"
    have "headed (pkts \<union> handed i) (setLLHeader (position ad) buffer)"
      using inv b new by (intro setLLHeader_headed) (simp_all add: adapter_inv_def)
    then show ?thesis using new by (simp add: stored_ok_def)
  qed
  then show ?thesis unfolding ad' using inv nom_step.outgoing [OF ps] by (intro adapter_inv_policy) auto
next
  case DaemonFails
  then have "ad' = ad" using assms(2) by (simp add: packet_from_daemon_def)
  then show ?thesis using inv adapter_inv_mono by blast
qed

lemma inv_location: "adapter_inv pf pkts ad \<Longrightarrow> printed ls \<Longrightarrow> adapter_inv pf pkts (ad\<lparr>ad_location := ls\<rparr>)"
  by (simp add: adapter_inv_def)

lemma inv_gps_flag: "adapter_inv pf pkts ad \<Longrightarrow> adapter_inv pf pkts (ad\<lparr>ad_gps := b\<rparr>)"
  by (simp add: adapter_inv_def)

lemma inv_report:
  assumes inv: "adapter_inv pf pkts ad" and "report_from_gpsd pf env event ad = Inr ad'"
  shows "adapter_inv pf pkts ad'"
proof -
  have "adapter_inv pf pkts (ad\<lparr>ad_location := ls\<rparr>)" if "updatePosition pf env b (ad_location ad) = Inr ls" for b ls
    using inv updatePosition_printed [OF that] by (intro inv_location) (simp_all add: adapter_inv_def)
  then show ?thesis
    using assms inv_gps_flag
    by (auto simp: report_from_gpsd_def Let_def bindr_eq_Inr split: if_splits gps_event.splits)
qed

lemma inv_gps_reconnect:
  "adapter_inv pf pkts ad \<Longrightarrow> gps_reconnect pf i ad = Inr ad' \<Longrightarrow> adapter_inv pf pkts ad'"
  by (auto simp: gps_reconnect_def bindr_eq_Inr split: if_splits gps_connect.splits
      intro: inv_gps_flag inv_location noValidData_printed)

lemma inv_statistics: "adapter_inv pf pkts ad \<Longrightarrow> adapter_inv pf pkts (statistic_update tt ad)"
proof -
  assume inv: "adapter_inv pf pkts ad"
  have "adapter_inv pf pkts (ad\<lparr>ad_policy := printStatistic (ad_policy ad)\<rparr>)"
    using inv nom_step.statistics by (intro adapter_inv_policy) (auto simp: adapter_inv_def printStatistic_def)
  then show ?thesis using inv by (simp add: statistic_update_def adapter_inv_def)
qed

lemma inv_deadline: "adapter_inv pf pkts (set_next_deadline now ad) = adapter_inv pf pkts ad"
  by (simp add: adapter_inv_def set_next_deadline_def)

lemma on_event_Inr:
  assumes "on_event event f (go, ad) = Inr (go', ad')"
  obtains "go' = go" "ad' = ad" | e where "event = Some e" "go" "f e ad = Inr (go', ad')"
  using assms by (cases event) (auto simp: on_event_def split: if_splits)

lemma inv_on_event:
  assumes "on_event event f (go, ad) = Inr (go', ad')" and "adapter_inv pf pkts ad"
    and "\<And>e. event = Some e \<Longrightarrow> f e ad = Inr (go', ad') \<Longrightarrow> adapter_inv pf pkts' ad'" and "pkts \<subseteq> pkts'"
  shows "adapter_inv pf pkts' ad'"
  using assms(1) by (cases rule: on_event_Inr) (use assms(2-4) adapter_inv_mono in auto)

lemma new_adapter_inv: "NDNDeviceAdapter pf devname socketId query gps map' now = Inr ad \<Longrightarrow> adapter_inv pf {} ad"
  using new_socket_usable [of devname socketId query _ broadcastAddr]
  by (auto simp: NDNDeviceAdapter_def bindr_eq_Inr adapter_inv_def LocationService_def broadcastAddr_def LLNomPolicy_def
      PacketStorage_def printed_def dest!: noValidData_printed intro: nom_reachable.start [unfolded LLNomPolicy_def PacketStorage_def])

section \<open>A round\<close>

text \<open>What \<open>adapter_round\<close> does after \<open>select\<close>, in three stages.\<close>

lemma round_stages:
  assumes "adapter_round pf env i ad = Inr (go, ad')"
  obtains (failed) ad1 where "gps_reconnect pf i ad = Inr ad1" "in_select i = SelectError" "\<not> go" "ad' = ad1"
  | (timer) ad1 go2 ad2 where "gps_reconnect pf i ad = Inr ad1" "in_select i = TimerExpired" "\<not> selectForGpsd ad1"
      "timer_expired i (statistic_update (in_now i) ad1) = (go2, ad2)"
      "go = go2" "ad' = (if go then set_next_deadline (in_end i) ad2 else ad2)"
  | (quiet) ad1 where "gps_reconnect pf i ad = Inr ad1" "in_select i = TimerExpired" "selectForGpsd ad1" "go"
      "ad' = set_next_deadline (in_end i) (statistic_update (in_now i) ad1)"
  | (ready) ad1 go2 ad2 go3 ad3 ad4 where "gps_reconnect pf i ad = Inr ad1" "in_select i = Ready"
      "on_event (in_network i) (packet_from_network pf i) (True, statistic_update (in_now i) ad1) = Inr (go2, ad2)"
      "on_event (in_daemon i) (packet_from_daemon pf i) (go2, ad2) = Inr (go3, ad3)"
      "on_event (in_gps i) (\<lambda>e ad. bindr (report_from_gpsd pf env e ad) (\<lambda>ad. Inr (True, ad))) (go3, ad3) = Inr (go, ad4)"
      "ad' = (if go then set_next_deadline (in_end i) ad4 else ad4)"
proof -
  obtain ad1 where ad1: "gps_reconnect pf i ad = Inr ad1" using assms by (auto simp: adapter_round_def bindr_eq_Inr)
  show thesis
  proof (cases "in_select i")
    case SelectError
    then show ?thesis using assms ad1 failed by (simp add: adapter_round_def)
  next
    case TimerExpired
    obtain go2 ad2 where t: "timer_expired i (statistic_update (in_now i) ad1) = (go2, ad2)" by (rule prod.exhaust)
    show ?thesis
    proof (cases "selectForGpsd ad1")
      case True
      then show ?thesis using assms ad1 TimerExpired quiet by (simp add: adapter_round_def on_event_def Let_def)
    next
      case False
      have "go = go2" "ad' = (if go then set_next_deadline (in_end i) ad2 else ad2)"
        using assms ad1 TimerExpired False t by (auto simp: adapter_round_def on_event_def Let_def split: if_splits)
      then show ?thesis using timer ad1 TimerExpired False t by blast
    qed
  next
    case Ready
    then obtain go2 ad2 go3 ad3 go4 ad4 where
      s: "on_event (in_network i) (packet_from_network pf i) (True, statistic_update (in_now i) ad1) = Inr (go2, ad2)"
      "on_event (in_daemon i) (packet_from_daemon pf i) (go2, ad2) = Inr (go3, ad3)"
      "on_event (in_gps i) (\<lambda>e ad. bindr (report_from_gpsd pf env e ad) (\<lambda>ad. Inr (True, ad))) (go3, ad3) = Inr (go4, ad4)"
      and "go = go4" "ad' = (if go4 then set_next_deadline (in_end i) ad4 else ad4)"
      using assms ad1 unfolding adapter_round_def Let_def by (simp add: bindr_eq_Inr split: prod.splits) blast
    then show ?thesis using ready ad1 Ready by simp
  qed
qed

lemma round_inv:
  assumes inv: "adapter_inv pf pkts ad" and "adapter_round pf env i ad = Inr (go, ad')"
  shows "adapter_inv pf (pkts \<union> handed i) ad' \<and>
    (go \<longrightarrow> (\<exists>ad1. adapter_inv pf (pkts \<union> handed i) ad1 \<and> ad' = set_next_deadline (in_end i) ad1))"
proof -
  have start: "adapter_inv pf pkts (statistic_update (in_now i) ad1) \<and> adapter_inv pf (pkts \<union> handed i) ad1 \<and>
      adapter_inv pf (pkts \<union> handed i) (statistic_update (in_now i) ad1)"
    if "gps_reconnect pf i ad = Inr ad1" for ad1
    using inv_gps_reconnect [OF inv that] adapter_inv_mono [of pf pkts _ "pkts \<union> handed i"] inv_statistics by blast
  from assms(2) show ?thesis
  proof (cases rule: round_stages)
    case (failed ad1)
    then show ?thesis using start by blast
  next
    case (timer ad1 go2 ad2)
    then have "adapter_inv pf (pkts \<union> handed i) ad2" using start inv_timer by blast
    then show ?thesis using timer(6) inv_deadline by (cases go) auto
  next
    case (quiet ad1)
    then show ?thesis using start inv_deadline by auto
  next
    case (ready ad1 go2 ad2 go3 ad3 ad4)
    have one: "adapter_inv pf pkts (statistic_update (in_now i) ad1)" using start [OF ready(1)] by (rule conjunct1)
    have two: "adapter_inv pf pkts ad2"
      by (rule inv_on_event [OF ready(3) one]) (rule inv_network [OF one], assumption, rule subset_refl)
    have three: "adapter_inv pf (pkts \<union> handed i) ad3"
      by (rule inv_on_event [OF ready(4) two]) (rule inv_daemon [OF two], assumption+, rule Un_upper1)
    have "adapter_inv pf (pkts \<union> handed i) ad4"
      by (rule inv_on_event [OF ready(5) three]) (auto simp: bindr_eq_Inr dest: inv_report [OF three])
    then show ?thesis using ready(6) inv_deadline by (cases go) auto
  qed
qed

lemma adapter_reachable_inv: "adapter_reachable pf env pkts ad \<Longrightarrow> adapter_inv pf pkts ad"
  by (induction rule: adapter_reachable.induct) (auto simp: new_adapter_inv dest: round_inv)

text \<open>
  C15: whatever happens on the network, in the daemon and at gpsd, the adapter only ever broadcasts packets that the
  daemon handed over, behind a header of 28 bytes, its socket can always be used, and the
  policy behind it is in a reachable state.\<close>

theorem adapter_broadcasts:
  assumes "adapter_reachable pf env pkts ad"
  shows "nom_reachable pf (ad_policy ad) \<and> usable (ad_socket ad) \<and>
    (\<forall>fr \<in> set (ad_sent ad). \<exists>mac lat lon pkt. pkt \<in> pkts \<and> length lat = 12 \<and> length lon = 12 \<and>
      fr = replicate 6 0xff @ mac @ [0x88, 0xb5] @ lat @ lon @ [0, 0, 0, 75] @ pkt)"
proof -
  have inv: "adapter_inv pf pkts ad" by (rule adapter_reachable_inv [OF assms])
  have "air_frame pkts fr" if "fr \<in> set (ad_sent ad)" for fr using inv that by (simp add: adapter_inv_def)
  then have "\<exists>mac lat lon pkt. pkt \<in> pkts \<and> length lat = 12 \<and> length lon = 12 \<and>
      fr = replicate 6 0xff @ mac @ [0x88, 0xb5] @ lat @ lon @ [0, 0, 0, 75] @ pkt" if "fr \<in> set (ad_sent ad)" for fr
    using that unfolding air_frame_def headed_def broadcastAddr_def ETH_ALEN_def MACPROTO_def htonl_75_def by blast
  then show ?thesis using inv by (simp add: adapter_inv_def)
qed

section \<open>The timer\<close>

lemma next_timeout_exact:
  assumes "unat (snd d) < 1000000" and "snd now < 1000000"
    and "next_timeout (uint (fst d), uint (snd d)) now = (s, u)"
  shows "0 \<le> s \<and> 0 \<le> u \<and> u < 1000000 \<and>
    s * 1000000 + u = int (usecs d - (fst now * 1000000 + snd now))"
proof -
  define a b c e where "a = unat (fst d)" and "b = unat (snd d)" and "c = fst now" and "e = snd now"
  note parts = a_def b_def c_def e_def
  have bounds: "b < 1000000" "e < 1000000" using assms(1,2) by (simp_all add: parts)
  have t: "next_timeout (int a, int b) (c, e) = (s, u)" using assms(3) by (simp add: parts)
  have "0 \<le> s \<and> 0 \<le> u \<and> u < 1000000 \<and> s * 1000000 + u = int (a * 1000000 + b - (c * 1000000 + e))"
  proof (cases "a < c \<or> a = c \<and> b < e")
    case True
    then have "s = 0" "u = 0" using t by (auto simp: next_timeout_def)
    moreover have "a * 1000000 + b \<le> c * 1000000 + e" using True bounds by linarith
    ultimately show ?thesis by simp
  next
    case False
    then have late: "c * 1000000 + e \<le> a * 1000000 + b" using bounds by linarith
    have no: "\<not> (int a < int c \<or> int a = int c \<and> int b < int e)" using False by simp
    have "u = (int b - int e + 1000000) mod 1000000" "s = (if int b < int e then int a - 1 else int a) - int c"
      using t no by (auto simp: next_timeout_def Let_def split: if_splits)
    moreover have "(int b - int e + 1000000) mod 1000000 = (if b < e then int b - int e + 1000000 else int b - int e)"
    proof (cases "b < e")
      case True
      then show ?thesis using bounds by (intro mod_pos_pos_trivial [THEN trans]) auto
    next
      case False
      then have "(int b - int e) mod 1000000 = int b - int e" using bounds by (intro mod_pos_pos_trivial) auto
      then show ?thesis using False by simp
    qed
    ultimately show ?thesis using late False bounds by (auto simp: of_nat_diff)
  qed
  then show ?thesis by (simp add: parts usecs_def)
qed

text \<open>
  C16: at the end of every round the timer of the next \<open>select\<close> is set exactly to the earliest deadline of a pending
  packet: zero when it has passed, the remaining seconds and microseconds otherwise, and no timer when
  nothing is pending. So no pending packet is ever overslept.\<close>

theorem adapter_timer:
  assumes "adapter_reachable pf env pkts ad" and "adapter_round pf env i ad = Inr (True, ad')" and "snd (in_end i) < 1000000"
  shows "if np_storage (ad_policy ad') = [] then ad_deadline ad' = None
    else \<exists>el s u. el \<in> set (np_storage (ad_policy ad')) \<and> (\<forall>x \<in> set (np_storage (ad_policy ad')). usecs (el_timer el) \<le> usecs (el_timer x)) \<and>
      ad_deadline ad' = Some (s, u) \<and> 0 \<le> s \<and> 0 \<le> u \<and> u < 1000000 \<and>
      s * 1000000 + u = int (usecs (el_timer el) - (fst (in_end i) * 1000000 + snd (in_end i)))"
proof -
  obtain ad1 where inv: "adapter_inv pf (pkts \<union> handed i) ad1" and ad': "ad' = set_next_deadline (in_end i) ad1"
    using round_inv [OF adapter_reachable_inv [OF assms(1)] assms(2)] by blast
  let ?st = "np_storage (ad_policy ad1)"
  have st: "np_storage (ad_policy ad') = ?st" by (simp add: ad' set_next_deadline_def)
  have nom: "nom_inv (ad_policy ad1)" using inv nom_reachable_inv [of pf "ad_policy ad1"] by (simp add: adapter_inv_def)
  show ?thesis
  proof (cases ?st)
    case Nil
    then show ?thesis using st by (simp add: ad' set_next_deadline_def getNextDeadline_def getFirstDeadline_def)
  next
    case (Cons el rest)
    have valid: "unat (snd (el_timer x)) < 1000000" if "x \<in> set ?st" for x
      using inv that by (simp add: adapter_inv_def stored_ok_def)
    have "\<forall>x \<in> set ?st. el_timer el \<le> el_timer x"
      using nom Cons by (auto simp: nom_inv_def storage_inv_def linked_inv_def)
    then have first: "\<forall>x \<in> set ?st. usecs (el_timer el) \<le> usecs (el_timer x)"
    proof (intro ballI)
      fix x assume x: "x \<in> set ?st" "\<forall>x \<in> set ?st. el_timer el \<le> el_timer x"
      then have "el_timer el \<le> el_timer x" by blast
      then show "usecs (el_timer el) \<le> usecs (el_timer x)"
        using valid [OF x(1)] valid [of el] Cons
        by (cases "el_timer el"; cases "el_timer x") (auto simp: usecs_def word_less_nat_alt word_le_nat_alt)
    qed
    obtain s u where su: "next_timeout (uint (fst (el_timer el)), uint (snd (el_timer el))) (in_end i) = (s, u)"
      by (rule prod.exhaust)
    have "ad_deadline ad' = Some (s, u)"
      using Cons su by (simp add: ad' set_next_deadline_def getNextDeadline_def getFirstDeadline_def)
    moreover have "el \<in> set ?st" by (simp add: Cons)
    moreover note next_timeout_exact [OF valid assms(3) su, OF this]
    ultimately have "\<exists>el s u. el \<in> set ?st \<and> (\<forall>x \<in> set ?st. usecs (el_timer el) \<le> usecs (el_timer x)) \<and>
      ad_deadline ad' = Some (s, u) \<and> 0 \<le> s \<and> 0 \<le> u \<and> u < 1000000 \<and>
      s * 1000000 + u = int (usecs (el_timer el) - (fst (in_end i) * 1000000 + snd (in_end i)))"
      using first by blast
    then show ?thesis unfolding st by (simp add: Cons)
  qed
qed

section \<open>The end of the loop\<close>

lemma timer_ends: "timer_expired i ad = (False, ad') \<Longrightarrow> connectToNDNSocket (in_reconnect i) (ad\<lparr>ad_policy := ad_policy ad'\<rparr>) = None"
  by (auto simp: timer_expired_def reconnect_or_end_def Let_def split: prod.splits option.splits sum.splits)

lemma connect_None:
  "connectToNDNSocket r ad = None \<longleftrightarrow> (\<exists>e. NdnRawSocket (ad_name ad) (fst r) (snd r) = Inl e)"
  by (auto simp: connectToNDNSocket_def split: sum.splits)

lemma network_ends:
  "packet_from_network pf i event ad = Inr (False, ad') \<Longrightarrow> connectToNDNSocket (in_reconnect i) ad = None"
  by (auto simp: packet_from_network_def read_failed_def handle_network_def reconnect_or_end_def bindr_eq_Inr
      split: network_event.splits option.splits if_splits)

lemma daemon_ends: "packet_from_daemon pf i event ad = Inr (go, ad') \<Longrightarrow> go \<longleftrightarrow> event \<noteq> DaemonFails"
  by (auto simp: packet_from_daemon_def bindr_eq_Inr split: daemon_event.splits)

lemma gps_keeps_name: "gps_reconnect pf i ad = Inr ad' \<Longrightarrow> ad_name ad' = ad_name ad"
  by (auto simp: gps_reconnect_def bindr_eq_Inr split: if_splits gps_connect.splits)

lemma statistic_keeps [simp]: "ad_name (statistic_update tt ad) = ad_name ad"
  by (simp add: statistic_update_def)

text \<open>
  The loop of the adapter ends only when \<open>select\<close> fails, the daemon's packet cannot be read, or a socket that
  failed cannot be replaced; and when the daemon's packet cannot be read it always ends.\<close>

theorem adapter_ends:
  "(\<forall>ad'. adapter_round pf env i ad = Inr (False, ad') \<longrightarrow>
     in_select i = SelectError \<or> in_select i = Ready \<and> in_daemon i = Some DaemonFails \<or>
     (\<exists>e. NdnRawSocket (ad_name ad) (fst (in_reconnect i)) (snd (in_reconnect i)) = Inl e)) \<and>
   (in_select i = Ready \<and> in_daemon i = Some DaemonFails \<longrightarrow> (\<forall>ad'. adapter_round pf env i ad \<noteq> Inr (True, ad')))"
proof (intro conjI allI impI notI)
  fix ad'
  assume "adapter_round pf env i ad = Inr (False, ad')"
  then show "in_select i = SelectError \<or> in_select i = Ready \<and> in_daemon i = Some DaemonFails \<or>
     (\<exists>e. NdnRawSocket (ad_name ad) (fst (in_reconnect i)) (snd (in_reconnect i)) = Inl e)"
  proof (cases rule: round_stages)
    case (timer ad1 go2 ad2)
    then have "timer_expired i (statistic_update (in_now i) ad1) = (False, ad2)" by simp
    from timer_ends [OF this] show ?thesis using gps_keeps_name [OF timer(1)] by (simp add: connect_None)
  next
    case (ready ad1 go2 ad2 go3 ad3 ad4)
    from ready(5) have no3: "\<not> go3" by (cases rule: on_event_Inr) (auto simp: bindr_eq_Inr)
    show ?thesis
    proof (cases go2)
      case True
      from ready(4) show ?thesis
        by (cases rule: on_event_Inr) (use True no3 daemon_ends ready(2) in \<open>auto\<close>)
    next
      case False
      from ready(3) obtain e where "packet_from_network pf i e (statistic_update (in_now i) ad1) = Inr (False, ad2)"
        by (cases rule: on_event_Inr) (use False in auto)
      from network_ends [OF this] show ?thesis using gps_keeps_name [OF ready(1)] by (simp add: connect_None)
    qed
  qed simp_all
next
  fix ad'
  assume fails: "in_select i = Ready \<and> in_daemon i = Some DaemonFails" and "adapter_round pf env i ad = Inr (True, ad')"
  from this(2) show False
  proof (cases rule: round_stages)
    case (ready ad1 go2 ad2 go3 ad3 ad4)
    from ready(4) have "\<not> go3" using fails daemon_ends [of pf i DaemonFails ad2 go3 ad3] by (auto simp: on_event_def split: if_splits)
    then show False using ready(5) by (simp add: on_event_def)
  qed (use fails in simp_all)
qed

text \<open>A read that fails leaves no trace in the policy once the socket is replaced.\<close>

lemma zeros_unknown:
  assumes "InitFromBuffer (replicate k 0) = Inr p"
  shows "GetNDNHeaderType p = Inl NDNUnknownHeaderException"
proof -
  have "m_data (pk_buffer p) = replicate k 0" using assms by (auto simp: InitFromBuffer_def split: if_splits)
  then have "CopyData p 2 ! 0 = 0" by (auto simp: CopyData_def buffer_read_def nth_append buffer_size_def BUFLEN_def)
  then show ?thesis by (simp add: GetNDNHeaderType_def Let_def)
qed

lemma stale_read:
  assumes "len \<le> MAXNETWORKPKTSIZE"
  shows "packet_from_network pf i (ReadFails len) ad =
    (case connectToNDNSocket (in_reconnect i) ad of None \<Rightarrow> Inr (False, ad) | Some ad' \<Rightarrow> Inr (True, ad'))"
proof -
  have "pktFromNetwork pf loc room (replicate len 0) ps = Inr (ps, DISCARD)" for loc room ps
  proof (cases "drop (6 + LL_HEADER_SIZE) (replicate len (0 :: byte)) = []")
    case True
    then show ?thesis by (simp add: pktFromNetwork_def Let_def)
  next
    case False
    let ?data = "replicate (len - (6 + LL_HEADER_SIZE)) (0 :: byte)"
    have "length ?data \<le> BUFLEN" using assms by (simp add: MAXNETWORKPKTSIZE_def BUFLEN_def)
    then obtain p where p: "InitFromBuffer ?data = Inr p" by (simp add: InitFromBuffer_def)
    show ?thesis using False p zeros_unknown [OF p]
      by (simp add: pktFromNetwork_def Let_def try_header_def caught_def)
  qed
  then show ?thesis using assms
    by (simp add: packet_from_network_def read_failed_def reconnect_or_end_def handle_network_def split: option.split)
qed

section \<open>From one node to the next\<close>

text \<open>A packet that nothing pending is related to goes up to the daemon.\<close>

lemma unrelated_goes_up:
  assumes "nom_inv ps" and "is_interest pkt n nonce \<or> is_content pkt n"
    and keys: "\<forall>el \<in> set (np_storage ps). el_name el \<notin> {append_components interestKey n, append_components dataKey n} \<and>
      \<not> prefix (el_components el) n"
  shows "\<exists>ps'. pktFromNetwork pf loc True (frame mac lat lon tos pkt) ps = Inr (ps', DISCARD) \<and>
    np_up ps' = np_up ps @ [(pkt, hop_metadata pf lat lon tos)] \<and> np_storage ps' = np_storage ps"
proof -
  have none: "find_key el_name (append_components interestKey n) (np_storage ps) = None"
    "find_key el_name (append_components dataKey n) (np_storage ps) = None"
    using keys by (auto simp: find_key_None)
  obtain els where els: "searchByPrefixMatch n (np_storage ps) = Inr (map el_name els)"
    "set els = {el \<in> set (np_storage ps). prefix (el_components el) n}"
    using search_found [of "np_storage ps" n] assms(1) by (auto simp: nom_inv_def)
  have "set els = {}" unfolding els(2) using keys by blast
  then have search: "searchByPrefixMatch n (np_storage ps) = Inr []" using els(1) by simp
  from assms(2) show ?thesis
  proof
    assume "is_interest pkt n nonce"
    from incoming_interest [OF this] none show ?thesis
      by (simp add: interest_from_network_def getPktByKey_def go_up_def Let_def)
  next
    assume "is_content pkt n"
    from incoming_content [OF this] none search show ?thesis
      by (simp add: content_from_network_def getPktByKey_def go_up_def Let_def)
  qed
qed

text \<open>The frame of the first pending packet: it is the one with the earliest deadline.\<close>

lemma sent_frame:
  assumes inv: "adapter_inv pf pkts ad" and st: "np_storage (ad_policy ad) = el # rest" and "in_sendto i"
  shows "drop 28 (el_data el) \<in> pkts \<and> (\<exists>ad'. timer_expired i ad = (True, ad') \<and> ad_sent ad' = ad_sent ad @
    [ethernet broadcastAddr (ad_socket ad) (gp_latChar (position ad) @ gp_longitudeChar (position ad) @ htonl_75 @ drop 28 (el_data el))])"
proof -
  let ?data = "updateLLHeaderCoordinates (position ad) (el_data el)"
  have nom: "nom_inv (ad_policy ad)" using inv nom_reachable_inv [of pf "ad_policy ad"] by (simp add: adapter_inv_def)
  have ok: "stored_ok pkts el" using inv st by (simp add: adapter_inv_def)
  obtain ps where ps: "getPktForRetransmission (position ad) (in_clock i) (ad_policy ad) = (ps, Some ?data)"
    using retransmission_cases [OF nom st, of "position ad" "in_clock i"] stored_whole [OF ok] by auto
  have data: "drop 28 (el_data el) \<in> pkts"
    "?data = gp_latChar (position ad) @ gp_longitudeChar (position ad) @ htonl_75 @ drop 28 (el_data el)"
    using ok by (auto simp: stored_ok_def headed_def updateLLHeaderCoordinates_def GPS_STRING_SIZE_def htonl_75_def)
  have "rs_send ?data (in_sendto i) (ad_socket ad) = Inr (ethernet broadcastAddr (ad_socket ad) ?data, length ?data)"
    using assms(3) inv by (simp add: rs_send_def adapter_inv_def usable_def)
  then show ?thesis using data ps by (simp add: timer_expired_def Let_def)
qed

text \<open>
  C14: from one node to the next. In a reachable adapter that has packets to send, let \<open>pkt\<close> be what is behind
  the 28-byte header of the first pending one. It is a packet that the daemon handed over, and no
  pending packet has an earlier deadline. When the timer fires and the socket accepts the frame, exactly one is sent: a
  broadcast from this device with the coordinates that were last printed, the type of service 75 and \<open>pkt\<close>.
  When another reachable adapter reads this frame, \<open>pkt\<close> has at most 1472 bytes, is a readable Interest or content,
  the ring to the daemon has room and no packet that is pending there has its key or a name that is a prefix of its name, then this adapter
  hands exactly \<open>pkt\<close> up to its daemon, with the position that the sender printed and the type of service 75, and its pending
  packets stay as they are.\<close>

theorem over_the_air:
  assumes "adapter_reachable pf env pkts a" and "np_storage (ad_policy a) = el # rest" and "in_sendto i"
    and "length (rs_h_source (ad_socket a)) = 6" and "pkt = drop 28 (el_data el)"
    and "adapter_reachable pf env' pkts' b" and "in_room j"
    and "length pkt \<le> 1472" and "is_interest pkt n nonce \<or> is_content pkt n"
    and "\<forall>el \<in> set (np_storage (ad_policy b)). el_name el \<notin> {append_components interestKey n, append_components dataKey n} \<and>
         \<not> prefix (el_components el) n"
  shows "\<exists>a' fr b'. pkt \<in> pkts \<and> (\<forall>x \<in> set rest. \<not> el_less x el) \<and>
    timer_expired i a = (True, a') \<and> ad_sent a' = ad_sent a @ [fr] \<and>
    fr = replicate 6 0xff @ rs_h_source (ad_socket a) @ [0x88, 0xb5] @
      gp_latChar (position a) @ gp_longitudeChar (position a) @ [0, 0, 0, 75] @ pkt \<and>
    packet_from_network pf j (Frame fr) b = Inr (True, b') \<and>
    np_up (ad_policy b') = np_up (ad_policy b) @
      [(pkt, setTos 75 (LLMetadata80211AdHoc
          (GeoStorage (pf_atof pf (gp_latChar (position a))) (pf_atof pf (gp_longitudeChar (position a))))))] \<and>
    np_storage (ad_policy b') = np_storage (ad_policy b)"
proof -
  note inv = adapter_reachable_inv [OF assms(1)] adapter_reachable_inv [OF assms(6)]
  let ?lat = "gp_latChar (position a)" and ?lon = "gp_longitudeChar (position a)" and ?mac = "rs_h_source (ad_socket a)"
  let ?fr = "ethernet broadcastAddr (ad_socket a) (?lat @ ?lon @ htonl_75 @ pkt)"
  obtain a' where pkt: "pkt \<in> pkts" "timer_expired i a = (True, a')" "ad_sent a' = ad_sent a @ [?fr]"
    using sent_frame [OF inv(1) assms(2,3)] assms(5) by blast
  have "nom_inv (ad_policy a)" using inv(1) nom_reachable_inv [of pf "ad_policy a"] by (simp add: adapter_inv_def)
  then have first: "\<forall>x \<in> set rest. \<not> el_less x el"
    using assms(2) by (auto simp: nom_inv_def storage_inv_def linked_inv_def el_less_iff)
  have len: "length ?lat = 12" "length ?lon = 12"
    using inv(1) by (simp_all add: adapter_inv_def printed_def position_def GPS_STRING_SIZE_def)
  have read: "rs_read MAXNETWORKPKTSIZE True (Some ?fr) (ad_socket b) = Inr (?mac @ ?lat @ ?lon @ htonl_75 @ pkt)"
  proof (rule read_ethernet)
    show "usable (ad_socket b)" using inv(2) by (simp add: adapter_inv_def)
    show "length (?lat @ ?lon @ htonl_75 @ pkt) \<le> MAXNETWORKPKTSIZE"
      using assms(8) len by (auto simp: htonl_75_def MAXNETWORKPKTSIZE_def)
  qed (use assms(4) in \<open>simp_all add: ETH_ALEN_def broadcastAddr_def\<close>)
  have fields: "field 6 ?mac = ?mac" "field 12 ?lat = ?lat" "field 12 ?lon = ?lon" "field 4 htonl_75 = htonl_75"
    using assms(4) len by (simp_all add: field_def htonl_75_def)
  have frame: "?mac @ ?lat @ ?lon @ htonl_75 @ pkt = frame ?mac ?lat ?lon htonl_75 pkt"
    by (simp add: frame_fields fields)
  have "ntohl htonl_75 = 75" by code_simp
  then have hop: "hop_metadata pf ?lat ?lon htonl_75 = setTos 75 (LLMetadata80211AdHoc (GeoStorage (pf_atof pf ?lat) (pf_atof pf ?lon)))"
    by (simp add: hop_metadata_def fields)
  have nom: "nom_inv (ad_policy b)" using inv(2) nom_reachable_inv [of pf "ad_policy b"] by (simp add: adapter_inv_def)
  obtain ps where ps: "pktFromNetwork pf (position b) True (frame ?mac ?lat ?lon htonl_75 pkt) (ad_policy b) = Inr (ps, DISCARD)"
      "np_up ps = np_up (ad_policy b) @ [(pkt, hop_metadata pf ?lat ?lon htonl_75)]" "np_storage ps = np_storage (ad_policy b)"
    using unrelated_goes_up [OF nom assms(9,10), of pf "position b" ?mac ?lat ?lon htonl_75] by blast
  have bytes: "?fr = replicate 6 0xff @ ?mac @ [0x88, 0xb5] @ ?lat @ ?lon @ [0, 0, 0, 75] @ pkt"
    by (simp add: ethernet_def broadcastAddr_def ETH_ALEN_def MACPROTO_def htonl_75_def)
  have "packet_from_network pf j (Frame ?fr) b = Inr (True, b\<lparr>ad_policy := ps\<rparr>)"
    using assms(7) read ps(1) by (simp add: packet_from_network_def handle_network_def frame)
  then show ?thesis
    using pkt first bytes ps(2,3) hop by (intro exI [of _ a'] exI [of _ ?fr] exI [of _ "b\<lparr>ad_policy := ps\<rparr>"]) simp
qed

section \<open>Samples\<close>

definition sample_adapter :: adapter where
  "sample_adapter = (case NDNDeviceAdapter sample_platform ''wlan0'' 5 (Some [1, 2, 3, 4, 5, 6], True) Connected Map_empty (0, 0) of
     Inr ad \<Rightarrow> ad)"

lemma sample_adapter_new:
  "NDNDeviceAdapter sample_platform ''wlan0'' 5 (Some [1, 2, 3, 4, 5, 6], True) Connected Map_empty (0, 0) = Inr sample_adapter"
  "ad_policy sample_adapter = LLNomPolicy" "ad_gps sample_adapter" "ad_nextStatisticUpdate sample_adapter = (10, 0)"
  "rs_h_source (ad_socket sample_adapter) = [1, 2, 3, 4, 5, 6]" "ad_sent sample_adapter = []"
  by (simp_all add: sample_adapter_def NDNDeviceAdapter_def LocationService_def noValidData_def setPosition_def
      print_coordinate_def NdnRawSocket_def setSockAddr_def setSourceMacAddress_def NULLDEVICE_def gps_connected_def
      STATISTIC_FREQUENCY_UPDATE_def)

definition sample_inputs :: inputs where
  "sample_inputs = \<lparr>in_connect = Connected, in_select = Ready, in_network = None,
     in_daemon = Some (DaemonPacket sample_interest_bytes None), in_gps = None, in_sendto = True,
     in_reconnect = (-1, None, False), in_rand = 3, in_room = True, in_now = (1, 0), in_clock = (10, 20), in_end = (10, 30)\<rparr>"

lemma sample_round:
  "\<exists>ad. adapter_round sample_platform sample_env sample_inputs sample_adapter = Inr (True, ad) \<and> length (np_storage (ad_policy ad)) = 1 \<and>
     rs_h_source (ad_socket ad) = [1, 2, 3, 4, 5, 6] \<and> ad_gps ad \<and> ad_nextStatisticUpdate ad = (10, 0) \<and> ad_deadline ad \<noteq> None"
proof -
  obtain ps c where ps: "addOutgoingPkt sample_platform (position sample_adapter) (10, 20) 3 sample_interest_bytes None LLNomPolicy =
      Inr (ps, c)" "length (np_storage ps) = 1"
    unfolding outgoing_interest [OF sample_interest]
    by (auto simp: store_outgoing_def insertPkt_def LLNomPolicy_def PacketStorage_def Let_def)
  have "adapter_round sample_platform sample_env sample_inputs sample_adapter =
      Inr (True, set_next_deadline (10, 30) (sample_adapter\<lparr>ad_policy := ps\<rparr>))"
    using ps(1) sample_adapter_new
    by (simp add: adapter_round_def gps_reconnect_def sample_inputs_def statistic_update_def on_event_def packet_from_daemon_def position_def)
  then show ?thesis
    using ps(2) sample_adapter_new
    by (cases "np_storage ps") (auto simp: set_next_deadline_def getNextDeadline_def getFirstDeadline_def)
qed

lemma sample_handed: "{} \<union> handed sample_inputs = {sample_interest_bytes}"
  by (simp add: handed_def sample_inputs_def)

lemma sample_reach:
  "adapter_reachable sample_platform sample_env {} sample_adapter"
  "adapter_round sample_platform sample_env sample_inputs sample_adapter = Inr (True, ad) \<Longrightarrow>
     adapter_reachable sample_platform sample_env {sample_interest_bytes} ad"
  using adapter_reachable.start [OF sample_adapter_new(1)]
    adapter_reachable.round [of sample_platform sample_env "{}" sample_adapter sample_inputs ad, unfolded sample_handed]
  by blast+

lemma pending_sent:
  assumes inv: "adapter_inv pf pkts ad" and "np_storage (ad_policy ad) \<noteq> []" and "in_sendto i"
  shows "\<exists>ad' fr. timer_expired i ad = (True, ad') \<and> ad_sent ad' = ad_sent ad @ [fr]"
proof -
  obtain el rest where st: "np_storage (ad_policy ad) = el # rest" using assms(2) by (cases "np_storage (ad_policy ad)") auto
  have nom: "nom_inv (ad_policy ad)" using inv nom_reachable_inv [of pf "ad_policy ad"] by (simp add: adapter_inv_def)
  obtain ps data where "getPktForRetransmission (position ad) (in_clock i) (ad_policy ad) = (ps, Some data)"
    using retransmission_cases [OF nom st, of "position ad" "in_clock i"] by blast
  then show ?thesis using inv assms(3) send_usable by (simp add: timer_expired_def Let_def adapter_inv_def)
qed

lemma sample_sent:
  "\<exists>ad ad' fr. adapter_round sample_platform sample_env sample_inputs sample_adapter = Inr (True, ad) \<and>
     adapter_reachable sample_platform sample_env {sample_interest_bytes} ad \<and> length (rs_h_source (ad_socket ad)) = 6 \<and>
     timer_expired sample_inputs ad = (True, ad') \<and> ad_sent ad' = ad_sent ad @ [fr]"
proof -
  obtain ad where ad: "adapter_round sample_platform sample_env sample_inputs sample_adapter = Inr (True, ad)"
    "length (np_storage (ad_policy ad)) = 1" "rs_h_source (ad_socket ad) = [1, 2, 3, 4, 5, 6]" using sample_round by blast
  have "np_storage (ad_policy ad) \<noteq> []" using ad(2) by auto
  moreover have "in_sendto sample_inputs" by (simp add: sample_inputs_def)
  ultimately show ?thesis
    using pending_sent [OF adapter_reachable_inv [OF sample_reach(2) [OF ad(1)]]] ad sample_reach(2) [OF ad(1)] by fastforce
qed

theorem adapter_broadcasts_witness:
  "\<exists>ad. adapter_round sample_platform sample_env sample_inputs sample_adapter = Inr (True, ad) \<and> usable (ad_socket ad)"
  using sample_sent adapter_broadcasts by blast

theorem adapter_timer_witness:
  "\<exists>ad s u. adapter_round sample_platform sample_env sample_inputs sample_adapter = Inr (True, ad) \<and> ad_deadline ad = Some (s, u) \<and> u < 1000000"
proof -
  obtain ad where ad: "adapter_round sample_platform sample_env sample_inputs sample_adapter = Inr (True, ad)"
    "length (np_storage (ad_policy ad)) = 1" using sample_round by blast
  have "snd (in_end sample_inputs) < 1000000" by (simp add: sample_inputs_def)
  from adapter_timer [OF sample_reach(1) ad(1) this] ad show ?thesis by (auto split: if_splits)
qed

theorem adapter_ends_witness:
  "adapter_round sample_platform sample_env (sample_inputs\<lparr>in_daemon := Some DaemonFails\<rparr>) sample_adapter \<noteq> Inr (True, sample_adapter)"
proof -
  have "in_select (sample_inputs\<lparr>in_daemon := Some DaemonFails\<rparr>) = Ready \<and>
      in_daemon (sample_inputs\<lparr>in_daemon := Some DaemonFails\<rparr>) = Some DaemonFails" by (simp add: sample_inputs_def)
  then show ?thesis by (rule adapter_ends [THEN conjunct2, THEN mp, THEN spec])
qed

theorem over_the_air_witness:
  "\<exists>a a' fr b' md. adapter_reachable sample_platform sample_env {sample_interest_bytes} a \<and>
     timer_expired sample_inputs a = (True, a') \<and> ad_sent a' = ad_sent a @ [fr] \<and>
     packet_from_network sample_platform sample_inputs (Frame fr) sample_adapter = Inr (True, b') \<and>
     np_up (ad_policy b') = [(sample_interest_bytes, md)]"
proof -
  obtain ad where ad: "adapter_round sample_platform sample_env sample_inputs sample_adapter = Inr (True, ad)"
    "length (np_storage (ad_policy ad)) = 1" "rs_h_source (ad_socket ad) = [1, 2, 3, 4, 5, 6]" using sample_round by blast
  note r = sample_reach(2) [OF ad(1)]
  obtain el where el: "np_storage (ad_policy ad) = [el]" using ad(2) by (cases "np_storage (ad_policy ad)") auto
  have "drop 28 (el_data el) = sample_interest_bytes"
    using adapter_reachable_inv [OF r] el
    by (auto simp: adapter_inv_def stored_ok_def headed_def htonl_75_def)
  moreover have "length sample_interest_bytes \<le> 1472" by code_simp
  moreover have "length (rs_h_source (ad_socket ad)) = 6" using ad(3) by simp
  moreover have "in_sendto sample_inputs" "in_room sample_inputs" by (simp_all add: sample_inputs_def)
  moreover have "np_storage (ad_policy sample_adapter) = []" "np_up (ad_policy sample_adapter) = []"
    by (simp_all add: sample_adapter_new LLNomPolicy_def PacketStorage_def)
  ultimately show ?thesis
    using over_the_air [OF r el, of sample_inputs sample_interest_bytes sample_env "{}" sample_adapter sample_inputs "[''a'']" 7]
      sample_reach(1) sample_interest r by auto
qed

end
