(* ===== verification/Log.thy ===== *)
theory Log
  imports VndnPrelude
begin

text \<open>
  The log components (\<open>corelib/log.h\<close>, \<open>corelib/log.cc\<close>): the levels, what the environment variable
  \<open>VNDN_LOG\<close> enables, the registry of the components, and where a message is written. The scans over the
  variable by index are proved equal to splitting it. The JSON generator of yajl is not modelled.
\<close>

section \<open>The levels\<close>

type_synonym levels = u32

definition NDN_LOG_NONE :: levels where
  "NDN_LOG_NONE = 0x00000000"

definition NDN_LOG_ERROR :: levels where
  "NDN_LOG_ERROR = 0x00000001"

definition NDN_LOG_LEVEL_ERROR :: levels where
  "NDN_LOG_LEVEL_ERROR = 0x00000001"

definition NDN_LOG_WARN :: levels where
  "NDN_LOG_WARN = 0x00000002"

definition NDN_LOG_LEVEL_WARN :: levels where
  "NDN_LOG_LEVEL_WARN = 0x00000003"

definition NDN_LOG_NOTICE :: levels where
  "NDN_LOG_NOTICE = 0x00000004"

definition NDN_LOG_LEVEL_NOTICE :: levels where
  "NDN_LOG_LEVEL_NOTICE = 0x00000007"

definition NDN_LOG_INFO :: levels where
  "NDN_LOG_INFO = 0x00000008"

definition NDN_LOG_LEVEL_INFO :: levels where
  "NDN_LOG_LEVEL_INFO = 0x0000000f"

definition NDN_LOG_DEBUG :: levels where
  "NDN_LOG_DEBUG = 0x00000010"

definition NDN_LOG_LEVEL_DEBUG :: levels where
  "NDN_LOG_LEVEL_DEBUG = 0x0000001f"

definition NDN_LOG_FUNCTION :: levels where
  "NDN_LOG_FUNCTION = 0x00000020"

definition NDN_LOG_LEVEL_FUNCTION :: levels where
  "NDN_LOG_LEVEL_FUNCTION = 0x0000003f"

definition NDN_LOG_LEVEL_ANY :: levels where
  "NDN_LOG_LEVEL_ANY = 0x00ffffff"

definition NDN_LOG_ALL :: levels where
  "NDN_LOG_ALL = 0x11ffffff"

definition NDN_LOG_TO_CONSOLE :: levels where
  "NDN_LOG_TO_CONSOLE = 0x02000000"

definition NDN_LOG_TO_SYSLOG :: levels where
  "NDN_LOG_TO_SYSLOG = 0x04000000"

definition NDN_LOG_PREFIX_FUNC :: levels where
  "NDN_LOG_PREFIX_FUNC = 0x20000000"

definition NDN_LOG_PREFIX_TIME :: levels where
  "NDN_LOG_PREFIX_TIME = 0x40000000"

definition NDN_LOG_PREFIX_NODE :: levels where
  "NDN_LOG_PREFIX_NODE = 0x80000000"

lemmas log_bits = NDN_LOG_NONE_def NDN_LOG_ERROR_def NDN_LOG_LEVEL_ERROR_def NDN_LOG_WARN_def NDN_LOG_LEVEL_WARN_def NDN_LOG_NOTICE_def NDN_LOG_LEVEL_NOTICE_def NDN_LOG_INFO_def NDN_LOG_LEVEL_INFO_def NDN_LOG_DEBUG_def NDN_LOG_LEVEL_DEBUG_def NDN_LOG_FUNCTION_def NDN_LOG_LEVEL_FUNCTION_def NDN_LOG_LEVEL_ANY_def NDN_LOG_ALL_def NDN_LOG_TO_CONSOLE_def NDN_LOG_TO_SYSLOG_def NDN_LOG_PREFIX_FUNC_def NDN_LOG_PREFIX_TIME_def NDN_LOG_PREFIX_NODE_def

text \<open>The bits of a word of the variable; an unknown word has none.\<close>

definition level_of :: "string \<Rightarrow> levels" where
  "level_of lev =
     (if lev = ''error'' then NDN_LOG_ERROR
      else if lev = ''warn'' then NDN_LOG_WARN
      else if lev = ''notice'' then NDN_LOG_NOTICE
      else if lev = ''info'' then NDN_LOG_INFO
      else if lev = ''debug'' then NDN_LOG_DEBUG
      else if lev = ''function'' then NDN_LOG_FUNCTION
      else if lev = ''all'' then NDN_LOG_ALL
      else if lev = ''prefix_func'' then NDN_LOG_PREFIX_FUNC
      else if lev = ''prefix_time'' then NDN_LOG_PREFIX_TIME
      else if lev = ''prefix_node'' then NDN_LOG_PREFIX_NODE
      else if lev = ''level_error'' then NDN_LOG_LEVEL_ERROR
      else if lev = ''level_warn'' then NDN_LOG_LEVEL_WARN
      else if lev = ''level_notice'' then NDN_LOG_LEVEL_NOTICE
      else if lev = ''level_info'' then NDN_LOG_LEVEL_INFO
      else if lev = ''level_debug'' then NDN_LOG_LEVEL_DEBUG
      else if lev = ''level_function'' then NDN_LOG_LEVEL_FUNCTION
      else if lev = ''console'' then NDN_LOG_TO_CONSOLE
      else if lev = ''syslog'' then NDN_LOG_TO_SYSLOG
      else 0)"

section \<open>A component\<close>

record log_component =
  lc_levels :: levels
  lc_name :: string
  lc_hostname :: string

definition IsEnabled :: "log_component \<Rightarrow> levels \<Rightarrow> bool" where
  "IsEnabled c level \<longleftrightarrow> lc_levels c AND level \<noteq> 0"

definition IsNoneEnabled :: "log_component \<Rightarrow> bool" where
  "IsNoneEnabled c \<longleftrightarrow> \<not> IsEnabled c NDN_LOG_LEVEL_ANY"

definition Enable :: "levels \<Rightarrow> log_component \<Rightarrow> log_component" where
  "Enable level c = c\<lparr>lc_levels := lc_levels c OR level\<rparr>"

definition Disable :: "levels \<Rightarrow> log_component \<Rightarrow> log_component" where
  "Disable level c = c\<lparr>lc_levels := lc_levels c AND NOT level\<rparr>"

section \<open>The environment variable\<close>

text \<open>
  \<open>find\<close> of \<open>std::string\<close> for one character, \<open>None\<close> for \<open>npos\<close>, and the part of a string between a
  position and the one found, \<open>None\<close> for the exception \<open>std::out_of_range\<close>.\<close>

function find_char :: "char \<Rightarrow> string \<Rightarrow> nat \<Rightarrow> nat option" where
  "find_char c s pos = (if pos < length s then (if s ! pos = c then Some pos else find_char c s (pos + 1)) else None)"
  by pat_completeness auto
termination by (relation "measure (\<lambda>(c, s, pos). length s - pos)") auto

declare find_char.simps [simp del]

definition substr :: "string \<Rightarrow> nat \<Rightarrow> nat option \<Rightarrow> string option" where
  "substr s pos stop =
     (if pos > length s then None
      else Some (case stop of None \<Rightarrow> drop pos s | Some e \<Rightarrow> take (e - pos) (drop pos s)))"

lemma find_char_bounds: "find_char c s pos = Some e \<Longrightarrow> pos \<le> e \<and> e < length s"
  by (induction c s pos rule: find_char.induct) (subst (asm) find_char.simps, auto split: if_splits)

text \<open>The loop over the words behind the sign of equality.\<close>

function level_loop :: "string \<Rightarrow> nat \<Rightarrow> levels \<Rightarrow> levels option" where
  "level_loop tmp at level =
     (let cur_lev = at + 1; next_lev = find_char CHR ''|'' tmp cur_lev in
      case substr tmp cur_lev next_lev of
        None \<Rightarrow> None
      | Some lev \<Rightarrow>
          (let level = level OR level_of lev in
           case next_lev of None \<Rightarrow> Some level | Some e \<Rightarrow> level_loop tmp e level))"
  by pat_completeness auto
termination
  by (relation "measure (\<lambda>(tmp, at, level). length tmp - at)") (auto dest!: find_char_bounds [OF sym])

declare level_loop.simps [simp del]

definition default_levels :: levels where
  "default_levels = NDN_LOG_LEVEL_DEBUG OR NDN_LOG_TO_CONSOLE OR NDN_LOG_PREFIX_FUNC"

function parse_loop :: "string \<Rightarrow> nat \<Rightarrow> log_component \<Rightarrow> log_component option" where
  "parse_loop env cur c =
     (let found = find_char CHR '':'' env cur;
          go_on = (\<lambda>c. case found of None \<Rightarrow> Some c | Some e \<Rightarrow> parse_loop env (e + 1) c) in
      case substr env cur found of
        None \<Rightarrow> None
      | Some tmp \<Rightarrow>
          (case find_char CHR ''='' tmp 0 of
             None \<Rightarrow> if tmp = lc_name c \<or> tmp = ''*'' then Some (Enable default_levels c) else go_on c
           | Some equal \<Rightarrow>
               (let component = take equal tmp in
                if component = lc_name c \<or> component = ''*'' then
                  (case level_loop tmp equal 0 of None \<Rightarrow> None | Some level \<Rightarrow> go_on (Enable level c))
                else go_on c)))"
  by pat_completeness auto
termination
  by (relation "measure (\<lambda>(env, cur, c). length env + 1 - cur)") (auto dest!: find_char_bounds [OF sym])

declare parse_loop.simps [simp del]

definition ParseEnvVar :: "string option \<Rightarrow> log_component \<Rightarrow> log_component option" where
  "ParseEnvVar envVar c = (case envVar of None \<Rightarrow> Some c | Some env \<Rightarrow> parse_loop env 0 c)"

text \<open>\<open>PrintList\<close>: does the variable ask for the list of the components?\<close>

function print_loop :: "string \<Rightarrow> nat \<Rightarrow> bool option" where
  "print_loop env cur =
     (let found = find_char CHR '':'' env cur in
      case substr env cur found of
        None \<Rightarrow> None
      | Some tmp \<Rightarrow>
          if tmp = ''print-list'' then Some True
          else (case found of None \<Rightarrow> Some False | Some e \<Rightarrow> print_loop env (e + 1)))"
  by pat_completeness auto
termination
  by (relation "measure (\<lambda>(env, cur). length env + 1 - cur)") (auto dest!: find_char_bounds [OF sym])

declare print_loop.simps [simp del]

definition PrintList :: "string option \<Rightarrow> bool option" where
  "PrintList envVar = (case envVar of None \<Rightarrow> Some False | Some env \<Rightarrow> print_loop env 0)"

section \<open>The registry\<close>

text \<open>
  The constructor. A component of the same name is reported by \<open>NS_FATAL_ERROR\<close>, which only prints: the
  new one is registered beside it. \<open>gethostname\<close> is an argument, \<open>None\<close> when it fails.\<close>

definition LogComponent :: "string option \<Rightarrow> string option \<Rightarrow> string \<Rightarrow> log_component list \<Rightarrow> log_component list option" where
  "LogComponent envVar gethostname name components =
     (case ParseEnvVar envVar \<lparr>lc_levels = 0, lc_name = name, lc_hostname = []\<rparr> of
        None \<Rightarrow> None
      | Some c \<Rightarrow>
          (let c = Enable (NDN_LOG_LEVEL_ERROR OR NDN_LOG_TO_CONSOLE OR NDN_LOG_PREFIX_FUNC) c;
               c = (if lc_hostname c = [] then
                      (case gethostname of Some buf \<Rightarrow> c\<lparr>lc_hostname := buf\<rparr> | None \<Rightarrow> c)
                    else c) in
           Some (components @ [c])))"

fun LogComponentEnable :: "string \<Rightarrow> levels \<Rightarrow> log_component list \<Rightarrow> log_component list" where
  "LogComponentEnable name level [] = []"
| "LogComponentEnable name level (c # cs) =
     (if lc_name c = name then Enable level c # cs else c # LogComponentEnable name level cs)"

definition LogComponentEnableAll :: "levels \<Rightarrow> log_component list \<Rightarrow> log_component list" where
  "LogComponentEnableAll level = map (Enable level)"

fun LogComponentDisable :: "string \<Rightarrow> levels \<Rightarrow> log_component list \<Rightarrow> log_component list" where
  "LogComponentDisable name level [] = []"
| "LogComponentDisable name level (c # cs) =
     (if lc_name c = name then Disable level c # cs else c # LogComponentDisable name level cs)"

definition LogComponentDisableAll :: "levels \<Rightarrow> log_component list \<Rightarrow> log_component list" where
  "LogComponentDisableAll level = map (Disable level)"

definition PrintComponentList :: "log_component list \<Rightarrow> (string \<times> string list) list" where
  "PrintComponentList components =
     map (\<lambda>c. (lc_name c,
       (if IsEnabled c NDN_LOG_TO_CONSOLE then [''console''] else []) @
       (if IsEnabled c NDN_LOG_TO_SYSLOG then [''syslog''] else []) @
       (if IsNoneEnabled c then [''none''] else []) @
       (if IsEnabled c NDN_LOG_ERROR then [''error''] else []) @
       (if IsEnabled c NDN_LOG_WARN then [''warn''] else []) @
       (if IsEnabled c NDN_LOG_NOTICE then [''notice''] else []) @
       (if IsEnabled c NDN_LOG_INFO then [''info''] else []) @
       (if IsEnabled c NDN_LOG_DEBUG then [''debug''] else []) @
       (if IsEnabled c NDN_LOG_FUNCTION then [''function''] else []))) components"

section \<open>Messages\<close>

datatype syslog_level = LOG_ERR | LOG_WARNING | LOG_NOTICE | LOG_INFO | LOG_DEBUG

definition ConvertToSyslogLevel :: "levels \<Rightarrow> syslog_level" where
  "ConvertToSyslogLevel level =
     (if level = NDN_LOG_ERROR then LOG_ERR
      else if level = NDN_LOG_WARN then LOG_WARNING
      else if level = NDN_LOG_NOTICE then LOG_NOTICE
      else if level = NDN_LOG_INFO then LOG_INFO
      else LOG_DEBUG)"

datatype log_output = Clog string | Syslog syslog_level string

definition LogMessage :: "log_component \<Rightarrow> levels \<Rightarrow> string \<Rightarrow> log_output list" where
  "LogMessage component level msg =
     (if IsEnabled component NDN_LOG_TO_CONSOLE then [Clog msg] else []) @
     (if IsEnabled component NDN_LOG_TO_SYSLOG then [Syslog (ConvertToSyslogLevel level) msg] else [])"

text \<open>The macros; \<open>TimeInfo\<close> and \<open>NodeInfo\<close> print nothing.\<close>

definition NS_LOG :: "log_component \<Rightarrow> string \<Rightarrow> levels \<Rightarrow> string \<Rightarrow> log_output list" where
  "NS_LOG g_log function_name level msg =
     (if IsEnabled g_log level then
        LogMessage g_log level
          ((if IsEnabled g_log NDN_LOG_PREFIX_FUNC then lc_name g_log @ '':'' @ function_name @ ''(): '' else []) @ msg)
      else [])"

fun ParameterLogger :: "nat \<Rightarrow> string list \<Rightarrow> string" where
  "ParameterLogger m_itemNumber [] = []"
| "ParameterLogger m_itemNumber (param # params) =
     (if m_itemNumber = 0 then param else '', '' @ param) @ ParameterLogger (m_itemNumber + 1) params"

definition NS_LOG_FUNCTION :: "log_component \<Rightarrow> string \<Rightarrow> string list \<Rightarrow> log_output list" where
  "NS_LOG_FUNCTION g_log function_name parameters =
     (if IsEnabled g_log NDN_LOG_FUNCTION then
        LogMessage g_log NDN_LOG_FUNCTION
          (lc_name g_log @ '':'' @ function_name @ ''('' @ ParameterLogger 0 parameters @ '')'')
      else [])"

section \<open>Splitting\<close>

fun split :: "char \<Rightarrow> string \<Rightarrow> string list" where
  "split c [] = [[]]"
| "split c (x # s) = (if x = c then [] # split c s else (case split c s of [] \<Rightarrow> [] | w # ws \<Rightarrow> (x # w) # ws))"

abbreviation before :: "char \<Rightarrow> string \<Rightarrow> string" where
  "before c \<equiv> takeWhile (\<lambda>x. x \<noteq> c)"

abbreviation behind :: "char \<Rightarrow> string \<Rightarrow> string" where
  "behind c s \<equiv> tl (dropWhile (\<lambda>x. x \<noteq> c) s)"

lemma split_eq: "split c s = before c s # (if c \<in> set s then split c (behind c s) else [])"
  by (induction s) (auto split: list.splits)

lemma find_char_eq:
  "find_char c s pos = (if c \<in> set (drop pos s) then Some (pos + length (before c (drop pos s))) else None)"
proof (induction c s pos rule: find_char.induct)
  case (1 c s pos)
  show ?case
  proof (cases "pos < length s")
    case True
    then have "drop pos s = s ! pos # drop (pos + 1) s" by (simp add: Cons_nth_drop_Suc)
    then show ?thesis using 1 True by (subst find_char.simps) simp
  next
    case False
    then show ?thesis by (subst find_char.simps) simp
  qed
qed

lemma take_before: "take (length (before c s)) s = before c s"
  by (metis append_eq_conv_conj takeWhile_dropWhile_id)

lemma drop_behind: "drop (length (before c s) + 1) s = behind c s"
  by (metis add.commute drop_drop drop_Suc drop_0 dropWhile_eq_drop One_nat_def)

lemma substr_found: "pos \<le> length s \<Longrightarrow> substr s pos (find_char c s pos) = Some (before c (drop pos s))"
  by (auto simp: substr_def find_char_eq take_before intro!: sym [of "before c (drop pos s)"] takeWhile_eq_all_conv [THEN iffD2])

lemma found_Some: "find_char c s pos = Some e \<Longrightarrow>
    c \<in> set (drop pos s) \<and> e + 1 \<le> length s \<and> drop (e + 1) s = behind c (drop pos s)"
  using find_char_bounds [of c s pos e] drop_behind [of c "drop pos s"]
  by (auto simp: find_char_eq add.commute add.left_commute split: if_splits)

lemma found_None: "find_char c s pos = None \<Longrightarrow> c \<notin> set (drop pos s)"
  by (simp add: find_char_eq split: if_splits)

section \<open>What the variable enables\<close>

definition all_of :: "string \<Rightarrow> levels" where
  "all_of words = foldr (OR) (map level_of (split CHR ''|'' words)) 0"

fun env_levels :: "string \<Rightarrow> string list \<Rightarrow> levels" where
  "env_levels name [] = 0"
| "env_levels name (item # items) =
     (if CHR ''='' \<in> set item then
        (if before CHR ''='' item \<in> {name, ''*''} then all_of (behind CHR ''='' item) else 0) OR env_levels name items
      else if item \<in> {name, ''*''} then default_levels
      else env_levels name items)"

lemma all_of_eq: "all_of s = level_of (before CHR ''|'' s) OR (if CHR ''|'' \<in> set s then all_of (behind CHR ''|'' s) else 0)"
  unfolding all_of_def by (subst split_eq) simp

lemma level_loop_eq: "at < length tmp \<Longrightarrow> level_loop tmp at level = Some (level OR all_of (drop (at + 1) tmp))"
proof (induction tmp at level rule: level_loop.induct)
  case (1 tmp at level)
  note sub = substr_found [of "at + 1" tmp "CHR ''|''"]
  show ?case
  proof (cases "find_char CHR ''|'' tmp (at + 1)")
    case None
    then show ?thesis
      using sub 1 found_None [OF None] by (subst level_loop.simps) (simp add: all_of_eq [of "drop (Suc at) tmp"])
  next
    case (Some e)
    then have "e < length tmp" using find_char_bounds by blast
    then have "level_loop tmp e (level OR level_of (before CHR ''|'' (drop (at + 1) tmp))) =
        Some (level OR level_of (before CHR ''|'' (drop (at + 1) tmp)) OR all_of (drop (e + 1) tmp))"
      using 1 sub Some by (simp add: or.assoc)
    then show ?thesis
      using sub 1 Some found_Some [OF Some]
      by (subst level_loop.simps) (simp add: all_of_eq [of "drop (Suc at) tmp"] or.assoc)
  qed
qed

lemma Enable_Enable [simp]: "Enable a (Enable b c) = Enable (b OR a) c" and Enable_0 [simp]: "Enable 0 c = c"
  and Enable_name [simp]: "lc_name (Enable a c) = lc_name c"
  by (simp_all add: Enable_def or.assoc)

lemma parse_loop_eq:
  "cur \<le> length env \<Longrightarrow> parse_loop env cur c = Some (Enable (env_levels (lc_name c) (split CHR '':'' (drop cur env))) c)"
proof (induction "length env - cur" arbitrary: cur c rule: less_induct)
  case less
  let ?found = "find_char CHR '':'' env cur" and ?tmp = "before CHR '':'' (drop cur env)"
  let ?rest = "\<lambda>name. if CHR '':'' \<in> set (drop cur env) then env_levels name (split CHR '':'' (behind CHR '':'' (drop cur env))) else 0"
  have rest: "(case ?found of None \<Rightarrow> Some d | Some e \<Rightarrow> parse_loop env (e + 1) d) = Some (Enable (?rest (lc_name d)) d)" for d
  proof (cases ?found)
    case (Some e)
    have "length env - (e + 1) < length env - cur" using find_char_bounds [OF Some] by linarith
    then show ?thesis using Some found_Some [OF Some] less.hyps [of "e + 1" d] by simp
  qed (simp add: found_None)
  have items: "env_levels name (split CHR '':'' (drop cur env)) =
      (if CHR ''='' \<in> set ?tmp then
        (if before CHR ''='' ?tmp \<in> {name, ''*''} then all_of (behind CHR ''='' ?tmp) else 0) OR ?rest name
      else if ?tmp \<in> {name, ''*''} then default_levels else ?rest name)" for name
    by (subst split_eq) simp
  have step: "parse_loop env cur c =
      (case find_char CHR ''='' ?tmp 0 of
         None \<Rightarrow> if ?tmp = lc_name c \<or> ?tmp = ''*'' then Some (Enable default_levels c) else Some (Enable (?rest (lc_name c)) c)
       | Some equal \<Rightarrow>
           if take equal ?tmp = lc_name c \<or> take equal ?tmp = ''*'' then
             (case level_loop ?tmp equal 0 of None \<Rightarrow> None | Some level \<Rightarrow> Some (Enable (level OR ?rest (lc_name c)) c))
           else Some (Enable (?rest (lc_name c)) c))"
    by (subst parse_loop.simps, unfold Let_def rest substr_found [OF less.prems])
      (simp only: option.simps Enable_name Enable_Enable)
  show ?case
  proof (cases "find_char CHR ''='' ?tmp 0")
    case None
    then show ?thesis using found_None [OF None] unfolding step items by auto
  next
    case (Some equal)
    have "take equal ?tmp = before CHR ''='' ?tmp"
      using Some take_before [of "CHR ''=''" ?tmp] by (auto simp: find_char_eq split: if_splits)
    moreover have "level_loop ?tmp equal 0 = Some (all_of (behind CHR ''='' ?tmp))"
      using level_loop_eq [of equal ?tmp 0] find_char_bounds [OF Some] found_Some [OF Some] by simp
    ultimately show ?thesis using Some found_Some [OF Some] unfolding step items by auto
  qed
qed

lemma print_loop_eq:
  "cur \<le> length env \<Longrightarrow> print_loop env cur = Some (''print-list'' \<in> set (split CHR '':'' (drop cur env)))"
proof (induction "length env - cur" arbitrary: cur rule: less_induct)
  case less
  show ?case
  proof (cases "find_char CHR '':'' env cur")
    case None
    then show ?thesis
      using found_None [OF None] less.prems
      by (subst print_loop.simps, subst split_eq) (auto simp: substr_found [of cur env "CHR '':''", unfolded None])
  next
    case (Some e)
    have "length env - (e + 1) < length env - cur" using find_char_bounds [OF Some] by linarith
    then show ?thesis
      using found_Some [OF Some] less.hyps [of "e + 1"] less.prems Some
      by (subst print_loop.simps, subst split_eq) (auto simp: substr_found [of cur env "CHR '':''", unfolded Some])
  qed
qed

text \<open>
  \<open>split\<close> is what is meant: putting separators between words that have none and splitting gives the
  words back.\<close>

lemma split_plain: "c \<notin> set w \<Longrightarrow> split c w = [w]"
  by (induction w) auto

lemma split_first: "c \<notin> set w \<Longrightarrow> split c (w @ c # s) = w # split c s"
  by (induction w) auto

lemma split_words:
  "ws \<noteq> [] \<Longrightarrow> \<forall>w \<in> set ws. c \<notin> set w \<Longrightarrow> split c (butlast (concat (map (\<lambda>w. w @ [c]) ws))) = ws"
proof (induction ws)
  case (Cons w ws)
  then show ?case by (cases ws) (simp_all add: split_plain split_first butlast_append)
qed simp

section \<open>Properties\<close>

lemma IsEnabled_Enable:
  "IsEnabled (Enable (x OR y) c) b \<longleftrightarrow> IsEnabled (Enable x c) b \<or> y AND b \<noteq> 0"
  "IsEnabled (c\<lparr>lc_hostname := h\<rparr>) b \<longleftrightarrow> IsEnabled c b"
proof -
  have "(lc_levels c OR x OR y) AND b = ((lc_levels c OR x) AND b) OR (y AND b)"
    by (simp add: bit.conj_disj_distrib2 or.assoc)
  then show "IsEnabled (Enable (x OR y) c) b \<longleftrightarrow> IsEnabled (Enable x c) b \<or> y AND b \<noteq> 0"
    by (simp add: IsEnabled_def Enable_def or_eq_0_iff)
qed (simp add: IsEnabled_def)


text \<open>
  Whatever the variable says, a new component is registered behind the others and writes its errors to the
  console, with the names of the component and the function in front.\<close>

theorem errors_to_console:
  "\<exists>c. LogComponent envVar gethostname name components = Some (components @ [c]) \<and> lc_name c = name \<and>
     NS_LOG c f NDN_LOG_ERROR msg =
       Clog (name @ '':'' @ f @ ''(): '' @ msg) #
       (if IsEnabled c NDN_LOG_TO_SYSLOG then [Syslog LOG_ERR (name @ '':'' @ f @ ''(): '' @ msg)] else [])"
proof -
  have "\<exists>l. ParseEnvVar envVar c = Some (Enable l c)" for c
  proof (cases envVar)
    case None
    then show ?thesis by (simp add: ParseEnvVar_def) (metis Enable_0)
  qed (use parse_loop_eq [of 0 _ c] in \<open>auto simp: ParseEnvVar_def\<close>)
  then obtain l where l: "ParseEnvVar envVar \<lparr>lc_levels = 0, lc_name = name, lc_hostname = []\<rparr> =
      Some (Enable l \<lparr>lc_levels = 0, lc_name = name, lc_hostname = []\<rparr>)" by blast
  let ?c = "(Enable (l OR NDN_LOG_LEVEL_ERROR OR NDN_LOG_TO_CONSOLE OR NDN_LOG_PREFIX_FUNC) \<lparr>lc_levels = 0, lc_name = name, lc_hostname = []\<rparr>)
      \<lparr>lc_hostname := case gethostname of Some buf \<Rightarrow> buf | None \<Rightarrow> []\<rparr>"
  have "IsEnabled ?c NDN_LOG_ERROR" "IsEnabled ?c NDN_LOG_TO_CONSOLE" "IsEnabled ?c NDN_LOG_PREFIX_FUNC"
    by (simp_all add: IsEnabled_Enable) (simp_all add: log_bits)
  moreover have "LogComponent envVar gethostname name components = Some (components @ [?c])"
    unfolding LogComponent_def l by (auto simp: Enable_def or.assoc split: option.splits)
  moreover have "lc_name ?c = name" by simp
  ultimately show ?thesis
    by (intro exI [of _ ?c] conjI) (simp_all add: NS_LOG_def LogMessage_def ConvertToSyslogLevel_def)
qed

text \<open>The documentation of the variable and of the levels promises more than this.\<close>

lemma wildcard_without_function: "env_levels name [''*''] AND NDN_LOG_FUNCTION = 0"
  by (simp add: default_levels_def log_bits)

lemma documented_words: "level_of ''func'' = 0" "level_of ''level_all'' = 0" "level_of ''prefix'' = 0"
  by (simp_all add: level_of_def)

lemma everything_but_output:
  "NDN_LOG_ALL AND (NDN_LOG_TO_CONSOLE OR NDN_LOG_TO_SYSLOG OR NDN_LOG_PREFIX_FUNC OR NDN_LOG_PREFIX_TIME OR NDN_LOG_PREFIX_NODE) = 0"
  by (simp add: log_bits)

text \<open>Of two components of one name only the first can be enabled or disabled later.\<close>

lemma enable_first:
  "lc_name c = name \<Longrightarrow> name \<notin> lc_name ` set cs \<Longrightarrow>
     LogComponentEnable name level (cs @ c # ds) = cs @ Enable level c # ds \<and>
     LogComponentDisable name level (cs @ c # ds) = cs @ Disable level c # ds"
  by (induction cs) auto

end
