(* ===== verification/Clients.thy ===== *)
theory Clients
  imports Gps Codec
begin

text \<open>
  The client library (\<open>apps/ndn-consumer.cc\<close>, \<open>apps/ndn-producer.cc\<close>) and what the
  applications share: numbers in names, the position in a name, and the retransmission timer of a consumer.
  A read from the socket of the daemon is \<open>None\<close> when it fails; \<open>rand ()\<close> and the reading of
  a \<open>double\<close> from a stream are arguments.
\<close>

section \<open>Sending and receiving\<close>

text \<open>\<open>m_childSelector\<close> is never initialised: it is an argument.\<close>

definition SendPacket_with :: "bool \<Rightarrow> u32 \<Rightarrow> name \<Rightarrow> int \<Rightarrow> int \<Rightarrow> fault + byte list" where
  "SendPacket_with childSelector rand n minSuffixComponents maxSuffixComponents =
     bindr (AddInterestHeader (InterestHeader_new\<lparr>ih_nonce := rand, ih_name := Some n,
              ih_interestLifetime := 4 * 1000000, ih_childSelector := childSelector,
              ih_maxSuffixComponents := maxSuffixComponents, ih_minSuffixComponents := minSuffixComponents\<rparr>) Packet_new) (\<lambda>p.
       Inr (m_data (pk_buffer p)))"

definition SendPacket :: "bool \<Rightarrow> u32 \<Rightarrow> name \<Rightarrow> fault + byte list" where
  "SendPacket childSelector rand n = SendPacket_with childSelector rand n 0 0"

text \<open>What \<open>read\<close> of a consumer or a producer returns: \<open>-1\<close>, zero, or what it has read.\<close>

datatype 'a received = ReadError | OtherPacket | Received 'a

definition InitFromFD :: "byte list \<Rightarrow> fault + packet" where
  "InitFromFD bs = InitFromBuffer (take BUFLEN bs)"

definition read_packet :: "byte list option \<Rightarrow> (packet \<Rightarrow> header_type \<Rightarrow> fault + 'a received) \<Rightarrow> fault + 'a received" where
  "read_packet recv f =
     (case recv of
        None \<Rightarrow> Inr ReadError
      | Some bs \<Rightarrow>
          bindr (InitFromFD bs) (\<lambda>newPacket.
            if Packet_GetSize newPacket = 0 then Inr ReadError
            else
              case GetNDNHeaderType newPacket of
                Inl e \<Rightarrow> if e = NDNUnknownHeaderException then Inr ReadError else Inl e
              | Inr headerType \<Rightarrow> f newPacket headerType))"

text \<open>
  The payload and the name. The size that the header would have when it is written is taken for the size that
  it has.
\<close>

definition consumer_read :: "byte list option \<Rightarrow> fault + (byte list \<times> name) received" where
  "consumer_read recv =
     read_packet recv (\<lambda>newPacket headerType.
       if headerType = CONTENT_OBJECT then
         bindr (GetContentHeader newPacket) (\<lambda>contentHeader.
         bindr (GetSizeContent contentHeader) (\<lambda>size.
           if Packet_GetSize newPacket < size then Inl UndefinedBehaviour
           else
             bindr (ch_GetName contentHeader) (\<lambda>n.
               let payload = GetPayload newPacket size (Packet_GetSize newPacket - size)
               in Inr (if payload = [] then OtherPacket else Received (payload, n)))))
       else Inr OtherPacket)"

definition producer_read :: "byte list option \<Rightarrow> fault + name received" where
  "producer_read recv =
     read_packet recv (\<lambda>newPacket headerType.
       if headerType = INTEREST then
         bindr (GetInterestHeader newPacket) (\<lambda>interest.
         bindr (ih_GetName interest) (\<lambda>n. Inr (Received n)))
       else Inr OtherPacket)"

definition sendContent :: "name \<Rightarrow> byte list \<Rightarrow> fault + byte list" where
  "sendContent n content = bindr (NDNContentPacket n content) (\<lambda>contentPkt. Inr (m_data (pk_buffer contentPkt)))"

section \<open>Numbers and positions in names\<close>

definition is_digit :: "char \<Rightarrow> bool" where
  "is_digit c \<longleftrightarrow> 48 \<le> (of_char c :: nat) \<and> (of_char c :: nat) \<le> 57"

fun number_value :: "string \<Rightarrow> int \<Rightarrow> int" where
  "number_value [] n = n"
| "number_value (c # s) n = (if is_digit c then number_value s (10 * n + (of_char c - 48)) else n)"

text \<open>Without a bound: a number that no \<open>int\<close> holds is undefined.\<close>

definition atoi :: "string \<Rightarrow> int" where
  "atoi str =
     (case dropWhile is_space str of
        [] \<Rightarrow> 0
      | c # s \<Rightarrow> if c = CHR ''-'' then - number_value s 0
                 else if c = CHR ''+'' then number_value s 0 else number_value (c # s) 0)"

text \<open>\<open>boost::tokenizer\<close> with a separator leaves out empty tokens.\<close>

fun tokens :: "char \<Rightarrow> string \<Rightarrow> string \<Rightarrow> string list" where
  "tokens sep cur [] = (if cur = [] then [] else [cur])"
| "tokens sep cur (c # s) =
     (if c = sep then (if cur = [] then tokens sep [] s else cur # tokens sep [] s) else tokens sep (cur @ [c]) s)"

text \<open>The distance from a position in a name; the iterator is advanced even at the end.\<close>

definition getDistance_format :: "(string \<Rightarrow> real) \<Rightarrow> coordinate \<Rightarrow> string \<Rightarrow> fault + real" where
  "getDistance_format parse c coordinateFormat =
     (case tokens CHR '','' [] coordinateFormat of
        [] \<Rightarrow> Inl AssertionFailed
      | [lat] \<Rightarrow> Inr (getDistance c (parse lat) 0)
      | lat # lng # _ \<Rightarrow> Inr (getDistance c (parse lat) (parse lng)))"

section \<open>The timer of a consumer\<close>

definition resetTimerNextDeadline :: "int \<Rightarrow> int \<times> int" where
  "resetTimerNextDeadline retransmissionDeadline = (retransmissionDeadline, 0)"

definition setTimerNextDeadline :: "int \<times> int \<Rightarrow> int \<times> int \<Rightarrow> int \<Rightarrow> int \<times> int" where
  "setTimerNextDeadline now previousTime retransmissionDeadline =
     (let (sec, usec) = (if snd now \<ge> snd previousTime then (fst now, snd now - snd previousTime)
                         else (fst now - 1, 1000000 - snd previousTime + snd now))
      in if sec < fst previousTime then resetTimerNextDeadline retransmissionDeadline
         else
           let sec = sec - fst previousTime in
           if usec > 0 then (retransmissionDeadline - (sec + 1), 1000000 - usec)
           else (retransmissionDeadline - sec, 0))"

text \<open>
  After a packet that is not the awaited content, the timer of a consumer is set to exactly the rest of its
  retransmission interval: the interval less the time since it was started, in microseconds below a
  second. Once the interval has passed the seconds are negative, which \<open>select\<close> refuses.\<close>

theorem consumer_timer:
  assumes "0 \<le> snd now" "snd now < 1000000" "0 \<le> snd start" "snd start < 1000000"
    and "fst start * 1000000 + snd start \<le> fst now * 1000000 + snd now"
    and "setTimerNextDeadline now start interval = (s, u)"
  shows "0 \<le> u \<and> u < 1000000 \<and>
    s * 1000000 + u = interval * 1000000 - (fst now * 1000000 + snd now - (fst start * 1000000 + snd start)) \<and>
    (s < 0 \<longleftrightarrow> interval * 1000000 < fst now * 1000000 + snd now - (fst start * 1000000 + snd start))"
proof -
  obtain n0 n1 b0 b1 where e: "now = (n0, n1)" "start = (b0, b1)" by (cases now; cases start)
  have bounds: "0 \<le> n1" "n1 < 1000000" "0 \<le> b1" "b1 < 1000000" "b0 * 1000000 + b1 \<le> n0 * 1000000 + n1"
    using assms(1-5) by (simp_all add: e)
  have "0 \<le> u \<and> u < 1000000 \<and>
    s * 1000000 + u = interval * 1000000 - (n0 * 1000000 + n1 - (b0 * 1000000 + b1))"
  proof (cases "n1 \<ge> b1")
    case True
    then have "\<not> n0 < b0" using bounds by linarith
    with True assms(6) bounds show ?thesis
      by (auto simp: e setTimerNextDeadline_def Let_def split: if_splits)
  next
    case False
    then have "\<not> n0 - 1 < b0" using bounds by linarith
    with False assms(6) bounds show ?thesis
      by (auto simp: e setTimerNextDeadline_def Let_def split: if_splits)
  qed
  then show ?thesis by (simp add: e) linarith
qed

theorem consumer_timer_witness: "setTimerNextDeadline (12, 250000) (10, 750000) 4 = (2, 500000) \<and> (0 :: int) \<le> 500000"
proof -
  have e: "setTimerNextDeadline (12, 250000) (10, 750000) 4 = (2, 500000)"
    by (simp add: setTimerNextDeadline_def Let_def)
  show ?thesis using e consumer_timer [OF _ _ _ _ _ e] by simp
qed

section \<open>Numbers\<close>

lemma digits_append:
  "\<forall>c \<in> set s. is_digit c \<Longrightarrow> is_digit d \<Longrightarrow> number_value (s @ [d]) n = 10 * number_value s n + (of_char d - 48)"
  by (induction s arbitrary: n) auto

lemma digit_char_nat: "k < 10 \<Longrightarrow> (of_char (char_of (48 + k)) :: nat) = 48 + k" for k :: nat
  by (subst of_char_of) (rule mod_less, arith)

lemma digit_char_is_digit: "k < 10 \<Longrightarrow> is_digit (char_of (48 + k))" for k :: nat
  using digit_char_nat [of k] by (simp only: is_digit_def) arith

lemma digit_char_int: "k < 10 \<Longrightarrow> (of_char (char_of (48 + k)) :: int) = 48 + int k" for k :: nat
  using digit_char_nat [of k] by (metis of_nat_of_char of_nat_add of_nat_numeral)

lemma show_nat_digits:
  "show_nat n \<noteq> [] \<and> (\<forall>c \<in> set (show_nat n). is_digit c) \<and> number_value (show_nat n) 0 = int n"
proof (induction n rule: show_nat.induct)
  case (1 n)
  note d = digit_char_is_digit digit_char_int
  show ?case
  proof (cases "n < 10")
    case True
    then show ?thesis using d(1,2) [OF True] by (subst (1 2 3) show_nat.simps) simp
  next
    case False
    have m: "n mod 10 < 10" by simp
    have "number_value (show_nat (n div 10) @ [char_of (48 + n mod 10)]) 0 = 10 * int (n div 10) + int (n mod 10)"
      using 1 [OF False] d(1,2) [OF m] by (simp add: digits_append)
    also have "\<dots> = int n" by presburger
    finally show ?thesis using 1 [OF False] d(1) [OF m] False by (subst (1 2 3) show_nat.simps) simp
  qed
qed

lemma atoi_show_nat [simp]: "atoi (show_nat n) = int n"
proof -
  obtain c s where s: "show_nat n = c # s" "is_digit c"
    using show_nat_digits [of n] by (cases "show_nat n") auto
  then have "\<not> is_space c" "c \<noteq> CHR ''-''" "c \<noteq> CHR ''+''" by (auto simp: Names.is_space_def is_digit_def)
  then show ?thesis using show_nat_digits [of n] s by (simp add: atoi_def)
qed

lemma show_nat_length: "n < 10 ^ k \<Longrightarrow> 0 < k \<Longrightarrow> length (show_nat n) \<le> k"
proof (induction n arbitrary: k rule: show_nat.induct)
  case (1 n)
  show ?case
  proof (cases "n < 10")
    case True
    then show ?thesis using 1(3) by (subst show_nat.simps) simp
  next
    case False
    then obtain j where k: "k = Suc j" "0 < j" using 1(2,3) by (cases k; cases "k = 1") auto
    then have "n div 10 < 10 ^ j" using 1(2) by (simp add: div_less_iff_less_mult)
    then have "length (show_nat (n div 10)) \<le> j" by (rule 1(1) [OF False _ k(2)])
    then show ?thesis using False k by (subst show_nat.simps) simp
  qed
qed

section \<open>Messages\<close>

text \<open>
  What a name needs in a message; the other fields of an Interest and of a content take less than 70 bytes.
\<close>

definition name_room :: "name \<Rightarrow> nat" where
  "name_room n = sum_list (map (\<lambda>c. length c + 5) n)"

lemma short_header: "v < 2048 \<Longrightarrow> length (AppendBlockHeader v tt) \<le> 2"
proof -
  assume "v < 2048"
  then have "v div 16 div 128 = 0" by simp
  then show ?thesis
    by (simp add: AppendBlockHeader_def header_bytes.simps [of "v div 16"] header_bytes.simps [of 0])
qed

lemma dtag_short: "length (AppendBlockHeader (dtag_code t) CCN_DTAG) \<le> 2"
  by (rule short_header) (cases t, simp_all)

lemma field_short: "length (append_field e t x) \<le> length x + 3"
  using dtag_short [of t] by (simp add: append_field_def AppendCloser_def)

lemma blob_short: "length b < 2048 \<Longrightarrow> length (AppendTaggedBlob t b) \<le> length b + 5"
  using dtag_short [of t] short_header [of "length b" CCN_BLOB] by (simp add: AppendTaggedBlob_def AppendCloser_def)

lemma names_short: "name_room n < 2048 \<Longrightarrow> length (AppendNameComponents n) \<le> name_room n"
proof (induction n)
  case (Cons c n)
  then have "length (AppendTaggedBlob CCN_DTAG_Component (bytes_of c)) \<le> length (bytes_of c) + 5"
    by (intro blob_short) (simp add: name_room_def)
  with Cons show ?case by (simp add: name_room_def)
qed (simp add: name_room_def)

lemma number_short: "n < 10 \<Longrightarrow> length (AppendNumber n) \<le> 3"
  using short_header [of 1 CCN_UDATA] by (simp add: AppendNumber_def decimal.simps [of n])

lemma lifetime_short: "length (AppendTimestampBlob 4000000) \<le> 4"
proof -
  have "AppendTimestampBlob 4000000 = enc_block (Blob (time_bytes 4000000))" by (simp only: enc_time)
  also have "time_bytes 4000000 = [of_nat 64, 0]" using time_bytes_whole [of 4] by simp
  finally show ?thesis using short_header [of 2 CCN_BLOB] by (simp add: numeral_2_eq_2)
qed

definition consumer_header :: "bool \<Rightarrow> u32 \<Rightarrow> name \<Rightarrow> interest_header" where
  "consumer_header childSelector rand n = InterestHeader_new\<lparr>ih_nonce := rand, ih_name := Some n,
     ih_interestLifetime := 4000000, ih_childSelector := childSelector,
     ih_maxSuffixComponents := 0, ih_minSuffixComponents := 0\<rparr>"

lemma consumer_header_length:
  assumes "SerializeInterest (consumer_header cs rnd n) = Inr bs" and "name_room n < 2048"
  shows "length bs \<le> name_room n + 70"
proof -
  note f = field_short [of True CCN_DTAG_Name "AppendNameComponents n"] names_short [OF assms(2)]
    field_short [of True CCN_DTAG_MinSuffixComponents "AppendNumber 0"]
    field_short [of True CCN_DTAG_MaxSuffixComponents "AppendNumber 0"]
    field_short [of cs CCN_DTAG_ChildSelector "AppendNumber 1"]
    field_short [of True CCN_DTAG_InterestLifetime "AppendTimestampBlob 4000000"]
    number_short [of 0] number_short [of 1] lifetime_short dtag_short [of CCN_DTAG_Interest]
    blob_short [of "nonce_bytes rnd" CCN_DTAG_Nonce]
  have off: "append_field False t x = []" for t x by (simp add: append_field_def)
  have "bs = AppendBlockHeader (dtag_code CCN_DTAG_Interest) CCN_DTAG @
     append_field True CCN_DTAG_Name (AppendNameComponents n) @
     append_field True CCN_DTAG_MinSuffixComponents (AppendNumber 0) @
     append_field True CCN_DTAG_MaxSuffixComponents (AppendNumber 0) @
     append_field cs CCN_DTAG_ChildSelector (AppendNumber 1) @
     append_field True CCN_DTAG_InterestLifetime (AppendTimestampBlob 4000000) @
     (if rnd > 0 then AppendTaggedBlob CCN_DTAG_Nonce (nonce_bytes rnd) else []) @ AppendCloser"
    using assms(1) by (simp add: SerializeInterest_def ih_GetName_def consumer_header_def InterestHeader_new_def off
        ih_IsEnabledExclude_def NORMAL_INTEREST_def del: dtag_code.simps cong: if_cong) (auto simp del: dtag_code.simps)?
  moreover have "length (if rnd > 0 then AppendTaggedBlob CCN_DTAG_Nonce (nonce_bytes rnd) else []) \<le> 9"
    using f by (simp add: length_nonce_bytes)
  moreover have "length AppendCloser = 1" by (simp add: AppendCloser_def)
  ultimately show ?thesis using f by (simp del: dtag_code.simps)
qed

lemma consumer_header_ok:
  assumes "encodable_name n" and "name_room n + 70 \<le> BUFLEN"
  shows "interest_ok (consumer_header cs rnd n)"
proof -
  have "wf_interest (consumer_header cs rnd n)" using assms(1)
    by (simp add: wf_interest_def consumer_header_def InterestHeader_new_def NORMAL_INTEREST_def whole_lifetime_def)
  moreover obtain bs where bs: "SerializeInterest (consumer_header cs rnd n) = Inr bs"
    by (simp add: SerializeInterest_def ih_GetName_def consumer_header_def)
  moreover have "length bs \<le> BUFLEN"
    using consumer_header_length [OF bs] assms(2) by (simp add: BUFLEN_def)
  ultimately show ?thesis by (simp add: interest_ok_def)
qed

lemma read_packet_whole:
  assumes "length m \<le> BUFLEN" and "InitFromBuffer m = Inr p" and "GetNDNHeaderType p = Inr t" and "m \<noteq> []"
  shows "read_packet (Some m) f = f p t"
  using assms by (auto simp: read_packet_def InitFromFD_def InitFromBuffer_def Packet_GetSize_def buffer_size_def)

text \<open>What a consumer sends is an Interest with its header, and what a producer reads from it is its name.\<close>

lemma interest_wire:
  assumes "encodable_name n" and "name_room n + 70 \<le> BUFLEN"
  shows "\<exists>m p. SendPacket cs rnd n = Inr m \<and> m \<noteq> [] \<and> length m \<le> name_room n + 70 \<and> InitFromBuffer m = Inr p \<and>
    GetNDNHeaderType p = Inr INTEREST \<and> GetInterestHeader p = Inr (consumer_header cs rnd n)"
proof -
  let ?h = "consumer_header cs rnd n"
  obtain p where p: "AddInterestHeader ?h Packet_new = Inr p" "GetInterestHeader p = Inr ?h"
    using interest_codec [OF consumer_header_ok [OF assms]] by blast
  obtain bs where bs: "SerializeInterest ?h = Inr bs" "length bs \<le> BUFLEN"
    using consumer_header_ok [OF assms, of cs rnd] by (auto simp: interest_ok_def split: sum.splits)
  have data: "pk_buffer p = \<lparr>m_data = bs\<rparr>"
    using p(1) bs by (auto simp: AddInterestHeader_def buffer_write_def Packet_new_def Buffer_new_def buffer_size_def)
  obtain q where q: "InitFromBuffer bs = Inr q" "pk_buffer q = \<lparr>m_data = bs\<rparr>"
    using bs(2) by (simp add: InitFromBuffer_def)
  have "GetInterestHeader q = Inr ?h" using p(2) by (simp add: GetInterestHeader_def data q(2))
  moreover have "GetNDNHeaderType q = Inr INTEREST" by (rule interest_type [OF bs(1), of "[]"]) (simp add: q(1))
  moreover have "bs \<noteq> []"
    using bs(1) AppendBlockHeader_hd by (auto simp: SerializeInterest_def bindr_eq_Inr)
  moreover have "SendPacket cs rnd n = Inr bs"
    using p(1) data by (simp add: SendPacket_def SendPacket_with_def consumer_header_def)
  moreover have "length bs \<le> name_room n + 70"
    using consumer_header_length [OF bs(1)] assms(2) by (simp add: BUFLEN_def)
  ultimately show ?thesis using q(1) by blast
qed

lemma interest_message:
  assumes "encodable_name n" and "name_room n + 70 \<le> BUFLEN"
  shows "\<exists>m. SendPacket cs rnd n = Inr m \<and> producer_read (Some m) = Inr (Received n)"
proof -
  obtain m p where m: "SendPacket cs rnd n = Inr m" "m \<noteq> []" "length m \<le> name_room n + 70" "InitFromBuffer m = Inr p"
    "GetNDNHeaderType p = Inr INTEREST" "GetInterestHeader p = Inr (consumer_header cs rnd n)"
    using interest_wire [OF assms] by blast
  have "length m \<le> BUFLEN" using m(3) assms(2) by simp
  with m show ?thesis
    by (simp add: producer_read_def read_packet_whole [OF _ m(4,5,2)] ih_GetName_def consumer_header_def)
qed

lemma name_tree_short:
  assumes "name_room n < 2048"
  shows "length (enc_block (name_tree n)) \<le> name_room n + 3"
proof -
  have "enc_block (name_tree n) = append_field True CCN_DTAG_Name (AppendNameComponents n)"
    by (simp only: name_tree_def enc_block.simps enc_name unat_dtag append_field_def if_True)
  then show ?thesis using field_short [of True CCN_DTAG_Name "AppendNameComponents n"] names_short [OF assms] by simp
qed

text \<open>What a producer sends is a content, and the payload and the name are what a consumer reads.\<close>

lemma content_wire:
  assumes "encodable_name n" and "name_room n + 30 + length payload \<le> BUFLEN" and "payload \<noteq> []"
  shows "\<exists>m p. sendContent n payload = Inr m \<and> m \<noteq> [] \<and> length m \<le> name_room n + 30 + length payload \<and> InitFromBuffer m = Inr p \<and>
    GetNDNHeaderType p = Inr CONTENT_OBJECT \<and> GetContentHeader p = Inr \<lparr>ch_name = Some n\<rparr> \<and>
    consumer_read (Some m) = Inr (Received (payload, n))"
proof -
  obtain bs where bs: "SerializeContent \<lparr>ch_name = Some n\<rparr> = Inr bs"
    by (simp add: SerializeContent_bytes)
  have "length (enc_block signature_tree) \<le> 10" "length (enc_block signed_info_tree) \<le> 10"
    by (simp_all add: signature_tree_def signed_info_tree_def AppendBlockHeader_def header_bytes.simps AppendCloser_def)
  then have len: "length bs \<le> name_room n + 30"
    using bs assms(2) name_tree_short [of n] dtag_short [of CCN_DTAG_ContentObject] dtag_short [of CCN_DTAG_Content]
    by (auto simp: SerializeContent_bytes BUFLEN_def simp del: dtag_code.simps)
  let ?m = "bs @ payload"
  have m: "sendContent n payload = Inr ?m" using bs len assms(2)
    by (simp add: sendContent_def NDNContentPacket_def AddContentHeader_def AddPayload_def ch_SetName_def
        ContentObjectHeader_new_def buffer_write_def Packet_new_def Buffer_new_def buffer_size_def)
  have short: "length ?m \<le> name_room n + 30 + length payload" using len by simp
  then have lm: "length ?m \<le> BUFLEN" using assms(2) by simp
  obtain q where q: "InitFromBuffer ?m = Inr q" "pk_buffer q = \<lparr>m_data = ?m\<rparr>"
    using lm by (simp add: InitFromBuffer_def)
  have ty: "GetNDNHeaderType q = Inr CONTENT_OBJECT" by (rule content_type [OF bs q(1)])
  have h: "GetContentHeader q = Inr \<lparr>ch_name = Some n\<rparr>"
    using ParseBlock_content [OF assms(1) bs] visit_content_tree [OF assms(1)]
    by (simp add: GetContentHeader_def q(2) DeserializeContent_def ContentObjectHeader_new_def ch_SetName_def)
  moreover have "Packet_GetSize q = length ?m" by (simp add: Packet_GetSize_def q(2) buffer_size_def)
  moreover have "GetPayload q (length bs) (length payload) = payload"
    by (simp add: GetPayload_def buffer_read_def q(2))
  moreover have ne: "?m \<noteq> []" using assms(3) by simp
  ultimately have "consumer_read (Some ?m) = Inr (Received (payload, n))"
    using assms(3) GetSizeContent_length [OF bs]
    by (simp add: consumer_read_def read_packet_whole [OF lm q(1) ty] ch_GetName_def)
  with m ne short q(1) ty h show ?thesis by blast
qed

lemma content_message:
  assumes "encodable_name n" and "name_room n + 30 + length payload \<le> BUFLEN" and "payload \<noteq> []"
  shows "\<exists>m. sendContent n payload = Inr m \<and> consumer_read (Some m) = Inr (Received (payload, n))"
  using content_wire [OF assms] by blast

end
