(* ===== verification/Photo.thy ===== *)
theory Photo
  imports Clients
begin

text \<open>
  The photo application (\<open>apps/photo-app.h\<close>, \<open>apps/photo-producer.cc\<close>,
  \<open>apps/photo-consumer.cc\<close>): the producer takes a photo of the place that an Interest asks for,
  keeps it in chunks and answers with the chunk that is asked for; the consumer asks for one chunk after the
  other and writes them to a file. The camera is an argument: \<open>None\<close> when the photo cannot be taken or
  opened, otherwise the contents of the photo file, which \<open>read\<close> gives whole pieces of. The main
  theorem: over any loss of Interests and contents, the file of the consumer is the photo of the producer.
\<close>

section \<open>The messages\<close>

definition PHOTO_TYPE_OF_SERVICE :: string where "PHOTO_TYPE_OF_SERVICE = ''photo-traffic''"
definition NUMBER_OF_PHOTO_INTEREST_COMPONENT :: nat where "NUMBER_OF_PHOTO_INTEREST_COMPONENT = 5"
definition MAX_PHOTO_CONTENT_SIZE :: nat where "MAX_PHOTO_CONTENT_SIZE = 1300"

definition htonl_u32 :: "u32 \<Rightarrow> byte list" where
  "htonl_u32 n = [ucast (drop_bit 24 n), ucast (drop_bit 16 n), ucast (drop_bit 8 n), ucast n]"

definition ntohl_u32 :: "byte list \<Rightarrow> u32" where
  "ntohl_u32 b = ucast (b ! 3) + push_bit 8 (ucast (b ! 2)) + push_bit 16 (ucast (b ! 1)) + push_bit 24 (ucast (b ! 0))"

text \<open>\<open>PhotoHeader\<close> as it lies in memory once each field is in network byte order.\<close>

definition PhotoHeader :: "u32 \<Rightarrow> u32 \<Rightarrow> u32 \<Rightarrow> byte list" where
  "PhotoHeader carId numberOfContents photoSize = htonl_u32 carId @ htonl_u32 numberOfContents @ htonl_u32 photoSize"

definition sizeof_PhotoHeader :: nat where "sizeof_PhotoHeader = 12"

section \<open>The producer\<close>

record photo_content =
  ct_data :: "byte list"
  ct_size :: nat

record photo =
  ph_id :: string
  ph_numberOfPacket :: u32
  ph_contentSize :: u32
  ph_photoContent :: "photo_content list"

definition memcpy_at :: "nat \<Rightarrow> byte list \<Rightarrow> byte list \<Rightarrow> byte list" where
  "memcpy_at offset src dest = take offset dest @ src @ drop (offset + length src) dest"

text \<open>The loop that reads the photo file: the first chunk leaves room for the header.\<close>

function read_photo :: "nat \<Rightarrow> byte list \<Rightarrow> photo_content list" where
  "read_photo contentNumber file =
     (let buffer = take (if contentNumber = 0 then MAX_PHOTO_CONTENT_SIZE - sizeof_PhotoHeader else MAX_PHOTO_CONTENT_SIZE) file;
          offset = (if contentNumber = 0 then sizeof_PhotoHeader else 0)
      in if buffer = [] then []
         else \<lparr>ct_data = memcpy_at offset buffer (replicate 1400 0), ct_size = length buffer + offset\<rparr> #
           read_photo (Suc contentNumber) (drop (length buffer) file))"
  by pat_completeness auto
termination
  by (relation "measure (length \<circ> snd)") (auto split: if_splits simp: Let_def)

declare read_photo.simps [simp del]

text \<open>
  The header is only written when the Interest asks for the first chunk; an empty photo has no chunk to write it
  to.\<close>

definition make_photo :: "string \<Rightarrow> string \<Rightarrow> string \<Rightarrow> byte list \<Rightarrow> fault + photo" where
  "make_photo carID interestId sequence file =
     (let contentList = read_photo 0 file;
          numberOfPacket = of_nat (length contentList);
          contentSize = of_nat (sum_list (map ct_size contentList)) - of_nat sizeof_PhotoHeader;
          newPhoto = \<lparr>ph_id = interestId, ph_numberOfPacket = numberOfPacket, ph_contentSize = contentSize,
            ph_photoContent = contentList\<rparr>
      in if atoi sequence = 0 then
           (case contentList of
              [] \<Rightarrow> Inl UndefinedBehaviour
            | c # contents \<Rightarrow>
                let hdr = PhotoHeader (of_int (atoi carID)) numberOfPacket contentSize
                in Inr (newPhoto\<lparr>ph_photoContent := c\<lparr>ct_data := memcpy_at 0 hdr (ct_data c)\<rparr> # contents\<rparr>))
         else Inr newPhoto)"

definition chunk :: "photo_content \<Rightarrow> byte list" where
  "chunk contentToSend = take (ct_size contentToSend) (ct_data contentToSend)"

text \<open>The chunk is sent under the name of the Interest; one past the last is not refused.\<close>

definition send_chunk :: "name \<Rightarrow> u32 \<Rightarrow> photo \<Rightarrow> photo list \<Rightarrow> fault + photo list \<times> (name \<times> byte list) option" where
  "send_chunk nameReply segmentNumber p photoStorage =
     (if segmentNumber > ph_numberOfPacket p then Inr (photoStorage, None)
      else if unat segmentNumber < length (ph_photoContent p) then
        Inr (photoStorage, Some (nameReply, chunk (ph_photoContent p ! unat segmentNumber)))
      else Inl UndefinedBehaviour)"

definition photo_interest :: "(string \<Rightarrow> real) \<Rightarrow> string \<Rightarrow> byte list option \<Rightarrow> coordinate \<Rightarrow> name \<Rightarrow> photo list \<Rightarrow>
    fault + photo list \<times> (name \<times> byte list) option" where
  "photo_interest parse carID camera myC interestNameCmp photoStorage =
     (if length interestNameCmp < NUMBER_OF_PHOTO_INTEREST_COMPONENT then Inr (photoStorage, None)
      else
        let interestStringComponent = take NUMBER_OF_PHOTO_INTEREST_COMPONENT interestNameCmp;
            position = interestStringComponent ! 1; car = interestStringComponent ! 2;
            minute = interestStringComponent ! 3; sequence = interestStringComponent ! 4
        in if interestStringComponent ! 0 \<noteq> PHOTO_TYPE_OF_SERVICE then Inr (photoStorage, None)
           else if car \<noteq> carID \<and> car \<noteq> ''0'' then Inr (photoStorage, None)
           else
             let segmentNumber = of_int (atoi sequence);
                 interestId = minute @ ''||'' @ position
             in case find (\<lambda>p. ph_id p = interestId) photoStorage of
                  Some processedPhoto \<Rightarrow> send_chunk interestStringComponent segmentNumber processedPhoto photoStorage
                | None \<Rightarrow>
                    bindr (getDistance_format parse myC position) (\<lambda>distance.
                      if distance > 50 then Inr (photoStorage, None)
                      else
                        case camera of
                          None \<Rightarrow> Inr (photoStorage, None)
                        | Some file \<Rightarrow>
                            bindr (make_photo carID interestId sequence file) (\<lambda>newPhoto.
                              send_chunk interestStringComponent segmentNumber newPhoto (photoStorage @ [newPhoto]))))"

section \<open>The consumer\<close>

record photo_consumer =
  pc_chunkNumber :: u32
  pc_requiredChunk :: u32
  pc_carId :: u32
  pc_nowSecond :: int
  pc_requestedPosition :: string
  pc_interest :: name
  pc_sendAgain :: bool
  pc_file :: "byte list"

definition buildInterestName_photo :: "int \<Rightarrow> int \<Rightarrow> int \<Rightarrow> string \<Rightarrow> name" where
  "buildInterestName_photo carID segmentNumber nowSecond positionInMap =
     (let nowMinutesDiscretized = unat (of_int nowSecond :: u32) div 60
      in [PHOTO_TYPE_OF_SERVICE, positionInMap, show_int carID, show_nat nowMinutesDiscretized, show_int segmentNumber])"

definition photo_request :: "int \<Rightarrow> string \<Rightarrow> photo_consumer" where
  "photo_request nowSecond requestedPosition =
     \<lparr>pc_chunkNumber = 0, pc_requiredChunk = - 1, pc_carId = 0, pc_nowSecond = nowSecond,
      pc_requestedPosition = requestedPosition,
      pc_interest = buildInterestName_photo 0 0 nowSecond requestedPosition, pc_sendAgain = True, pc_file = []\<rparr>"

definition photo_finished :: "photo_consumer \<Rightarrow> bool" where
  "photo_finished c \<longleftrightarrow> pc_requiredChunk c = pc_chunkNumber c"

definition photo_send :: "bool \<Rightarrow> u32 \<Rightarrow> photo_consumer \<Rightarrow> fault + byte list option" where
  "photo_send childSelector rand c =
     (if pc_sendAgain c then bindr (SendPacket childSelector rand (pc_interest c)) (\<lambda>bs. Inr (Some bs)) else Inr None)"

definition photo_timeout :: "photo_consumer \<Rightarrow> photo_consumer" where
  "photo_timeout c = c\<lparr>pc_sendAgain := True\<rparr>"

text \<open>
  The content is stored whatever its name is. A first chunk shorter than its header gives \<open>write\<close> a
  negative size.
\<close>

definition store_chunk :: "byte list \<Rightarrow> photo_consumer \<Rightarrow> fault + photo_consumer" where
  "store_chunk payload c =
     (let buffer = payload @ replicate (2000 - length payload) 0;
          start = (pc_chunkNumber c = 0);
          requiredChunk = (if start then ntohl_u32 (drop 4 buffer) else pc_requiredChunk c);
          carId = (if start then ntohl_u32 buffer else pc_carId c);
          chunkNumber = pc_chunkNumber c + 1
      in if start \<and> length payload < sizeof_PhotoHeader then Inl UndefinedBehaviour
         else Inr (c\<lparr>pc_requiredChunk := requiredChunk, pc_carId := carId, pc_chunkNumber := chunkNumber,
                pc_file := pc_file c @ (if start then drop sizeof_PhotoHeader payload else payload),
                pc_sendAgain := True,
                pc_interest := buildInterestName_photo (sint carId) (sint chunkNumber) (pc_nowSecond c)
                  (pc_requestedPosition c)\<rparr>))"

definition photo_receive :: "byte list option \<Rightarrow> photo_consumer \<Rightarrow> fault + photo_consumer" where
  "photo_receive recv c =
     bindr (consumer_read recv) (\<lambda>res.
       case res of
         ReadError \<Rightarrow> Inr (c\<lparr>pc_sendAgain := True\<rparr>)
       | OtherPacket \<Rightarrow> Inr (c\<lparr>pc_sendAgain := False\<rparr>)
       | Received (payload, contentName) \<Rightarrow> store_chunk payload c)"

section \<open>A transfer over a network that loses messages\<close>

datatype delivery = InterestLost | ContentLost | Delivered

definition photo_round :: "(string \<Rightarrow> real) \<Rightarrow> bool \<Rightarrow> string \<Rightarrow> byte list option \<Rightarrow> coordinate \<Rightarrow> u32 \<times> delivery \<Rightarrow>
    photo_consumer \<times> photo list \<Rightarrow> fault + photo_consumer \<times> photo list" where
  "photo_round parse cs carID camera myC rd s =
     (case (rd, s) of ((rnd, d), (c, storage)) \<Rightarrow>
        bindr (photo_send cs rnd c) (\<lambda>msg.
          if msg = None \<or> d = InterestLost then Inr (photo_timeout c, storage)
          else
            bindr (producer_read msg) (\<lambda>r.
              case r of
                Received n \<Rightarrow>
                  bindr (photo_interest parse carID camera myC n storage) (\<lambda>(storage, reply).
                    case reply of
                      None \<Rightarrow> Inr (photo_timeout c, storage)
                    | Some (nm, content) \<Rightarrow>
                        bindr (sendContent nm content) (\<lambda>bs.
                          if d = ContentLost then Inr (photo_timeout c, storage)
                          else bindr (photo_receive (Some bs) c) (\<lambda>c. Inr (c, storage))))
              | _ \<Rightarrow> Inr (photo_timeout c, storage))))"

fun photo_session :: "(string \<Rightarrow> real) \<Rightarrow> bool \<Rightarrow> string \<Rightarrow> byte list option \<Rightarrow> coordinate \<Rightarrow> (u32 \<times> delivery) list \<Rightarrow>
    photo_consumer \<times> photo list \<Rightarrow> fault + photo_consumer \<times> photo list" where
  "photo_session parse cs carID camera myC [] s = Inr s"
| "photo_session parse cs carID camera myC (d # ds) s =
     (if photo_finished (fst s) then Inr s
      else bindr (photo_round parse cs carID camera myC d s) (photo_session parse cs carID camera myC ds))"

section \<open>The chunks of a photo\<close>

lemma ntohl_htonl: "ntohl_u32 (htonl_u32 n @ r) = n"
  using nonce_of_nonce_bytes [of n]
  by (simp add: ntohl_u32_def htonl_u32_def nonce_of_bytes_def nonce_bytes_def numeral_2_eq_2 numeral_3_eq_3)

lemma htonl_length: "length (htonl_u32 n) = 4"
  by (simp add: htonl_u32_def)

lemma rest_taken [simp]: "take n d @ drop (min (length d) n) d = d" "drop (length (take n d)) d = drop n d"
  by (cases "length d \<le> n", simp_all)+

lemma sizes: "MAX_PHOTO_CONTENT_SIZE = 1300" "sizeof_PhotoHeader = 12" "NUMBER_OF_PHOTO_INTEREST_COMPONENT = 5"
  by (simp_all add: MAX_PHOTO_CONTENT_SIZE_def sizeof_PhotoHeader_def NUMBER_OF_PHOTO_INTEREST_COMPONENT_def)

lemma later_chunks:
  "concat (map chunk (read_photo (Suc k) photo)) = photo \<and>
   (\<forall>c \<in> set (read_photo (Suc k) photo). chunk c \<noteq> [] \<and> length (chunk c) \<le> 1300) \<and>
   length (read_photo (Suc k) photo) = (length photo + 1299) div 1300"
proof (induction photo arbitrary: k rule: length_induct)
  case (1 photo)
  show ?case
  proof (cases "photo = []")
    case True
    then show ?thesis by (simp add: read_photo.simps)
  next
    case False
    let ?b = "take 1300 photo" and ?r = "drop (length (take 1300 photo)) photo"
    have ne: "?b \<noteq> []" using False by simp
    then have c: "read_photo (Suc k) photo =
        \<lparr>ct_data = memcpy_at 0 ?b (replicate 1400 0), ct_size = length ?b\<rparr> # read_photo (Suc (Suc k)) ?r"
      by (subst read_photo.simps) (simp add: sizes Let_def)
    have IH: "concat (map chunk (read_photo (Suc (Suc k)) ?r)) = ?r \<and>
        (\<forall>c \<in> set (read_photo (Suc (Suc k)) ?r). chunk c \<noteq> [] \<and> length (chunk c) \<le> 1300) \<and>
        length (read_photo (Suc (Suc k)) ?r) = (length ?r + 1299) div 1300"
      proof (rule 1 [THEN spec, THEN mp, THEN spec])
      show "length ?r < length photo" using False by simp
    qed
    have "(length photo + 1299) div 1300 = Suc ((length ?r + 1299) div 1300)"
    proof -
      have "1300 \<le> length photo + 1299" using False by (cases photo) auto
      then have "(length photo + 1299) div 1300 = Suc ((length photo + 1299 - 1300) div 1300)" by (simp add: le_div_geq)
      moreover have "(length photo + 1299 - 1300) div 1300 = (length ?r + 1299) div 1300"
      proof (cases "length photo \<le> 1300")
        case True
        then show ?thesis using False by (cases photo) auto
      next
        case False
        then have "length photo + 1299 - 1300 = length ?r + 1299" by simp
        then show ?thesis by (simp only:)
      qed
      ultimately show ?thesis by (simp only:)
    qed
    moreover have "chunk \<lparr>ct_data = memcpy_at 0 ?b (replicate 1400 0), ct_size = length ?b\<rparr> = ?b"
      by (simp add: chunk_def memcpy_at_def min_def)
    ultimately show ?thesis using IH ne unfolding c by simp
  qed
qed

text \<open>What the consumer keeps of the chunks.\<close>

definition bodies :: "photo \<Rightarrow> byte list list" where
  "bodies p = drop 12 (chunk (ph_photoContent p ! 0)) # map chunk (tl (ph_photoContent p))"

definition photo_chunks :: "byte list \<Rightarrow> nat" where
  "photo_chunks d = 1 + (length d - 1288 + 1299) div 1300"

lemma photo_chunks_bound: "d \<noteq> [] \<Longrightarrow> length d < 2 ^ 31 \<Longrightarrow> 0 < photo_chunks d \<and> photo_chunks d < 2 ^ 31"
proof -
  assume "length d < 2 ^ 31"
  then have "(length d - 1288 + 1299) div 1300 \<le> (2 ^ 31 + 1299) div 1300" by (intro div_le_mono) linarith
  then show ?thesis by (simp add: photo_chunks_def)
qed

lemma made_photo:
  assumes "d \<noteq> []"
  obtains p sz where
    "make_photo carID iid ''0'' d = Inr p" "ph_id p = iid"
    "length (ph_photoContent p) = photo_chunks d" "ph_numberOfPacket p = of_nat (photo_chunks d)"
    "\<exists>r. chunk (ph_photoContent p ! 0) = PhotoHeader (of_int (atoi carID)) (of_nat (photo_chunks d)) sz @ r"
    "\<forall>c \<in> set (ph_photoContent p). chunk c \<noteq> [] \<and> length (chunk c) \<le> 1300"
    "concat (bodies p) = d"
proof -
  let ?b = "take 1288 d" and ?r = "drop (length (take 1288 d)) d"
  let ?c = "\<lparr>ct_data = memcpy_at 12 ?b (replicate 1400 0), ct_size = length ?b + 12\<rparr>"
  let ?l = "?c # read_photo 1 ?r"
  have l: "read_photo 0 d = ?l"
    using assms by (subst read_photo.simps) (simp add: sizes Let_def)
  have r: "?r = drop 1288 d" by (simp add: min_def)
  have n: "length ?l = photo_chunks d"
    using later_chunks [of 0 ?r] by (simp add: photo_chunks_def r)
  define sz :: u32 where "sz = of_nat (sum_list (map ct_size ?l)) - of_nat sizeof_PhotoHeader"
  define h where "h = PhotoHeader (of_int (atoi carID)) (of_nat (photo_chunks d)) sz"
  have h12: "length h = 12" by (simp add: h_def PhotoHeader_def htonl_length)
  define p where "p = \<lparr>ph_id = iid, ph_numberOfPacket = of_nat (photo_chunks d), ph_contentSize = sz,
    ph_photoContent = ?c\<lparr>ct_data := memcpy_at 0 h (ct_data ?c)\<rparr> # read_photo 1 ?r\<rparr>"
  have zero: "atoi ''0'' = 0" by code_simp
  have c0: "chunk (ph_photoContent p ! 0) = h @ ?b"
    by (simp add: chunk_def p_def memcpy_at_def h12 min_def)
  show thesis
  proof (rule that)
    show "make_photo carID iid ''0'' d = Inr p"
      by (simp only: make_photo_def Let_def l zero list.case if_True n p_def h_def sz_def simp_thms photo.simps)
    show "\<exists>r. chunk (ph_photoContent p ! 0) = PhotoHeader (of_int (atoi carID)) (of_nat (photo_chunks d)) sz @ r"
      using c0 unfolding h_def by blast
    show "length (ph_photoContent p) = photo_chunks d" using n by (simp add: p_def)
    show "\<forall>c \<in> set (ph_photoContent p). chunk c \<noteq> [] \<and> length (chunk c) \<le> 1300"
    proof
      fix c
      assume "c \<in> set (ph_photoContent p)"
      then have "c = ph_photoContent p ! 0 \<or> c \<in> set (read_photo (Suc 0) ?r)" by (auto simp: p_def)
      then show "chunk c \<noteq> [] \<and> length (chunk c) \<le> 1300"
      proof
        assume "c = ph_photoContent p ! 0"
        then have "chunk c = h @ ?b" using c0 by (simp only:)
        then show ?thesis using h12 by (simp only:) auto
      next
        assume "c \<in> set (read_photo (Suc 0) ?r)"
        then show ?thesis using later_chunks [of 0 ?r] by blast
      qed
    qed
    have "bodies p = ?b # map chunk (read_photo (Suc 0) ?r)"
      unfolding bodies_def c0 by (simp add: h12 p_def)
    then show "concat (bodies p) = d"
      using later_chunks [of 0 ?r] by (simp only: list.map concat.simps) (simp add: r)
  qed (simp_all add: p_def)
qed

section \<open>Asking for a chunk\<close>

lemma show_int_nat: "show_int (int n) = show_nat n"
  by (simp add: show_int_def)

lemma show_nat_ne: "show_nat n \<noteq> []"
  using show_nat_digits by blast

definition request_name :: "nat \<Rightarrow> nat \<Rightarrow> int \<Rightarrow> string \<Rightarrow> name" where
  "request_name car k now pos = buildInterestName_photo (if k = 0 then 0 else int car) (int k) now pos"

lemma request_name_parts:
  "\<exists>minute. length minute \<le> 10 \<and> minute \<noteq> [] \<and>
     (\<forall>car k. request_name car k now pos = [''photo-traffic'', pos, show_nat (if k = 0 then 0 else car), minute, show_nat k])"
proof (intro exI conjI allI)
  let ?m = "unat (of_int now :: u32) div 60"
  have "unat (of_int now :: u32) < 2 ^ 32" using unsigned_less [of "of_int now :: u32"] by simp
  then have "?m < 10 ^ 10" by (auto intro: le_less_trans [OF div_le_dividend])
  then show "length (show_nat ?m) \<le> 10" by (rule show_nat_length) simp
  show "show_nat ?m \<noteq> []" by (rule show_nat_ne)
  fix car k
  show "request_name car k now pos = [''photo-traffic'', pos, show_nat (if k = 0 then 0 else car), show_nat ?m, show_nat k]"
    using show_int_nat [of 0]
    by (simp add: request_name_def buildInterestName_photo_def PHOTO_TYPE_OF_SERVICE_def show_int_nat)
qed

lemma request_name_ok:
  assumes "pos \<noteq> []" "length pos \<le> 64" "car < 2 ^ 31" "k < 2 ^ 31"
  shows "encodable_name (request_name car k now pos)" and "name_room (request_name car k now pos) \<le> 132"
proof -
  obtain minute where m: "length minute \<le> 10" "minute \<noteq> []"
    "request_name car k now pos = [''photo-traffic'', pos, show_nat (if k = 0 then 0 else car), minute, show_nat k]"
    using request_name_parts [of now pos] by blast
  have l: "length (show_nat (if k = 0 then 0 else car)) \<le> 10" "length (show_nat k) \<le> 10"
    by (rule show_nat_length; use assms in simp)+
  show "encodable_name (request_name car k now pos)"
    using m l assms show_nat_ne by (simp add: encodable_name_def)
  show "name_room (request_name car k now pos) \<le> 132"
    using m l assms by (simp add: name_room_def)
qed

text \<open>What the theorem assumes of the request, the producer and the photo.\<close>

definition photo_setting :: "(string \<Rightarrow> real) \<Rightarrow> nat \<Rightarrow> coordinate \<Rightarrow> int \<Rightarrow> string \<Rightarrow> byte list \<Rightarrow> photo list \<Rightarrow> bool" where
  "photo_setting parse car myC now pos d storage \<longleftrightarrow>
     car < 2 ^ 31 \<and> pos \<noteq> [] \<and> length pos \<le> 64 \<and> d \<noteq> [] \<and> length d < 2 ^ 31 \<and>
     (case getDistance_format parse myC pos of Inl e \<Rightarrow> False | Inr distance \<Rightarrow> distance \<le> 50) \<and>
     find (\<lambda>p. ph_id p = show_nat (unat (of_int now :: u32) div 60) @ ''||'' @ pos) storage = None"

text \<open>The photo that the producer makes at the first Interest that reaches it.\<close>

definition the_photo :: "nat \<Rightarrow> int \<Rightarrow> string \<Rightarrow> byte list \<Rightarrow> photo" where
  "the_photo car now pos d = (case make_photo (show_nat car) (show_nat (unat (of_int now :: u32) div 60) @ ''||'' @ pos) ''0'' d of
     Inr p \<Rightarrow> p | Inl e \<Rightarrow> \<lparr>ph_id = [], ph_numberOfPacket = 0, ph_contentSize = 0, ph_photoContent = []\<rparr>)"

lemma the_photo_parts:
  assumes "photo_setting parse car myC now pos d storage"
  defines "p \<equiv> the_photo car now pos d"
  shows "make_photo (show_nat car) (show_nat (unat (of_int now :: u32) div 60) @ ''||'' @ pos) ''0'' d = Inr p"
    "ph_id p = show_nat (unat (of_int now :: u32) div 60) @ ''||'' @ pos"
    "length (ph_photoContent p) = photo_chunks d" "ph_numberOfPacket p = of_nat (photo_chunks d)"
    "\<exists>sz r. chunk (ph_photoContent p ! 0) = PhotoHeader (of_nat car) (of_nat (photo_chunks d)) sz @ r"
    "\<forall>c \<in> set (ph_photoContent p). chunk c \<noteq> [] \<and> length (chunk c) \<le> 1300"
    "concat (bodies p) = d" "length (bodies p) = photo_chunks d"
    "0 < photo_chunks d" "photo_chunks d < 2 ^ 31"
proof -
  have d: "d \<noteq> []" "length d < 2 ^ 31" using assms(1) by (simp_all add: photo_setting_def)
  then show n: "0 < photo_chunks d" "photo_chunks d < 2 ^ 31" using photo_chunks_bound by blast+
  obtain q sz where q:
    "make_photo (show_nat car) (show_nat (unat (of_int now :: u32) div 60) @ ''||'' @ pos) ''0'' d = Inr q"
    "ph_id q = show_nat (unat (of_int now :: u32) div 60) @ ''||'' @ pos"
    "length (ph_photoContent q) = photo_chunks d" "ph_numberOfPacket q = of_nat (photo_chunks d)"
    "\<exists>r. chunk (ph_photoContent q ! 0) = PhotoHeader (of_int (atoi (show_nat car))) (of_nat (photo_chunks d)) sz @ r"
    "\<forall>c \<in> set (ph_photoContent q). chunk c \<noteq> [] \<and> length (chunk c) \<le> 1300"
    "concat (bodies q) = d"
    by (rule made_photo [OF d(1)])
  have "q = p" using q(1) by (simp add: p_def the_photo_def)
  note q = q [unfolded this]
  show "make_photo (show_nat car) (show_nat (unat (of_int now :: u32) div 60) @ ''||'' @ pos) ''0'' d = Inr p"
    "ph_id p = show_nat (unat (of_int now :: u32) div 60) @ ''||'' @ pos"
    "length (ph_photoContent p) = photo_chunks d" "ph_numberOfPacket p = of_nat (photo_chunks d)"
    "\<forall>c \<in> set (ph_photoContent p). chunk c \<noteq> [] \<and> length (chunk c) \<le> 1300"
    "concat (bodies p) = d"
    by (fact q)+
  show "\<exists>sz r. chunk (ph_photoContent p ! 0) = PhotoHeader (of_nat car) (of_nat (photo_chunks d)) sz @ r"
    using q(5) by (simp only: atoi_show_nat of_int_of_nat_eq) blast
  show "length (bodies p) = photo_chunks d" using q(3) n(1) by (simp add: bodies_def)
qed

text \<open>Whichever chunk is asked for, it is what the producer answers; the photo is taken once.\<close>

lemma chunk_answered:
  assumes set: "photo_setting parse car myC now pos d storage"
    and k: "k < photo_chunks d" and st: "st = storage \<and> k = 0 \<or> st = storage @ [the_photo car now pos d]"
  shows "photo_interest parse (show_nat car) (Some d) myC (request_name car k now pos) st =
    Inr (storage @ [the_photo car now pos d],
      Some (request_name car k now pos, chunk (ph_photoContent (the_photo car now pos d) ! k)))"
proof -
  note p = the_photo_parts [OF set]
  let ?iid = "show_nat (unat (of_int now :: u32) div 60) @ ''||'' @ pos"
  let ?n = "request_name car k now pos"
  have n: "?n = [PHOTO_TYPE_OF_SERVICE, pos, show_nat (if k = 0 then 0 else car),
      show_nat (unat (of_int now :: u32) div 60), show_nat k]"
    using show_int_nat [of 0] by (simp add: request_name_def buildInterestName_photo_def show_int_nat)
  have k32: "unat (of_nat k :: u32) = k" "(of_nat k :: u32) \<le> of_nat (photo_chunks d)"
    using k p(10) by (simp_all add: unat_of_nat take_bit_nat_eq_self word_le_nat_alt)
  have send: "send_chunk ?n (of_nat k) (the_photo car now pos d) s =
      Inr (s, Some (?n, chunk (ph_photoContent (the_photo car now pos d) ! k)))" for s
    using k k32 by (simp add: send_chunk_def p(3,4) not_less)
  have zero: "show_nat 0 = ''0''" by code_simp
  define cc where "cc = show_nat (if k = 0 then 0 else car)"
  have car: "cc = show_nat car \<or> cc = ''0''" by (simp add: cc_def zero)
  have none: "find (\<lambda>p. ph_id p = ?iid) storage = None" using set by (simp add: photo_setting_def)
  obtain dist where dist: "getDistance_format parse myC pos = Inr dist" "\<not> dist > 50"
    using set by (auto simp: photo_setting_def split: sum.splits)
  have start: "photo_interest parse (show_nat car) (Some d) myC ?n st =
    (case find (\<lambda>p. ph_id p = ?iid) st of
       Some processedPhoto \<Rightarrow> send_chunk ?n (of_nat k) processedPhoto st
     | None \<Rightarrow> bindr (make_photo (show_nat car) ?iid (show_nat k) d) (\<lambda>newPhoto.
           send_chunk ?n (of_nat k) newPhoto (st @ [newPhoto])))"
    unfolding photo_interest_def n cc_def [symmetric] using car by (auto simp: sizes Let_def dist cong: option.case_cong)
  show ?thesis
  proof (cases "st = storage \<and> k = 0")
    case True
    then show ?thesis unfolding start using none p(1) send zero by simp
  next
    case False
    then have "st = storage @ [the_photo car now pos d]" using st by blast
    moreover have "find (\<lambda>p. ph_id p = ?iid) (storage @ [the_photo car now pos d]) = Some (the_photo car now pos d)"
      using none p(2) by (induction storage) auto
    ultimately show ?thesis unfolding start using send by simp
  qed
qed

section \<open>The transfer\<close>

text \<open>The consumer when it has stored \<open>k\<close> chunks.\<close>

definition consumer_at :: "nat \<Rightarrow> int \<Rightarrow> string \<Rightarrow> byte list \<Rightarrow> nat \<Rightarrow> photo_consumer" where
  "consumer_at car now pos d k =
     \<lparr>pc_chunkNumber = of_nat k, pc_requiredChunk = (if k = 0 then - 1 else of_nat (photo_chunks d)),
      pc_carId = (if k = 0 then 0 else of_nat car), pc_nowSecond = now, pc_requestedPosition = pos,
      pc_interest = request_name car k now pos, pc_sendAgain = True,
      pc_file = concat (take k (bodies (the_photo car now pos d)))\<rparr>"

lemma consumer_at_start: "consumer_at car now pos d 0 = photo_request now pos"
  by (simp add: consumer_at_def photo_request_def request_name_def)

lemma finished_at:
  assumes "k \<le> photo_chunks d" "0 < photo_chunks d" "photo_chunks d < 2 ^ 31"
  shows "photo_finished (consumer_at car now pos d k) \<longleftrightarrow> k = photo_chunks d"
proof -
  have "(of_nat (photo_chunks d) :: u32) = of_nat k \<longleftrightarrow> photo_chunks d = k"
    using assms by (simp add: word_unat_eq_iff unat_of_nat take_bit_nat_eq_self)
  then show ?thesis using assms by (auto simp: photo_finished_def consumer_at_def)
qed

lemma chunk_stored:
  assumes set: "photo_setting parse car myC now pos d storage" and k: "k < photo_chunks d"
  shows "store_chunk (chunk (ph_photoContent (the_photo car now pos d) ! k)) (consumer_at car now pos d k) =
    Inr (consumer_at car now pos d (Suc k))"
proof -
  let ?p = "the_photo car now pos d" and ?n = "photo_chunks d"
  note p = the_photo_parts [OF set]
  have car: "car < 2 ^ 31" using set by (simp add: photo_setting_def)
  have sint: "sint (of_nat j :: u32) = int j" if "j < 2 ^ 31" for j
    using int32_of_nat [OF that] by (simp add: int32_of_def)
  have body: "bodies ?p ! k = (if k = 0 then drop 12 (chunk (ph_photoContent ?p ! 0)) else chunk (ph_photoContent ?p ! k))"
    using k p(3) by (cases k) (simp_all add: bodies_def nth_tl)
  have files: "concat (take (Suc k) (bodies ?p)) = concat (take k (bodies ?p)) @ bodies ?p ! k"
    using k p(8) by (simp add: take_Suc_conv_app_nth)
  have k32: "(of_nat k :: u32) = 0 \<longleftrightarrow> k = 0"
    using k p(10) by (simp add: word_unat_eq_iff unat_of_nat take_bit_nat_eq_self)
  have next': "(of_nat k :: u32) + 1 = of_nat (Suc k)" by simp
  have sk: "sint (of_nat (Suc k) :: u32) = int (Suc k)" by (rule sint) (use k p(10) in simp)
  obtain sz r where c0: "chunk (ph_photoContent ?p ! 0) = PhotoHeader (of_nat car) (of_nat ?n) sz @ r"
    using p(5) by blast
  show ?thesis
  proof (cases "k = 0")
    case True
    let ?c = "chunk (ph_photoContent ?p ! 0)"
    have "length ?c \<ge> 12" by (simp add: c0 PhotoHeader_def htonl_length)
    moreover have "ntohl_u32 (?c @ z) = of_nat car" for z by (simp add: c0 PhotoHeader_def ntohl_htonl)
    moreover have "drop 4 (?c @ z) = htonl_u32 (of_nat ?n) @ htonl_u32 sz @ r @ z" for z
      by (simp add: c0 PhotoHeader_def htonl_length)
    then have "ntohl_u32 (drop 4 (?c @ z)) = of_nat ?n" for z by (simp only: ntohl_htonl)
    ultimately show ?thesis using True sk sint [OF car] files body
      by (simp add: store_chunk_def consumer_at_def sizes Let_def request_name_def del: drop_append)
  next
    case False
    then show ?thesis using k32 sk sint [OF car] files body next'
      by (simp add: store_chunk_def consumer_at_def sizes Let_def request_name_def del: of_nat_Suc)
  qed
qed

lemma round_at:
  assumes set: "photo_setting parse car myC now pos d storage" and k: "k < photo_chunks d"
    and st: "st = storage \<and> k = 0 \<or> st = storage @ [the_photo car now pos d]"
  shows "photo_round parse cs (show_nat car) (Some d) myC (rnd, dl) (consumer_at car now pos d k, st) =
    Inr (if dl = Delivered then consumer_at car now pos d (Suc k) else consumer_at car now pos d k,
      if dl = InterestLost then st else storage @ [the_photo car now pos d])"
proof -
  let ?n = "request_name car k now pos" and ?c = "consumer_at car now pos d k"
  let ?ch = "chunk (ph_photoContent (the_photo car now pos d) ! k)"
  note p = the_photo_parts [OF set]
  have room: "encodable_name ?n" "name_room ?n \<le> 132"
    by (rule request_name_ok; use set k p(10) in \<open>simp add: photo_setting_def\<close>)+
  obtain m where m: "SendPacket cs rnd ?n = Inr m" "producer_read (Some m) = Inr (Received ?n)"
    using interest_message [OF room(1), of cs rnd] room(2) by (auto simp: BUFLEN_def)
  have ch: "?ch \<noteq> []" "length ?ch \<le> 1300" using p(6) k p(3) by simp_all
  obtain bs where bs: "sendContent ?n ?ch = Inr bs" "consumer_read (Some bs) = Inr (Received (?ch, ?n))"
    using content_message [OF room(1) _ ch(1)] room(2) ch(2) by (auto simp: BUFLEN_def)
  have send: "photo_send cs rnd ?c = Inr (Some m)" using m(1) by (simp add: photo_send_def consumer_at_def)
  have keep: "photo_timeout ?c = ?c" by (simp add: photo_timeout_def consumer_at_def)
  have receive: "photo_receive (Some bs) ?c = Inr (consumer_at car now pos d (Suc k))"
    using chunk_stored [OF set k] by (simp add: photo_receive_def bs(2))
  show ?thesis
    using chunk_answered [OF set k st]
    by (cases dl) (simp_all add: photo_round_def send m(2) keep bs(1) receive)
qed

lemma session_at:
  assumes set: "photo_setting parse car myC now pos d storage" and k: "k \<le> photo_chunks d"
    and st: "st = storage \<and> k = 0 \<or> st = storage @ [the_photo car now pos d]"
  shows "\<exists>st'. photo_session parse cs (show_nat car) (Some d) myC ds (consumer_at car now pos d k, st) =
    Inr (consumer_at car now pos d (min (photo_chunks d) (k + count_list (map snd ds) Delivered)), st')"
  using k st
proof (induction ds arbitrary: k st)
  case Nil
  then show ?case by simp
next
  case (Cons rd ds)
  note p = the_photo_parts [OF set]
  obtain rnd dl where rd: "rd = (rnd, dl)" by (cases rd)
  show ?case
  proof (cases "k = photo_chunks d")
    case True
    then show ?thesis using finished_at [OF Cons.prems(1) p(9,10)] by (simp add: min_def)
  next
    case False
    then have k': "k < photo_chunks d" using Cons.prems(1) by simp
    let ?k = "if dl = Delivered then Suc k else k"
    let ?st = "if dl = InterestLost then st else storage @ [the_photo car now pos d]"
    have "\<exists>st'. photo_session parse cs (show_nat car) (Some d) myC ds (consumer_at car now pos d ?k, ?st) =
        Inr (consumer_at car now pos d (min (photo_chunks d) (?k + count_list (map snd ds) Delivered)), st')"
      by (rule Cons.IH) (use k' Cons.prems(2) in auto)
    moreover have "\<not> photo_finished (consumer_at car now pos d k)"
      using finished_at [OF Cons.prems(1) p(9,10)] False by simp
    ultimately show ?thesis using round_at [OF set k' Cons.prems(2), of cs rnd dl]
      by (cases dl) (simp_all add: rd)
  qed
qed

text \<open>
  C24: a photo reaches the consumer over a network that loses Interests and contents in any order. The
  session never fails; the consumer is done exactly when as many exchanges were completed as the photo has
  chunks, its file is then the photo of the producer, byte for byte, and until then it is a
  beginning of it. The place is within fifty metres of the producer, the car is a decimal number, and the
  producer has no photo of that place and minute yet.\<close>

theorem photo_transfer:
  assumes "photo_setting parse car myC now pos d storage"
  shows "\<exists>c storage'. photo_session parse childSelector (show_nat car) (Some d) myC ds (photo_request now pos, storage) = Inr (c, storage') \<and>
    (photo_finished c \<longleftrightarrow> photo_chunks d \<le> count_list (map snd ds) Delivered) \<and>
    prefix (pc_file c) d \<and> (photo_finished c \<longrightarrow> pc_file c = d)"
proof -
  let ?k = "min (photo_chunks d) (count_list (map snd ds) Delivered)"
  note p = the_photo_parts [OF assms]
  obtain storage' where s: "photo_session parse childSelector (show_nat car) (Some d) myC ds (photo_request now pos, storage) =
      Inr (consumer_at car now pos d ?k, storage')"
    using session_at [OF assms, of 0 storage childSelector ds] by (auto simp: consumer_at_start)
  have fin: "photo_finished (consumer_at car now pos d ?k) \<longleftrightarrow> photo_chunks d \<le> count_list (map snd ds) Delivered"
    using finished_at [OF _ p(9,10), of ?k] by (simp add: min_def)
  have parts: "d = concat (take ?k (bodies (the_photo car now pos d))) @ concat (drop ?k (bodies (the_photo car now pos d)))"
    unfolding concat_append [symmetric] append_take_drop_id using p(7) by simp
  have "prefix (pc_file (consumer_at car now pos d ?k)) d"
    unfolding consumer_at_def photo_consumer.simps using parts by (rule prefixI)
  moreover have "pc_file (consumer_at car now pos d ?k) = d" if "photo_chunks d \<le> count_list (map snd ds) Delivered"
    using that p(7,8) by (simp add: consumer_at_def min_def)
  ultimately show ?thesis using s fin by blast
qed

definition sample_place :: "string \<Rightarrow> real" where "sample_place s = of_int (atoi s)"

lemma sample_setting: "photo_setting sample_place 12 (coordinate_at 46 13) 120 ''46,13'' (replicate 2000 7) []"
proof -
  have place: "tokens CHR '','' [] ''46,13'' = [''46'', ''13'']" "atoi ''46'' = 46" "atoi ''13'' = 13" by code_simp+
  have "getDistance (coordinate_at 46 13) 46 13 = 0"
    using meridian_distance [of "coordinate_at 46 13" 46] by simp
  then show ?thesis by (simp add: photo_setting_def getDistance_format_def place sample_place_def)
qed

lemma sample_chunks: "photo_chunks (replicate 2000 7) = 2"
  by (simp add: photo_chunks_def)

theorem photo_transfer_witness:
  "\<exists>c storage'. photo_session sample_place False (show_nat 12) (Some (replicate 2000 7)) (coordinate_at 46 13)
      [(5, InterestLost), (6, Delivered), (7, ContentLost), (8, Delivered)] (photo_request 120 ''46,13'', []) = Inr (c, storage') \<and>
    photo_finished c \<and> pc_file c = replicate 2000 7"
proof -
  let ?ds = "[(5 :: u32, InterestLost), (6, Delivered), (7, ContentLost), (8, Delivered)]"
  have "photo_chunks (replicate 2000 7) \<le> count_list (map snd ?ds) Delivered" unfolding sample_chunks by simp
  then show ?thesis using photo_transfer [OF sample_setting, of False ?ds] by blast
qed

text \<open>
  Once the photo is stored, an Interest for the chunk after the last passes the check of the
  producer and reads beyond the array of chunks.\<close>

theorem photo_overrun:
  assumes "photo_setting parse car myC now pos d storage"
  shows "photo_interest parse (show_nat car) camera myC (request_name car (photo_chunks d) now pos)
    (storage @ [the_photo car now pos d]) = Inl UndefinedBehaviour"
proof -
  let ?n = "photo_chunks d" and ?p = "the_photo car now pos d"
  let ?iid = "show_nat (unat (of_int now :: u32) div 60) @ ''||'' @ pos"
  note p = the_photo_parts [OF assms]
  have n: "request_name car ?n now pos = [PHOTO_TYPE_OF_SERVICE, pos, show_nat car,
      show_nat (unat (of_int now :: u32) div 60), show_nat ?n]"
    using p(9) by (simp add: request_name_def buildInterestName_photo_def show_int_nat)
  have "find (\<lambda>p. ph_id p = ?iid) storage = None" using assms by (simp add: photo_setting_def)
  then have "find (\<lambda>p. ph_id p = ?iid) (storage @ [?p]) = Some ?p" using p(2) by (induction storage) auto
  moreover have "send_chunk nm (of_nat ?n) ?p s = Inl UndefinedBehaviour" for nm s
    using p(10) by (simp add: send_chunk_def p(3,4) unat_of_nat take_bit_nat_eq_self)
  ultimately show ?thesis unfolding photo_interest_def n by (simp add: sizes Let_def)
qed

theorem photo_overrun_witness:
  "photo_interest sample_place (show_nat 12) None (coordinate_at 46 13) (request_name 12 2 120 ''46,13'')
    [the_photo 12 120 ''46,13'' (replicate 2000 7)] = Inl UndefinedBehaviour"
  using photo_overrun [OF sample_setting, of None] unfolding sample_chunks by simp

text \<open>
  After the first chunk, whatever content the consumer receives, of whatever name, is written to the file as the chunk
  it waits for: a content that arrives twice is stored twice.\<close>

theorem foreign_chunk:
  assumes "encodable_name n" and "name_room n + 30 + length payload \<le> BUFLEN" and "payload \<noteq> []"
    and "sendContent n payload = Inr m" and "pc_chunkNumber c \<noteq> 0"
  shows "\<exists>c'. photo_receive (Some m) c = Inr c' \<and> pc_file c' = pc_file c @ payload \<and> pc_chunkNumber c' = pc_chunkNumber c + 1"
proof -
  have "consumer_read (Some m) = Inr (Received (payload, n))"
    using content_message [OF assms(1-3)] assms(4) by auto
  then show ?thesis using assms(5) by (simp add: photo_receive_def store_chunk_def Let_def)
qed

theorem foreign_chunk_witness:
  "\<exists>m c'. sendContent [''a''] [1, 2] = Inr m \<and>
    photo_receive (Some m) (photo_request 120 ''46,13''\<lparr>pc_chunkNumber := 1, pc_file := [9]\<rparr>) = Inr c' \<and> pc_file c' = [9, 1, 2]"
proof -
  have n: "encodable_name [''a'']" "name_room [''a''] + 30 + length [1, 2 :: byte] \<le> BUFLEN"
    by (simp_all add: encodable_name_def name_room_def BUFLEN_def)
  obtain m where m: "sendContent [''a''] [1, 2] = Inr m" using content_message [OF n] by auto
  show ?thesis
    using m foreign_chunk [OF n _ m, of "photo_request 120 ''46,13''\<lparr>pc_chunkNumber := 1, pc_file := [9]\<rparr>"] by auto
qed

end
