(* ===== verification/Traffic.thy ===== *)
theory Traffic
  imports Clients
begin

text \<open>
  The traffic application (\<open>apps/traffic-app.h\<close>, \<open>apps/traffic-producer.cc\<close>,
  \<open>apps/traffic-consumer.cc\<close>) and the random places of \<open>apps/application-map.cc\<close>: a consumer
  asks for the speed at a place in an interval of minutes; a producer within fifty metres of the place answers
  from a table of a hundred speeds. The results of \<open>rand ()\<close> and the clock are arguments.
\<close>

section \<open>Random places\<close>

text \<open>\<open>%\<close> of C++ on a number that is not negative: the sign of the divisor does not matter.\<close>

definition c_mod :: "nat \<Rightarrow> int \<Rightarrow> fault + int" where
  "c_mod r d = (if d = 0 then Inl UndefinedBehaviour else Inr (int r mod \<bar>d\<bar>))"

definition random_degree :: "nat \<Rightarrow> real \<Rightarrow> real \<Rightarrow> fault + real" where
  "random_degree rand low high =
     bindr (c_mod rand \<lfloor>(high - low) * 100000\<rfloor>) (\<lambda>r. Inr ((of_int r + low * 100000) / 100000))"

definition getRandomCoordinate :: "nat \<Rightarrow> nat \<Rightarrow> real \<Rightarrow> real \<Rightarrow> real \<Rightarrow> real \<Rightarrow> fault + coordinate" where
  "getRandomCoordinate rand1 rand2 minLat maxLat minLon maxLon =
     bindr (random_degree rand1 minLat maxLat) (\<lambda>lat.
     bindr (random_degree rand2 minLon maxLon) (\<lambda>longitude.
       case Coordinate lat longitude of None \<Rightarrow> Inl CoordinateException | Some coord \<Rightarrow> Inr coord))"

section \<open>The consumer\<close>

definition TRAFFIC_REQUEST_TTL :: u32 where "TRAFFIC_REQUEST_TTL = 10"
definition NUMBER_OF_TIME_INTERVAL :: nat where "NUMBER_OF_TIME_INTERVAL = 60"
definition NUMBER_OF_TRAFFIC_INTEREST_COMPONENT :: nat where "NUMBER_OF_TRAFFIC_INTEREST_COMPONENT = 4"

definition buildInterestName_traffic :: "int \<Rightarrow> nat \<Rightarrow> string \<Rightarrow> name" where
  "buildInterestName_traffic nowSecond rand coordinate =
     (let nowMinutesDiscretized = of_int nowSecond div 60 :: u32;
          timeIndex = of_nat (rand mod NUMBER_OF_TIME_INTERVAL);
          from = nowMinutesDiscretized - timeIndex
      in [''traffic'', coordinate, show_nat (unat from) @ '','' @ show_nat (unat (from + TRAFFIC_REQUEST_TTL)), ''speed''])"

record traffic_consumer =
  tc_sendAgain :: bool
  tc_numberOfRetransmission :: nat
  tc_interest :: name

definition traffic_request :: "int \<Rightarrow> nat \<Rightarrow> string \<Rightarrow> traffic_consumer" where
  "traffic_request nowSecond rand coordinate =
     \<lparr>tc_sendAgain = True, tc_numberOfRetransmission = 0,
      tc_interest = buildInterestName_traffic nowSecond rand coordinate\<rparr>"

definition traffic_send :: "bool \<Rightarrow> u32 \<Rightarrow> traffic_consumer \<Rightarrow> fault + byte list option \<times> traffic_consumer" where
  "traffic_send childSelector nonce c =
     (if tc_sendAgain c then
        bindr (SendPacket childSelector nonce (tc_interest c)) (\<lambda>bs.
          Inr (Some bs, c\<lparr>tc_numberOfRetransmission := tc_numberOfRetransmission c + 1\<rparr>))
      else Inr (None, c))"

text \<open>
  The answer that is printed, if any; then the next Interest is made. \<open>nowSecond\<close>, \<open>rand\<close> and
  \<open>coordinate\<close> are those of the next Interest.\<close>

definition traffic_receive :: "int \<Rightarrow> nat \<Rightarrow> string \<Rightarrow> byte list option \<Rightarrow> traffic_consumer \<Rightarrow>
    fault + byte list option \<times> traffic_consumer" where
  "traffic_receive nowSecond rand coordinate recv c =
     bindr (consumer_read recv) (\<lambda>res.
       case res of
         OtherPacket \<Rightarrow> Inr (None, c\<lparr>tc_sendAgain := False\<rparr>)
       | ReadError \<Rightarrow> Inr (None, c\<lparr>tc_sendAgain := True\<rparr>)
       | Received (buffer, contentName) \<Rightarrow>
           Inr (Some buffer, c\<lparr>tc_sendAgain := True, tc_numberOfRetransmission := 0,
                  tc_interest := buildInterestName_traffic nowSecond rand coordinate\<rparr>))"

section \<open>The producer\<close>

definition sizeOfSpeedTable :: int where "sizeOfSpeedTable = 100"

definition startingTimeDiscretized :: "int \<Rightarrow> int" where
  "startingTimeDiscretized startingTime = sint (of_int startingTime :: u32) sdiv 60"

text \<open>A difference that no \<open>int\<close> holds is undefined.\<close>

definition speed_offset :: "int \<Rightarrow> int \<Rightarrow> fault + int" where
  "speed_offset starting requestTime =
     (let offset = (if starting < requestTime then requestTime - starting else starting - requestTime)
      in if offset < 2 ^ 31 then Inr (offset mod sizeOfSpeedTable) else Inl UndefinedBehaviour)"

definition traffic_interest :: "(string \<Rightarrow> real) \<Rightarrow> coordinate \<Rightarrow> int \<Rightarrow> int list \<Rightarrow> name \<Rightarrow> fault + (name \<times> byte list) option" where
  "traffic_interest parse myC starting speedTable interestNameComponent =
     (if length interestNameComponent < NUMBER_OF_TRAFFIC_INTEREST_COMPONENT then Inr None
      else
        let interestStringComponent = take NUMBER_OF_TRAFFIC_INTEREST_COMPONENT interestNameComponent in
        if interestStringComponent ! 0 \<noteq> ''traffic'' then Inr None
        else
          bindr (getDistance_format parse myC (interestStringComponent ! 1)) (\<lambda>distance.
            if distance > 50 then Inr None
            else if CHR '','' \<notin> set (interestStringComponent ! 2) then Inr None
            else
              let requestTime = takeWhile (\<lambda>c. c \<noteq> CHR '','') (interestStringComponent ! 2) in
              bindr (speed_offset starting (atoi requestTime)) (\<lambda>offset.
                Inr (Some (interestStringComponent, bytes_of (show_int (speedTable ! nat offset)))))))"

section \<open>Properties\<close>

lemma speed_offset_range: "speed_offset s r = Inr i \<Longrightarrow> 0 \<le> i \<and> i < 100"
  by (auto simp: speed_offset_def sizeOfSpeedTable_def Let_def split: if_splits)

lemma c_mod_range: "c_mod r d = Inr m \<Longrightarrow> 0 \<le> d \<Longrightarrow> 0 \<le> m \<and> m < d"
  by (auto simp: c_mod_def split: if_splits)

lemma c_mod_fault: "c_mod r d = Inl e \<Longrightarrow> d = 0 \<and> e = UndefinedBehaviour"
  by (auto simp: c_mod_def split: if_splits)

lemma random_degree_range:
  assumes "random_degree r low high = Inr x" and "low < high"
  shows "low \<le> x \<and> x < high"
proof -
  let ?n = "\<lfloor>(high - low) * 100000\<rfloor>"
  have "0 \<le> (high - low) * 100000" using assms(2) by simp
  then have n: "0 \<le> ?n" by simp
  obtain m where m: "c_mod r ?n = Inr m" "x = (of_int m + low * 100000) / 100000"
    using assms(1) unfolding random_degree_def bindr_eq_Inr Inr_inject by blast
  then have "0 \<le> m" "m < ?n" using c_mod_range [OF m(1) n] by blast+
  moreover have "of_int ?n \<le> (high - low) * 100000" by simp
  ultimately have "(0 :: real) \<le> of_int m" "of_int m < (high - low) * 100000" by linarith+
  then show ?thesis unfolding m(2) by (simp add: field_simps)
qed

text \<open>
  C27: the places that the applications ask for lie in the box of the map: a random coordinate is never
  refused by the constructor, and when the box is less than a metre high or wide, the program divides by
  zero.\<close>

theorem random_place:
  assumes "minLat < maxLat" "minLon < maxLon" "-90 \<le> minLat" "maxLat \<le> 90" "-180 \<le> minLon" "maxLon \<le> 180"
  shows "case getRandomCoordinate r1 r2 minLat maxLat minLon maxLon of
      Inr c \<Rightarrow> minLat \<le> co_latitude c \<and> co_latitude c < maxLat \<and> minLon \<le> co_longitude c \<and> co_longitude c < maxLon
    | Inl e \<Rightarrow> e = UndefinedBehaviour \<and> ((maxLat - minLat) * 100000 < 1 \<or> (maxLon - minLon) * 100000 < 1)"
proof -
  have fault: "e = UndefinedBehaviour \<and> (high - low) * 100000 < 1"
    if "random_degree r low high = Inl e" "low < high" for r low high e
  proof -
    have c: "c_mod r \<lfloor>(high - low) * 100000\<rfloor> = Inl e"
      using that(1) unfolding random_degree_def bindr_eq_Inl by blast
    from c_mod_fault [OF c] show ?thesis by linarith
  qed
  show ?thesis
  proof (cases "random_degree r1 minLat maxLat")
    case (Inl e)
    then show ?thesis using fault [OF Inl assms(1)] by (simp add: getRandomCoordinate_def)
  next
    case lat: (Inr lat)
    note lat' = random_degree_range [OF lat assms(1)]
    show ?thesis
    proof (cases "random_degree r2 minLon maxLon")
      case (Inl e)
      then show ?thesis using fault [OF Inl assms(2)] lat by (simp add: getRandomCoordinate_def)
    next
      case lon: (Inr lon)
      note lon' = random_degree_range [OF lon assms(2)]
      have "Coordinate lat lon = Some (coordinate_at lat lon)"
        using lat' lon' assms(3-6) by (simp add: Coordinate_def)
      then show ?thesis using lat lon lat' lon' by (simp add: getRandomCoordinate_def)
    qed
  qed
qed

theorem random_place_witness:
  "case getRandomCoordinate 250000 7 45 47 13 14 of Inr c \<Rightarrow> 45 \<le> co_latitude c \<and> co_latitude c < 47 | Inl e \<Rightarrow> False"
  using random_place [of 45 47 13 14 250000 7] by (auto split: sum.splits)

lemma wrapped_time: "0 \<le> t \<Longrightarrow> t < 2 ^ 31 \<Longrightarrow> sint (of_int t :: u32) = t"
  using int32_of_nat [of "nat t"] by (simp add: int32_of_def)

lemma unat_small: "n < 2 ^ 32 \<Longrightarrow> unat (of_nat n :: u32) = n"
  by (simp add: unat_of_nat take_bit_nat_eq_self)

lemma minutes: "n < 2 ^ 31 \<Longrightarrow> (of_nat n div 60 :: u32) = of_nat (n div 60)"
  by (rule word_unat_eq_iff [THEN iffD2]) (simp add: unat_div unat_of_nat take_bit_nat_eq_self)

text \<open>The name of a request has the first and the last minute of the interval.\<close>

lemma traffic_name:
  assumes "3600 \<le> now" "now < 2 ^ 31"
  shows "buildInterestName_traffic (int now) r coordinate =
    [''traffic'', coordinate, show_nat (now div 60 - r mod 60) @ '','' @ show_nat (now div 60 - r mod 60 + 10), ''speed'']"
proof -
  define q i where "q = now div 60" and "i = r mod 60"
  have q: "i < 60" "60 \<le> q" "q < 2 ^ 31" using assms by (auto simp: q_def i_def)
  have "(of_int (int now) div 60 - of_nat i :: u32) = of_nat (q - i)"
    using minutes [OF assms(2)] q by (simp add: q_def of_nat_diff)
  moreover have "unat (of_nat (q - i) :: u32) = q - i" by (rule unat_small) (use q in simp)
  moreover have "unat (of_nat (q - i) + 10 :: u32) = q - i + 10"
  proof -
    have "(of_nat (q - i) + 10 :: u32) = of_nat (q - i + 10)" by simp
    then show ?thesis using unat_small [of "q - i + 10"] q by (simp only:) simp
  qed
  ultimately show ?thesis
    by (simp only: buildInterestName_traffic_def Let_def NUMBER_OF_TIME_INTERVAL_def TRAFFIC_REQUEST_TTL_def
        q_def [symmetric] i_def [symmetric])
qed

lemma takeWhile_number: "takeWhile (\<lambda>c. c \<noteq> CHR '','') (show_nat n @ '','' @ s) = show_nat n"
proof -
  have "\<forall>c \<in> set (show_nat n). c \<noteq> CHR '',''" using show_nat_digits [of n] by (auto simp: is_digit_def)
  then show ?thesis by (simp add: takeWhile_append2)
qed

text \<open>
  A request for the traffic within fifty metres of a producer is answered: the Interest that the
  consumer sends is read by the producer, whose content has the name of the Interest and the entry of its table
  for the distance in minutes between the interval and its start, modulo a hundred; the consumer reads that
  entry and asks the next question.\<close>

lemma traffic_exchange:
  assumes "3600 \<le> now" "now < 2 ^ 31" "start < 2 ^ 31" "place \<noteq> []" "length place \<le> 64"
    and "getDistance_format parse myC place = Inr distance" "distance \<le> 50"
    and "length speedTable = 100" "\<forall>v \<in> set speedTable. 0 \<le> v \<and> v < 70"
  shows "\<exists>n v interest content. tc_interest (traffic_request (int now) r place) = n \<and>
    encodable_name n \<and> name_room n \<le> 150 \<and> n \<noteq> [] \<and> n ! 0 = ''traffic'' \<and> length (bytes_of (show_int v)) \<in> {1..2} \<and>
    v = speedTable ! nat (\<bar>int (now div 60) - int (r mod 60) - int (start div 60)\<bar> mod 100) \<and>
    traffic_send cs nonce (traffic_request (int now) r place) =
      Inr (Some interest, (traffic_request (int now) r place)\<lparr>tc_numberOfRetransmission := 1\<rparr>) \<and>
    producer_read (Some interest) = Inr (Received n) \<and>
    traffic_interest parse myC (startingTimeDiscretized (int start)) speedTable n = Inr (Some (n, bytes_of (show_int v))) \<and>
    sendContent n (bytes_of (show_int v)) = Inr content \<and>
    traffic_receive now' r' place' (Some content) (traffic_request (int now) r place) =
      Inr (Some (bytes_of (show_int v)), traffic_request now' r' place')"
proof -
  let ?q = "now div 60 - r mod 60" and ?c = "traffic_request (int now) r place"
  define n where "n = buildInterestName_traffic (int now) r place"
  have n: "n = [''traffic'', place, show_nat ?q @ '','' @ show_nat (?q + 10), ''speed'']"
    unfolding n_def by (rule traffic_name [OF assms(1,2)])
  have q: "?q < 10 ^ 10" "?q + 10 < 10 ^ 10" "r mod 60 \<le> now div 60"
  proof -
    have "now div 60 < 2 ^ 31" using assms(2) by simp
    then show "?q < 10 ^ 10" "?q + 10 < 10 ^ 10" by simp_all
    have "r mod 60 < 60" by simp
    moreover have "60 \<le> now div 60" using assms(1) by simp
    ultimately show "r mod 60 \<le> now div 60" by linarith
  qed
  have len: "length (show_nat ?q) \<le> 10" "length (show_nat (?q + 10)) \<le> 10"
    by (rule show_nat_length, use q in simp_all)+
  have ok: "encodable_name n" "name_room n \<le> 150"
    using assms(4,5) len unfolding n encodable_name_def name_room_def by auto
  obtain m where m: "SendPacket cs nonce n = Inr m" "producer_read (Some m) = Inr (Received n)"
    using interest_message [OF ok(1)] ok(2) by (auto simp: BUFLEN_def)
  let ?d = "\<bar>int (now div 60) - int (r mod 60) - int (start div 60)\<bar>"
  have st: "startingTimeDiscretized (int start) = int (start div 60)"
  proof -
    have "sint (of_int (int start) :: u32) = int start" by (rule wrapped_time) (use assms(3) in simp_all)
    then show ?thesis
      by (cases "start = 0") (simp_all add: startingTimeDiscretized_def signed_divide_int_def zdiv_int sgn_if)
  qed
  have "int ?q = int (now div 60) - int (r mod 60)" using q(3) by (simp only: of_nat_diff)
  then have off: "speed_offset (startingTimeDiscretized (int start)) (int ?q) = Inr (?d mod 100)"
  proof -
    have "int (start div 60) < 2 ^ 31" "int ?q < 2 ^ 31" using assms(2,3) by simp_all
    then have "(if int (start div 60) < int ?q then int ?q - int (start div 60) else int (start div 60) - int ?q) < 2 ^ 31"
      by simp
    moreover have "(if int (start div 60) < int ?q then int ?q - int (start div 60) else int (start div 60) - int ?q) = ?d"
      using \<open>int ?q = _\<close> by simp
    ultimately show ?thesis unfolding st speed_offset_def sizeOfSpeedTable_def Let_def by (simp only: if_True)
  qed
  define v where "v = speedTable ! nat (?d mod 100)"
  have "nat (?d mod 100) < length speedTable" using assms(8) by simp
  then have v: "0 \<le> v" "v < 70" using assms(9) nth_mem unfolding v_def by blast+
  have comma: "CHR '','' \<in> set (show_nat ?q @ '','' @ show_nat (?q + 10))" by simp
  have reply: "traffic_interest parse myC (startingTimeDiscretized (int start)) speedTable n =
      Inr (Some (n, bytes_of (show_int v)))"
    using assms(6,7) comma unfolding traffic_interest_def n
    by (simp add: NUMBER_OF_TRAFFIC_INTEREST_COMPONENT_def Let_def takeWhile_number [unfolded append_Cons append_Nil] off v_def)
  have digits: "show_int v = show_nat (nat v)" "length (show_nat (nat v)) \<le> 2" "show_nat (nat v) \<noteq> []"
    using v show_nat_length [of "nat v" 2] show_nat_digits by (simp_all add: show_int_def)
  then obtain bs where bs: "sendContent n (bytes_of (show_int v)) = Inr bs"
    "consumer_read (Some bs) = Inr (Received (bytes_of (show_int v), n))"
    using content_message [OF ok(1), of "bytes_of (show_int v)"] ok(2) by (auto simp: BUFLEN_def)
  show ?thesis
  proof (intro exI conjI)
    show "tc_interest ?c = n" by (simp add: traffic_request_def n_def)
    show "v = speedTable ! nat (?d mod 100)" by (fact v_def)
    show "traffic_send cs nonce ?c = Inr (Some m, ?c\<lparr>tc_numberOfRetransmission := 1\<rparr>)"
      using m(1) by (simp add: traffic_send_def traffic_request_def n_def)
    show "traffic_receive now' r' place' (Some bs) ?c = Inr (Some (bytes_of (show_int v)), traffic_request now' r' place')"
      by (simp add: traffic_receive_def bs(2) traffic_request_def)
    show "length (bytes_of (show_int v)) \<in> {1..2}" using digits by (cases "show_nat (nat v)") auto
    show "n \<noteq> []" "n ! 0 = ''traffic''" by (simp_all add: n)
  qed (rule m(2) reply bs(1) ok)+
qed

definition speeds :: "int list" where "speeds = replicate 100 30"

definition city :: "string \<Rightarrow> real" where "city s = of_int (atoi s)"

lemma city_center: "getDistance_format city (coordinate_at 46 13) ''46,13'' = Inr 0"
proof -
  have place: "tokens CHR '','' [] ''46,13'' = [''46'', ''13'']" "atoi ''46'' = 46" "atoi ''13'' = 13" by code_simp+
  have "getDistance (coordinate_at 46 13) 46 13 = 0"
    using meridian_distance [of "coordinate_at 46 13" 46] by simp
  then show ?thesis by (simp add: getDistance_format_def place city_def)
qed

end
