(* ===== verification/Ptr.thy ===== *)
theory Ptr
  imports VndnPrelude
begin

text \<open>
  The smart pointers that the whole program rests on (\<open>corelib/ptr.h\<close>,
  \<open>corelib/simple-ref-count.h\<close>): an object counts its references in 32 bits and is deleted when the
  count falls to zero; a \<open>Ptr\<close> refers to the object it is made from, and takes its reference back when
  it is destroyed or assigned. Objects and \<open>Ptr\<close> variables are numbered. An object here has no
  \<open>Ptr\<close> member of its own, so that deleting it touches no other count. What
  \<open>GetPointer\<close> hands out, and the memory of a \<open>Ptr\<close> that is released without its
  destructor, are references that nobody returns: they are counted apart.
\<close>

section \<open>Counting references\<close>

record memory =
  m_count :: "nat \<Rightarrow> u32 option"
  m_next :: nat
  m_ptr :: "nat \<Rightarrow> nat option option"
  m_kept :: "nat \<Rightarrow> nat"

definition memory_new :: memory where
  "memory_new = \<lparr>m_count = (\<lambda>x. None), m_next = 0, m_ptr = (\<lambda>v. None), m_kept = (\<lambda>x. 0)\<rparr>"

definition Ref :: "nat \<Rightarrow> memory \<Rightarrow> fault + memory" where
  "Ref x m =
     (case m_count m x of
        None \<Rightarrow> Inl UseAfterFree
      | Some c \<Rightarrow> Inr (m\<lparr>m_count := (m_count m)(x := Some (c + 1))\<rparr>))"

definition Unref :: "nat \<Rightarrow> memory \<Rightarrow> fault + memory" where
  "Unref x m =
     (case m_count m x of
        None \<Rightarrow> Inl UseAfterFree
      | Some c \<Rightarrow> Inr (m\<lparr>m_count := (m_count m)(x := (if c - 1 = 0 then None else Some (c - 1)))\<rparr>))"

definition GetReferenceCount :: "nat \<Rightarrow> memory \<Rightarrow> fault + u32" where
  "GetReferenceCount x m = (case m_count m x of None \<Rightarrow> Inl UseAfterFree | Some c \<Rightarrow> Inr c)"

section \<open>Smart pointers\<close>

text \<open>A variable that does not exist, or exists no longer, has no value.\<close>

definition PeekPointer :: "nat \<Rightarrow> memory \<Rightarrow> fault + nat option" where
  "PeekPointer v m = (case m_ptr m v of None \<Rightarrow> Inl UndefinedBehaviour | Some p \<Rightarrow> Inr p)"

definition Acquire :: "nat option \<Rightarrow> memory \<Rightarrow> fault + memory" where
  "Acquire p m = (case p of None \<Rightarrow> Inr m | Some x \<Rightarrow> Ref x m)"

definition Release :: "nat option \<Rightarrow> memory \<Rightarrow> fault + memory" where
  "Release p m = (case p of None \<Rightarrow> Inr m | Some x \<Rightarrow> Unref x m)"

definition Ptr_null :: "nat \<Rightarrow> memory \<Rightarrow> memory" where
  "Ptr_null v m = m\<lparr>m_ptr := (m_ptr m)(v := Some None)\<rparr>"

definition Ptr_raw :: "nat \<Rightarrow> nat option \<Rightarrow> memory \<Rightarrow> fault + memory" where
  "Ptr_raw v p m = Acquire p (m\<lparr>m_ptr := (m_ptr m)(v := Some p)\<rparr>)"

definition Ptr_Create :: "nat \<Rightarrow> memory \<Rightarrow> memory" where
  "Ptr_Create v m = m\<lparr>m_count := (m_count m)(m_next m := Some 1), m_next := Suc (m_next m),
     m_ptr := (m_ptr m)(v := Some (Some (m_next m)))\<rparr>"

definition Ptr_copy :: "nat \<Rightarrow> nat \<Rightarrow> memory \<Rightarrow> fault + memory" where
  "Ptr_copy v w m = bindr (PeekPointer w m) (\<lambda>p. Acquire p (m\<lparr>m_ptr := (m_ptr m)(v := Some p)\<rparr>))"

definition Ptr_destroy :: "nat \<Rightarrow> memory \<Rightarrow> fault + memory" where
  "Ptr_destroy v m = bindr (PeekPointer v m) (\<lambda>p. Release p (m\<lparr>m_ptr := (m_ptr m)(v := None)\<rparr>))"

definition Ptr_assign :: "nat \<Rightarrow> nat \<Rightarrow> memory \<Rightarrow> fault + memory" where
  "Ptr_assign v w m =
     (if w = v then Inr m
      else
        bindr (PeekPointer v m) (\<lambda>p.
        bindr (Release p m) (\<lambda>m.
        bindr (PeekPointer w m) (\<lambda>q.
          Acquire q (m\<lparr>m_ptr := (m_ptr m)(v := Some q)\<rparr>)))))"

text \<open>The reference that \<open>GetPointer\<close> adds belongs to no \<open>Ptr\<close>.\<close>

definition GetPointer :: "nat \<Rightarrow> memory \<Rightarrow> fault + memory \<times> nat option" where
  "GetPointer v m =
     bindr (PeekPointer v m) (\<lambda>p.
     bindr (Acquire p m) (\<lambda>m.
       case p of None \<Rightarrow> Inr (m, None) | Some x \<Rightarrow> Inr (m\<lparr>m_kept := (m_kept m)(x := Suc (m_kept m x))\<rparr>, Some x)))"

text \<open>\<open>free\<close> of the memory around a \<open>Ptr\<close>.\<close>

definition free_around :: "nat \<Rightarrow> memory \<Rightarrow> fault + memory" where
  "free_around v m =
     bindr (PeekPointer v m) (\<lambda>p.
       let m = m\<lparr>m_ptr := (m_ptr m)(v := None)\<rparr> in
       case p of None \<Rightarrow> Inr m | Some x \<Rightarrow> Inr (m\<lparr>m_kept := (m_kept m)(x := Suc (m_kept m x))\<rparr>))"

section \<open>The invariant\<close>

definition holders :: "memory \<Rightarrow> nat \<Rightarrow> nat set" where
  "holders m x = {v. m_ptr m v = Some (Some x)}"

definition references :: "memory \<Rightarrow> nat \<Rightarrow> nat" where
  "references m x = card (holders m x) + m_kept m x"

fun tally :: "u32 option \<Rightarrow> int \<Rightarrow> bool" where
  "tally None n \<longleftrightarrow> n = 0"
| "tally (Some c) n \<longleftrightarrow> uint c = n \<and> 0 < n"

text \<open>
  In the middle of an operation the count of an object differs from the number of its references by
  \<open>d\<close>.\<close>

definition counted :: "(nat \<Rightarrow> int) \<Rightarrow> memory \<Rightarrow> bool" where
  "counted d m \<longleftrightarrow>
     (\<forall>x. finite (holders m x) \<and> tally (m_count m x) (int (references m x) + d x) \<and>
        (m_next m \<le> x \<longrightarrow> m_count m x = None))"

definition memory_ok :: "memory \<Rightarrow> bool" where
  "memory_ok m \<longleftrightarrow> counted (\<lambda>x. 0) m"

text \<open>No object has as many references as the counter can count.\<close>

definition room :: "memory \<Rightarrow> bool" where
  "room m \<longleftrightarrow> (\<forall>x. references m x + 1 < 2 ^ 32)"

lemma memory_new_ok: "memory_ok memory_new"
  by (simp add: memory_ok_def memory_new_def holders_def counted_def references_def)

text \<open>Changing one variable changes the holders of the object it leaves and of the object it takes.\<close>

lemma holders_update:
  "holders (m\<lparr>m_ptr := (m_ptr m)(v := p)\<rparr>) x = (if p = Some (Some x) then insert v (holders m x) else holders m x - {v})"
  by (auto simp: holders_def)

lemma holders_other [simp]:
  "holders (m\<lparr>m_count := c\<rparr>) x = holders m x" "holders (m\<lparr>m_kept := k\<rparr>) x = holders m x"
  "holders (m\<lparr>m_next := n\<rparr>) x = holders m x"
  by (simp_all add: holders_def)

lemma increment: "uint c + 1 < 2 ^ 32 \<Longrightarrow> uint (c + 1) = uint c + 1" for c :: u32
  by (simp add: uint_word_ariths take_bit_int_eq_self)

lemma decrement: "0 < uint c \<Longrightarrow> uint (c - 1) = uint c - 1" for c :: u32
proof -
  assume c: "0 < uint c"
  have "uint c < 2 ^ 32" using unsigned_less [of c, where ?'a = int] by simp
  with c show ?thesis by (simp add: uint_word_ariths take_bit_int_eq_self)
qed

definition held :: "nat option \<Rightarrow> nat \<Rightarrow> int" where
  "held p x = (if p = Some x then 1 else 0)"

definition value_of :: "nat option option \<Rightarrow> nat option" where
  "value_of p = (case p of None \<Rightarrow> None | Some q \<Rightarrow> q)"

lemma counted_cong: "counted d m \<Longrightarrow> (\<And>x. d x = d' x) \<Longrightarrow> counted d' m"
  by (simp add: counted_def)

lemma counted_tally: "counted d m \<Longrightarrow> tally (m_count m x) (int (references m x) + d x)"
  by (simp only: counted_def)

lemma counted_alive: "counted d m \<Longrightarrow> 0 < int (references m x) + d x \<Longrightarrow> m_count m x \<noteq> None"
  by (cases "m_count m x") (use counted_tally [of d m x] in auto)

lemma held_reference:
  assumes "counted d m" "m_ptr m v = Some (Some x)"
  shows "1 \<le> card (holders m x)"
proof -
  have "v \<in> holders m x" using assms(2) by (simp add: holders_def)
  then show ?thesis using assms(1) by (auto simp: counted_def Suc_le_eq card_gt_0_iff)
qed

lemma two_held:
  assumes "counted d m" "m_ptr m v = Some (Some x)" "m_ptr m w = Some (Some x)" "v \<noteq> w"
  shows "2 \<le> card (holders m x)"
proof -
  have "{v, w} \<subseteq> holders m x" using assms(2,3) by (simp add: holders_def)
  then have "card {v, w} \<le> card (holders m x)" using assms(1) by (intro card_mono) (auto simp: counted_def)
  then show ?thesis using assms(4) by simp
qed

lemma set_ptr:
  assumes "counted d m"
  shows "counted (\<lambda>x. d x + held (value_of (m_ptr m v)) x - held (value_of p) x) (m\<lparr>m_ptr := (m_ptr m)(v := p)\<rparr>)"
proof -
  let ?m = "m\<lparr>m_ptr := (m_ptr m)(v := p)\<rparr>"
  have fin: "finite (holders m x)" for x using assms by (simp add: counted_def)
  have mem: "v \<in> holders m x \<longleftrightarrow> value_of (m_ptr m v) = Some x" for x
    by (auto simp: holders_def value_of_def split: option.splits)
  have new: "p = Some (Some x) \<longleftrightarrow> value_of p = Some x" for x by (simp add: value_of_def split: option.splits)
  have "int (card (holders ?m x)) = int (card (holders m x)) - held (value_of (m_ptr m v)) x + held (value_of p) x" for x
    unfolding holders_update new held_def mem [symmetric]
    using fin [of x] card_gt_0_iff [of "holders m x"]
    by (auto simp: card_insert_if card_Diff_singleton of_nat_diff Suc_le_eq insert_absorb)
  then have same: "int (references ?m x) + (d x + held (value_of (m_ptr m v)) x - held (value_of p) x) = int (references m x) + d x" for x
    by (simp add: references_def)
  have "finite (holders ?m x)" for x using fin by (simp add: holders_update)
  then show ?thesis using assms unfolding counted_def same by simp
qed

lemma acquire:
  assumes "counted d m" and "\<And>x. p = Some x \<Longrightarrow> \<exists>c. m_count m x = Some c \<and> uint c + 1 < 2 ^ 32"
  shows "\<exists>m'. Acquire p m = Inr m' \<and> counted (\<lambda>x. d x + held p x) m' \<and> m_ptr m' = m_ptr m \<and> m_kept m' = m_kept m"
proof (cases p)
  case None
  then show ?thesis using counted_cong [OF assms(1)] by (simp add: Acquire_def held_def)
next
  case (Some x)
  then obtain c where c: "m_count m x = Some c" "uint c + 1 < 2 ^ 32" using assms(2) by blast
  let ?m = "m\<lparr>m_count := (m_count m)(x := Some (c + 1))\<rparr>"
  have "references ?m y = references m y" for y by (simp add: references_def)
  moreover have "uint (c + 1) = uint c + 1" by (rule increment [OF c(2)])
  ultimately have "counted (\<lambda>y. d y + held p y) ?m"
    using assms(1) c(1) Some counted_tally [OF assms(1), of x] unfolding counted_def by (auto simp: held_def)
  then show ?thesis using Some c by (simp add: Acquire_def Ref_def)
qed

lemma release:
  assumes "counted d m" and "\<And>x. p = Some x \<Longrightarrow> m_count m x \<noteq> None"
  shows "\<exists>m'. Release p m = Inr m' \<and> counted (\<lambda>x. d x - held p x) m' \<and> m_ptr m' = m_ptr m \<and> m_kept m' = m_kept m"
proof (cases p)
  case None
  then show ?thesis using counted_cong [OF assms(1)] by (simp add: Release_def held_def)
next
  case (Some x)
  then obtain c where c: "m_count m x = Some c" using assms(2) by blast
  let ?m = "m\<lparr>m_count := (m_count m)(x := (if c - 1 = 0 then None else Some (c - 1)))\<rparr>"
  have r: "references ?m y = references m y" for y by (simp add: references_def)
  have "tally (m_count m x) (int (references m x) + d x)" using assms(1) by (simp only: counted_def)
  then have cx: "uint c = int (references m x) + d x" "0 < uint c" using c by simp_all
  have dec: "uint (c - 1) = uint c - 1" by (rule decrement [OF cx(2)])
  then have "c - 1 = 0 \<longleftrightarrow> uint c = 1" by (simp add: uint_0_iff [symmetric])
  then have "counted (\<lambda>y. d y - held p y) ?m"
    using assms(1) c Some cx dec unfolding counted_def r by (auto simp: held_def of_nat_diff)
  then show ?thesis using Some c by (simp add: Release_def Unref_def)
qed

lemma keep:
  assumes "counted d m"
  shows "counted (\<lambda>y. d y - held (Some x) y) (m\<lparr>m_kept := (m_kept m)(x := Suc (m_kept m x))\<rparr>)"
proof -
  let ?m = "m\<lparr>m_kept := (m_kept m)(x := Suc (m_kept m x))\<rparr>"
  have same: "int (references ?m y) + (d y - held (Some x) y) = int (references m y) + d y" for y
    by (simp add: references_def held_def)
  show ?thesis using assms unfolding counted_def same by simp
qed

lemma create:
  assumes "counted d m" "m_ptr m v = None"
  shows "counted d (Ptr_Create v m)"
proof -
  let ?n = "m_next m"
  let ?m = "m\<lparr>m_ptr := (m_ptr m)(v := Some (Some ?n))\<rparr>"
  have s: "counted (\<lambda>x. d x - held (Some ?n) x) ?m"
    by (rule counted_cong [OF set_ptr [OF assms(1), of v "Some (Some ?n)"]]) (simp add: assms(2) value_of_def held_def)
  have "m_count m ?n = None" using assms(1) by (simp add: counted_def)
  then have zero: "int (references ?m ?n) + d ?n = 1" using counted_tally [OF s, of ?n] by (simp add: held_def)
  have r: "references (Ptr_Create v m) x = references ?m x" for x
    by (simp add: references_def Ptr_Create_def holders_def)
  have fin: "finite (holders (Ptr_Create v m) x)" for x
    using s by (simp add: counted_def Ptr_Create_def holders_def)
  show ?thesis
    unfolding counted_def r
  proof (intro allI conjI impI)
    fix x
    show "finite (holders (Ptr_Create v m) x)" by (rule fin)
    show "tally (m_count (Ptr_Create v m) x) (int (references ?m x) + d x)"
      using counted_tally [OF s, of x] zero by (auto simp: Ptr_Create_def held_def)
    show "m_next (Ptr_Create v m) \<le> x \<Longrightarrow> m_count (Ptr_Create v m) x = None"
      using assms(1) by (auto simp: Ptr_Create_def counted_def)
  qed
qed

section \<open>Operations\<close>

datatype ptr_op = Null nat | Raw nat "nat option" | Create nat | CopyOf nat nat | Destroy nat | Assign nat nat
  | Hand nat | FreeAround nat

fun ptr_exec :: "ptr_op \<Rightarrow> memory \<Rightarrow> fault + memory" where
  "ptr_exec (Null v) m = Inr (Ptr_null v m)"
| "ptr_exec (Raw v p) m = Ptr_raw v p m"
| "ptr_exec (Create v) m = Inr (Ptr_Create v m)"
| "ptr_exec (CopyOf v w) m = Ptr_copy v w m"
| "ptr_exec (Destroy v) m = Ptr_destroy v m"
| "ptr_exec (Assign v w) m = Ptr_assign v w m"
| "ptr_exec (Hand v) m = bindr (GetPointer v m) (\<lambda>(m, p). Inr m)"
| "ptr_exec (FreeAround v) m = free_around v m"

text \<open>The compiler only constructs variables that do not exist yet and only uses those that do.\<close>

fun admissible :: "ptr_op \<Rightarrow> memory \<Rightarrow> bool" where
  "admissible (Null v) m \<longleftrightarrow> m_ptr m v = None"
| "admissible (Raw v p) m \<longleftrightarrow> m_ptr m v = None \<and> (case p of None \<Rightarrow> True | Some x \<Rightarrow> m_count m x \<noteq> None)"
| "admissible (Create v) m \<longleftrightarrow> m_ptr m v = None"
| "admissible (CopyOf v w) m \<longleftrightarrow> m_ptr m v = None \<and> m_ptr m w \<noteq> None"
| "admissible (Destroy v) m \<longleftrightarrow> m_ptr m v \<noteq> None"
| "admissible (Assign v w) m \<longleftrightarrow> m_ptr m v \<noteq> None \<and> m_ptr m w \<noteq> None"
| "admissible (Hand v) m \<longleftrightarrow> m_ptr m v \<noteq> None"
| "admissible (FreeAround v) m \<longleftrightarrow> m_ptr m v \<noteq> None"

lemma countable:
  assumes "memory_ok m" "room m" "m_count m x = Some c"
  shows "uint c + 1 < 2 ^ 32"
proof -
  have "uint c = int (references m x)"
    using counted_tally [OF assms(1) [unfolded memory_ok_def], of x] assms(3) by simp
  moreover have "int (references m x + 1) < int (2 ^ 32)" using assms(2) unfolding room_def by (simp only: of_nat_less_iff)
  ultimately show ?thesis by simp
qed

lemma pointed_alive:
  assumes "memory_ok m" "m_ptr m v = Some (Some x)"
  shows "m_count m x \<noteq> None"
proof -
  have m: "counted (\<lambda>x. 0) m" using assms(1) by (simp add: memory_ok_def)
  show ?thesis by (rule counted_alive [OF m]) (use held_reference [OF m assms(2)] in \<open>simp add: references_def\<close>)
qed

text \<open>A new variable that takes a reference.\<close>

lemma construct_ok:
  assumes "memory_ok m" "room m" "m_ptr m v = None" "\<And>x. p = Some x \<Longrightarrow> m_count m x \<noteq> None"
  shows "\<exists>m'. Acquire p (m\<lparr>m_ptr := (m_ptr m)(v := Some p)\<rparr>) = Inr m' \<and> memory_ok m'"
proof -
  let ?m = "m\<lparr>m_ptr := (m_ptr m)(v := Some p)\<rparr>"
  have s: "counted (\<lambda>x. - held p x) ?m"
    by (rule counted_cong [OF set_ptr [OF assms(1) [unfolded memory_ok_def], of v "Some p"]])
      (simp add: assms(3) value_of_def held_def)
  have "\<exists>c. m_count ?m x = Some c \<and> uint c + 1 < 2 ^ 32" if "p = Some x" for x
    using assms(4) [OF that] countable [OF assms(1,2), of x] by auto
  from acquire [OF s this] obtain m' where m': "Acquire p ?m = Inr m'" "counted (\<lambda>x. - held p x + held p x) m'" by blast
  from m'(2) have "memory_ok m'" unfolding memory_ok_def by (rule counted_cong) simp
  with m'(1) show ?thesis by blast
qed

lemma destroy_ok:
  assumes "memory_ok m" "m_ptr m v = Some p"
  shows "\<exists>m'. Release p (m\<lparr>m_ptr := (m_ptr m)(v := None)\<rparr>) = Inr m' \<and> memory_ok m'"
proof -
  let ?m = "m\<lparr>m_ptr := (m_ptr m)(v := None)\<rparr>"
  have s: "counted (\<lambda>x. held p x) ?m"
    by (rule counted_cong [OF set_ptr [OF assms(1) [unfolded memory_ok_def], of v None]])
      (simp add: assms(2) value_of_def held_def)
  have "m_count ?m x \<noteq> None" if "p = Some x" for x using pointed_alive [OF assms(1)] assms(2) that by simp
  from release [OF s this] obtain m' where m': "Release p ?m = Inr m'" "counted (\<lambda>x. held p x - held p x) m'" by blast
  from m'(2) have "memory_ok m'" unfolding memory_ok_def by (rule counted_cong) simp
  with m'(1) show ?thesis by blast
qed

lemma assign_ok:
  assumes "memory_ok m" "room m" "m_ptr m v = Some p" "m_ptr m w = Some q" "w \<noteq> v"
  shows "\<exists>m1 m'. Release p m = Inr m1 \<and> m_ptr m1 = m_ptr m \<and>
    Acquire q (m1\<lparr>m_ptr := (m_ptr m1)(v := Some q)\<rparr>) = Inr m' \<and> memory_ok m'"
proof -
  have m: "counted (\<lambda>x. 0) m" using assms(1) by (simp add: memory_ok_def)
  have "m_count m x \<noteq> None" if "p = Some x" for x using pointed_alive [OF assms(1)] assms(3) that by simp
  from release [OF m this] obtain m1 where m1: "Release p m = Inr m1" "counted (\<lambda>x. 0 - held p x) m1"
    "m_ptr m1 = m_ptr m" "m_kept m1 = m_kept m" by blast
  have r1: "references m1 x = references m x" for x using m1(3,4) by (simp add: references_def holders_def)
  let ?m = "m1\<lparr>m_ptr := (m_ptr m1)(v := Some q)\<rparr>"
  have s: "counted (\<lambda>x. - held q x) ?m"
    by (rule counted_cong [OF set_ptr [OF m1(2), of v "Some q"]]) (simp add: m1(3) assms(3) value_of_def held_def)
  have "\<exists>c. m_count ?m x = Some c \<and> uint c + 1 < 2 ^ 32" if q: "q = Some x" for x
  proof -
    have "1 \<le> card (holders m x)" "p = Some x \<Longrightarrow> 2 \<le> card (holders m x)"
      using held_reference [OF m, of w x] two_held [OF m, of v x w] assms(3-5) q by auto
    then have "0 < int (references m1 x) + (0 - held p x)" unfolding r1 by (auto simp: references_def held_def)
    from counted_alive [OF m1(2) this] obtain c where c: "m_count m1 x = Some c" by blast
    then have "uint c \<le> int (references m x)" using counted_tally [OF m1(2), of x] by (simp add: r1 held_def)
    moreover have "int (references m x + 1) < int (2 ^ 32)" using assms(2) unfolding room_def by (simp only: of_nat_less_iff)
    ultimately have "uint c + 1 < 2 ^ 32" by simp
    with c show ?thesis by simp
  qed
  from acquire [OF s this] obtain m' where m': "Acquire q ?m = Inr m'" "counted (\<lambda>x. - held q x + held q x) m'" by blast
  from m'(2) have "memory_ok m'" unfolding memory_ok_def by (rule counted_cong) simp
  with m1 m'(1) show ?thesis by blast
qed

lemma exec_ok:
  assumes m: "memory_ok m" and r: "room m" and a: "admissible op m"
  shows "\<exists>m'. ptr_exec op m = Inr m' \<and> memory_ok m'"
proof (cases op)
  case (Null v)
  have "counted (\<lambda>x. 0) (Ptr_null v m)"
    unfolding Ptr_null_def
    by (rule counted_cong [OF set_ptr [OF m [unfolded memory_ok_def], of v "Some None"]])
      (use a Null in \<open>simp add: value_of_def held_def\<close>)
  then show ?thesis by (simp add: Null memory_ok_def)
next
  case (Raw v p)
  then show ?thesis using construct_ok [OF m r, of v p] a by (cases p) (simp_all add: Ptr_raw_def)
next
  case (Create v)
  then show ?thesis using create [of "\<lambda>x. 0" m v] m a by (simp add: memory_ok_def)
next
  case (CopyOf v w)
  then obtain p where p: "m_ptr m w = Some p" using a by auto
  then have "m_count m x \<noteq> None" if "p = Some x" for x using pointed_alive [OF m] that by simp
  then show ?thesis using construct_ok [OF m r, of v p] a p CopyOf by (simp add: Ptr_copy_def PeekPointer_def)
next
  case (Destroy v)
  then obtain p where p: "m_ptr m v = Some p" using a by auto
  then show ?thesis using destroy_ok [OF m p] Destroy by (simp add: Ptr_destroy_def PeekPointer_def)
next
  case (Assign v w)
  then obtain p q where p: "m_ptr m v = Some p" "m_ptr m w = Some q" using a by auto
  show ?thesis
  proof (cases "w = v")
    case True
    then show ?thesis using m Assign by (simp add: Ptr_assign_def)
  next
    case False
    from assign_ok [OF m r p this] show ?thesis
      using p False Assign by (auto simp: Ptr_assign_def PeekPointer_def)
  qed
next
  case (Hand v)
  then obtain p where p: "m_ptr m v = Some p" using a by auto
  then have al: "\<exists>c. m_count m x = Some c \<and> uint c + 1 < 2 ^ 32" if "p = Some x" for x
    using pointed_alive [OF m, of v x] p that countable [OF m r, of x] by auto
  obtain m' where m': "Acquire p m = Inr m'" "counted (\<lambda>x. 0 + held p x) m'"
    using acquire [OF m [unfolded memory_ok_def] al] by blast
  show ?thesis
  proof (cases p)
    case None
    then show ?thesis using m' p Hand m by (simp add: GetPointer_def PeekPointer_def Acquire_def)
  next
    case (Some x)
    have "counted (\<lambda>y. 0) (m'\<lparr>m_kept := (m_kept m')(x := Suc (m_kept m' x))\<rparr>)"
      by (rule counted_cong [OF keep [OF m'(2), of x]]) (simp add: Some)
    then show ?thesis using m'(1) p Hand Some by (simp add: GetPointer_def PeekPointer_def memory_ok_def)
  qed
next
  case (FreeAround v)
  then obtain p where p: "m_ptr m v = Some p" using a by auto
  let ?m = "m\<lparr>m_ptr := (m_ptr m)(v := None)\<rparr>"
  have s: "counted (\<lambda>x. held p x) ?m"
    by (rule counted_cong [OF set_ptr [OF m [unfolded memory_ok_def], of v None]])
      (simp add: p value_of_def held_def)
  show ?thesis
  proof (cases p)
    case None
    then have "memory_ok ?m" unfolding memory_ok_def by (intro counted_cong [OF s]) (simp add: held_def)
    then show ?thesis using p FreeAround None by (simp add: free_around_def PeekPointer_def Let_def)
  next
    case (Some x)
    have "counted (\<lambda>y. 0) (?m\<lparr>m_kept := (m_kept ?m)(x := Suc (m_kept ?m x))\<rparr>)"
      by (rule counted_cong [OF keep [OF s, of x]]) (simp add: Some)
    then show ?thesis using p FreeAround Some by (simp add: free_around_def PeekPointer_def Let_def memory_ok_def)
  qed
qed

text \<open>Whatever the program does with its pointers.\<close>

inductive memory_run :: "memory \<Rightarrow> memory \<Rightarrow> bool" for start where
  none: "memory_run start start"
| step: "memory_run start m \<Longrightarrow> room m \<Longrightarrow> admissible op m \<Longrightarrow> ptr_exec op m = Inr m' \<Longrightarrow> memory_run start m'"

lemma run_ok: "memory_run start m \<Longrightarrow> memory_ok start \<Longrightarrow> memory_ok m"
proof (induction rule: memory_run.induct)
  case (step m op m')
  then show ?case using exec_ok [of m op] by auto
qed

lemma kept_grows:
  assumes "ptr_exec op m = Inr m'"
  shows "m_kept m x \<le> m_kept m' x"
  using assms
  by (cases op) (auto simp: Ptr_null_def Ptr_raw_def Ptr_Create_def Ptr_copy_def Ptr_destroy_def Ptr_assign_def
      GetPointer_def free_around_def bindr_eq_Inr Acquire_def Release_def Ref_def Unref_def PeekPointer_def Let_def
      split: option.splits if_splits)

section \<open>Properties\<close>


text \<open>
  An object with a reference that is never returned is never deleted, whatever follows. So it is with a
  pointer whose memory is released by \<open>free\<close>, as the event monitor does with the faces that it erases.\<close>

theorem kept_forever:
  assumes "memory_run memory_new m" and "room m" and "m_ptr m v = Some (Some x)" and "free_around v m = Inr m0"
    and "memory_run m0 m'"
  shows "m_count m' x \<noteq> None"
proof -
  have "memory_run memory_new m0"
    by (rule memory_run.step [OF assms(1,2), of "FreeAround v"]) (use assms(3,4) in simp_all)
  then have ok: "memory_ok m0" by (rule run_ok [OF _ memory_new_ok])
  have "0 < m_kept m0 x" using assms(3,4) by (auto simp: free_around_def PeekPointer_def Let_def)
  moreover have "m_kept m0 x \<le> m_kept m' x"
    using assms(5) by (induction rule: memory_run.induct) (use kept_grows le_trans in blast)+
  ultimately have "0 < references m' x" by (simp add: references_def)
  moreover have "counted (\<lambda>x. 0) m'" using run_ok [OF assms(5) ok] by (simp only: memory_ok_def)
  ultimately show ?thesis by (intro counted_alive) auto
qed

text \<open>One object with two pointers; the first is destroyed, the memory of the second is released.\<close>

definition two_pointers :: memory where
  "two_pointers = Ptr_Create 0 memory_new"

lemma two_pointers_run: "memory_run memory_new two_pointers" and two_pointers_room: "room two_pointers"
proof -
  have h: "holders memory_new x = {}" "holders two_pointers x = (if x = 0 then {0} else {})" for x
    by (auto simp: holders_def memory_new_def two_pointers_def Ptr_Create_def)
  have "room memory_new" by (simp add: room_def references_def h) (simp add: memory_new_def)
  then show "memory_run memory_new two_pointers"
    by (rule memory_run.step [OF memory_run.none, of _ "Create 0"]) (simp_all add: two_pointers_def memory_new_def)
  have "m_kept two_pointers x = 0" for x by (simp add: two_pointers_def Ptr_Create_def memory_new_def)
  then show "room two_pointers" by (simp add: room_def references_def h)
qed


theorem kept_forever_witness:
  "\<exists>m0. free_around 0 two_pointers = Inr m0 \<and> m_count m0 0 \<noteq> None \<and> holders m0 0 = {}"
proof -
  have p: "m_ptr two_pointers 0 = Some (Some 0)" by (simp add: two_pointers_def Ptr_Create_def memory_new_def)
  obtain m0 where m0: "free_around 0 two_pointers = Inr m0" by (simp add: free_around_def PeekPointer_def p Let_def)
  then have "holders m0 0 = {}"
    by (auto simp: free_around_def PeekPointer_def p Let_def holders_def two_pointers_def Ptr_Create_def memory_new_def split: if_splits)
  then show ?thesis using m0 kept_forever [OF two_pointers_run two_pointers_room p m0 memory_run.none] by blast
qed

end
