(* ===== verification/Monitor.thy ===== *)
theory Monitor
  imports Closing
begin

text \<open>
  The event loop of the daemon (\<open>helper/event-monitor.cc\<close>), the acceptor of applications
  (\<open>daemon/app-connector.cc\<close>) and \<open>main\<close> (\<open>daemon/ndnd.cc\<close>). libevent is
  the list of the registered events: a descriptor with the argument of its callback. The results of
  \<open>event_new\<close>, \<open>accept\<close>, \<open>send\<close> and of the constructors of the device faces are
  arguments. Main theorem: the daemon that is driven by its event loop takes exactly the steps of
  \<open>l3_step\<close>, and every event finds the object that it was registered for.
\<close>

section \<open>The event monitor\<close>

datatype monitorable = Connector | FaceOf face_id

record event_monitor =
  em_fd_state_map :: "face_id \<Rightarrow> nat option"
  em_states :: "nat \<Rightarrow> monitorable option"
  em_calloc :: nat
  em_events :: "(face_id \<times> nat) list"

definition EventMonitor :: event_monitor where
  "EventMonitor = \<lparr>em_fd_state_map = (\<lambda>fd. None), em_states = (\<lambda>a. None), em_calloc = 0, em_events = []\<rparr>"

definition em_add :: "bool \<Rightarrow> face_id \<Rightarrow> monitorable \<Rightarrow> event_monitor \<Rightarrow> event_monitor" where
  "em_add event_new fd pMonitorable em =
     (let state = em_calloc em; em = em\<lparr>em_calloc := Suc state\<rparr> in
      if event_new then
        em\<lparr>em_states := (em_states em)(state := Some pMonitorable),
           em_fd_state_map := (em_fd_state_map em)(fd := Some state),
           em_events := em_events em @ [(fd, state)]\<rparr>
      else em)"

definition em_erase :: "face_id \<Rightarrow> event_monitor \<Rightarrow> fault + event_monitor" where
  "em_erase fd em =
     (case em_fd_state_map em fd of
        None \<Rightarrow> Inl AssertionFailed
      | Some state \<Rightarrow>
          if em_states em state = None then Inl UseAfterFree
          else Inr (em\<lparr>em_events := filter (\<lambda>e. snd e \<noteq> state) (em_events em),
                      em_fd_state_map := (em_fd_state_map em)(fd := None),
                      em_states := (em_states em)(state := None)\<rparr>))"

section \<open>The daemon\<close>

record daemon =
  d_l3 :: l3
  d_em :: event_monitor

text \<open>
  What a ready descriptor gives: a new connection (whether the greeting could be sent, whether its event could be
  made), what was read from a stream or a datagram socket, or the packet in a slot of the ring.\<close>

datatype arrival = Connection face_id bool bool | Stream "byte list option" | Datagram "(byte list \<times> u32 \<times> 16 word) option"
  | Slot packet

definition AppConnector_readHandler :: "face_id \<Rightarrow> bool \<Rightarrow> bool \<Rightarrow> daemon \<Rightarrow> daemon" where
  "AppConnector_readHandler new_fd sent event_new d =
     (let newLocalFace = NDNFace LocalFace new_fd in
      if sent then
        d\<lparr>d_l3 := fst (AddFace newLocalFace (d_l3 d)), d_em := em_add event_new new_fd (FaceOf new_fd) (d_em d)\<rparr>
      else d)"

text \<open>The face takes itself off the monitor when its socket fails or is closed.\<close>

definition face_readHandler :: "os \<Rightarrow> time \<Rightarrow> face_id \<Rightarrow> byte list option \<Rightarrow> daemon \<Rightarrow> fault + daemon" where
  "face_readHandler os now fd input d =
     (case input of
        None \<Rightarrow> bindr (em_erase fd (d_em d)) (\<lambda>em. Inr (d\<lparr>d_em := em\<rparr>))
      | Some bytes \<Rightarrow>
          bindr (InitFromBuffer bytes) (\<lambda>newPacket.
            if Packet_GetSize newPacket \<le> 0 then
              bindr (em_erase fd (d_em d)) (\<lambda>em.
              bindr (RemoveFace fd (d_l3 d)) (\<lambda>s. Inr (d\<lparr>d_l3 := s, d_em := em\<rparr>)))
            else bindr (l3_Receive os now fd newPacket (d_l3 d)) (\<lambda>s. Inr (d\<lparr>d_l3 := s\<rparr>))))"

text \<open>On the tables of the daemon this is \<open>readHandler\<close>.\<close>

lemma face_readHandler_l3:
  assumes "face_readHandler os now fd input d = Inr d'"
  shows "\<exists>off. readHandler os now fd input (d_l3 d) = Inr (d_l3 d', off) \<and>
    (if off then em_erase fd (d_em d) = Inr (d_em d') else d_em d' = d_em d)"
proof (cases input)
  case None
  then obtain em where "em_erase fd (d_em d) = Inr em" "d' = d\<lparr>d_em := em\<rparr>"
    using assms by (cases "em_erase fd (d_em d)") (simp_all add: face_readHandler_def)
  with None show ?thesis by (intro exI [of _ True]) (simp add: readHandler_def)
next
  case (Some bytes)
  then obtain p where p: "InitFromBuffer bytes = Inr p"
    and rest: "(if Packet_GetSize p \<le> 0 then bindr (em_erase fd (d_em d)) (\<lambda>em.
        bindr (RemoveFace fd (d_l3 d)) (\<lambda>s. Inr (d\<lparr>d_l3 := s, d_em := em\<rparr>)))
      else bindr (l3_Receive os now fd p (d_l3 d)) (\<lambda>s. Inr (d\<lparr>d_l3 := s\<rparr>))) = Inr d'"
    using assms by (cases "InitFromBuffer bytes") (simp_all add: face_readHandler_def)
  show ?thesis
  proof (cases "Packet_GetSize p \<le> 0")
    case True
    then obtain em s where "em_erase fd (d_em d) = Inr em" "RemoveFace fd (d_l3 d) = Inr s" "d' = d\<lparr>d_l3 := s, d_em := em\<rparr>"
      using rest True by (cases "em_erase fd (d_em d)"; cases "RemoveFace fd (d_l3 d)") simp_all
    with Some p True show ?thesis by (intro exI [of _ True]) (simp add: readHandler_def)
  next
    case False
    then obtain s where "l3_Receive os now fd p (d_l3 d) = Inr s" "d' = d\<lparr>d_l3 := s\<rparr>"
      using rest False by (cases "l3_Receive os now fd p (d_l3 d)") simp_all
    with Some p False show ?thesis by (intro exI [of _ False]) (simp add: readHandler_def)
  qed
qed

text \<open>The handlers of the faces, by the kind of the face.\<close>

fun face_event :: "os \<Rightarrow> time \<Rightarrow> face_id \<Rightarrow> face_kind \<Rightarrow> arrival \<Rightarrow> daemon \<Rightarrow> fault + daemon" where
  "face_event os now fd LocalFace (Stream bytes) d = face_readHandler os now fd bytes d"
| "face_event os now fd (NetDeviceFace hub port) (Stream bytes) d =
     bindr (net_readHandler os now fd bytes (d_l3 d)) (\<lambda>s. Inr (d\<lparr>d_l3 := s\<rparr>))"
| "face_event os now fd HubOverIPDeviceFace (Datagram bytes) d =
     bindr (hub_readHandler os now fd bytes (d_l3 d)) (\<lambda>s. Inr (d\<lparr>d_l3 := s\<rparr>))"
| "face_event os now fd AdhocNetDeviceFace (Slot p) d =
     bindr (l3_Receive os now fd p (d_l3 d)) (\<lambda>s. Inr (d\<lparr>d_l3 := s\<rparr>))"
| "face_event os now fd _ _ d = Inr d"

definition do_read :: "os \<Rightarrow> time \<Rightarrow> nat \<Rightarrow> arrival \<Rightarrow> daemon \<Rightarrow> fault + daemon" where
  "do_read os now arg input d =
     (case em_states (d_em d) arg of
        None \<Rightarrow> Inl UseAfterFree
      | Some Connector \<Rightarrow>
          (case input of Connection new_fd sent event_new \<Rightarrow> Inr (AppConnector_readHandler new_fd sent event_new d) | _ \<Rightarrow> Inr d)
      | Some (FaceOf fd) \<Rightarrow>
          bindr (face_at fd (d_l3 d)) (\<lambda>f. face_event os now fd (fc_kind f) input d))"

section \<open>The command line\<close>

text \<open>
  \<open>create\<close> is the constructor of the device face of a type and its addresses: the kind of the
  face and the descriptor it opens, or \<open>None\<close> when it throws. A type without its addresses reads
  beyond the arguments. The result is \<open>None\<close> when the daemon prints its usage and ends.\<close>

type_synonym opener = "string \<Rightarrow> string list \<Rightarrow> (face_kind \<times> face_id) option"

definition arguments_of :: "string \<Rightarrow> nat option" where
  "arguments_of arg = (if arg = ''hub'' then Some 1 else if arg = ''adhoc'' then Some 1 else if arg = ''net'' then Some 2 else None)"

definition device_face :: "opener \<Rightarrow> string \<Rightarrow> string list \<Rightarrow> face list" where
  "device_face create arg addresses = (case create arg addresses of None \<Rightarrow> [] | Some (kind, fd) \<Rightarrow> [NDNFace kind fd])"

function ndnd_faces :: "opener \<Rightarrow> string list \<Rightarrow> fault + face list option" where
  "ndnd_faces create [] = Inr (Some [])"
| "ndnd_faces create (arg # argv) =
     (case arguments_of arg of
        None \<Rightarrow> Inr None
      | Some n \<Rightarrow>
          if length argv < n then Inl UndefinedBehaviour
          else
            bindr (ndnd_faces create (drop n argv)) (\<lambda>faces.
              Inr (map_option (\<lambda>fs. device_face create arg (take n argv) @ fs) faces)))"
  by pat_completeness auto
termination by (relation "measure (length \<circ> snd)") auto

definition add_device :: "face \<Rightarrow> daemon \<Rightarrow> daemon" where
  "add_device f d = d\<lparr>d_l3 := fst (AddFace f (d_l3 d)), d_em := em_add True (fc_fd f) (FaceOf (fc_fd f)) (d_em d)\<rparr>"

definition ndnd :: "face_id \<Rightarrow> opener \<Rightarrow> string list \<Rightarrow> fault + daemon option" where
  "ndnd listen_sockfd create argv =
     (if argv = [] then Inr None
      else
        bindr (ndnd_faces create argv) (\<lambda>faces.
          Inr (map_option (\<lambda>fs. fold add_device fs
            \<lparr>d_l3 = NDNL3Protocol, d_em = em_add True listen_sockfd Connector EventMonitor\<rparr>) faces)))"

section \<open>The invariant of the event loop\<close>

definition em_inv :: "event_monitor \<Rightarrow> bool" where
  "em_inv em \<longleftrightarrow> distinct (map fst (em_events em)) \<and> distinct (map snd (em_events em)) \<and>
     (\<forall>fd a. em_fd_state_map em fd = Some a \<longleftrightarrow> (fd, a) \<in> set (em_events em)) \<and>
     (\<forall>fd a. (fd, a) \<in> set (em_events em) \<longrightarrow> em_states em a \<noteq> None) \<and>
     (\<forall>a. em_calloc em \<le> a \<longrightarrow> em_states em a = None)"

definition watched :: "event_monitor \<Rightarrow> (face_id \<times> monitorable) set" where
  "watched em = {(fd, m). \<exists>a. (fd, a) \<in> set (em_events em) \<and> em_states em a = Some m}"

lemma em_empty: "em_inv EventMonitor" "watched EventMonitor = {}"
  by (simp_all add: em_inv_def EventMonitor_def watched_def)

text \<open>A descriptor that is not watched yet is watched after \<open>add\<close>, when libevent takes it.\<close>

lemma em_add_inv:
  assumes "em_inv em" and "fd \<notin> fst ` watched em"
  shows "em_inv (em_add ok fd m em)" and "watched (em_add ok fd m em) = (if ok then {(fd, m)} else {}) \<union> watched em"
proof -
  have old: "(fd', a) \<in> set (em_events em) \<Longrightarrow> a < em_calloc em \<and> em_states em a \<noteq> None" for fd' a
    using assms(1) unfolding em_inv_def by (meson not_le)
  have new: "(fd, a) \<notin> set (em_events em)" for a
    using assms(2) old [of fd a] by (force simp: watched_def)
  then have none: "em_fd_state_map em fd = None" using assms(1) by (cases "em_fd_state_map em fd") (auto simp: em_inv_def)
  have fresh: "(fd', em_calloc em) \<notin> set (em_events em)" for fd' using old [of fd' "em_calloc em"] by auto
  show "em_inv (em_add ok fd m em)"
    using assms(1) new none fresh old unfolding em_inv_def em_add_def by (auto simp: Let_def image_iff)
  show "watched (em_add ok fd m em) = (if ok then {(fd, m)} else {}) \<union> watched em"
    using fresh by (auto simp: watched_def em_add_def Let_def) metis
qed

lemma em_erase_inv:
  assumes "em_inv em" and "(fd, m) \<in> watched em"
  shows "\<exists>em'. em_erase fd em = Inr em' \<and> em_inv em' \<and> watched em' = {w \<in> watched em. fst w \<noteq> fd}"
proof -
  obtain a where a: "(fd, a) \<in> set (em_events em)" "em_states em a = Some m" using assms(2) by (auto simp: watched_def)
  then have map: "em_fd_state_map em fd = Some a" using assms(1) by (simp add: em_inv_def)
  have one: "b = a \<longleftrightarrow> fd' = fd" if "(fd', b) \<in> set (em_events em)" for fd' b
  proof -
    have "inj_on snd (set (em_events em))" "inj_on fst (set (em_events em))"
      using assms(1) by (simp_all add: em_inv_def distinct_map)
    from inj_onD [OF this(1) _ that a(1)] inj_onD [OF this(2) _ that a(1)] show ?thesis by auto
  qed
  let ?em = "em\<lparr>em_events := filter (\<lambda>e. snd e \<noteq> a) (em_events em), em_fd_state_map := (em_fd_state_map em)(fd := None),
    em_states := (em_states em)(a := None)\<rparr>"
  have "em_erase fd em = Inr ?em" by (simp add: em_erase_def map a(2))
  moreover have "em_inv ?em"
  proof -
    have ev: "(fd', b) \<in> set (em_events ?em) \<longleftrightarrow> (fd', b) \<in> set (em_events em) \<and> fd' \<noteq> fd" for fd' b
      using one [of fd' b] by auto
    have "distinct (map fst (em_events ?em))" "distinct (map snd (em_events ?em))"
      using assms(1) by (simp_all add: em_inv_def distinct_map_filter)
    moreover have "em_fd_state_map ?em fd' = Some b \<longleftrightarrow> (fd', b) \<in> set (em_events ?em)" for fd' b
      unfolding ev using assms(1) by (simp add: em_inv_def)
    moreover have "em_states ?em b \<noteq> None" if "(fd', b) \<in> set (em_events ?em)" for fd' b
      using that one [of fd' b] assms(1) unfolding ev by (auto simp: em_inv_def)
    moreover have "em_states ?em b = None" if "em_calloc ?em \<le> b" for b
      using that assms(1) by (simp add: em_inv_def)
    ultimately show ?thesis unfolding em_inv_def by blast
  qed
  moreover have "watched ?em = {w \<in> watched em. fst w \<noteq> fd}"
    using one by (auto simp: watched_def) metis
  ultimately show ?thesis by blast
qed

section \<open>The daemon driven by its events\<close>

text \<open>
  A descriptor is never closed, so a new connection has one that no face and no socket of the daemon has. What arrives
  fits into a slot of the ring when there is an ad-hoc face; the packet in a slot comes from the adapter.\<close>

fun arrival_ok :: "face_id \<Rightarrow> l3 \<Rightarrow> arrival \<Rightarrow> bool" where
  "arrival_ok listen_sockfd s (Connection new_fd sent event_new) \<longleftrightarrow> new_fd \<noteq> listen_sockfd \<and> new_fd \<notin> fds s"
| "arrival_ok listen_sockfd s (Stream input) \<longleftrightarrow> (\<forall>bytes. input = Some bytes \<longrightarrow> fits s bytes)"
| "arrival_ok listen_sockfd s (Datagram input) \<longleftrightarrow> True"
| "arrival_ok listen_sockfd s (Slot p) \<longleftrightarrow>
     (pk_llmetadata p = None \<or> (\<exists>k. pk_llmetadata p = Some (OverAdhoc k))) \<and> pk_linked p \<and> fits s (m_data (pk_buffer p))"

inductive daemon_step :: "os \<Rightarrow> face_id \<Rightarrow> daemon \<Rightarrow> daemon \<Rightarrow> bool" for os listen_sockfd where
  event: "(fd, arg) \<in> set (em_events (d_em d)) \<Longrightarrow> arrival_ok listen_sockfd (d_l3 d) input \<Longrightarrow>
     do_read os now arg input d = Inr d' \<Longrightarrow> daemon_step os listen_sockfd d d'"
| register: "GetFace (fw_faceID m) (d_l3 d) \<noteq> None \<Longrightarrow> fw_Action m \<noteq> ''unreg'' \<Longrightarrow>
     management_message m (d_l3 d) = Inr s \<Longrightarrow> daemon_step os listen_sockfd d (d\<lparr>d_l3 := s\<rparr>)"
| withdraw: "GetFace (fw_faceID m) (d_l3 d) = Some fd \<Longrightarrow> fw_Action m = ''unreg'' \<Longrightarrow>
     withdrawable (parse_name (fw_Name m)) fd (d_l3 d) \<Longrightarrow> management_message m (d_l3 d) = Inr s \<Longrightarrow>
     daemon_step os listen_sockfd d (d\<lparr>d_l3 := s\<rparr>)"
| timer: "daemon_step os listen_sockfd d (d\<lparr>d_l3 := Reap now (d_l3 d)\<rparr>)"

definition daemon_reachable :: "os \<Rightarrow> face_id \<Rightarrow> opener \<Rightarrow> string list \<Rightarrow> daemon \<Rightarrow> bool" where
  "daemon_reachable os listen_sockfd create argv d \<longleftrightarrow>
     (\<exists>d0. ndnd listen_sockfd create argv = Inr (Some d0) \<and> (daemon_step os listen_sockfd)\<^sup>*\<^sup>* d0 d)"

text \<open>What is watched: the socket that listens, and faces that exist.\<close>

definition daemon_inv :: "face_id \<Rightarrow> daemon \<Rightarrow> bool" where
  "daemon_inv listen_sockfd d \<longleftrightarrow> em_inv (d_em d) \<and> listen_sockfd \<notin> fds (d_l3 d) \<and>
     (\<forall>(fd, m) \<in> watched (d_em d). (fd, m) = (listen_sockfd, Connector) \<or> m = FaceOf fd \<and> fd \<in> set (l_faces (d_l3 d))) \<and>
     (listen_sockfd, Connector) \<in> watched (d_em d)"

lemma daemon_inv_watched:
  assumes "daemon_inv listen_sockfd d" "(fd, m) \<in> watched (d_em d)"
  shows "(fd, m) = (listen_sockfd, Connector) \<or> m = FaceOf fd \<and> fd \<in> set (l_faces (d_l3 d))"
  using assms unfolding daemon_inv_def by fast

lemma daemon_inv_listen: "daemon_inv listen_sockfd d \<Longrightarrow> listen_sockfd \<notin> fds (d_l3 d)"
  by (simp add: daemon_inv_def)

lemma daemon_inv_em: "daemon_inv listen_sockfd d \<Longrightarrow> em_inv (d_em d)"
  by (simp add: daemon_inv_def)

text \<open>The argument of an event is the state that was made for it.\<close>

lemma event_state:
  assumes "daemon_inv listen_sockfd d" "(fd, arg) \<in> set (em_events (d_em d))"
  obtains m where "em_states (d_em d) arg = Some m" "(fd, m) \<in> watched (d_em d)"
proof -
  have "em_states (d_em d) arg \<noteq> None" using daemon_inv_em [OF assms(1)] assms(2) unfolding em_inv_def by blast
  then obtain m where "em_states (d_em d) arg = Some m" by blast
  with assms(2) show thesis by (intro that [of m]) (auto simp: watched_def)
qed

lemma daemon_inv_l3:
  assumes "daemon_inv listen_sockfd d" "set (l_faces (d_l3 d)) \<subseteq> set (l_faces s)" "listen_sockfd \<notin> fds s"
  shows "daemon_inv listen_sockfd (d\<lparr>d_l3 := s\<rparr>)"
  using assms unfolding daemon_inv_def by fastforce

lemma daemon_inv_erase:
  assumes "daemon_inv listen_sockfd d" "(fd, FaceOf fd) \<in> watched (d_em d)" "l3_inv (d_l3 d)"
  shows "\<exists>em. em_erase fd (d_em d) = Inr em \<and> daemon_inv listen_sockfd (d\<lparr>d_em := em\<rparr>) \<and>
    watched em = {w \<in> watched (d_em d). fst w \<noteq> fd}"
proof -
  obtain em where em: "em_erase fd (d_em d) = Inr em" "em_inv em" "watched em = {w \<in> watched (d_em d). fst w \<noteq> fd}"
    using em_erase_inv [OF daemon_inv_em [OF assms(1)] assms(2)] by blast
  moreover have "fd \<noteq> listen_sockfd"
    using daemon_inv_watched [OF assms(1,2)] daemon_inv_listen [OF assms(1)] assms(3) by (auto simp: l3_inv_def)
  ultimately have "daemon_inv listen_sockfd (d\<lparr>d_em := em\<rparr>)"
    using assms(1) unfolding daemon_inv_def by auto
  with em(1,3) show ?thesis by blast
qed

lemma face_event_result:
  assumes "face_event os now fd kind input d = Inr d'"
  shows "(\<exists>bytes. kind = LocalFace \<and> input = Stream bytes \<and> face_readHandler os now fd bytes d = Inr d') \<or>
    (\<exists>bytes s. input = Stream bytes \<and> net_readHandler os now fd bytes (d_l3 d) = Inr s \<and> d' = d\<lparr>d_l3 := s\<rparr>) \<or>
    (\<exists>bytes s. kind = HubOverIPDeviceFace \<and> hub_readHandler os now fd bytes (d_l3 d) = Inr s \<and> d' = d\<lparr>d_l3 := s\<rparr>) \<or>
    (\<exists>p s. input = Slot p \<and> l3_Receive os now fd p (d_l3 d) = Inr s \<and> d' = d\<lparr>d_l3 := s\<rparr>) \<or> d' = d"
  using assms by (cases kind; cases input) (simp_all add: bindr_eq_Inr eq_commute [of d'], blast)

text \<open>
  What a handler does: it takes a step of \<open>l3_step\<close>, or none, and takes the face off the monitor or not.\<close>

lemma do_read_face:
  assumes inv: "l3_inv (d_l3 d)" "hub_or_adhoc (d_l3 d)" and named: "only_open (d_l3 d)" "fd \<in> set (l_faces (d_l3 d))"
    and st: "em_states (d_em d) arg = Some (FaceOf fd)" and ok: "arrival_ok listen_sockfd (d_l3 d) input"
    and go: "do_read os now arg input d = Inr d'"
  shows "(d_l3 d' = d_l3 d \<or> l3_step os (d_l3 d) (d_l3 d')) \<and> same_heap (d_l3 d) (d_l3 d') \<and>
    (d_em d' = d_em d \<and> l_faces (d_l3 d') = l_faces (d_l3 d) \<or>
     em_erase fd (d_em d) = Inr (d_em d') \<and> set (l_faces (d_l3 d)) - {fd} \<subseteq> set (l_faces (d_l3 d')))"
proof -
  obtain f where f: "face_at fd (d_l3 d) = Inr f" using st go by (auto simp: do_read_def bindr_eq_Inr)
  then have in_heap: "f \<in> set (l_heap (d_l3 d))" "fc_fd f = fd" "fd \<in> fds (d_l3 d)"
    by (auto simp: face_at_def fds_def dest: find_key_SomeD split: option.splits)
  have run: "face_event os now fd (fc_kind f) input d = Inr d'"
    using st go f by (simp add: do_read_def)
  consider (local) bytes where "fc_kind f = LocalFace" "input = Stream bytes" "face_readHandler os now fd bytes d = Inr d'"
    | (net) bytes s where "input = Stream bytes" "net_readHandler os now fd bytes (d_l3 d) = Inr s" "d' = d\<lparr>d_l3 := s\<rparr>"
    | (hub) bytes s where "fc_kind f = HubOverIPDeviceFace" "hub_readHandler os now fd bytes (d_l3 d) = Inr s" "d' = d\<lparr>d_l3 := s\<rparr>"
    | (adhoc) p s where "input = Slot p" "l3_Receive os now fd p (d_l3 d) = Inr s" "d' = d\<lparr>d_l3 := s\<rparr>"
    | (other) "d' = d"
    using face_event_result [OF run] by blast
  then show ?thesis
  proof cases
    case local
    obtain off where r: "readHandler os now fd bytes (d_l3 d) = Inr (d_l3 d', off)"
      "if off then em_erase fd (d_em d) = Inr (d_em d') else d_em d' = d_em d"
      using face_readHandler_l3 [OF local(3)] by blast
    have faces: "if off then set (l_faces (d_l3 d)) - {fd} \<subseteq> set (l_faces (d_l3 d')) else l_faces (d_l3 d') = l_faces (d_l3 d)"
      by (rule faces_read [OF named(1) inv(1) named(2) r(1)])
    have b: "bytes = Some x \<Longrightarrow> fits (d_l3 d) x" for x using ok local by simp
    from l3_step.read [OF named(2) b r(1)] read_same [OF inv in_heap(3) b r(1)] r(2) faces show ?thesis
      by (cases off) simp_all
  next
    case net
    have b: "bytes = Some x \<Longrightarrow> fits (d_l3 d) x" for x using ok net by simp
    from l3_step.net_read [OF named(2) b net(2)] net_same [OF inv in_heap(3) b net(2)] net(3)
      faces_net [OF named(1) inv(1) named(2) net(2)] show ?thesis by simp
  next
    case hub
    then have h: "\<exists>f \<in> set (l_heap (d_l3 d)). fc_kind f = HubOverIPDeviceFace" using in_heap by blast
    from l3_step.hub_read [OF named(2) h hub(2)] hub_same [OF inv in_heap(3) h hub(2)] hub(3)
      faces_hub [OF named(1) inv(1) named(2) hub(2)] show ?thesis by simp
  next
    case adhoc
    then obtain k where a: "pk_llmetadata p = Some (OverAdhoc k) \<or> pk_llmetadata p = None" "pk_linked p"
      "fits (d_l3 d) (m_data (pk_buffer p))" using ok by auto
    from l3_step.adhoc_read [OF named(2) a adhoc(2)] receive_same [OF inv in_heap(3) adhoc(2)] a adhoc(3)
      faces_Receive [OF named(1) inv(1) named(2) adhoc(2)]
    show ?thesis by auto
  next
    case other
    then show ?thesis by simp
  qed
qed

lemma connect_step:
  assumes "daemon_inv listen_sockfd d" "l3_inv (d_l3 d)" "new_fd \<noteq> listen_sockfd" "new_fd \<notin> fds (d_l3 d)"
    and d': "d' = AppConnector_readHandler new_fd sent event_new d"
  shows "daemon_inv listen_sockfd d' \<and> (d_l3 d' = d_l3 d \<or> l3_step os (d_l3 d) (d_l3 d'))"
proof (cases sent)
  case False
  then show ?thesis using assms(1) by (simp add: d' AppConnector_readHandler_def)
next
  case True
  let ?s = "fst (AddFace (NDNFace LocalFace new_fd) (d_l3 d))"
  have no: "f \<in> set (l_heap (d_l3 d)) \<Longrightarrow> fc_fd f \<noteq> new_fd" for f using assms(4) by (auto simp: fds_def)
  then have fds: "fds ?s = insert new_fd (fds (d_l3 d))"
    using connect_inv [OF assms(2), of new_fd] by blast
  have step: "l3_step os (d_l3 d) ?s" by (rule l3_step.connect) (use no in blast)
  have listed: "set (l_faces (d_l3 d)) \<subseteq> fds (d_l3 d)" using assms(2) by (simp add: l3_inv_def)
  have faces: "l_faces ?s = l_faces (d_l3 d) @ [new_fd]" by (simp add: AddFace_def NDNFace_def)
  have unwatched: "new_fd \<notin> fst ` watched (d_em d)"
    using assms(1,3,4) listed unfolding daemon_inv_def by fastforce
  have inv: "em_inv (d_em d)" using assms(1) by (simp add: daemon_inv_def)
  note add = em_add_inv [OF inv unwatched, of event_new "FaceOf new_fd"]
  have "daemon_inv listen_sockfd (d\<lparr>d_l3 := ?s, d_em := em_add event_new new_fd (FaceOf new_fd) (d_em d)\<rparr>)"
    using assms(1,3) add(1) unfolding daemon_inv_def by (auto simp: add(2) fds faces split: if_splits)
  then show ?thesis using True step by (simp add: d' AppConnector_readHandler_def Let_def)
qed

lemma event_step:
  assumes inv: "daemon_inv listen_sockfd d" and l3: "l3_inv (d_l3 d)" "hub_or_adhoc (d_l3 d)" and named: "only_open (d_l3 d)"
    and ev: "(fd, arg) \<in> set (em_events (d_em d))" and ok: "arrival_ok listen_sockfd (d_l3 d) input"
    and run: "do_read os now arg input d = Inr d'"
  shows "daemon_inv listen_sockfd d' \<and> (d_l3 d' = d_l3 d \<or> l3_step os (d_l3 d) (d_l3 d'))"
proof -
  obtain m where m: "em_states (d_em d) arg = Some m" "(fd, m) \<in> watched (d_em d)"
    by (rule event_state [OF inv ev])
  show ?thesis
  proof (cases m)
    case Connector
    show ?thesis
    proof (cases input)
      case (Connection new_fd sent event_new)
      then have "d' = AppConnector_readHandler new_fd sent event_new d" using run m Connector by (simp add: do_read_def)
      then show ?thesis by (rule connect_step [OF inv l3(1), rotated 2]) (use ok Connection in simp_all)
    qed (use run m Connector inv in \<open>auto simp: do_read_def\<close>)
  next
    case (FaceOf fd')
    then have fd: "fd' = fd" "fd \<in> set (l_faces (d_l3 d))" using daemon_inv_watched [OF inv m(2)] by simp_all
    have r: "d_l3 d' = d_l3 d \<or> l3_step os (d_l3 d) (d_l3 d')" "same_heap (d_l3 d) (d_l3 d')"
      "d_em d' = d_em d \<and> l_faces (d_l3 d') = l_faces (d_l3 d) \<or>
       em_erase fd (d_em d) = Inr (d_em d') \<and> set (l_faces (d_l3 d)) - {fd} \<subseteq> set (l_faces (d_l3 d'))"
      using do_read_face [OF l3 named fd(2) _ ok run] m(1) FaceOf fd(1) by simp_all
    have same: "fds (d_l3 d') = fds (d_l3 d)" by (rule same_heapD(1) [OF r(2)])
    obtain em where em: "em_erase fd (d_em d) = Inr em" "daemon_inv listen_sockfd (d\<lparr>d_em := em\<rparr>)"
      "watched em = {w \<in> watched (d_em d). fst w \<noteq> fd}"
      using daemon_inv_erase [OF inv _ l3(1), of fd] m(2) FaceOf fd(1) by blast
    have "daemon_inv listen_sockfd d'"
      using r(3)
    proof (elim disjE conjE)
      assume "d_em d' = d_em d" "l_faces (d_l3 d') = l_faces (d_l3 d)"
      then show ?thesis using inv same unfolding daemon_inv_def by simp
    next
      assume e: "em_erase fd (d_em d) = Inr (d_em d')" "set (l_faces (d_l3 d)) - {fd} \<subseteq> set (l_faces (d_l3 d'))"
      then have "d_em d' = em" using em(1) by simp
      then show ?thesis using em(2,3) e(2) same unfolding daemon_inv_def by fastforce
    qed
    with r(1) show ?thesis by blast
  qed
qed

section \<open>The start\<close>

lemma add_devices:
  assumes "em_inv (d_em d)" "\<forall>f \<in> set fs. fc_fd f \<notin> fst ` watched (d_em d)" "distinct (map fc_fd fs)"
  shows "em_inv (d_em (fold add_device fs d)) \<and>
    watched (d_em (fold add_device fs d)) = watched (d_em d) \<union> (\<lambda>f. (fc_fd f, FaceOf (fc_fd f))) ` set fs \<and>
    d_l3 (fold add_device fs d) = fold (\<lambda>f s. fst (AddFace f s)) fs (d_l3 d)"
  using assms
proof (induction fs arbitrary: d)
  case (Cons f fs)
  let ?d = "add_device f d"
  have f: "fc_fd f \<notin> fst ` watched (d_em d)" using Cons.prems(2) by simp
  note add = em_add_inv [OF Cons.prems(1) f, of True "FaceOf (fc_fd f)"]
  have em: "d_em ?d = em_add True (fc_fd f) (FaceOf (fc_fd f)) (d_em d)" "d_l3 ?d = fst (AddFace f (d_l3 d))"
    by (simp_all add: add_device_def)
  have "em_inv (d_em (fold add_device fs ?d)) \<and>
    watched (d_em (fold add_device fs ?d)) = watched (d_em ?d) \<union> (\<lambda>f. (fc_fd f, FaceOf (fc_fd f))) ` set fs \<and>
    d_l3 (fold add_device fs ?d) = fold (\<lambda>f s. fst (AddFace f s)) fs (d_l3 ?d)"
    by (rule Cons.IH) (use Cons.prems add in \<open>force simp: em image_iff\<close>)+
  then show ?case using add(2) by (auto simp: em)
qed simp

lemma start_inv:
  assumes "ndnd listen_sockfd create argv = Inr (Some d)" and "ndnd_faces create argv = Inr (Some devices)"
    and "distinct (listen_sockfd # map fc_fd devices)"
  shows "d_l3 d = boot devices \<and> daemon_inv listen_sockfd d"
proof -
  let ?d = "\<lparr>d_l3 = NDNL3Protocol, d_em = em_add True listen_sockfd Connector EventMonitor\<rparr>"
  have d: "d = fold add_device devices ?d" using assms(1,2) by (auto simp: ndnd_def split: if_splits)
  have "listen_sockfd \<notin> fst ` watched EventMonitor" by (simp add: em_empty)
  note em = em_add_inv [OF em_empty(1) this, of True Connector, unfolded em_empty(2) if_True Un_empty_right]
  have devs: "distinct (map fc_fd devices)" "\<forall>f \<in> set devices. fc_fd f \<noteq> listen_sockfd" using assms(3) by auto
  have start: "em_inv (d_em d)" "watched (d_em d) = {(listen_sockfd, Connector)} \<union> (\<lambda>f. (fc_fd f, FaceOf (fc_fd f))) ` set devices"
    "d_l3 d = boot devices"
    using add_devices [of ?d devices] em devs unfolding d boot_def by simp_all
  have "fds (d_l3 d) = fc_fd ` set devices" "l_faces (d_l3 d) = map fc_fd devices"
    unfolding fds_def start(3) using boot_heap [OF devs(1)] by simp_all
  then have "daemon_inv listen_sockfd d"
    using start devs unfolding daemon_inv_def by auto
  with start(3) show ?thesis by blast
qed

section \<open>The event loop refines the steps of the daemon\<close>

lemma daemon_step_refines:
  assumes "daemon_inv listen_sockfd d" and inv: "l3_inv (d_l3 d)" "hub_or_adhoc (d_l3 d)" and named: "only_open (d_l3 d)"
    and "daemon_step os listen_sockfd d d'"
  shows "daemon_inv listen_sockfd d' \<and> (d_l3 d' = d_l3 d \<or> l3_step os (d_l3 d) (d_l3 d'))"
  using assms(5)
proof (cases rule: daemon_step.cases)
  case (event fd arg input now)
  from event_step [OF assms(1) inv named event] show ?thesis .
next
  case (register m s)
  have "l3_step os (d_l3 d) s" by (rule l3_step.register [OF register(2-4)])
  moreover have "same_heap (d_l3 d) s" using register_same [OF inv(1) register(2-4)] by blast
  ultimately show ?thesis
    using assms(1) daemon_inv_l3 [of listen_sockfd d s] same_heapD(1) faces_management [OF register(4)]
    unfolding register(1) by (auto simp: daemon_inv_def)
next
  case (withdraw m fd s)
  have "l3_step os (d_l3 d) s" by (rule l3_step.withdraw [OF withdraw(2-5)])
  moreover have "same_heap (d_l3 d) s" using withdraw_same [OF inv(1) withdraw(2-5)] by blast
  ultimately show ?thesis
    using assms(1) daemon_inv_l3 [of listen_sockfd d s] same_heapD(1) faces_management [OF withdraw(5)]
    unfolding withdraw(1) by (auto simp: daemon_inv_def)
next
  case (timer now)
  have "fds (Reap now (d_l3 d)) = fds (d_l3 d)" "l_faces (Reap now (d_l3 d)) = l_faces (d_l3 d)" by (simp_all add: Reap_def)
  then show ?thesis
    using assms(1) daemon_inv_l3 [of listen_sockfd d "Reap now (d_l3 d)"] l3_step.reap
    unfolding timer by (auto simp: daemon_inv_def)
qed

interpretation loop: refinement "daemon_step os listen_sockfd" "l3_step os" d_l3
    "\<lambda>d. daemon_inv listen_sockfd d \<and> l3_inv (d_l3 d) \<and> hub_or_adhoc (d_l3 d) \<and> only_open (d_l3 d)" for os listen_sockfd
proof unfold_locales
  fix d d'
  assume i: "daemon_inv listen_sockfd d \<and> l3_inv (d_l3 d) \<and> hub_or_adhoc (d_l3 d) \<and> only_open (d_l3 d)"
    and s: "daemon_step os listen_sockfd d d'"
  then have r: "daemon_inv listen_sockfd d' \<and> (d_l3 d' = d_l3 d \<or> l3_step os (d_l3 d) (d_l3 d'))"
    using daemon_step_refines by blast
  then have "l3_inv (d_l3 d') \<and> hub_or_adhoc (d_l3 d')" using i step_inv by metis
  moreover have "only_open (d_l3 d')" using i r open_step by metis
  moreover note r
  ultimately show "(daemon_inv listen_sockfd d' \<and> l3_inv (d_l3 d') \<and> hub_or_adhoc (d_l3 d') \<and> only_open (d_l3 d')) \<and>
      (d_l3 d' = d_l3 d \<or> l3_step os (d_l3 d) (d_l3 d'))" by blast
qed

lemma l3_reachable_run: "(l3_step os)\<^sup>*\<^sup>* s t \<Longrightarrow> l3_reachable os devices s \<Longrightarrow> l3_reachable os devices t"
  by (induction rule: rtranclp_induct) (auto intro: l3_reachable.step)

lemma reachable_daemon:
  assumes "daemon_reachable os listen_sockfd create argv d" and "ndnd_faces create argv = Inr (Some devices)"
    and "distinct (listen_sockfd # map fc_fd devices)" and "hub_or_adhoc (boot devices)"
  shows "l3_reachable os devices (d_l3 d) \<and> daemon_inv listen_sockfd d"
proof -
  obtain d0 where d0: "ndnd listen_sockfd create argv = Inr (Some d0)" "(daemon_step os listen_sockfd)\<^sup>*\<^sup>* d0 d"
    using assms(1) by (auto simp: daemon_reachable_def)
  have start: "d_l3 d0 = boot devices" "daemon_inv listen_sockfd d0" using start_inv [OF d0(1) assms(2,3)] by blast+
  have "distinct (map fc_fd devices)" using assms(3) by simp
  then have "l3_inv (d_l3 d0)" "only_open (d_l3 d0)" using boot_inv boot_open start(1) by simp_all
  then have "daemon_inv listen_sockfd d" "(l3_step os)\<^sup>*\<^sup>* (d_l3 d0) (d_l3 d)"
    using loop.runs [OF d0(2)] start assms(4) by simp_all
  then show ?thesis using l3_reachable_run [of os "d_l3 d0" "d_l3 d" devices] l3_reachable.start start(1) by simp
qed

section \<open>Properties\<close>

text \<open>
  C22: from the command line on, over all events, registrations under known faces and expiries of the timer, the
  daemon under its event loop only takes the steps of \<open>l3_step\<close>, so that everything that is shown of the reachable states holds of it; and each registered event leads to the
  object that it was made for: the acceptor, or a face that still exists, never to released memory.\<close>

theorem event_loop:
  assumes "daemon_reachable os listen_sockfd create argv d" and "ndnd_faces create argv = Inr (Some devices)"
    and "distinct (listen_sockfd # map fc_fd devices)" and "hub_or_adhoc (boot devices)"
  shows "l3_reachable os devices (d_l3 d) \<and>
    (\<forall>(fd, arg) \<in> set (em_events (d_em d)).
       (if fd = listen_sockfd then em_states (d_em d) arg = Some Connector
        else em_states (d_em d) arg = Some (FaceOf fd) \<and> (\<exists>f. face_at fd (d_l3 d) = Inr f)))"
proof -
  have r: "l3_reachable os devices (d_l3 d)" and inv: "daemon_inv listen_sockfd d"
    using reachable_daemon [OF assms] by blast+
  have "if fd = listen_sockfd then em_states (d_em d) arg = Some Connector
        else em_states (d_em d) arg = Some (FaceOf fd) \<and> (\<exists>f. face_at fd (d_l3 d) = Inr f)"
    if ev: "(fd, arg) \<in> set (em_events (d_em d))" for fd arg
  proof -
    obtain m where m: "em_states (d_em d) arg = Some m" "(fd, m) \<in> watched (d_em d)"
      by (rule event_state [OF inv ev])
    have "set (l_faces (d_l3 d)) \<subseteq> fds (d_l3 d)"
      using reachable_inv [OF r _ assms(4)] assms(3) by (simp add: l3_inv_def)
    with daemon_inv_watched [OF inv m(2)] daemon_inv_listen [OF inv]
    have c: "(fd, m) = (listen_sockfd, Connector) \<or> m = FaceOf fd \<and> fd \<in> fds (d_l3 d) \<and> fd \<noteq> listen_sockfd" by blast
    have "\<exists>f. face_at fd (d_l3 d) = Inr f" if "fd \<in> fds (d_l3 d)"
    proof (cases "find_key fc_fd fd (l_heap (d_l3 d))")
      case None
      then show ?thesis using that by (simp add: find_key_None fds_def)
    next
      case (Some f)
      then show ?thesis by (simp add: face_at_def)
    qed
    then show ?thesis using m c by (cases "fd = listen_sockfd") simp_all
  qed
  with r show ?thesis by blast
qed

text \<open>
  When reading from the socket of an application fails, its face is no longer watched, but the tables of
  the daemon are left as they are: Interests are still forwarded to the face, and it is never removed.\<close>

theorem read_failure:
  assumes "daemon_reachable os listen_sockfd create argv d" and "ndnd_faces create argv = Inr (Some devices)"
    and "distinct (listen_sockfd # map fc_fd devices)" and "hub_or_adhoc (boot devices)"
    and "(fd, arg) \<in> set (em_events (d_em d))" "face_at fd (d_l3 d) = Inr f" "fc_kind f = LocalFace"
  shows "\<exists>d'. do_read os now arg (Stream None) d = Inr d' \<and> d_l3 d' = d_l3 d \<and> fd \<notin> fst ` set (em_events (d_em d'))"
proof -
  have inv: "daemon_inv listen_sockfd d" using reachable_daemon [OF assms(1-4)] by blast
  have l3: "l3_inv (d_l3 d)"
    using reachable_inv [OF reachable_daemon [OF assms(1-4), THEN conjunct1] _ assms(4)] assms(3) by simp
  have "fd \<in> fds (d_l3 d)" using assms(6) by (auto simp: face_at_def fds_def dest: find_key_SomeD split: option.splits)
  then have other: "fd \<noteq> listen_sockfd" using inv by (auto simp: daemon_inv_def)
  obtain m where m: "em_states (d_em d) arg = Some m" and w: "(fd, m) \<in> watched (d_em d)"
    by (rule event_state [OF inv assms(5)])
  have face: "m = FaceOf fd" using daemon_inv_watched [OF inv w] other by simp
  obtain em where em: "em_erase fd (d_em d) = Inr em" "daemon_inv listen_sockfd (d\<lparr>d_em := em\<rparr>)"
    using daemon_inv_erase [OF inv _ l3, of fd] w face by blast
  obtain em' where em': "em_erase fd (d_em d) = Inr em'" "em_inv em'" "watched em' = {w \<in> watched (d_em d). fst w \<noteq> fd}"
    using em_erase_inv [OF _ w] inv by (auto simp: daemon_inv_def)
  have "fd \<notin> fst ` set (em_events em)"
  proof
    assume "fd \<in> fst ` set (em_events em)"
    then obtain a where a: "(fd, a) \<in> set (em_events em)" by auto
    moreover have "em_states em a \<noteq> None" using a em(2) unfolding daemon_inv_def em_inv_def by auto
    ultimately have "fd \<in> fst ` watched em" by (force simp: watched_def)
    then show False using em(1) em'(1,3) by auto
  qed
  then show ?thesis
    using em(1) m face assms(6,7) by (simp add: do_read_def face_readHandler_def)
qed

definition hub_opener :: opener where
  "hub_opener arg addresses = Some (HubOverIPDeviceFace, 4)"

lemma hub_start:
  "ndnd_faces hub_opener [''hub'', ''10.0.0.1''] = Inr (Some [NDNFace HubOverIPDeviceFace 4])"
  "distinct ((3 :: face_id) # map fc_fd [NDNFace HubOverIPDeviceFace 4])"
  "hub_or_adhoc (boot [NDNFace HubOverIPDeviceFace 4])"
proof -
  show "ndnd_faces hub_opener [''hub'', ''10.0.0.1''] = Inr (Some [NDNFace HubOverIPDeviceFace 4])"
    by (simp add: arguments_of_def device_face_def hub_opener_def)
  show d: "distinct ((3 :: face_id) # map fc_fd [NDNFace HubOverIPDeviceFace 4])" by (simp add: NDNFace_def)
  then show "hub_or_adhoc (boot [NDNFace HubOverIPDeviceFace 4])"
    using boot_heap [of "[NDNFace HubOverIPDeviceFace 4]"] by (simp add: hub_or_adhoc_def no_adhoc_def NDNFace_def)
qed

definition hub_daemon :: daemon where
  "hub_daemon = \<lparr>d_l3 = boot [NDNFace HubOverIPDeviceFace 4],
     d_em = em_add True 4 (FaceOf 4) (em_add True 3 Connector EventMonitor)\<rparr>"

lemma hub_daemon_start: "daemon_reachable os 3 hub_opener [''hub'', ''10.0.0.1''] hub_daemon"
  unfolding daemon_reachable_def
  by (intro exI [of _ hub_daemon])
    (use hub_start(1) in \<open>simp add: ndnd_def hub_daemon_def boot_def add_device_def NDNFace_def\<close>)

theorem event_loop_witness:
  "\<exists>f. face_at 4 (d_l3 hub_daemon) = Inr f"
proof -
  have "(4, 1) \<in> set (em_events (d_em hub_daemon))"
    by (simp add: hub_daemon_def em_add_def EventMonitor_def Let_def)
  then show ?thesis using event_loop [OF hub_daemon_start [of "\<lambda>fd t. True"] hub_start] by fastforce
qed

theorem read_failure_witness:
  "\<exists>d'. do_read (\<lambda>fd t. True) 0 2 (Stream None) (AppConnector_readHandler 7 True True hub_daemon) = Inr d' \<and>
    7 \<notin> fst ` set (em_events (d_em d'))"
proof -
  let ?os = "(\<lambda>fd t. True) :: os" and ?d = "AppConnector_readHandler 7 True True hub_daemon"
  have ev: "(3, 0) \<in> set (em_events (d_em hub_daemon))" "em_states (d_em hub_daemon) 0 = Some Connector"
    by (simp_all add: hub_daemon_def em_add_def EventMonitor_def Let_def)
  have heap: "l_heap (d_l3 hub_daemon) = [NDNFace HubOverIPDeviceFace 4]"
    using boot_heap [of "[NDNFace HubOverIPDeviceFace 4]"] by (simp add: hub_daemon_def NDNFace_def)
  have "daemon_step ?os 3 hub_daemon ?d"
    by (rule daemon_step.event [OF ev(1), where input = "Connection 7 True True" and now = 0])
      (simp_all add: heap fds_def NDNFace_def do_read_def ev(2))
  then have r: "daemon_reachable ?os 3 hub_opener [''hub'', ''10.0.0.1''] ?d"
    using hub_daemon_start [of ?os] unfolding daemon_reachable_def by (meson rtranclp.rtrancl_into_rtrancl)
  have new: "(7, 2) \<in> set (em_events (d_em ?d))"
    by (simp add: AppConnector_readHandler_def hub_daemon_def em_add_def EventMonitor_def Let_def)
  have face: "face_at 7 (d_l3 ?d) = Inr (NDNFace LocalFace 7)" "fc_kind (NDNFace LocalFace 7) = LocalFace"
    by (simp_all add: AppConnector_readHandler_def Let_def AddFace_def face_at_def heap NDNFace_def)
  show ?thesis using read_failure [OF r hub_start new face, of 0] by blast
qed

end
