(* ===== verification/Service.thy ===== *)
theory Service
  imports Propagate Traffic
begin

text \<open>
  A service over the daemon: a producer registers a prefix (\<open>apps/ndn-producer.cc\<close>), a consumer asks for
  a name, the daemon forwards the Interest to the producer, and the answer back. The theorems follow the bytes through
  the client library, the sockets, the handlers of the daemon and its tables.
\<close>

section \<open>Registration\<close>

text \<open>
  The message that goes through the message queue, as the daemon reads it back from the JSON text.
  \<open>face_fd\<close> is the number that the daemon greeted the application with.\<close>

definition registerName :: "name \<Rightarrow> u32 \<Rightarrow> forwarding_entry" where
  "registerName n face_fd = \<lparr>fw_ServiceType = ''ForwardingEntry'', fw_Action = ''selfreg'', fw_Name = print_name n, fw_faceID = face_fd\<rparr>"

definition deregisterName :: "name \<Rightarrow> u32 \<Rightarrow> forwarding_entry" where
  "deregisterName n face_fd = \<lparr>fw_ServiceType = ''ForwardingEntry'', fw_Action = ''unreg'', fw_Name = print_name n, fw_faceID = face_fd\<rparr>"

section \<open>One next hop\<close>

text \<open>
  A face that sends a packet: one over a connected socket or to a fixed peer, or the ad-hoc face for a packet that fits
  into a slot of its ring.\<close>

definition radio_face :: "os \<Rightarrow> l3 \<Rightarrow> face_id \<Rightarrow> bool" where
  "radio_face os s fd \<longleftrightarrow> (\<exists>f. find_key fc_fd fd (l_heap s) = Some f \<and> fc_kind f = AdhocNetDeviceFace \<and> os fd AdhocRing)"

definition in_slot :: "packet \<Rightarrow> bool" where
  "in_slot p \<longleftrightarrow> pk_linked p \<and> pk_llmetadata p \<noteq> Some FreedMetadata \<and> length (m_data (pk_buffer p)) \<le> MAXLLSIZE"

definition ready_face :: "os \<Rightarrow> l3 \<Rightarrow> packet \<Rightarrow> face_id \<Rightarrow> bool" where
  "ready_face os s p fd \<longleftrightarrow> plain_face os s fd \<or> radio_face os s fd \<and> in_slot p"

lemma send_ready:
  assumes "ready_face os s p fd"
  shows "\<exists>x. send_on os fd p md s = Inr (s\<lparr>l_sent := l_sent s @ [x]\<rparr>) \<and> delivered os s fd p md = [x] \<and>
    s_face x = fd \<and> s_data x = m_data (pk_buffer p)"
proof -
  obtain f where f: "find_key fc_fd fd (l_heap s) = Some f" "fc_fd f = fd"
    and k: "fc_kind f = LocalFace \<and> os fd Connected \<or> (\<exists>ip port. fc_kind f = NetDeviceFace ip port \<and> os fd (UdpTo ip port)) \<or>
      fc_kind f = AdhocNetDeviceFace \<and> os fd AdhocRing \<and> in_slot p"
    using assms find_key_SomeD by (fastforce simp: ready_face_def plain_face_def radio_face_def)
  from k show ?thesis
    using f by (auto simp: send_on_def delivered_def face_at_def face_Send_def sendto_def adhoc_Send_def in_slot_def)
qed

lemma plain_face_cong:
  assumes "same_sending s s'"
  shows "plain_face os s' fd = plain_face os s fd"
proof -
  have "map_option fc_kind (find_key fc_fd fd (l_heap s')) = map_option fc_kind (find_key fc_fd fd (l_heap s))"
    using assms by (simp add: same_sending_def)
  then show ?thesis
    by (cases "find_key fc_fd fd (l_heap s)"; cases "find_key fc_fd fd (l_heap s')") (simp_all add: plain_face_def)
qed

lemma radio_face_cong:
  assumes "same_sending s s'"
  shows "radio_face os s' fd = radio_face os s fd"
proof -
  have "map_option fc_kind (find_key fc_fd fd (l_heap s')) = map_option fc_kind (find_key fc_fd fd (l_heap s))"
    using assms by (simp add: same_sending_def)
  then show ?thesis
    by (cases "find_key fc_fd fd (l_heap s)"; cases "find_key fc_fd fd (l_heap s')") (simp_all add: radio_face_def)
qed

lemma ready_face_cong: "same_sending s s' \<Longrightarrow> ready_face os s' p fd = ready_face os s p fd"
  by (simp add: ready_face_def plain_face_cong radio_face_cong)

lemma ready_face_same [simp]:
  "ready_face os (s\<lparr>l_sent := x\<rparr>) p fd = ready_face os s p fd" "ready_face os (s\<lparr>l_pit := t\<rparr>) p fd = ready_face os s p fd"
  "ready_face os (s\<lparr>l_contentStore := c\<rparr>) p fd = ready_face os s p fd" "ready_face os (mod_pit n g s) p fd = ready_face os s p fd"
  by (simp_all add: ready_face_def radio_face_def mod_pit_def)

lemma free_face_same [simp]:
  "free_face now (s\<lparr>l_sent := x\<rparr>) fd = free_face now s fd" "free_face now (s\<lparr>l_pit := t\<rparr>) fd = free_face now s fd"
  "free_face now (s\<lparr>l_contentStore := c\<rparr>) fd = free_face now s fd" "free_face now (mod_pit n g s) fd = free_face now s fd"
  by (simp_all add: free_face_def mod_pit_def)

lemma same_heap_sending: "same_heap s s' \<Longrightarrow> same_sending s s'"
proof -
  have k: "map_option fc_kind (find_key fc_fd fd xs) = map_option snd (find_key fst fd (map (\<lambda>f. (fc_fd f, fc_kind f)) xs))" for fd xs
    by (induction xs) simp_all
  assume "same_heap s s'"
  then show ?thesis by (simp add: same_heap_def same_sending_def k)
qed

lemma below_limit_free:
  assumes "free_face now s fd"
  shows "\<exists>heap. below_limit now fd s = Inr (s\<lparr>l_heap := heap\<rparr>, True) \<and> same_sending s (s\<lparr>l_heap := heap\<rparr>) \<and>
    (\<forall>k. k \<noteq> fd \<longrightarrow> free_face now (s\<lparr>l_heap := heap\<rparr>) k = free_face now s k)"
proof -
  obtain f where f: "find_key fc_fd fd (l_heap s) = Some f" "snd (IsBelowLimit now f)"
    using assms by (auto simp: free_face_def split: option.splits)
  let ?heap = "modify_key fc_fd fd (\<lambda>f. fst (IsBelowLimit now f)) (l_heap s)"
  have "below_limit now fd s = Inr (s\<lparr>l_heap := ?heap\<rparr>, True)" using f by (simp add: below_limit_def face_at_def)
  with below_limit_result [OF this] show ?thesis by (intro exI [of _ ?heap]) (auto simp: free_face_def)
qed

text \<open>An Interest whose FIB entry has one face goes to that face, whether it is green or not yet.\<close>

lemma forward_one:
  assumes "ready_face os s p fd" and "free_face now s fd"
  shows "\<exists>s1 s2 x. below_limit now fd s = Inr (s1, True) \<and> l_pit s1 = l_pit s \<and>
    send_on os fd p None (mod_pit n (AddOutgoing now fd) s1) = Inr s2 \<and>
    l_sent s2 = l_sent s @ [x] \<and> s_face x = fd \<and> s_data x = m_data (pk_buffer p) \<and>
    l_pit s2 = pit_modify n (AddOutgoing now fd) (l_pit s) \<and> l_fib s2 = l_fib s \<and> l_faces s2 = l_faces s \<and>
    same_sending s s2 \<and> (\<forall>k. k \<noteq> fd \<longrightarrow> free_face now s2 k = free_face now s k)"
proof -
  obtain heap where h: "below_limit now fd s = Inr (s\<lparr>l_heap := heap\<rparr>, True)" "same_sending s (s\<lparr>l_heap := heap\<rparr>)"
    "\<forall>k. k \<noteq> fd \<longrightarrow> free_face now (s\<lparr>l_heap := heap\<rparr>) k = free_face now s k"
    using below_limit_free [OF assms(2)] by blast
  let ?s = "mod_pit n (AddOutgoing now fd) (s\<lparr>l_heap := heap\<rparr>)"
  have "ready_face os ?s p fd" using ready_face_cong [OF h(2)] assms(1) by simp
  then obtain x where x: "send_on os fd p None ?s = Inr (?s\<lparr>l_sent := l_sent ?s @ [x]\<rparr>)" "s_face x = fd"
    "s_data x = m_data (pk_buffer p)" using send_ready by blast
  show ?thesis
    by (rule exI [of _ "s\<lparr>l_heap := heap\<rparr>"], rule exI [of _ "?s\<lparr>l_sent := l_sent ?s @ [x]\<rparr>"], rule exI [of _ x])
      (use h x in \<open>simp add: mod_pit_def same_sending_def free_face_def\<close>)
qed

lemma propagate_single:
  assumes "pit_find (l_pit s) n = Some e" and "pe_fibEntry e = Some a" and "fib_at a s = Inr fe" and "fe_faces fe = [m]"
    and "fm_face m = fd" and "fm_status m \<noteq> NDN_FIB_RED"
    and "find_key in_face fd (pe_incoming e) = None" and "find_key out_face fd (pe_outgoing e) = None"
    and "ready_face os s p fd" and "free_face now s fd"
  shows "\<exists>s' x. PropagateInterest os now n p s = Inr (s', True) \<and> l_sent s' = l_sent s @ [x] \<and> s_face x = fd \<and>
    s_data x = m_data (pk_buffer p) \<and> l_pit s' = pit_modify n (AddOutgoing now fd) (l_pit s)"
proof -
  have entry: "entry_at n s = Inr e" using assms(1) by (simp add: entry_at_def)
  obtain s1 s2 x where f: "below_limit now fd s = Inr (s1, True)" "send_on os fd p None (mod_pit n (AddOutgoing now fd) s1) = Inr s2"
    "l_sent s2 = l_sent s @ [x]" "s_face x = fd" "s_data x = m_data (pk_buffer p)" "l_pit s2 = pit_modify n (AddOutgoing now fd) (l_pit s)"
    using forward_one [OF assms(9,10), of n] by blast
  have "PropagateInterest os now n p s = Inr (s2, True)"
    using entry assms(2-8) f(1,2)
    by (cases "fm_status m") (simp_all add: PropagateInterest_def PropagateInterestViaGreen_def flood_faces_def)
  with f(3-6) show ?thesis by blast
qed

text \<open>Without a FIB entry it goes to both faces of a daemon that has two.\<close>

lemma propagate_both:
  assumes "pit_find (l_pit s) n = Some e" and "pe_fibEntry e = None" and "l_faces s = [a, b]" and "a \<noteq> b"
    and "ready_face os s p a" and "free_face now s a" and "ready_face os s p b" and "free_face now s b"
  shows "\<exists>s' x y. PropagateInterest os now n p s = Inr (s', True) \<and> l_sent s' = l_sent s @ [x, y] \<and>
    s_face x = a \<and> s_data x = m_data (pk_buffer p) \<and> s_face y = b \<and> s_data y = m_data (pk_buffer p) \<and>
    l_pit s' = pit_modify n (AddOutgoing now b) (pit_modify n (AddOutgoing now a) (l_pit s))"
proof -
  have entry: "entry_at n s = Inr e" using assms(1) by (simp add: entry_at_def)
  obtain s1 s2 x where f: "below_limit now a s = Inr (s1, True)" "send_on os a p None (mod_pit n (AddOutgoing now a) s1) = Inr s2"
    "l_sent s2 = l_sent s @ [x]" "s_face x = a" "s_data x = m_data (pk_buffer p)" "l_pit s2 = pit_modify n (AddOutgoing now a) (l_pit s)"
    "same_sending s s2" "\<forall>k. k \<noteq> a \<longrightarrow> free_face now s2 k = free_face now s k"
    using forward_one [OF assms(5,6), of n] by blast
  have "ready_face os s2 p b" "free_face now s2 b" using ready_face_cong [OF f(7)] f(8) assms(4,7,8) by simp_all
  then obtain s3 s4 y where g: "below_limit now b s2 = Inr (s3, True)" "send_on os b p None (mod_pit n (AddOutgoing now b) s3) = Inr s4"
    "l_sent s4 = l_sent s2 @ [y]" "s_face y = b" "s_data y = m_data (pk_buffer p)" "l_pit s4 = pit_modify n (AddOutgoing now b) (l_pit s2)"
    using forward_one [of os s2 p b now n] by blast
  have "PropagateInterest os now n p s = Inr (s4, True)"
    using entry assms(2,3) f(1,2) g(1,2)
    by (simp add: PropagateInterest_def PropagateInterestViaGreen_def flood_faces_def)
  with f g show ?thesis by (intro exI [of _ s4] exI [of _ x] exI [of _ y]) simp
qed

section \<open>An Interest and its answer\<close>

lemma interest_recorded:
  assumes inv: "l3_inv s" and h: "ih_name h = Some n" and p: "\<forall>ip port. pk_llmetadata p \<noteq> Some (OverIP ip port)" "pk_llmetadata p \<noteq> Some FreedMetadata"
    and pit: "pit_LongestPrefixMatch n (l_pit s) = None" and cs: "cs_Lookup h (l_contentStore s) = Inr (c, None)"
  shows "\<exists>s3 e. (\<forall>s'. PropagateInterest os now n p s3 = Inr (s', True) \<longrightarrow> OnInterest os now cf h p s = Inr s') \<and>
    pit_find (l_pit s3) n = Some e \<and> pe_fibEntry e = map_option fe_addr (fib_LongestPrefixMatch n (l_fib s)) \<and>
    map in_face (pe_incoming e) = [cf] \<and> pe_outgoing e = [] \<and> l_heap s3 = l_heap s \<and> l_fib s3 = l_fib s \<and>
    l_faces s3 = l_faces s \<and> l_sent s3 = l_sent s"
proof -
  have tables: "pit_inv (l_pit s)" using inv by (simp add: l3_inv_def)
  have none: "pit_find (l_pit s) n = None"
    using pits.lpm_None_iff [OF tables, of n] pit pit_find_entry [of "l_pit s" n]
    by (cases "pit_find (l_pit s) n") (auto simp: pit_LongestPrefixMatch_def)
  let ?fib = "map_option fe_addr (fib_LongestPrefixMatch n (l_fib s))"
  define lt where "lt = (if ih_interestLifetime h = 0 then p_defaultLifetime (l_pit s) else ih_interestLifetime h)"
  define e0 where "e0 = AddSeenNonce (ih_nonce h) (NDNPitEntry now n lt ?fib)"
  define t0 where "t0 = pit_modify n (AddSeenNonce (ih_nonce h)) (pit_insert (NDNPitEntry now n lt ?fib) (l_pit s))"
  have look: "pit_LookupInterest now (l_fib s) h (l_pit s) = Inr (t0, n, True, False, True)"
    by (simp add: pit_LookupInterest_def ih_GetName_def h pit lt_def t0_def Let_def)
  have e0: "pit_find t0 n = Some e0"
    unfolding t0_def e0_def by (simp add: pit_find_modify pe_ops pit_find_insert NDNPitEntry_def none)
  let ?s1 = "s\<lparr>l_pit := t0\<rparr>"
  let ?s2 = "mod_pit n (UpdateLifetime now (ih_interestLifetime h)) (mod_pit n (AddIncoming now cf) ?s1)"
  let ?s3 = "?s2\<lparr>l_contentStore := c\<rparr>"
  define e where "e = UpdateLifetime now (ih_interestLifetime h) (AddIncoming now cf e0)"
  have update: "updatePITForInterest now n cf h ?s1 = Inr (?s2, False)"
    using e0 by (simp add: updatePITForInterest_def entry_at_def e0_def pe_ops NDNPitEntry_def)
  have source: "record_source False n p ?s1 = Inr (?s1, p)"
    using p by (auto simp: record_source_def split: option.splits ll_metadata.splits)
  have e: "pit_find (l_pit ?s3) n = Some e"
    using e0 by (simp add: mod_pit_def pit_find_modify pe_ops e_def)
  have fields: "pe_fibEntry e = ?fib" "map in_face (pe_incoming e) = [cf]" "pe_outgoing e = []"
    by (simp_all add: e_def e0_def pe_ops NDNPitEntry_def insert_unique_def NDNPitEntryIncomingFace_def)
  have "OnInterest os now cf h p s = Inr s'" if "PropagateInterest os now n p ?s3 = Inr (s', True)" for s'
    using look source update cs that
    by (simp add: OnInterest_def checkContentStoreForInterest_def mod_pit_def)
  then show ?thesis using e fields by (intro exI [of _ ?s3] exI [of _ e]) (simp add: mod_pit_def)
qed

lemma interest_out:
  assumes inv: "l3_inv s" and h: "ih_name h = Some n" and p: "packet_ok s p" "\<forall>ip port. pk_llmetadata p \<noteq> Some (OverIP ip port)" and cf: "cf \<in> fds s"
    and pit: "pit_LongestPrefixMatch n (l_pit s) = None" and cs: "cs_Lookup h (l_contentStore s) = Inr (c, None)"
    and fib: "fib_LongestPrefixMatch n (l_fib s) = Some fe" "fe_faces fe = [m]" "fm_face m = pf" "fm_status m \<noteq> NDN_FIB_RED"
    and pf: "pf \<noteq> cf" "ready_face os s p pf" "free_face now s pf"
  shows "\<exists>s' x e. OnInterest os now cf h p s = Inr s' \<and> l_sent s' = l_sent s @ [x] \<and> s_face x = pf \<and>
    s_data x = m_data (pk_buffer p) \<and> pit_find (l_pit s') n = Some e \<and> map in_face (pe_incoming e) = [cf] \<and>
    find_key out_face pf (pe_outgoing e) \<noteq> None \<and> l3_inv s' \<and> same_heap s s'"
proof -
  have tables: "fib_inv (l_fib s)" using inv by (simp add: l3_inv_def)
  have freed: "pk_llmetadata p \<noteq> Some FreedMetadata" using p(1) by (simp add: packet_ok_def)
  obtain s3 e where r: "\<forall>s'. PropagateInterest os now n p s3 = Inr (s', True) \<longrightarrow> OnInterest os now cf h p s = Inr s'"
    and e: "pit_find (l_pit s3) n = Some e" "pe_fibEntry e = Some (fe_addr fe)" "map in_face (pe_incoming e) = [cf]" "pe_outgoing e = []"
    and s3: "l_heap s3 = l_heap s" "l_fib s3 = l_fib s" "l_sent s3 = l_sent s"
    using interest_recorded [OF inv h p(2) freed pit cs, of os now cf] fib(1) by auto
  have fe: "fe \<in> set (f_entries (l_fib s))"
    using fibs.lpm_sound(1) [of "l_fib s" n fe] fib(1) by (simp add: fib_LongestPrefixMatch_def)
  then have at: "fib_at (fe_addr fe) s3 = Inr fe"
    using find_key_in [of fe_addr "f_entries (l_fib s)" fe] tables s3(2) by (simp add: fib_at_def fib_inv_def)
  have in_pf: "find_key in_face pf (pe_incoming e) = None"
    using e(3) pf(1) by (auto simp: find_key_None simp flip: set_map)
  have out_pf: "find_key out_face pf (pe_outgoing e) = None" by (simp add: e(4))
  have ready: "ready_face os s3 p pf" "free_face now s3 pf"
    using pf s3(1) by (simp_all add: ready_face_def plain_face_def radio_face_def free_face_def)
  obtain s' x where g: "PropagateInterest os now n p s3 = Inr (s', True)" "l_sent s' = l_sent s3 @ [x]" "s_face x = pf"
    "s_data x = m_data (pk_buffer p)" "l_pit s' = pit_modify n (AddOutgoing now pf) (l_pit s3)"
    using propagate_single [OF e(1,2) at fib(2-4) in_pf out_pf ready] by blast
  have run: "OnInterest os now cf h p s = Inr s'" using r g(1) by blast
  have out: "pit_find (l_pit s') n = Some (AddOutgoing now pf e)" using g(5) e(1) by (simp add: pit_find_modify pe_ops split: option.splits)
  have added: "map in_face (pe_incoming (AddOutgoing now pf e)) = [cf]" "find_key out_face pf (pe_outgoing (AddOutgoing now pf e)) \<noteq> None"
    using e(3,4) by (simp_all add: AddOutgoing_def insert_unique_def NDNPitEntryOutgoingFace_def)
  have "post UNIV (\<lambda>s'. l3_inv s' \<and> same_heap s s') (OnInterest os now cf h p s)"
    by (rule post_OnInterest [OF inv h _ p(1) cf]) simp
  then have "l3_inv s' \<and> same_heap s s'" by (simp add: run)
  then show ?thesis
    by (intro exI [of _ s'] exI [of _ x] exI [of _ "AddOutgoing now pf e"] conjI) (use run g(2-4) s3(3) out added in simp_all)
qed

text \<open>The first Interest for a name without a route, in a daemon with two faces.\<close>

lemma interest_flooded:
  assumes inv: "l3_inv s" and h: "ih_name h = Some n" and p: "packet_ok s p" "\<forall>ip port. pk_llmetadata p \<noteq> Some (OverIP ip port)" and cf: "cf \<in> fds s"
    and pit: "pit_LongestPrefixMatch n (l_pit s) = None" and cs: "cs_Lookup h (l_contentStore s) = Inr (c, None)"
    and fib: "fib_LongestPrefixMatch n (l_fib s) = None" and two: "l_faces s = [a, b]" "a \<noteq> b"
    and ready: "ready_face os s p a" "free_face now s a" "ready_face os s p b" "free_face now s b"
  shows "\<exists>s' x y e. OnInterest os now cf h p s = Inr s' \<and> l_sent s' = l_sent s @ [x, y] \<and>
    s_face x = a \<and> s_data x = m_data (pk_buffer p) \<and> s_face y = b \<and> s_data y = m_data (pk_buffer p) \<and>
    pit_find (l_pit s') n = Some e \<and> map in_face (pe_incoming e) = [cf] \<and>
    find_key out_face a (pe_outgoing e) \<noteq> None \<and> l3_inv s' \<and> same_heap s s'"
proof -
  have freed: "pk_llmetadata p \<noteq> Some FreedMetadata" using p(1) by (simp add: packet_ok_def)
  obtain s3 e where r: "\<forall>s'. PropagateInterest os now n p s3 = Inr (s', True) \<longrightarrow> OnInterest os now cf h p s = Inr s'"
    and e: "pit_find (l_pit s3) n = Some e" "pe_fibEntry e = None" "map in_face (pe_incoming e) = [cf]" "pe_outgoing e = []"
    and s3: "l_heap s3 = l_heap s" "l_sent s3 = l_sent s" "l_faces s3 = l_faces s"
    using interest_recorded [OF inv h p(2) freed pit cs, of os now cf] fib by auto
  have ready3: "ready_face os s3 p k = ready_face os s p k" "free_face now s3 k = free_face now s k" for k
    using s3(1) by (simp_all add: ready_face_def plain_face_def radio_face_def free_face_def)
  have two3: "l_faces s3 = [a, b]" using s3(3) two(1) by simp
  obtain s' x y where g: "PropagateInterest os now n p s3 = Inr (s', True)" "l_sent s' = l_sent s3 @ [x, y]" "s_face x = a"
    "s_data x = m_data (pk_buffer p)" "s_face y = b" "s_data y = m_data (pk_buffer p)"
    "l_pit s' = pit_modify n (AddOutgoing now b) (pit_modify n (AddOutgoing now a) (l_pit s3))"
    using propagate_both [OF e(1,2) two3 two(2), of os p now] ready ready3 by blast
  have run: "OnInterest os now cf h p s = Inr s'" using r g(1) by blast
  let ?e = "AddOutgoing now b (AddOutgoing now a e)"
  have out: "pit_find (l_pit s') n = Some ?e" using g(7) e(1) by (simp add: pit_find_modify pe_ops split: option.splits)
  have added: "map in_face (pe_incoming ?e) = [cf]" "find_key out_face a (pe_outgoing ?e) \<noteq> None"
    using e(3,4) two(2) by (simp_all add: AddOutgoing_def insert_unique_def NDNPitEntryOutgoingFace_def)
  have "post UNIV (\<lambda>s'. l3_inv s' \<and> same_heap s s') (OnInterest os now cf h p s)"
    by (rule post_OnInterest [OF inv h _ p(1) cf]) simp
  then have "l3_inv s' \<and> same_heap s s'" by (simp add: run)
  then show ?thesis
    by (intro exI [of _ s'] exI [of _ x] exI [of _ y] exI [of _ ?e] conjI) (use run g(2-6) s3(2) out added in simp_all)
qed

text \<open>The content that comes back goes to the face that asked.\<close>

lemma content_back:
  assumes inv: "l3_inv s" and h: "ch_name h = Some n" and p: "packet_ok s p"
    and e: "pit_find (l_pit s) n = Some e" "map in_face (pe_incoming e) = [cf]" "find_key out_face pf (pe_outgoing e) \<noteq> None"
    and cf: "\<And>p'. free_metadata p = Inr p' \<Longrightarrow> ready_face os s p' cf"
  shows "\<exists>s' x. OnData os pf h p s = Inr s' \<and> l_sent s' = l_sent s @ [x] \<and> s_face x = cf \<and>
    s_data x = m_data (pk_buffer p) \<and> pit_find (l_pit s') n = None \<and>
    trie_lookup (pt_trie (l_contentStore s')) n \<noteq> None \<and> l3_inv s' \<and> same_heap s s'"
proof -
  have "post {} (\<lambda>s'. l3_inv s' \<and> same_heap s s') (OnData os pf h p s)"
    by (rule post_OnData [OF inv _ p]) (simp add: h)
  then obtain s' where s': "OnData os pf h p s = Inr s'" "l3_inv s'" "same_heap s s'" by (cases "OnData os pf h p s") auto
  from OnData_result [OF s'(1) h e(1,3)] obtain p' t c b where
    p': "free_metadata p = Inr p'" "pk_buffer p' = pk_buffer p" and add: "cs_Add h p' (l_contentStore s) = Inr (c, b)"
    and eq: "s' = s\<lparr>l_sent := l_sent s @ concat (map (\<lambda>i. delivered os s (in_face i) p' (pe_sourceMetadata e)) (pe_incoming e)),
           l_pit := pit_Remove n (l_pit s), l_fib := t, l_contentStore := c\<rparr>" by blast
  obtain x where x: "delivered os s cf p' (pe_sourceMetadata e) = [x]" "s_face x = cf" "s_data x = m_data (pk_buffer p')"
    using send_ready [OF cf [OF p'(1)], of "pe_sourceMetadata e"] by blast
  then have "s_data x = m_data (pk_buffer p)" using p'(2) by simp
  moreover have "concat (map (\<lambda>i. delivered os s (in_face i) p' (pe_sourceMetadata e)) (pe_incoming e)) = [x]"
    using e(2) x(1) by (auto simp: map_eq_Cons_conv)
  moreover have "trie_lookup (pt_trie c) n \<noteq> None"
    using cs_Add_contains [OF _ add h] inv by (simp add: l3_inv_def split: option.splits)
  ultimately show ?thesis
    by (intro exI [of _ s'] exI [of _ x] conjI) (use s' x(2) in \<open>simp_all add: eq pit_find_Remove\<close>)
qed

text \<open>What the two reads of the daemon do, from byte to byte.\<close>

lemma round_trip:
  assumes inv: "l3_inv s" and faces: "plain_face os s cf" "plain_face os s pf" "pf \<noteq> cf" "free_face now s pf"
    and name: "encodable_name n" "name_room n + 70 \<le> BUFLEN" "name_room n + 30 + length content \<le> BUFLEN" "content \<noteq> []"
    and msgs: "SendPacket childSelector rnd n = Inr request" "sendContent n content = Inr reply"
    and short: "no_adhoc s \<or> name_room n + 70 + length content \<le> MAXLLSIZE"
    and tables: "pit_LongestPrefixMatch n (l_pit s) = None"
      "cs_Lookup (consumer_header childSelector rnd n) (l_contentStore s) = Inr (c, None)"
      "fib_LongestPrefixMatch n (l_fib s) = Some fe" "fe_faces fe = [m]" "fm_face m = pf" "fm_status m \<noteq> NDN_FIB_RED"
  shows "\<exists>s1 s2 x y. readHandler os now cf (Some request) s = Inr (s1, False) \<and> l_sent s1 = l_sent s @ [x] \<and>
    s_face x = pf \<and> s_data x = request \<and> producer_read (Some request) = Inr (Received n) \<and>
    readHandler os later pf (Some reply) s1 = Inr (s2, False) \<and> l_sent s2 = l_sent s1 @ [y] \<and>
    s_face y = cf \<and> s_data y = reply \<and> consumer_read (Some reply) = Inr (Received (content, n)) \<and>
    pit_find (l_pit s2) n = None \<and> trie_lookup (pt_trie (l_contentStore s2)) n \<noteq> None \<and> l3_inv s2 \<and> same_heap s s2"
proof -
  let ?h = "consumer_header childSelector rnd n"
  obtain p where p: "request \<noteq> []" "length request \<le> name_room n + 70" "InitFromBuffer request = Inr p" "GetNDNHeaderType p = Inr INTEREST" "GetInterestHeader p = Inr ?h"
    using interest_wire [OF name(1,2), of childSelector rnd] msgs(1) by auto
  obtain q where q: "reply \<noteq> []" "length reply \<le> name_room n + 30 + length content" "InitFromBuffer reply = Inr q" "GetNDNHeaderType q = Inr CONTENT_OBJECT"
    "GetContentHeader q = Inr \<lparr>ch_name = Some n\<rparr>" "consumer_read (Some reply) = Inr (Received (content, n))"
    using content_wire [OF name(1,3,4)] msgs(2) by auto
  note pm = InitFromBuffer_meta [OF p(3)] and qm = InitFromBuffer_meta [OF q(3)]
  have pok: "packet_ok s p" and qok: "packet_ok s q" using pm qm short p(2) q(2) by (auto simp: packet_ok_def)
  have h: "ih_name ?h = Some n" "ih_nackType ?h = NORMAL_INTEREST"
    by (simp_all add: consumer_header_def InterestHeader_new_def)
  have cf: "cf \<in> fds s" using faces(1) find_key_SomeD [of fc_fd cf "l_heap s"] by (fastforce simp: plain_face_def fds_def)
  obtain s1 x e where r1: "OnInterest os now cf ?h p s = Inr s1" "l_sent s1 = l_sent s @ [x]" "s_face x = pf"
    "s_data x = m_data (pk_buffer p)" "pit_find (l_pit s1) n = Some e" "map in_face (pe_incoming e) = [cf]"
    "find_key out_face pf (pe_outgoing e) \<noteq> None" "l3_inv s1" "same_heap s s1"
    using interest_out [OF inv h(1) pok _ cf tables faces(3) _ faces(4), of os] pm faces(2) by (auto simp: ready_face_def)
  have plain1: "plain_face os s1 cf" using plain_face_cong [OF same_heap_sending [OF r1(9)]] faces(1) by simp
  have qok1: "packet_ok s1 q" using qok same_heapD(4) [OF r1(9)] by simp
  have ch: "ch_name \<lparr>ch_name = Some n\<rparr> = Some n" by simp
  obtain s2 y where r2: "OnData os pf \<lparr>ch_name = Some n\<rparr> q s1 = Inr s2" "l_sent s2 = l_sent s1 @ [y]" "s_face y = cf"
    "s_data y = m_data (pk_buffer q)" "pit_find (l_pit s2) n = None" "trie_lookup (pt_trie (l_contentStore s2)) n \<noteq> None"
    "l3_inv s2" "same_heap s1 s2"
    using content_back [OF r1(8) ch qok1 r1(5-7), of os] plain1 by (auto simp: ready_face_def)
  have size: "Packet_GetSize p = length request" "Packet_GetSize q = length reply"
    using pm qm by (simp_all add: Packet_GetSize_def buffer_size_def)
  have go1: "readHandler os now cf (Some request) s = Inr (s1, False)"
    using p h(2) r1(1) size by (simp add: readHandler_def l3_Receive_def NORMAL_INTEREST_def)
  have go2: "readHandler os later pf (Some reply) s1 = Inr (s2, False)"
    using q r2(1) size by (simp add: readHandler_def l3_Receive_def)
  have prod: "producer_read (Some request) = Inr (Received n)"
    using interest_message [OF name(1,2), of childSelector rnd] msgs(1) by simp
  show ?thesis
    by (intro exI [of _ s1] exI [of _ s2] exI [of _ x] exI [of _ y] conjI)
      (use go1 go2 prod r1(2-4) r2(2-7) pm qm q(6) same_heap_trans [OF r1(9) r2(8)] in simp_all)
qed

section \<open>A registered service\<close>

lemma GetFace_known:
  assumes "fd \<in> set (l_faces s)" and "0 \<le> fd" and "fd < 2 ^ 31"
  shows "GetFace (of_int fd) s = Some fd"
proof -
  have "sint (of_int fd :: u32) = fd" using assms(2,3) by (rule wrapped_time)
  moreover have "find (\<lambda>x. x = fd) xs = Some fd" if "fd \<in> set xs" for xs using that by (induction xs) auto
  ultimately show ?thesis using assms(1) by (simp add: GetFace_def)
qed

lemma registered:
  assumes "GetFace face_fd s = Some pf" and "\<forall>c \<in> set pfx. wf_component c"
  shows "management_message (registerName pfx face_fd) s = Inr (s\<lparr>l_fib := fib_Add pfx pf LOCAL_FACE_METRIC (l_fib s)\<rparr>)"
proof -
  have "parse_name (print_name pfx) = pfx" using parse_print_name assms(2) by blast
  with assms(1) show ?thesis
    by (simp add: management_message_def prefixRegistration_def registerName_def compares_null_def face_pointer_def)
qed

text \<open>A prefix that is given back has no route to the face any more, and only that one goes.\<close>

lemma deregistered:
  assumes "GetFace face_fd s = Some pf" and "\<forall>c \<in> set pfx. wf_component c"
  shows "\<exists>t. management_message (deregisterName pfx face_fd) s = Inr (s\<lparr>l_fib := t\<rparr>) \<and>
    (\<forall>n k. route t n k = (if n = pfx \<and> k = pf then None else route (l_fib s) n k))"
proof -
  have "parse_name (print_name pfx) = pfx" using parse_print_name assms(2) by blast
  with assms(1) show ?thesis
    by (intro exI [of _ "removed pfx pf (l_fib s)"])
      (simp add: management_message_def prefixRegistration_def deregisterName_def compares_null_def face_pointer_def
        fib_RemovePrefix_eq route_removed)
qed

text \<open>After the registration of the only matching prefix, its face is the only next hop.\<close>

lemma registered_route:
  assumes inv: "l3_inv s" and reg: "pf \<in> set (l_faces s)" "0 \<le> pf" "pf < 2 ^ 31" "\<forall>c \<in> set pfx. wf_component c" "prefix pfx n"
    and none: "fib_LongestPrefixMatch n (l_fib s) = None"
  shows "\<exists>t fe m. management_message (registerName pfx (of_int pf)) s = Inr (s\<lparr>l_fib := t\<rparr>) \<and> l3_inv (s\<lparr>l_fib := t\<rparr>) \<and>
    fib_LongestPrefixMatch n t = Some fe \<and> fe_faces fe = [m] \<and> fm_face m = pf \<and> fm_status m \<noteq> NDN_FIB_RED"
proof -
  let ?t = "fib_Add pfx pf LOCAL_FACE_METRIC (l_fib s)" and ?m = "NDNFibFaceMetric pf LOCAL_FACE_METRIC"
    and ?fe = "AddOrUpdateRoutingMetric pf LOCAL_FACE_METRIC (NDNFibEntry (f_next_addr (l_fib s)) pfx)"
  have reg0: "management_message (registerName pfx (of_int pf)) s = Inr (s\<lparr>l_fib := ?t\<rparr>)"
    by (rule registered [OF GetFace_known [OF reg(1-3)] reg(4)])
  have "pf \<in> fds s" using inv reg(1) by (auto simp: l3_inv_def)
  then have inv0: "l3_inv (s\<lparr>l_fib := ?t\<rparr>)" by (rule l3_inv_Add [OF inv])
  have fibs: "fib_inv (l_fib s)" "fib_inv ?t" using inv inv0 by (simp_all add: l3_inv_def)
  have none: "\<forall>e \<in> set (f_entries (l_fib s)). \<not> prefix (fe_prefix e) n"
    using fibs.lpm_None_iff [OF fibs(1), of n] none by (simp add: fib_LongestPrefixMatch_def)
  have "fib_find (l_fib s) pfx = None"
    using none reg(5) fib_find_entry [of "l_fib s" pfx] by (cases "fib_find (l_fib s) pfx") auto
  then have find: "fib_find ?t k = (if k = pfx then Some ?fe else fib_find (l_fib s) k)" for k
    by (simp add: fib_find_Add)
  have only: "e = ?fe" if "e \<in> set (f_entries ?t)" "prefix (fe_prefix e) n" for e
    using fib_find_complete [OF fibs(2) that(1)] find [of "fe_prefix e"] none that(2)
      fib_find_entry [of "l_fib s" "fe_prefix e" e] by (auto split: if_splits)
  have fe: "?fe \<in> set (f_entries ?t)" "fe_prefix ?fe = pfx" using find [of pfx] fib_find_entry by auto
  have "fib_LongestPrefixMatch n ?t = Some ?fe"
  proof (cases "fib_LongestPrefixMatch n ?t")
    case None
    then show ?thesis using fibs.lpm_None_iff [OF fibs(2), of n] fe reg(5) by (auto simp: fib_LongestPrefixMatch_def)
  next
    case (Some e)
    then show ?thesis using only fibs.lpm_sound [of ?t n e] by (simp add: fib_LongestPrefixMatch_def)
  qed
  moreover have "fe_faces ?fe = [?m]"
    by (simp add: AddOrUpdateRoutingMetric_def NDNFibEntry_def link_metric_def)
  moreover have "fm_face ?m = pf" "fm_status ?m \<noteq> NDN_FIB_RED" by (simp_all add: NDNFibFaceMetric_def)
  ultimately show ?thesis using reg0 inv0 by (intro exI [of _ ?t] exI [of _ ?fe] exI [of _ ?m]) simp
qed

text \<open>
  C25: a service that a producer registers for a prefix reaches a consumer through the daemon: when no other entry
  matches the name, neither in the FIB nor in the PIT nor in the content store, the daemon sends the bytes of the Interest
  to the producer's face and nowhere else, the producer reads the name from them, and the bytes of its content go
  to the consumer's face and nowhere else, which reads the content under that name; afterwards nothing is
  pending under the name, the content is stored, and the invariant of the daemon holds.\<close>

theorem request_answered:
  assumes "l3_inv s" and "plain_face os s cf" "plain_face os s pf" "pf \<noteq> cf" "free_face now s pf"
    and "pf \<in> set (l_faces s)" "0 \<le> pf" "pf < 2 ^ 31" "\<forall>c \<in> set pfx. wf_component c" "prefix pfx n"
    and "fib_LongestPrefixMatch n (l_fib s) = None" "pit_LongestPrefixMatch n (l_pit s) = None"
      "cs_Lookup (consumer_header childSelector rnd n) (l_contentStore s) = Inr (c, None)"
    and "encodable_name n" "name_room n + 70 + length content \<le> BUFLEN" "content \<noteq> []"
      "no_adhoc s \<or> name_room n + 70 + length content \<le> MAXLLSIZE"
    and "SendPacket childSelector rnd n = Inr request" "sendContent n content = Inr reply"
  shows "\<exists>s0 s1 s2 x y. management_message (registerName pfx (of_int pf)) s = Inr s0 \<and>
    readHandler os now cf (Some request) s0 = Inr (s1, False) \<and> l_sent s1 = l_sent s @ [x] \<and>
    s_face x = pf \<and> s_data x = request \<and> producer_read (Some request) = Inr (Received n) \<and>
    readHandler os later pf (Some reply) s1 = Inr (s2, False) \<and> l_sent s2 = l_sent s1 @ [y] \<and>
    s_face y = cf \<and> s_data y = reply \<and> consumer_read (Some reply) = Inr (Received (content, n)) \<and>
    pit_find (l_pit s2) n = None \<and> trie_lookup (pt_trie (l_contentStore s2)) n \<noteq> None \<and> l3_inv s2"
proof -
  obtain t fe m where r: "management_message (registerName pfx (of_int pf)) s = Inr (s\<lparr>l_fib := t\<rparr>)" "l3_inv (s\<lparr>l_fib := t\<rparr>)"
    "fib_LongestPrefixMatch n t = Some fe" "fe_faces fe = [m]" "fm_face m = pf" "fm_status m \<noteq> NDN_FIB_RED"
    using registered_route [OF assms(1,6-11)] by blast
  let ?s = "s\<lparr>l_fib := t\<rparr>"
  have s: "plain_face os ?s cf" "plain_face os ?s pf" "free_face now ?s pf" "pit_LongestPrefixMatch n (l_pit ?s) = None"
    "cs_Lookup (consumer_header childSelector rnd n) (l_contentStore ?s) = Inr (c, None)"
    "fib_LongestPrefixMatch n (l_fib ?s) = Some fe" "no_adhoc ?s \<or> name_room n + 70 + length content \<le> MAXLLSIZE"
    using assms r(3) by (simp_all add: free_face_def no_adhoc_def)
  have room: "name_room n + 70 \<le> BUFLEN" "name_room n + 30 + length content \<le> BUFLEN" using assms(15) by simp_all
  obtain s1 s2 x y where "readHandler os now cf (Some request) ?s = Inr (s1, False)" "l_sent s1 = l_sent ?s @ [x]"
    "s_face x = pf" "s_data x = request" "producer_read (Some request) = Inr (Received n)"
    "readHandler os later pf (Some reply) s1 = Inr (s2, False)" "l_sent s2 = l_sent s1 @ [y]" "s_face y = cf" "s_data y = reply"
    "consumer_read (Some reply) = Inr (Received (content, n))" "pit_find (l_pit s2) n = None"
    "trie_lookup (pt_trie (l_contentStore s2)) n \<noteq> None" "l3_inv s2" "same_heap ?s s2"
    using round_trip [where later = later, OF r(2) s(1,2) assms(4) s(3) assms(14) room assms(16,18,19) s(7) s(4-6) r(4-6)] by (elim exE conjE)
  then show ?thesis
    by (intro exI [of _ ?s] exI [of _ s1] exI [of _ s2] exI [of _ x] exI [of _ y] conjI) (use r(1) in simp_all)
qed

section \<open>The traffic service from the start of the daemon\<close>

lemma empty_store:
  assumes "ih_name h = Some n" and "n \<noteq> []"
  shows "cs_Lookup h policy_trie_new = Inr (policy_trie_new, None)"
proof -
  have "tries.stored (pt_trie (policy_trie_new :: content_store)) = {}" by (simp add: policy_trie_new_def tries.stored_def dom_def)
  then have "pt_deepest_prefix_match n (policy_trie_new :: content_store) = Inr (policy_trie_new, None)"
    by (intro deepest_match_cases(1) [OF pt_inv_new assms(2) refl]) simp
  with assms(1) show ?thesis by (simp add: cs_Lookup_def ih_GetName_def)
qed

lemma boot_sent: "l_sent (boot devices) = []"
proof -
  have "l_sent (fold (\<lambda>f s. fst (AddFace f s)) fs s) = l_sent s" for fs s
    by (induction fs arbitrary: s) (simp_all add: AddFace_def)
  then show ?thesis by (simp add: boot_def NDNL3Protocol_def)
qed

lemma connect_boot: "fst (AddFace f (boot devices)) = boot (devices @ [f])"
  by (simp add: boot_def)

lemma connected_plain:
  assumes "distinct (map fc_fd fs)" "NDNFace LocalFace fd \<in> set fs" "os fd Connected"
  shows "plain_face os (boot fs) fd \<and> free_face now (boot fs) fd"
proof -
  have "find_key fc_fd fd (l_heap (boot fs)) = Some (NDNFace LocalFace fd)"
    using find_key_in [OF assms(1,2)] boot_heap [OF assms(1)] by (simp add: NDNFace_def)
  then show ?thesis
    using assms(3) by (simp_all add: plain_face_def free_face_def NDNFace_def IsBelowLimit_def LeakBucket_def Let_def)
qed

text \<open>
  C26: the traffic service as a whole: to a daemon that has just started with any device faces a producer and a
  consumer connect, the producer registers its prefix, and the consumer sends its request. The daemon sends exactly two messages:
  the request to the producer, and the answer to the consumer, which prints the entry of the producer's table
  and goes on to its next request.\<close>

theorem traffic_service:
  assumes "distinct (map fc_fd devices @ [pf, cf])" "0 \<le> pf" "pf < 2 ^ 31" "os pf Connected" "os cf Connected"
    and "3600 \<le> now" "now < 2 ^ 31" "start < 2 ^ 31" "place \<noteq> []" "length place \<le> 64"
    and "getDistance_format parse myC place = Inr distance" "distance \<le> 50"
    and "length speedTable = 100" "\<forall>v \<in> set speedTable. 0 \<le> v \<and> v < 70"
  shows "\<exists>s0 s1 s2 interest content n v x y.
    management_message (registerName [''traffic''] (of_int pf))
      (fst (AddFace (NDNFace LocalFace cf) (fst (AddFace (NDNFace LocalFace pf) (boot devices))))) = Inr s0 \<and>
    traffic_send cs nonce (traffic_request (int now) r place) =
      Inr (Some interest, (traffic_request (int now) r place)\<lparr>tc_numberOfRetransmission := 1\<rparr>) \<and>
    readHandler os asked cf (Some interest) s0 = Inr (s1, False) \<and> s_face x = pf \<and> s_data x = interest \<and>
    producer_read (Some interest) = Inr (Received n) \<and>
    traffic_interest parse myC (startingTimeDiscretized (int start)) speedTable n = Inr (Some (n, bytes_of (show_int v))) \<and>
    v = speedTable ! nat (\<bar>int (now div 60) - int (r mod 60) - int (start div 60)\<bar> mod 100) \<and>
    sendContent n (bytes_of (show_int v)) = Inr content \<and>
    readHandler os replied pf (Some content) s1 = Inr (s2, False) \<and> s_face y = cf \<and> s_data y = content \<and> l_sent s2 = [x, y] \<and>
    traffic_receive now' r' place' (Some content) (traffic_request (int now) r place) =
      Inr (Some (bytes_of (show_int v)), traffic_request now' r' place')"
proof -
  let ?fs = "devices @ [NDNFace LocalFace pf, NDNFace LocalFace cf]" and ?c = "traffic_request (int now) r place"
  let ?s = "boot ?fs"
  have s: "fst (AddFace (NDNFace LocalFace cf) (fst (AddFace (NDNFace LocalFace pf) (boot devices)))) = ?s"
    by (simp add: connect_boot)
  have fds: "distinct (map fc_fd ?fs)" "pf \<noteq> cf" using assms(1) by (simp_all add: NDNFace_def)
  note b = boot_heap [OF fds(1)]
  have inv: "l3_inv ?s" by (rule boot_inv [OF fds(1)])
  have plain: "plain_face os ?s cf" "plain_face os ?s pf" "free_face asked ?s pf"
    using connected_plain [OF fds(1), of cf os] connected_plain [OF fds(1), of pf os] assms(4,5) by simp_all
  obtain n v interest content where tr: "tc_interest ?c = n" "encodable_name n" "name_room n \<le> 150" "n \<noteq> []" "n ! 0 = ''traffic''"
    "length (bytes_of (show_int v)) \<in> {1..2}"
    "v = speedTable ! nat (\<bar>int (now div 60) - int (r mod 60) - int (start div 60)\<bar> mod 100)"
    "traffic_send cs nonce ?c = Inr (Some interest, ?c\<lparr>tc_numberOfRetransmission := 1\<rparr>)"
    "producer_read (Some interest) = Inr (Received n)"
    "traffic_interest parse myC (startingTimeDiscretized (int start)) speedTable n = Inr (Some (n, bytes_of (show_int v)))"
    "sendContent n (bytes_of (show_int v)) = Inr content"
    "traffic_receive now' r' place' (Some content) ?c = Inr (Some (bytes_of (show_int v)), traffic_request now' r' place')"
    using traffic_exchange [OF assms(6-14), of r cs nonce now' r' place'] by (elim exE conjE)
  have sent: "SendPacket cs nonce n = Inr interest"
    using tr(1,8) by (auto simp: traffic_send_def traffic_request_def bindr_eq_Inr)
  have pre: "prefix [''traffic''] n" using tr(4,5) by (cases n) simp_all
  have pf: "pf \<in> set (l_faces ?s)" using b by (simp add: NDNFace_def)
  have wf: "\<forall>c \<in> set [''traffic'']. wf_component c" by code_simp
  have no_fib: "fib_LongestPrefixMatch n (l_fib ?s) = None"
    using fibs.lpm_None_iff [OF fib_new_inv, of n] b by (simp add: fib_LongestPrefixMatch_def NDNFib_def)
  have no_pit: "pit_LongestPrefixMatch n (l_pit ?s) = None"
    using pits.lpm_None_iff [OF pit_new_inv, of n] b by (simp add: pit_LongestPrefixMatch_def NDNPit_def)
  obtain t fe m where reg: "management_message (registerName [''traffic''] (of_int pf)) ?s = Inr (?s\<lparr>l_fib := t\<rparr>)"
    "l3_inv (?s\<lparr>l_fib := t\<rparr>)" "fib_LongestPrefixMatch n t = Some fe" "fe_faces fe = [m]" "fm_face m = pf" "fm_status m \<noteq> NDN_FIB_RED"
    using registered_route [OF inv pf assms(2,3) wf pre no_fib] by (elim exE conjE)
  let ?s0 = "?s\<lparr>l_fib := t\<rparr>"
  have cs0: "cs_Lookup (consumer_header cs nonce n) (l_contentStore ?s0) = Inr (policy_trie_new, None)"
    using empty_store [of "consumer_header cs nonce n" n] tr(4) b by (simp add: consumer_header_def)
  have s0: "plain_face os ?s0 cf" "plain_face os ?s0 pf" "free_face asked ?s0 pf"
    "pit_LongestPrefixMatch n (l_pit ?s0) = None" "fib_LongestPrefixMatch n (l_fib ?s0) = Some fe"
    "no_adhoc ?s0 \<or> name_room n + 70 + length (bytes_of (show_int v)) \<le> MAXLLSIZE"
    using plain no_pit reg(3) tr(3,6) by (simp_all add: free_face_def MAXLLSIZE_def MAXNETWORKPKTSIZE_def LL_HEADER_SIZE_def)
  have room: "name_room n + 70 \<le> BUFLEN" "name_room n + 30 + length (bytes_of (show_int v)) \<le> BUFLEN"
    using tr(3,6) by (simp_all add: BUFLEN_def)
  have some: "bytes_of (show_int v) \<noteq> []" using tr(6) by auto
  obtain s1 s2 x y where go: "readHandler os asked cf (Some interest) ?s0 = Inr (s1, False)" "l_sent s1 = l_sent ?s0 @ [x]"
    "s_face x = pf" "s_data x = interest" "readHandler os replied pf (Some content) s1 = Inr (s2, False)"
    "l_sent s2 = l_sent s1 @ [y]" "s_face y = cf" "s_data y = content"
    using round_trip [where later = replied, OF reg(2) s0(1,2) fds(2) s0(3) tr(2) room some sent tr(11) s0(6,4) cs0 s0(5) reg(4-6)]
    by (elim exE conjE)
  have "l_sent s2 = [x, y]" using go(2,6) boot_sent by simp
  then show ?thesis
    unfolding s using reg(1) tr(7-12) go
    by (intro exI [of _ ?s0] exI [of _ s1] exI [of _ s2] exI [of _ interest] exI [of _ content] exI [of _ n] exI [of _ v]
        exI [of _ x] exI [of _ y] conjI)
qed

section \<open>The hypotheses are satisfiable\<close>

theorem request_answered_witness:
  "\<exists>s0 s1 s2 request reply x y. management_message (registerName [''a''] 4) sample_boot = Inr s0 \<and>
     readHandler sample_os 0 3 (Some request) s0 = Inr (s1, False) \<and> readHandler sample_os 1 4 (Some reply) s1 = Inr (s2, False) \<and>
     l_sent s2 = [x, y] \<and> s_face x = 4 \<and> s_face y = 3 \<and>
     consumer_read (Some reply) = Inr (Received ([1], [''a'', ''b'']))"
proof -
  let ?n = "[''a'', ''b'']" and ?fs = "[NDNFace LocalFace 3, NDNFace LocalFace 4]"
  have d: "distinct (map fc_fd ?fs)" by (simp add: NDNFace_def)
  note b = boot_heap [OF d, folded sample_boot_def]
  have plain: "plain_face sample_os sample_boot 3" "plain_face sample_os sample_boot 4" "free_face 0 sample_boot 4"
    using connected_plain [OF d, of 3 sample_os] connected_plain [OF d, of 4 sample_os]
    by (simp_all add: sample_boot_def sample_os_def)
  have faces: "4 \<in> set (l_faces sample_boot)" using b by (simp add: NDNFace_def)
  have wf: "\<forall>c \<in> set [''a'']. wf_component c" by code_simp
  have tables: "fib_LongestPrefixMatch ?n (l_fib sample_boot) = None" "pit_LongestPrefixMatch ?n (l_pit sample_boot) = None"
    using fibs.lpm_None_iff [OF fib_new_inv, of ?n] pits.lpm_None_iff [OF pit_new_inv, of ?n] b
    by (simp_all add: fib_LongestPrefixMatch_def pit_LongestPrefixMatch_def NDNFib_def NDNPit_def)
  have cs: "cs_Lookup (consumer_header False 7 ?n) (l_contentStore sample_boot) = Inr (policy_trie_new, None)"
    using empty_store [of "consumer_header False 7 ?n" ?n] b by (simp add: consumer_header_def)
  have n: "encodable_name ?n" "name_room ?n + 70 + length [1 :: byte] \<le> BUFLEN" "name_room ?n + 30 + length [1 :: byte] \<le> BUFLEN"
    by (simp_all add: encodable_name_def name_room_def BUFLEN_def)
  have short: "no_adhoc sample_boot \<or> name_room ?n + 70 + length [1 :: byte] \<le> MAXLLSIZE"
    by (simp add: name_room_def MAXLLSIZE_def MAXNETWORKPKTSIZE_def LL_HEADER_SIZE_def)
  have room: "name_room ?n + 70 \<le> BUFLEN" using n(2) by simp
  obtain request where request: "SendPacket False 7 ?n = Inr request" using interest_wire [OF n(1) room] by blast
  obtain reply where reply: "sendContent ?n [1] = Inr reply" using content_wire [OF n(1,3)] by blast
  have pre: "prefix [''a''] ?n" by simp
  have c: "(4 :: face_id) \<noteq> 3" "(0 :: face_id) \<le> 4" "(4 :: face_id) < 2 ^ 31" "[1 :: byte] \<noteq> []" by simp_all
  obtain s0 s1 s2 x y where r: "management_message (registerName [''a''] (of_int 4)) sample_boot = Inr s0"
    "readHandler sample_os 0 3 (Some request) s0 = Inr (s1, False)" "l_sent s1 = l_sent sample_boot @ [x]" "s_face x = 4"
    "readHandler sample_os 1 4 (Some reply) s1 = Inr (s2, False)" "l_sent s2 = l_sent s1 @ [y]" "s_face y = 3"
    "consumer_read (Some reply) = Inr (Received ([1], ?n))"
    using request_answered [where os = sample_os and now = 0 and later = 1, OF sample_boot_inv plain(1,2) c(1) plain(3) faces c(2,3)
        wf pre tables cs n(1,2) c(4) short request reply] by (elim exE conjE)
  have "l_sent s2 = [x, y]" using r(3,6) boot_sent by (simp add: sample_boot_def)
  then show ?thesis
    by (intro exI [of _ s0] exI [of _ s1] exI [of _ s2] exI [of _ request] exI [of _ reply] exI [of _ x] exI [of _ y] conjI)
      (use r in simp_all)
qed

theorem traffic_service_witness:
  "\<exists>s0 s1 s2 interest content x y.
     management_message (registerName [''traffic''] 8)
       (fst (AddFace (NDNFace LocalFace 7) (fst (AddFace (NDNFace LocalFace 8) (boot [NDNFace AdhocNetDeviceFace 5]))))) = Inr s0 \<and>
     readHandler sample_os 0 7 (Some interest) s0 = Inr (s1, False) \<and>
     readHandler sample_os 1 8 (Some content) s1 = Inr (s2, False) \<and>
     l_sent s2 = [x, y] \<and> s_face x = 8 \<and> s_data x = interest \<and> s_face y = 7 \<and> s_data y = content \<and>
     traffic_receive 7300 0 ''46,13'' (Some content) (traffic_request (int 7200) 70 ''46,13'') =
       Inr (Some (bytes_of ''30''), traffic_request 7300 0 ''46,13'')"
proof -
  have s: "\<forall>v \<in> set speeds. 0 \<le> v \<and> v < 70" "length speeds = 100" by (simp_all add: speeds_def)
  have e: "speeds ! 9 = 30" by (simp add: speeds_def)
  have t: "show_int 30 = ''30''" by code_simp
  have d: "distinct (map fc_fd [NDNFace AdhocNetDeviceFace 5] @ [8, 7])" by (simp add: NDNFace_def)
  have c: "(0 :: int) \<le> 8" "(8 :: int) < 2 ^ 31" "sample_os 8 Connected" "sample_os 7 Connected" "(3600 :: nat) \<le> 7200"
    "(7200 :: nat) < 2 ^ 31" "(60 :: nat) < 2 ^ 31" "''46,13'' \<noteq> []" "length ''46,13'' \<le> 64" "(0 :: real) \<le> 50"
    by (simp_all add: sample_os_def)
  obtain s0 s1 s2 interest content n v x y where r: "management_message (registerName [''traffic''] (of_int 8))
       (fst (AddFace (NDNFace LocalFace 7) (fst (AddFace (NDNFace LocalFace 8) (boot [NDNFace AdhocNetDeviceFace 5]))))) = Inr s0"
    "readHandler sample_os 0 7 (Some interest) s0 = Inr (s1, False)" "s_face x = 8" "s_data x = interest"
    "v = speeds ! nat (\<bar>int (7200 div 60) - int (70 mod 60) - int (60 div 60)\<bar> mod 100)"
    "readHandler sample_os 1 8 (Some content) s1 = Inr (s2, False)" "s_face y = 7" "s_data y = content" "l_sent s2 = [x, y]"
    "traffic_receive 7300 0 ''46,13'' (Some content) (traffic_request (int 7200) 70 ''46,13'') =
      Inr (Some (bytes_of (show_int v)), traffic_request 7300 0 ''46,13'')"
    using traffic_service [where os = sample_os and cs = False and nonce = 5 and asked = 0 and replied = 1 and r = 70 and now' = 7300 and r' = 0
        and place' = "''46,13''", OF d c(1-9) city_center c(10) s(2,1)] by (elim exE conjE)
  have "v = 30" using r(5) e by simp
  then show ?thesis
    by (intro exI [of _ s0] exI [of _ s1] exI [of _ s2] exI [of _ interest] exI [of _ content] exI [of _ x] exI [of _ y] conjI)
      (use r t in simp_all)
qed

end
