(* ===== verification/Vehicles.thy ===== *)
theory Vehicles
  imports Service Adapter Overhear
begin

text \<open>
  Two vehicles: an application in one of them asks, an application in the other one answers. The request
  passes the daemon, the adapter, the air, the other adapter and the other daemon, and the content comes
  back the same way.
\<close>

section \<open>Through the adapters\<close>

lemma stored_first:
  assumes "np_storage ps = []" and pkt: "is_interest pkt n nonce \<or> is_content pkt n"
  shows "\<exists>ps' el. addOutgoingPkt pf loc tt rnd pkt None ps = Inr (ps', DISCARD) \<and> np_storage ps' = [el] \<and> np_up ps' = np_up ps \<and>
    el_components el = n \<and> el_retransmission el = 1 \<and> el_data el = setLLHeader loc pkt \<and>
    (is_interest pkt n nonce \<longrightarrow> el_name el = append_components interestKey n)"
proof -
  have store: "\<exists>ps' el. store_outgoing loc tt rnd pkt None c nm n k ps0 = (ps', DISCARD) \<and> np_storage ps' = [el] \<and> np_up ps' = np_up ps0 \<and>
      el_components el = n \<and> el_retransmission el = 1 \<and> el_data el = setLLHeader loc pkt \<and> el_name el = nm"
    if "np_storage ps0 = []" for ps0 c nm k
    using that by (simp add: store_outgoing_def insertPkt_def Let_def new_element_def)
  from pkt show ?thesis
  proof
    assume i: "is_interest pkt n nonce"
    show ?thesis
      unfolding outgoing_interest [OF i]
      using store [of "ps\<lparr>np_stats := increaseSendingOutInterestRequest (np_stats ps)\<rparr>" False "append_components interestKey n" nonce] assms(1)
      by auto
  next
    assume c: "is_content pkt n"
    have "\<not> is_interest pkt n nonce" using is_contentD [OF c] is_interestD [of pkt n nonce] by auto
    moreover have "searchByPrefixMatch n [] = Inr []" using search_found [OF storage_inv_new, of n] by (auto simp: PacketStorage_def)
    ultimately show ?thesis
      unfolding outgoing_content [OF c] assms(1)
      using store [of "ps\<lparr>np_stats := increaseSendingOutContentRequest (np_stats ps), np_storage := []\<rparr>" True "append_components dataKey n" "-1"]
      by auto
  qed
qed

lemma handed_over:
  assumes inv: "adapter_inv pf pkts ad" and none: "np_storage (ad_policy ad) = []"
    and pkt: "is_interest pkt n nonce \<or> is_content pkt n" and "in_sendto k"
  shows "\<exists>ad1 ad2 el. packet_from_daemon pf i (DaemonPacket pkt None) ad = Inr (True, ad1) \<and> timer_expired k ad1 = (True, ad2) \<and>
    ad_sent ad2 = ad_sent ad @ [ethernet broadcastAddr (ad_socket ad)
        (gp_latChar (position ad) @ gp_longitudeChar (position ad) @ htonl_75 @ pkt)] \<and>
    np_storage (ad_policy ad2) = [el] \<and> el_components el = n \<and>
    (is_interest pkt n nonce \<longrightarrow> el_name el = append_components interestKey n) \<and>
    np_up (ad_policy ad2) = np_up (ad_policy ad) \<and> adapter_inv pf (pkts \<union> {pkt}) ad2 \<and> position ad2 = position ad \<and> ad_socket ad2 = ad_socket ad"
proof -
  obtain ps el where ps: "addOutgoingPkt pf (position ad) (in_clock i) (in_rand i) pkt None (ad_policy ad) = Inr (ps, DISCARD)"
    and el: "np_storage ps = [el]" "np_up ps = np_up (ad_policy ad)" "el_components el = n" "el_retransmission el = 1"
      "el_data el = setLLHeader (position ad) pkt" "is_interest pkt n nonce \<longrightarrow> el_name el = append_components interestKey n"
    using stored_first [OF none pkt] by blast
  let ?ad = "ad\<lparr>ad_policy := ps\<rparr>" and ?i = "i\<lparr>in_daemon := Some (DaemonPacket pkt None)\<rparr>"
  have run: "packet_from_daemon pf i (DaemonPacket pkt None) ad = Inr (True, ?ad)"
    and run': "packet_from_daemon pf ?i (DaemonPacket pkt None) ad = Inr (True, ?ad)"
    using ps by (simp_all add: packet_from_daemon_def)
  have inv1: "adapter_inv pf (pkts \<union> {pkt}) ?ad" using inv_daemon [OF inv run'] by (simp add: handed_def)
  have nom: "nom_inv ps" using inv1 nom_reachable_inv [of pf ps] by (simp add: adapter_inv_def)
  have whole: "take (unat (el_size el)) (el_data el) = el_data el"
    using inv1 el(1) by (intro stored_whole [of "pkts \<union> {pkt}"]) (simp add: adapter_inv_def)
  have len: "length (gp_latChar (position ad)) = 12" "length (gp_longitudeChar (position ad)) = 12"
    using inv by (simp_all add: adapter_inv_def printed_def position_def GPS_STRING_SIZE_def)
  let ?data = "gp_latChar (position ad) @ gp_longitudeChar (position ad) @ htonl_75 @ pkt"
  have data: "updateLLHeaderCoordinates (position ad) (el_data el) = ?data"
    using len by (simp add: el(5) setLLHeader_def updateLLHeaderCoordinates_def GPS_STRING_SIZE_def)
  obtain ps2 where ps2: "getPktForRetransmission (position ad) (in_clock k) ps = (ps2, Some ?data)" "np_up ps2 = np_up ps"
    "np_storage ps2 = modify_linked el_name el_timer (el_name el) (again (calculateNextTimer (in_clock k))) [el]"
    using retransmission_cases [OF nom el(1), of "position ad" "in_clock k"] el(1,4) whole data
    by (auto simp: maxRetransmissionNumber_def)
  have st2: "np_storage ps2 = [again (calculateNextTimer (in_clock k)) el]"
    unfolding ps2(3) by (simp add: modify_linked_def modify_key_def erase_key_def Let_def)
  let ?fr = "ethernet broadcastAddr (ad_socket ad) ?data"
  let ?ad2 = "?ad\<lparr>ad_policy := ps2, ad_sent := ad_sent ad @ [?fr]\<rparr>"
  have send: "rs_send ?data True (ad_socket ad) = Inr (?fr, length ?data)"
    using inv send_usable [of "ad_socket ad" ?data] by (simp add: adapter_inv_def)
  have fire: "timer_expired k ?ad = (True, ?ad2)"
    using ps2(1) send assms(4) by (simp add: timer_expired_def position_def Let_def)
  show ?thesis
    by (intro exI [of _ ?ad] exI [of _ ?ad2] exI [of _ "again (calculateNextTimer (in_clock k)) el"] conjI)
      (use run fire st2 el ps2(2) inv_timer [OF inv1 fire] in \<open>simp_all add: position_def\<close>)
qed

lemma frame_up:
  assumes inv: "adapter_inv pf pkts b" and "length (rs_h_source from) = 6" and "length lat = 12" "length lon = 12"
    and "length pkt \<le> 1472" and "in_room j"
    and run: "pktFromNetwork pf (position b) True (frame (rs_h_source from) lat lon htonl_75 pkt) (ad_policy b) = Inr (ps, DISCARD)"
  shows "packet_from_network pf j (Frame (ethernet broadcastAddr from (lat @ lon @ htonl_75 @ pkt))) b = Inr (True, b\<lparr>ad_policy := ps\<rparr>)"
proof -
  let ?mac = "rs_h_source from"
  have read: "rs_read MAXNETWORKPKTSIZE True (Some (ethernet broadcastAddr from (lat @ lon @ htonl_75 @ pkt))) (ad_socket b) =
      Inr (?mac @ lat @ lon @ htonl_75 @ pkt)"
  proof (rule read_ethernet)
    show "usable (ad_socket b)" using inv by (simp add: adapter_inv_def)
    show "length (lat @ lon @ htonl_75 @ pkt) \<le> MAXNETWORKPKTSIZE"
      using assms(3-5) by (simp add: htonl_75_def MAXNETWORKPKTSIZE_def)
  qed (use assms(2) in \<open>simp_all add: ETH_ALEN_def broadcastAddr_def\<close>)
  have "field 6 ?mac = ?mac" "field 12 lat = lat" "field 12 lon = lon" "field 4 htonl_75 = htonl_75"
    using assms(2-4) by (simp_all add: field_def htonl_75_def)
  then have "?mac @ lat @ lon @ htonl_75 @ pkt = frame ?mac lat lon htonl_75 pkt" by (simp add: frame_fields)
  then show ?thesis using assms(6) read run by (simp add: packet_from_network_def handle_network_def)
qed

text \<open>Content that answers the only pending packet goes up and ends its retransmission.\<close>

lemma answer_goes_up:
  assumes inv: "nom_inv ps" and st: "np_storage ps = [el]" and el: "el_components el = n" "el_name el = append_components interestKey n"
    and pkt: "is_content pkt n"
  shows "\<exists>ps'. pktFromNetwork pf loc True (frame mac lat lon tos pkt) ps = Inr (ps', DISCARD) \<and>
    np_up ps' = np_up ps @ [(pkt, hop_metadata pf lat lon tos)] \<and> np_storage ps' = []"
proof -
  have none: "find_key el_name (append_components dataKey n) (np_storage ps) = None"
    using keys_differ [of n n] st el(2) by (simp add: find_key_None)
  obtain els where els: "searchByPrefixMatch n (np_storage ps) = Inr (map el_name els)" "distinct els"
    "set els = {x \<in> set (np_storage ps). prefix (el_components x) n}"
    using search_found [of "np_storage ps" n] inv by (auto simp: nom_inv_def)
  have "set els = {el}" using els(3) st el(1) by auto
  then have "els = [el]" using els(2) by (cases els rule: remdups_adj.cases) auto
  then have search: "searchByPrefixMatch n (np_storage ps) = Inr [el_name el]" using els(1) by simp
  let ?ps = "ps\<lparr>np_stats := increaseReceivedContentGoingUp (increaseReceivedContent (np_stats ps))\<rparr>"
  obtain ps' where ps': "ack_matching (el_name el) [el_name el] ?ps = Inr ps'" "np_storage ps' = []" "np_up ps' = np_up ps"
    using ack_one [of ?ps el] inv st by (auto simp: nom_inv_def)
  show ?thesis
    unfolding incoming_content [OF pkt]
    using none search ps' by (simp add: content_from_network_def getPktByKey_def go_up_def Let_def)
qed

section \<open>Two daemons\<close>

text \<open>What the read handler of the ad-hoc face does with the packet in a slot; the metadata is a number here.\<close>

definition slot_packet :: "nat \<Rightarrow> byte list \<Rightarrow> fault + packet" where
  "slot_packet metadata buf = bindr (InitFromBuffer buf) (\<lambda>newPacket. Inr (newPacket\<lparr>pk_llmetadata := Some (OverAdhoc metadata)\<rparr>))"

definition adhoc_read :: "os \<Rightarrow> time \<Rightarrow> face_id \<Rightarrow> nat \<Rightarrow> byte list \<Rightarrow> l3 \<Rightarrow> fault + l3" where
  "adhoc_read os now fd metadata buf s = bindr (slot_packet metadata buf) (\<lambda>newPacket. l3_Receive os now fd newPacket s)"

text \<open>A daemon that has just started, with its ad-hoc face and one application.\<close>

definition vehicle :: "face_id \<Rightarrow> face_id \<Rightarrow> l3" where
  "vehicle radio app = fst (AddFace (NDNFace LocalFace app) (boot [NDNFace AdhocNetDeviceFace radio]))"

lemma vehicle_boot: "vehicle radio app = boot [NDNFace AdhocNetDeviceFace radio, NDNFace LocalFace app]"
  by (simp add: vehicle_def boot_def)

lemma vehicle_ready:
  assumes "radio \<noteq> app" and "os radio AdhocRing" and "os app destination.Connected" and "n \<noteq> []"
  defines "s \<equiv> vehicle radio app"
  shows "l3_inv s" "l_faces s = [radio, app]" "fds s = {radio, app}" "radio_face os s radio" "plain_face os s app"
    "free_face now s radio" "free_face now s app" "fib_LongestPrefixMatch n (l_fib s) = None"
    "pit_LongestPrefixMatch n (l_pit s) = None" "l_sent s = []"
    "cs_Lookup (consumer_header childSelector rnd n) (l_contentStore s) = Inr (policy_trie_new, None)"
proof -
  let ?fs = "[NDNFace AdhocNetDeviceFace radio, NDNFace LocalFace app]"
  have d: "distinct (map fc_fd ?fs)" using assms(1) by (simp add: NDNFace_def)
  note b = boot_heap [OF d]
  show "l3_inv s" unfolding s_def vehicle_boot by (rule boot_inv [OF d])
  show "l_faces s = [radio, app]" "fds s = {radio, app}" "radio_face os s radio" "plain_face os s app"
      "free_face now s radio" "free_face now s app"
    unfolding s_def vehicle_boot using b assms(1-3)
    by (auto simp: NDNFace_def fds_def radio_face_def plain_face_def free_face_def IsBelowLimit_def LeakBucket_def Let_def)
  show "fib_LongestPrefixMatch n (l_fib s) = None" "pit_LongestPrefixMatch n (l_pit s) = None"
    using fibs.lpm_None_iff [OF fib_new_inv, of n] pits.lpm_None_iff [OF pit_new_inv, of n] b
    by (simp_all add: s_def vehicle_boot fib_LongestPrefixMatch_def pit_LongestPrefixMatch_def NDNFib_def NDNPit_def)
  show "l_sent s = []" by (simp add: s_def vehicle_boot boot_sent)
  show "cs_Lookup (consumer_header childSelector rnd n) (l_contentStore s) = Inr (policy_trie_new, None)"
    using empty_store [of "consumer_header childSelector rnd n" n] b assms(4) by (simp add: s_def vehicle_boot consumer_header_def)
qed

text \<open>The messages of an application, as the daemons and the adapters read them.\<close>

lemma request_read:
  assumes "encodable_name n" and "name_room n + 70 \<le> BUFLEN" and "SendPacket childSelector rnd n = Inr request"
  shows "is_interest request n rnd" "length request \<le> name_room n + 70" "producer_read (Some request) = Inr (Received n)"
    "\<exists>p. InitFromBuffer request = Inr p \<and> request \<noteq> [] \<and>
      (\<forall>md. GetNDNHeaderType (p\<lparr>pk_llmetadata := md\<rparr>) = Inr INTEREST \<and>
        GetInterestHeader (p\<lparr>pk_llmetadata := md\<rparr>) = Inr (consumer_header childSelector rnd n))"
proof -
  obtain p where p: "request \<noteq> []" "length request \<le> name_room n + 70" "InitFromBuffer request = Inr p"
    "GetNDNHeaderType p = Inr INTEREST" "GetInterestHeader p = Inr (consumer_header childSelector rnd n)"
    using interest_wire [OF assms(1,2), of childSelector rnd] assms(3) by auto
  then show "is_interest request n rnd" "length request \<le> name_room n + 70"
    by (simp_all add: is_interest_def interest_parts_def ih_GetName_def consumer_header_def)
  show "producer_read (Some request) = Inr (Received n)"
    using interest_message [OF assms(1,2), of childSelector rnd] assms(3) by simp
  have "GetNDNHeaderType (p\<lparr>pk_llmetadata := md\<rparr>) = GetNDNHeaderType p" "GetInterestHeader (p\<lparr>pk_llmetadata := md\<rparr>) = GetInterestHeader p" for md
    by (simp_all add: GetNDNHeaderType_def GetInterestHeader_def Packet_GetSize_def CopyData_def)
  with p show "\<exists>p. InitFromBuffer request = Inr p \<and> request \<noteq> [] \<and>
      (\<forall>md. GetNDNHeaderType (p\<lparr>pk_llmetadata := md\<rparr>) = Inr INTEREST \<and>
        GetInterestHeader (p\<lparr>pk_llmetadata := md\<rparr>) = Inr (consumer_header childSelector rnd n))" by simp
qed

lemma reply_read:
  assumes "encodable_name n" and "name_room n + 30 + length content \<le> BUFLEN" and "content \<noteq> []" and "sendContent n content = Inr reply"
  shows "is_content reply n" "length reply \<le> name_room n + 30 + length content" "consumer_read (Some reply) = Inr (Received (content, n))"
    "\<exists>p. InitFromBuffer reply = Inr p \<and> reply \<noteq> [] \<and>
      (\<forall>md. GetNDNHeaderType (p\<lparr>pk_llmetadata := md\<rparr>) = Inr CONTENT_OBJECT \<and>
        GetContentHeader (p\<lparr>pk_llmetadata := md\<rparr>) = Inr \<lparr>ch_name = Some n\<rparr>)"
proof -
  obtain p where p: "reply \<noteq> []" "length reply \<le> name_room n + 30 + length content" "InitFromBuffer reply = Inr p"
    "GetNDNHeaderType p = Inr CONTENT_OBJECT" "GetContentHeader p = Inr \<lparr>ch_name = Some n\<rparr>"
    "consumer_read (Some reply) = Inr (Received (content, n))"
    using content_wire [OF assms(1-3)] assms(4) by auto
  then show "is_content reply n" "length reply \<le> name_room n + 30 + length content" "consumer_read (Some reply) = Inr (Received (content, n))"
    by (simp_all add: is_content_def content_parts_def ch_GetName_def)
  have "GetNDNHeaderType (p\<lparr>pk_llmetadata := md\<rparr>) = GetNDNHeaderType p" "GetContentHeader (p\<lparr>pk_llmetadata := md\<rparr>) = GetContentHeader p" for md
    by (simp_all add: GetNDNHeaderType_def GetContentHeader_def Packet_GetSize_def CopyData_def)
  with p show "\<exists>p. InitFromBuffer reply = Inr p \<and> reply \<noteq> [] \<and>
      (\<forall>md. GetNDNHeaderType (p\<lparr>pk_llmetadata := md\<rparr>) = Inr CONTENT_OBJECT \<and>
        GetContentHeader (p\<lparr>pk_llmetadata := md\<rparr>) = Inr \<lparr>ch_name = Some n\<rparr>)" by simp
qed

lemma slot_parts:
  assumes "InitFromBuffer buf = Inr p" and "length buf \<le> MAXLLSIZE"
  shows "packet_ok s p" "packet_ok s (p\<lparr>pk_llmetadata := Some (OverAdhoc k)\<rparr>)" "pk_llmetadata p = None" "m_data (pk_buffer p) = buf"
    "in_slot p" "in_slot (p\<lparr>pk_llmetadata := Some (OverAdhoc k)\<rparr>)" "Packet_GetSize p = length buf"
  using InitFromBuffer_meta [OF assms(1)] assms(2) by (simp_all add: packet_ok_def in_slot_def Packet_GetSize_def buffer_size_def)

lemma asks:
  assumes "a \<noteq> c" and "os a AdhocRing" and "os c destination.Connected" and "n \<noteq> []" and "encodable_name n"
    and "name_room n + 70 \<le> MAXLLSIZE" and "SendPacket childSelector rnd n = Inr request"
  defines "s \<equiv> vehicle a c"
  shows "\<exists>s1 x y e. readHandler os now c (Some request) s = Inr (s1, False) \<and> l_sent s1 = [x, y] \<and>
    s_face x = a \<and> s_data x = request \<and> s_face y = c \<and>
    pit_find (l_pit s1) n = Some e \<and> map in_face (pe_incoming e) = [c] \<and>
    find_key out_face a (pe_outgoing e) \<noteq> None \<and> l3_inv s1 \<and> same_heap s s1"
proof -
  have room: "name_room n + 70 \<le> BUFLEN" using assms(6) by (simp add: MAXLLSIZE_def MAXNETWORKPKTSIZE_def LL_HEADER_SIZE_def BUFLEN_def)
  note r = request_read [OF assms(5) room assms(7)]
  obtain p where p: "InitFromBuffer request = Inr p" "request \<noteq> []"
    "GetNDNHeaderType (p\<lparr>pk_llmetadata := pk_llmetadata p\<rparr>) = Inr INTEREST"
    "GetInterestHeader (p\<lparr>pk_llmetadata := pk_llmetadata p\<rparr>) = Inr (consumer_header childSelector rnd n)"
    using r(4) by blast
  have short: "length request \<le> MAXLLSIZE" using r(2) assms(6) by simp
  note q = slot_parts [OF p(1) short]
  note v = vehicle_ready [OF assms(1-4), folded s_def]
  have h: "ih_name (consumer_header childSelector rnd n) = Some n" "ih_nackType (consumer_header childSelector rnd n) = NORMAL_INTEREST"
    by (simp_all add: consumer_header_def InterestHeader_new_def)
  have ready: "ready_face os s p a" "ready_face os s p c" using v(4,5) q(5) by (simp_all add: ready_face_def)
  have in_fds: "c \<in> fds s" and not_ip: "\<forall>ip port. pk_llmetadata p \<noteq> Some (OverIP ip port)" using v(3) q(3) by simp_all
  obtain s1 x y e where g: "OnInterest os now c (consumer_header childSelector rnd n) p s = Inr s1" "l_sent s1 = l_sent s @ [x, y]"
    "s_face x = a" "s_data x = m_data (pk_buffer p)" "s_face y = c" "pit_find (l_pit s1) n = Some e"
    "map in_face (pe_incoming e) = [c]" "find_key out_face a (pe_outgoing e) \<noteq> None" "l3_inv s1" "same_heap s s1"
    using interest_flooded [OF v(1) h(1) q(1) not_ip in_fds v(9,11,8,2) assms(1) ready(1) v(6) [of now] ready(2) v(7) [of now]] by (elim exE conjE)
  have "readHandler os now c (Some request) s = Inr (s1, False)"
    using p h(2) g(1) q(7) by (simp add: readHandler_def l3_Receive_def NORMAL_INTEREST_def)
  then show ?thesis
    by (intro exI [of _ s1] exI [of _ x] exI [of _ y] exI [of _ e] conjI) (use g v(10) q(4) in simp_all)
qed

text \<open>The other daemon, where a producer has registered the prefix.\<close>

lemma serves:
  assumes "b \<noteq> pf" and "os b AdhocRing" and "os pf destination.Connected" and "n \<noteq> []" and "encodable_name n"
    and "name_room n + 70 + length content \<le> MAXLLSIZE" and "SendPacket childSelector rnd n = Inr request"
    and "sendContent n content = Inr reply" and "content \<noteq> []"
    and "0 \<le> pf" "pf < 2 ^ 31" "\<forall>c \<in> set pfx. wf_component c" "prefix pfx n"
  shows "\<exists>s0 s1 s2 x y. management_message (registerName pfx (of_int pf)) (vehicle b pf) = Inr s0 \<and>
    adhoc_read os now b k request s0 = Inr s1 \<and> l_sent s1 = [x] \<and> s_face x = pf \<and> s_data x = request \<and>
    readHandler os later pf (Some reply) s1 = Inr (s2, False) \<and> l_sent s2 = [x, y] \<and> s_face y = b \<and> s_data y = reply \<and> l3_inv s2"
proof -
  let ?s = "vehicle b pf" and ?h = "consumer_header childSelector rnd n"
  have room: "name_room n + 70 \<le> BUFLEN" "name_room n + 30 + length content \<le> BUFLEN"
    using assms(6) by (simp_all add: MAXLLSIZE_def MAXNETWORKPKTSIZE_def LL_HEADER_SIZE_def BUFLEN_def)
  note r = request_read [OF assms(5) room(1) assms(7)] and u = reply_read [OF assms(5) room(2) assms(9,8)]
  note v = vehicle_ready [where os = os, OF assms(1-4)]
  obtain p where p: "InitFromBuffer request = Inr p"
    "GetNDNHeaderType (p\<lparr>pk_llmetadata := Some (OverAdhoc k)\<rparr>) = Inr INTEREST"
    "GetInterestHeader (p\<lparr>pk_llmetadata := Some (OverAdhoc k)\<rparr>) = Inr ?h" using r(4) by blast
  obtain q where q: "InitFromBuffer reply = Inr q" "reply \<noteq> []"
    "GetNDNHeaderType (q\<lparr>pk_llmetadata := pk_llmetadata q\<rparr>) = Inr CONTENT_OBJECT"
    "GetContentHeader (q\<lparr>pk_llmetadata := pk_llmetadata q\<rparr>) = Inr \<lparr>ch_name = Some n\<rparr>" using u(4) by blast
  have short: "length request \<le> MAXLLSIZE" "length reply \<le> MAXLLSIZE" using r(2) u(2) assms(6) by simp_all
  note pp = slot_parts [OF p(1) short(1)] and qp = slot_parts [OF q(1) short(2)]
  let ?p = "p\<lparr>pk_llmetadata := Some (OverAdhoc k)\<rparr>"
  have h: "ih_name ?h = Some n" "ih_nackType ?h = NORMAL_INTEREST" by (simp_all add: consumer_header_def InterestHeader_new_def)
  have pf: "pf \<in> set (l_faces ?s)" using v(2) by simp
  obtain t fe m where reg: "management_message (registerName pfx (of_int pf)) ?s = Inr (?s\<lparr>l_fib := t\<rparr>)" "l3_inv (?s\<lparr>l_fib := t\<rparr>)"
    "fib_LongestPrefixMatch n t = Some fe" "fe_faces fe = [m]" "fm_face m = pf" "fm_status m \<noteq> NDN_FIB_RED"
    using registered_route [OF v(1) pf assms(10-13) v(8)] by blast
  let ?s0 = "?s\<lparr>l_fib := t\<rparr>"
  have s0: "b \<in> fds ?s0" "ready_face os ?s0 ?p pf" "free_face now ?s0 pf" "pit_LongestPrefixMatch n (l_pit ?s0) = None"
    "cs_Lookup ?h (l_contentStore ?s0) = Inr (policy_trie_new, None)" "fib_LongestPrefixMatch n (l_fib ?s0) = Some fe" "radio_face os ?s0 b"
    "\<forall>ip port. pk_llmetadata ?p \<noteq> Some (OverIP ip port)" "pf \<noteq> b" "l_sent ?s0 = []"
    using v v(7) [of now] reg(3) assms(1) by (simp_all add: fds_def ready_face_def plain_face_def radio_face_def free_face_def)
  obtain s1 x e where g: "OnInterest os now b ?h ?p ?s0 = Inr s1" "l_sent s1 = l_sent ?s0 @ [x]" "s_face x = pf"
    "s_data x = m_data (pk_buffer ?p)" "pit_find (l_pit s1) n = Some e" "map in_face (pe_incoming e) = [b]"
    "find_key out_face pf (pe_outgoing e) \<noteq> None" "l3_inv s1" "same_heap ?s0 s1"
    using interest_out [OF reg(2) h(1) pp(2) s0(8,1,4,5,6) reg(4-6) s0(9,2,3)] by (elim exE conjE)
  have "radio_face os s1 b" using radio_face_cong [OF same_heap_sending [OF g(9)]] s0(7) by simp
  then have home: "ready_face os s1 q' b" if "free_metadata q = Inr q'" for q'
    using that qp(3,5) by (simp add: ready_face_def free_metadata_def)
  have ch: "ch_name \<lparr>ch_name = Some n\<rparr> = Some n" by simp
  obtain s2 y where w: "OnData os pf \<lparr>ch_name = Some n\<rparr> q s1 = Inr s2" "l_sent s2 = l_sent s1 @ [y]" "s_face y = b"
    "s_data y = m_data (pk_buffer q)" "l3_inv s2"
    using content_back [OF g(8) ch qp(1) g(5-7) home] by blast
  have go1: "adhoc_read os now b k request ?s0 = Inr s1"
    using p h(2) g(1) by (simp add: adhoc_read_def slot_packet_def l3_Receive_def NORMAL_INTEREST_def)
  have go2: "readHandler os later pf (Some reply) s1 = Inr (s2, False)"
    using q w(1) qp(7) by (simp add: readHandler_def l3_Receive_def)
  show ?thesis
    by (intro exI [of _ ?s0] exI [of _ s1] exI [of _ s2] exI [of _ x] exI [of _ y] conjI)
      (use reg(1) go1 go2 g(2-4) w(2-5) s0(10) pp(4) qp(4) in simp_all)
qed

lemma hears:
  assumes "l3_inv s" and "plain_face os s c" and "pit_find (l_pit s) n = Some e" "map in_face (pe_incoming e) = [c]"
    "find_key out_face a (pe_outgoing e) \<noteq> None"
    and "encodable_name n" "name_room n + 30 + length content \<le> MAXLLSIZE" "content \<noteq> []" "sendContent n content = Inr reply"
  shows "\<exists>s' x. adhoc_read os now a k reply s = Inr s' \<and> l_sent s' = l_sent s @ [x] \<and> s_face x = c \<and> s_data x = reply \<and> l3_inv s'"
proof -
  have room: "name_room n + 30 + length content \<le> BUFLEN" using assms(7) by (simp add: MAXLLSIZE_def MAXNETWORKPKTSIZE_def LL_HEADER_SIZE_def BUFLEN_def)
  note u = reply_read [OF assms(6) room assms(8,9)]
  obtain q where q: "InitFromBuffer reply = Inr q"
    "GetNDNHeaderType (q\<lparr>pk_llmetadata := Some (OverAdhoc k)\<rparr>) = Inr CONTENT_OBJECT"
    "GetContentHeader (q\<lparr>pk_llmetadata := Some (OverAdhoc k)\<rparr>) = Inr \<lparr>ch_name = Some n\<rparr>" using u(4) by blast
  have short: "length reply \<le> MAXLLSIZE" using u(2) assms(7) by simp
  note qp = slot_parts [OF q(1) short]
  let ?q = "q\<lparr>pk_llmetadata := Some (OverAdhoc k)\<rparr>"
  have ch: "ch_name \<lparr>ch_name = Some n\<rparr> = Some n" by simp
  have ready: "ready_face os s q' c" for q' using assms(2) by (simp add: ready_face_def)
  obtain s' x where w: "OnData os a \<lparr>ch_name = Some n\<rparr> ?q s = Inr s'" "l_sent s' = l_sent s @ [x]" "s_face x = c"
    "s_data x = m_data (pk_buffer ?q)" "l3_inv s'"
    using content_back [OF assms(1) ch qp(2) assms(3-5) ready] by blast
  have "adhoc_read os now a k reply s = Inr s'" using q w(1) by (simp add: adhoc_read_def slot_packet_def l3_Receive_def)
  with w qp(4) show ?thesis by auto
qed

section \<open>From one vehicle to the other and back\<close>

lemma new_adapter:
  assumes "NDNDeviceAdapter pf devname socketId query gps map' t = Inr ad"
  shows "adapter_inv pf {} ad" "np_storage (ad_policy ad) = []" "np_up (ad_policy ad) = []" "ad_sent ad = []"
proof -
  show "adapter_inv pf {} ad" by (rule new_adapter_inv [OF assms])
  have "ad_policy ad = LLNomPolicy \<and> ad_sent ad = []" using assms by (auto simp: NDNDeviceAdapter_def bindr_eq_Inr)
  then show "np_storage (ad_policy ad) = []" "np_up (ad_policy ad) = []" "ad_sent ad = []"
    by (simp_all add: LLNomPolicy_def PacketStorage_def)
qed

lemma adapter_nom: "adapter_inv pf pkts ad \<Longrightarrow> nom_inv (ad_policy ad)"
  using nom_reachable_inv [of pf "ad_policy ad"] by (simp add: adapter_inv_def)

lemma printed_position:
  "adapter_inv pf pkts ad \<Longrightarrow> length (gp_latChar (position ad)) = 12 \<and> length (gp_longitudeChar (position ad)) = 12"
  by (simp add: adapter_inv_def printed_def position_def GPS_STRING_SIZE_def)

text \<open>One hop: a packet of the daemon of the first adapter goes up at the second one.\<close>

lemma hop_up:
  assumes invA: "adapter_inv pf pkts A" and invB: "adapter_inv pf pkts' B" and mac: "length (rs_h_source (ad_socket A)) = 6"
    and "length pkt \<le> 1472" and "in_room j"
    and up: "\<And>mac lat lon. \<exists>ps. pktFromNetwork pf (position B) True (frame mac lat lon htonl_75 pkt) (ad_policy B) = Inr (ps, DISCARD) \<and>
      np_up ps = np_up (ad_policy B) @ [(pkt, hop_metadata pf lat lon htonl_75)] \<and> np_storage ps = st"
  shows "\<exists>B' md. packet_from_network pf j (Frame (ethernet broadcastAddr (ad_socket A)
        (gp_latChar (position A) @ gp_longitudeChar (position A) @ htonl_75 @ pkt))) B = Inr (True, B') \<and>
    np_up (ad_policy B') = np_up (ad_policy B) @ [(pkt, md)] \<and> np_storage (ad_policy B') = st \<and> adapter_inv pf pkts' B' \<and>
    ad_sent B' = ad_sent B \<and> ad_socket B' = ad_socket B"
proof -
  note len = printed_position [OF invA]
  obtain ps where ps: "pktFromNetwork pf (position B) True
      (frame (rs_h_source (ad_socket A)) (gp_latChar (position A)) (gp_longitudeChar (position A)) htonl_75 pkt) (ad_policy B) = Inr (ps, DISCARD)"
    "np_up ps = np_up (ad_policy B) @ [(pkt, hop_metadata pf (gp_latChar (position A)) (gp_longitudeChar (position A)) htonl_75)]" "np_storage ps = st"
    using up by blast
  have run: "packet_from_network pf j (Frame (ethernet broadcastAddr (ad_socket A)
      (gp_latChar (position A) @ gp_longitudeChar (position A) @ htonl_75 @ pkt))) B = Inr (True, B\<lparr>ad_policy := ps\<rparr>)"
    using frame_up [OF invB mac _ _ assms(4,5) ps(1)] len by blast
  then show ?thesis using inv_network [OF invB run] ps(2,3) by (intro exI [of _ "B\<lparr>ad_policy := ps\<rparr>"] exI) simp
qed

text \<open>
  C3: An application in one vehicle gets what an application in another vehicle offers. Both daemons and both
  adapters have just started, and the producer has registered a prefix of the name. The daemon of the consumer
  floods the Interest, its adapter broadcasts it when the timer fires, the other adapter hands it to its daemon,
  and that one sends it to the producer alone. The reply is broadcast in the same way; it ends the
  retransmission of the Interest at the first adapter, and the first daemon sends it to the
  consumer, which reads the content under the name it asked for.\<close>

theorem between_vehicles:
  assumes "NDNDeviceAdapter pf devA idA queryA gpsA mapA startA = Inr A" "NDNDeviceAdapter pf devB idB queryB gpsB mapB startB = Inr B"
    and "length (rs_h_source (ad_socket A)) = 6" "length (rs_h_source (ad_socket B)) = 6"
    and "in_sendto i" "in_room i" "in_sendto j" "in_room j"
    and "a \<noteq> c" "osA a AdhocRing" "osA c destination.Connected" "b \<noteq> p" "osB b AdhocRing" "osB p destination.Connected"
    and "0 \<le> p" "p < 2 ^ 31" "\<forall>c \<in> set pfx. wf_component c" "prefix pfx n"
    and "n \<noteq> []" "encodable_name n" "name_room n + 70 + length content \<le> MAXLLSIZE" "content \<noteq> []"
    and "SendPacket childSelector rnd n = Inr request" "sendContent n content = Inr reply"
  shows "\<exists>s1 x y A1 A2 fr B1 up t0 t1 t2 z w B2 B3 fr' A3 up' s2 v.
    readHandler osA now c (Some request) (vehicle a c) = Inr (s1, False) \<and> l_sent s1 = [x, y] \<and> s_face x = a \<and> s_face y = c \<and>
    packet_from_daemon pf i (DaemonPacket (s_data x) None) A = Inr (True, A1) \<and> timer_expired i A1 = (True, A2) \<and> ad_sent A2 = [fr] \<and>
    packet_from_network pf j (Frame fr) B = Inr (True, B1) \<and> np_up (ad_policy B1) = [up] \<and>
    management_message (registerName pfx (of_int p)) (vehicle b p) = Inr t0 \<and>
    adhoc_read osB heard b k (fst up) t0 = Inr t1 \<and> l_sent t1 = [z] \<and> s_face z = p \<and> producer_read (Some (s_data z)) = Inr (Received n) \<and>
    readHandler osB replied p (Some reply) t1 = Inr (t2, False) \<and> l_sent t2 = [z, w] \<and> s_face w = b \<and>
    packet_from_daemon pf j (DaemonPacket (s_data w) None) B1 = Inr (True, B2) \<and> timer_expired j B2 = (True, B3) \<and> ad_sent B3 = [fr'] \<and>
    packet_from_network pf i (Frame fr') A2 = Inr (True, A3) \<and> np_up (ad_policy A3) = [up'] \<and> np_storage (ad_policy A3) = [] \<and>
    adhoc_read osA answered a k' (fst up') s1 = Inr s2 \<and> l_sent s2 = [x, y, v] \<and> s_face v = c \<and>
    consumer_read (Some (s_data v)) = Inr (Received (content, n))"
proof -
  have size: "name_room n + 70 \<le> MAXLLSIZE" "name_room n + 30 + length content \<le> MAXLLSIZE" and max: "MAXLLSIZE = 1472"
    using assms(21) by (simp_all add: MAXLLSIZE_def MAXNETWORKPKTSIZE_def LL_HEADER_SIZE_def)
  have room: "name_room n + 70 \<le> BUFLEN" "name_room n + 30 + length content \<le> BUFLEN" using size max by (simp_all add: BUFLEN_def)
  note r = request_read [OF assms(20) room(1) assms(23)] and u = reply_read [OF assms(20) room(2) assms(22,24)]
  have short: "length request \<le> 1472" "length reply \<le> 1472" using r(2) u(2) size max by simp_all
  note newA = new_adapter [OF assms(1)] and newB = new_adapter [OF assms(2)]
  obtain s1 x y e where s1: "readHandler osA now c (Some request) (vehicle a c) = Inr (s1, False)" "l_sent s1 = [x, y]"
    "s_face x = a" "s_data x = request" "s_face y = c" "pit_find (l_pit s1) n = Some e" "map in_face (pe_incoming e) = [c]"
    "find_key out_face a (pe_outgoing e) \<noteq> None" "l3_inv s1" "same_heap (vehicle a c) s1"
    using asks [where now = now, OF assms(9-11,19,20) size(1) assms(23)] by (elim exE conjE)
  obtain A1 A2 el where A2: "packet_from_daemon pf i (DaemonPacket request None) A = Inr (True, A1)" "timer_expired i A1 = (True, A2)"
    "ad_sent A2 = ad_sent A @ [ethernet broadcastAddr (ad_socket A) (gp_latChar (position A) @ gp_longitudeChar (position A) @ htonl_75 @ request)]"
    "np_storage (ad_policy A2) = [el]" "el_components el = n" "is_interest request n rnd \<longrightarrow> el_name el = append_components interestKey n"
    "np_up (ad_policy A2) = np_up (ad_policy A)" "adapter_inv pf ({} \<union> {request}) A2" "position A2 = position A" "ad_socket A2 = ad_socket A"
    using handed_over [where i = i, OF newA(1,2) disjI1 [OF r(1)] assms(5)] by (elim exE conjE)
  have upB: "\<exists>ps. pktFromNetwork pf (position B) True (frame mac lat lon htonl_75 request) (ad_policy B) = Inr (ps, DISCARD) \<and>
      np_up ps = np_up (ad_policy B) @ [(request, hop_metadata pf lat lon htonl_75)] \<and> np_storage ps = []" for mac lat lon
    using unrelated_goes_up [OF adapter_nom [OF newB(1)] disjI1 [OF r(1)]] newB(2) pktFromNetwork_shrinks
    by (fastforce simp: shrinks_def)
  obtain B1 md where B1: "packet_from_network pf j (Frame (ethernet broadcastAddr (ad_socket A)
        (gp_latChar (position A) @ gp_longitudeChar (position A) @ htonl_75 @ request))) B = Inr (True, B1)"
    "np_up (ad_policy B1) = np_up (ad_policy B) @ [(request, md)]" "np_storage (ad_policy B1) = []" "adapter_inv pf {} B1"
    "ad_sent B1 = ad_sent B" "ad_socket B1 = ad_socket B"
    using hop_up [OF newA(1) newB(1) assms(3) short(1) assms(8) upB] by (elim exE conjE)
  obtain t0 t1 t2 z w where t2: "management_message (registerName pfx (of_int p)) (vehicle b p) = Inr t0"
    "adhoc_read osB heard b k request t0 = Inr t1" "l_sent t1 = [z]" "s_face z = p" "s_data z = request"
    "readHandler osB replied p (Some reply) t1 = Inr (t2, False)" "l_sent t2 = [z, w]" "s_face w = b" "s_data w = reply"
    using serves [where now = heard and later = replied and k = k, OF assms(12-14,19-21,23,24,22,15-18)] by (elim exE conjE)
  obtain B2 B3 el' where B3: "packet_from_daemon pf j (DaemonPacket reply None) B1 = Inr (True, B2)" "timer_expired j B2 = (True, B3)"
    "ad_sent B3 = ad_sent B1 @ [ethernet broadcastAddr (ad_socket B1) (gp_latChar (position B1) @ gp_longitudeChar (position B1) @ htonl_75 @ reply)]"
    using handed_over [where i = j and nonce = 0, OF B1(4,3) disjI2 [OF u(1)] assms(7)] by (elim exE conjE)
  have macB: "length (rs_h_source (ad_socket B1)) = 6" using B1(6) assms(4) by simp
  have upA: "\<exists>ps. pktFromNetwork pf (position A2) True (frame mac lat lon htonl_75 reply) (ad_policy A2) = Inr (ps, DISCARD) \<and>
      np_up ps = np_up (ad_policy A2) @ [(reply, hop_metadata pf lat lon htonl_75)] \<and> np_storage ps = []" for mac lat lon
    using answer_goes_up [OF adapter_nom [OF A2(8)] A2(4,5) mp [OF A2(6) r(1)] u(1)] by blast
  obtain A3 md' where A3: "packet_from_network pf i (Frame (ethernet broadcastAddr (ad_socket B1)
        (gp_latChar (position B1) @ gp_longitudeChar (position B1) @ htonl_75 @ reply))) A2 = Inr (True, A3)"
    "np_up (ad_policy A3) = np_up (ad_policy A2) @ [(reply, md')]" "np_storage (ad_policy A3) = []"
    using hop_up [OF B1(4) A2(8) macB short(2) assms(6) upA] by (elim exE conjE)
  have plain: "plain_face osA s1 c"
    using plain_face_cong [OF same_heap_sending [OF s1(10)]] vehicle_ready(5) [OF assms(9-11,19)] by simp
  obtain s2 v where s2: "adhoc_read osA answered a k' reply s1 = Inr s2" "l_sent s2 = l_sent s1 @ [v]" "s_face v = c" "s_data v = reply"
    using hears [where now = answered and k = k', OF s1(9) plain s1(6-8) assms(20) size(2) assms(22,24)] by (elim exE conjE)
  show ?thesis
    by (rule exI [of _ s1], rule exI [of _ x], rule exI [of _ y], rule exI [of _ A1], rule exI [of _ A2], rule exI, rule exI [of _ B1],
        rule exI [of _ "(request, md)"], rule exI [of _ t0], rule exI [of _ t1], rule exI [of _ t2], rule exI [of _ z], rule exI [of _ w],
        rule exI [of _ B2], rule exI [of _ B3], rule exI, rule exI [of _ A3], rule exI [of _ "(reply, md')"], rule exI [of _ s2], rule exI [of _ v],
        intro conjI)
      (use s1(1-5) A2(1-3,7) B1(1,2,5) t2 B3 A3 s2 newA(3,4) newB(3,4) r(3) u(3) in simp_all)
qed

theorem between_vehicles_witness:
  "\<exists>request reply s1 B1 up t0 t1 z A2 A3 up' fr fr' s2 x y v.
     SendPacket False 7 [''a'', ''b''] = Inr request \<and> sendContent [''a'', ''b''] [1] = Inr reply \<and>
     readHandler (\<lambda>fd d. True) 0 4 (Some request) (vehicle 3 4) = Inr (s1, False) \<and>
     packet_from_network sample_platform sample_inputs (Frame fr) sample_adapter = Inr (True, B1) \<and> np_up (ad_policy B1) = [up] \<and>
     adhoc_read (\<lambda>fd d. True) 1 5 0 (fst up) t0 = Inr t1 \<and> l_sent t1 = [z] \<and>
     packet_from_network sample_platform sample_inputs (Frame fr') A2 = Inr (True, A3) \<and> np_up (ad_policy A3) = [up'] \<and>
     adhoc_read (\<lambda>fd d. True) 3 3 0 (fst up') s1 = Inr s2 \<and> l_sent s2 = [x, y, v] \<and>
     consumer_read (Some (s_data v)) = Inr (Received ([1], [''a'', ''b'']))"
proof -
  let ?n = "[''a'', ''b'']" and ?os = "\<lambda>fd d. True"
  have n: "encodable_name ?n" "name_room ?n + 70 + length [1 :: byte] \<le> MAXLLSIZE" "name_room ?n + 70 \<le> BUFLEN"
    "name_room ?n + 30 + length [1 :: byte] \<le> BUFLEN"
    by (simp_all add: encodable_name_def name_room_def BUFLEN_def MAXLLSIZE_def MAXNETWORKPKTSIZE_def LL_HEADER_SIZE_def)
  obtain request where request: "SendPacket False 7 ?n = Inr request" using interest_wire [OF n(1,3)] by blast
  obtain reply where reply: "sendContent ?n [1] = Inr reply" using content_wire [OF n(1,4)] by blast
  have mac: "length (rs_h_source (ad_socket sample_adapter)) = 6" by (simp add: sample_adapter_new(5))
  have io: "in_sendto sample_inputs" "in_room sample_inputs" by (simp_all add: sample_inputs_def)
  have pfx: "\<forall>c \<in> set [''a'']. wf_component c" "prefix [''a''] ?n" by (code_simp, simp)
  have c: "(3 :: face_id) \<noteq> 4" "(5 :: face_id) \<noteq> 6" "(0 :: face_id) \<le> 6" "(6 :: face_id) < 2 ^ 31" "?n \<noteq> []" "[1 :: byte] \<noteq> []" by simp_all
  show ?thesis
    using request reply between_vehicles [where osA = ?os and osB = ?os and now = 0 and heard = 1 and replied = 2 and answered = 3 and k = 0 and k' = 0,
        OF sample_adapter_new(1) sample_adapter_new(1) mac mac io io c(1) TrueI TrueI c(2) TrueI TrueI c(3,4) pfx c(5) n(1,2) c(6) request reply]
    by (elim exE conjE) (intro exI conjI)
qed

end
