(* ===== verification/Spec2Isabelle.thy ===== *)
theory Spec2Isabelle
  imports VndnPrelude Names Ccnb Headers Visitors Codec Trie Iterate ContentStore Fib Pit Face Forwarding L3 Mgmt
    Daemon System Delivery Propagate Scenarios
    Geo Roads Gps Storage NomPolicy LinkLayer Pending Overhear Ring RawSocket Adapter
    Log Clients Photo Traffic Ptr Monitor Service Vehicles
begin

text \<open>
  A verification library for vndn, a daemon for named-data networking between vehicles.

  \<^bold>\<open>The program.\<close> Applications and network devices are \<open>faces\<close> of the daemon (\<open>src/daemon\<close>). A packet
  arrives on a face as bytes in the binary encoding of CCNx (\<open>src/network\<close>, \<open>src/helper\<close>) and is an
  Interest in a name or content with a name. An Interest is answered from the content store, or attached to a
  pending entry (PIT) and forwarded along the prefix table (FIB); content goes back to every face that
  waits. Applications register prefixes through a message queue. The ad-hoc face passes packets through rings
  of shared memory to a thread of its own, the device adapter (\<open>src/network/mac\<close>): it broadcasts Ethernet
  frames, keeps a packet until a neighbour is heard to have it, repeats it up to eight times, and picks
  the moment by the distance of the sender, for which it needs the position reported by gpsd and a road map
  (\<open>src/utils/geo\<close>). \<open>src/apps\<close> has a client library and two applications, photos and traffic.

  \<^bold>\<open>Theories.\<close> The records carry the fields of the classes, the functions the names of the methods.
  \<^item> \<open>VndnPrelude\<close>: the faults, the error monad \<open>bindr\<close> and its postconditions \<open>post\<close>, lists with keys, words,
    the locale \<open>refinement\<close>.
  \<^item> \<open>Names\<close> (\<open>ndn-name-components\<close>): a name is a list of components; parsing, printing, slices, order.
  \<^item> \<open>Ccnb\<close>, \<open>Visitors\<close> (\<open>ccnb-parser\<close>): buffers, packets, the block parser, the visitors that decode headers.
    \<open>Headers\<close> (\<open>ndn-interest-header\<close>, \<open>ndn-content-object-header\<close>, \<open>ndn-encoding-helper\<close>): records and encoder.
    \<open>Codec\<close>: decoder against encoder, over the encoding of a syntax tree as the specification.
  \<^item> \<open>Trie\<close>, \<open>Iterate\<close> (\<open>utils/trie.h\<close>): a node is named by the path to it, the hash buckets are an association
    list, of whose order no property depends. \<open>ContentStore\<close> (\<open>trie-with-policy.h\<close>, \<open>lru-policy.h\<close>, \<open>daemon/cs\<close>).
  \<^item> \<open>Fib\<close>, \<open>Pit\<close>: the multi-index tables as lists in the order of their ordered index. \<open>Face\<close>: the kinds of faces, the
    leaky bucket, sending. \<open>Forwarding\<close>: the state \<open>l3\<close> of the daemon and the strategies. \<open>L3\<close>: the handlers
    of \<open>ndn-l3-protocol.cc\<close>. \<open>Mgmt\<close>: registration and the loop of the management thread.
  \<^item> \<open>Daemon\<close>, \<open>System\<close>: the invariant \<open>l3_inv\<close>, the steps \<open>l3_step\<close> of the running daemon, the reachable
    states. \<open>Delivery\<close>, \<open>Propagate\<close>: what happens to content and to an Interest. \<open>Scenarios\<close>: safety in every
    reachable state, and the executions that end badly.
  \<^item> \<open>Monitor\<close> (\<open>event-monitor\<close>, \<open>app-connector\<close>, \<open>ndn-face\<close>, \<open>ndnd.cc\<close>): the events, the acceptor, the read handlers, the
    command line; a state is the daemon with its event monitor.
  \<^item> \<open>Storage\<close> (\<open>packet-storage\<close>), \<open>NomPolicy\<close> (\<open>ll-nom-policy\<close> and the acknowledgement manager), \<open>LinkLayer\<close>,
    \<open>Pending\<close>, \<open>Overhear\<close>: the pending packets, the policy, its reachable states and the fate of a packet.
    \<open>Ring\<close> (\<open>ll-upper-layer-comm-service\<close>): writer and reader of a ring, interleaved step by step.
    \<open>RawSocket\<close>, \<open>Adapter\<close> (\<open>ndn-raw-socket\<close>, \<open>ndn-device-adapter\<close>): frames, and one round of the adapter as a
    function of what happens in it.
  \<^item> \<open>Geo\<close>, \<open>Roads\<close>, \<open>Gps\<close> (\<open>utils/geo\<close>): coordinates and distances, the map, the position of the node.
  \<^item> \<open>Ptr\<close>, \<open>Log\<close> (\<open>corelib\<close>): smart pointers with the memory they count; log components.
  \<^item> \<open>Clients\<close>, \<open>Photo\<close>, \<open>Traffic\<close> (\<open>apps\<close>): client library and applications. \<open>Service\<close>: an application served by
    another one through the daemon. \<open>Vehicles\<close>: an application served by one in another vehicle, through two daemons,
    two adapters and the air; the rings, whose order \<open>Ring\<close> shows, hand over one packet at a time there.

  \<^bold>\<open>Interfaces.\<close> \<open>prefix_table\<close> (search by name) is interpreted by the FIB, the PIT and the pending packets and
  gives longest-prefix matching; \<open>name_map\<close> (insert, erase) by the trie; \<open>strict_total\<close> by the three orders on
  characters, components and names; \<open>header_codec\<close> by both headers; \<open>refinement\<close> by the daemon under its
  event loop, whose steps are those of \<open>System\<close>.

  \<^bold>\<open>What is shown.\<close> Encoding and decoding are inverse; the parser ends. The tables keep their invariants and implement
  a map, a bounded cache, routes. In every reachable state no table refers to a missing face or entry and no
  handler follows a bad pointer; Interests and content go exactly where they should, each handler with its
  branches. The event loop adds nothing to that and always finds the face of an event. From the start of the
  daemon the traffic service works, from the start of two vehicles an application of one is served by the other, and a photo arrives over any loss of messages. The link layer keeps its
  tables in order and ends every retransmission; the rings lose and change nothing. Distances are those of
  the sphere and the plane; a search on the map finds the nearest element of the band of latitudes it looks
  at, the southernmost of the map excepted. Smart pointers neither leak nor dangle. The theorems of kind error are executions of the code that fail; the manifest lists them.

  \<^bold>\<open>Faults.\<close> An exception, a failed \<open>assert\<close> and every way out of defined behaviour is a value of \<open>fault\<close>;
  \<open>NS_ASSERT\<close> is compiled out and \<open>NS_FATAL_ERROR\<close> only prints, so neither stops an operation.

  \<^bold>\<open>Bounds and fuel.\<close> Integers are words where they can wrap. The parser recurses on fuel \<open>2 * length + 1\<close>; every call
  for a block or its parts consumes a byte or ends, and it is proved in \<open>Ccnb\<close> that the fuel never runs out.
  All other loops have termination measures, but \<open>clear_if\<close>, whose result is an option and is shown to exist,
  and the rings and reachable states, which are step relations. A buffer has 1501 bytes, a ring a hundred slots, the
  content store a hundred entries.

  \<^bold>\<open>Assumptions.\<close> A double is a real number, \<open>atof\<close> and \<open>printf\<close> are parameters, a printed coordinate has twelve bytes.
  The clock, \<open>rand\<close>, the answers of the operating system, \<open>libevent\<close>, the JSON reader, \<open>boost::hash\<close> and the camera are
  arguments. Slots of a ring start unused. With an ad-hoc face, packets fit into a slot. A descriptor is not
  given to a new connection while a face of another kind has it. The photo file is read in whole pieces. The steps of the daemon leave out
  the withdrawal of a prefix, which breaks the invariant (shown in \<open>Scenarios\<close>). A management message is one step,
  although its thread takes no lock.

  \<^bold>\<open>Not modelled.\<close> Creating and configuring sockets, threads, semaphores and queues; the client of gpsd and the fake
  gps, which only move bytes and sleep; the inverse UTM projections and the overloads of \<open>getConnection\<close>,
  which nothing calls; the JSON generator; the printers of tries, tables and containers; the singleton; the loops of
  \<open>main\<close> in the applications around the operations that are modelled, and taking the photo.
\<close>

end
